(* ===== verification/Go_Prelude.thy ===== *)
theory Go_Prelude
  imports Main "HOL-Library.Sublist" "HOL-Library.Char_ord" "HOL-Library.List_Lexorder"
begin

text \<open>
  Shared vocabulary of the development: Go's error returns, the functions of Go's \<open>strings\<close>,
  \<open>slices\<close> and \<open>unicode\<close> packages the modelled code calls, and the lemmas about them.

  \<^item> A Go \<open>error\<close> is an option: \<open>None\<close> is \<open>nil\<close>. A function that returns a value and an error
    is a sum, \<open>Inl\<close> the error. A run of \<open>if err != nil { return err }\<close> statements is
    \<open>first_err\<close> of the checks in their order.
  \<^item> A Go string is its bytes, a list of \<open>char\<close>. The case mappings \<open>to_lower\<close>, \<open>to_upper\<close> and
    \<open>equal_fold\<close> are Go's on ASCII bytes and leave a byte above 0x7f alone, so a use of them on
    other text is outside the model. White space and control characters are matched in their
    UTF-8 encodings, as the decoder of Go's \<open>range\<close> finds them.
\<close>

named_theorems go_simps "rewriting the library functions of the modelled code"

subsection \<open>Errors\<close>

definition err_if :: "bool \<Rightarrow> 'e \<Rightarrow> 'e option" where
  "err_if c e = (if c then Some e else None)"

fun first_err :: "'e option list \<Rightarrow> 'e option" where
  "first_err [] = None"
| "first_err (x # xs) = (case x of None \<Rightarrow> first_err xs | Some e \<Rightarrow> Some e)"

definition on_ok :: "'e option \<Rightarrow> 'a \<Rightarrow> 'e + 'a" where
  "on_ok r v = (case r of None \<Rightarrow> Inr v | Some e \<Rightarrow> Inl e)"

definition bind_err :: "'e + 'a \<Rightarrow> ('a \<Rightarrow> 'e + 'b) \<Rightarrow> 'e + 'b" where
  "bind_err r f = (case r of Inl e \<Rightarrow> Inl e | Inr v \<Rightarrow> f v)"

lemma err_if_None [simp]: "err_if c e = None \<longleftrightarrow> \<not> c"
  by (simp add: err_if_def)

lemma err_if_Some [simp]: "err_if c e = Some x \<longleftrightarrow> c \<and> x = e"
  by (auto simp: err_if_def)

lemma first_err_None [simp]: "first_err xs = None \<longleftrightarrow> (\<forall>x \<in> set xs. x = None)"
  by (induction xs) (auto split: option.splits)

lemma on_ok_Inr [simp]: "on_ok r v = Inr w \<longleftrightarrow> r = None \<and> w = v"
  by (auto simp: on_ok_def split: option.splits)

lemma on_ok_Inl [simp]: "on_ok r v = Inl e \<longleftrightarrow> r = Some e"
  by (auto simp: on_ok_def split: option.splits)

lemma bind_err_simps [simp]:
  "bind_err (Inl e) f = Inl e"
  "bind_err (Inr v) f = f v"
  by (simp_all add: bind_err_def)

lemma bind_err_Inr: "bind_err r f = Inr w \<longleftrightarrow> (\<exists>v. r = Inr v \<and> f v = Inr w)"
  by (cases r) simp_all

lemma bind_err_Inl: "bind_err r f = Inl e \<longleftrightarrow> r = Inl e \<or> (\<exists>v. r = Inr v \<and> f v = Inl e)"
  by (cases r) simp_all

lemma list_all2_right: "list_all2 P xs ys \<Longrightarrow> y \<in> set ys \<Longrightarrow> \<exists>x \<in> set xs. P x y"
  by (induction rule: list_all2_induct) auto

text \<open>A fallible step over a list, stopped by its first error.\<close>

fun fold_err :: "('a \<Rightarrow> 's \<Rightarrow> 'e + 's) \<Rightarrow> 'a list \<Rightarrow> 's \<Rightarrow> 'e + 's" where
  "fold_err f [] s = Inr s"
| "fold_err f (x # xs) s = (case f x s of Inl e \<Rightarrow> Inl e | Inr s' \<Rightarrow> fold_err f xs s')"

lemma fold_err_invariant:
  assumes "fold_err f xs s = Inr s'" and "I s"
    and "\<And>x t t'. x \<in> set xs \<Longrightarrow> I t \<Longrightarrow> f x t = Inr t' \<Longrightarrow> I t'"
  shows "I s'"
  using assms
proof (induction xs arbitrary: s)
  case (Cons x xs)
  then obtain t where t: "f x s = Inr t" "fold_err f xs t = Inr s'"
    by (auto split: sum.splits)
  have "I t" using Cons.prems(2) t(1) by (rule Cons.prems(3)[rotated]) simp
  then show ?case using Cons.IH[OF t(2)] Cons.prems(3) by (meson list.set_intros(2))
qed simp

lemma fold_err_Cons_Inr:
  "fold_err f (x # xs) s = Inr t \<longleftrightarrow> (\<exists>u. f x s = Inr u \<and> fold_err f xs u = Inr t)"
  by (auto split: sum.splits)

lemma fold_err_append:
  "fold_err f (xs @ ys) s = bind_err (fold_err f xs s) (fold_err f ys)"
  by (induction xs arbitrary: s) (auto split: sum.splits)

subsection \<open>Characters\<close>

definition is_lower :: "char \<Rightarrow> bool" where
  "is_lower c \<longleftrightarrow> CHR ''a'' \<le> c \<and> c \<le> CHR ''z''"

definition is_upper :: "char \<Rightarrow> bool" where
  "is_upper c \<longleftrightarrow> CHR ''A'' \<le> c \<and> c \<le> CHR ''Z''"

definition is_digit :: "char \<Rightarrow> bool" where
  "is_digit c \<longleftrightarrow> CHR ''0'' \<le> c \<and> c \<le> CHR ''9''"

definition is_alpha :: "char \<Rightarrow> bool" where
  "is_alpha c \<longleftrightarrow> is_lower c \<or> is_upper c"

definition lower_char :: "char \<Rightarrow> char" where
  "lower_char c = (if is_upper c then char_of (of_char c + 32 :: nat) else c)"

definition upper_char :: "char \<Rightarrow> char" where
  "upper_char c = (if is_lower c then char_of (of_char c - 32 :: nat) else c)"

definition to_lower :: "string \<Rightarrow> string" where
  "to_lower = map lower_char"

definition to_upper :: "string \<Rightarrow> string" where
  "to_upper = map upper_char"

definition equal_fold :: "string \<Rightarrow> string \<Rightarrow> bool" where
  "equal_fold s t \<longleftrightarrow> to_lower s = to_lower t"

lemma char_le_nat: "(c \<le> d) \<longleftrightarrow> (of_char c :: nat) \<le> of_char d"
  by (simp add: less_eq_char_def)

lemma is_lower_nat: "is_lower c \<longleftrightarrow> 97 \<le> (of_char c :: nat) \<and> (of_char c :: nat) \<le> 122"
  by (simp add: is_lower_def char_le_nat)

lemma is_upper_nat: "is_upper c \<longleftrightarrow> 65 \<le> (of_char c :: nat) \<and> (of_char c :: nat) \<le> 90"
  by (simp add: is_upper_def char_le_nat)

lemma is_digit_nat: "is_digit c \<longleftrightarrow> 48 \<le> (of_char c :: nat) \<and> (of_char c :: nat) \<le> 57"
  by (simp add: is_digit_def char_le_nat)

lemma lower_char_not_upper [simp]: "\<not> is_upper (lower_char c)"
  by (auto simp: lower_char_def is_upper_nat)

lemma lower_char_id: "\<not> is_upper c \<Longrightarrow> lower_char c = c"
  by (simp add: lower_char_def)

lemma lower_char_idem [simp]: "lower_char (lower_char c) = lower_char c"
  by (simp add: lower_char_id)

lemma to_lower_idem [simp]: "to_lower (to_lower s) = to_lower s"
  by (simp add: to_lower_def)

lemma to_lower_append [simp]: "to_lower (s @ t) = to_lower s @ to_lower t"
  by (simp add: to_lower_def)

lemma length_to_lower [simp]: "length (to_lower s) = length s"
  by (simp add: to_lower_def)

lemma to_lower_fix: "to_lower s = s \<longleftrightarrow> (\<forall>c \<in> set s. \<not> is_upper c)"
proof
  assume "to_lower s = s"
  then show "\<forall>c \<in> set s. \<not> is_upper c"
    unfolding to_lower_def by (metis in_set_conv_nth length_map lower_char_not_upper nth_map)
next
  assume "\<forall>c \<in> set s. \<not> is_upper c"
  then show "to_lower s = s"
    by (simp add: to_lower_def lower_char_id map_idI)
qed

lemma equal_fold_refl [simp]: "equal_fold s s"
  by (simp add: equal_fold_def)

lemma equal_fold_sym: "equal_fold s t \<Longrightarrow> equal_fold t s"
  by (simp add: equal_fold_def)

lemma equal_fold_trans: "equal_fold s t \<Longrightarrow> equal_fold t u \<Longrightarrow> equal_fold s u"
  by (simp add: equal_fold_def)

subsection \<open>Substrings\<close>

definition has_prefix :: "'a list \<Rightarrow> 'a list \<Rightarrow> bool" where
  "has_prefix p s \<longleftrightarrow> take (length p) s = p"

definition has_suffix :: "'a list \<Rightarrow> 'a list \<Rightarrow> bool" where
  "has_suffix p s \<longleftrightarrow> length p \<le> length s \<and> drop (length s - length p) s = p"

definition trim_prefix :: "'a list \<Rightarrow> 'a list \<Rightarrow> 'a list" where
  "trim_prefix p s = (if has_prefix p s then drop (length p) s else s)"

definition trim_suffix :: "'a list \<Rightarrow> 'a list \<Rightarrow> 'a list" where
  "trim_suffix p s = (if has_suffix p s then take (length s - length p) s else s)"

fun contains_str :: "'a list \<Rightarrow> 'a list \<Rightarrow> bool" where
  "contains_str sub [] \<longleftrightarrow> sub = []"
| "contains_str sub (c # s) \<longleftrightarrow> has_prefix sub (c # s) \<or> contains_str sub s"

definition contains_any :: "string \<Rightarrow> string \<Rightarrow> bool" where
  "contains_any s chars \<longleftrightarrow> list_ex (\<lambda>c. c \<in> set chars) s"

lemma has_prefix_iff: "has_prefix p s \<longleftrightarrow> (\<exists>t. s = p @ t)"
  by (metis append_eq_conv_conj append_take_drop_id has_prefix_def)

lemma has_suffix_iff: "has_suffix p s \<longleftrightarrow> (\<exists>t. s = t @ p)"
proof
  assume "has_suffix p s"
  then have "s = take (length s - length p) s @ p"
    unfolding has_suffix_def by (metis append_take_drop_id)
  then show "\<exists>t. s = t @ p" by blast
qed (auto simp: has_suffix_def)

lemma has_prefix_prefix: "has_prefix p s \<longleftrightarrow> prefix p s"
  by (simp add: has_prefix_iff prefix_def)

lemma has_prefix_append [simp]: "has_prefix p (p @ s)"
  by (auto simp: has_prefix_iff)

lemma has_suffix_append [simp]: "has_suffix p (s @ p)"
  by (auto simp: has_suffix_iff)

lemma trim_prefix_append [simp]: "trim_prefix p (p @ s) = s"
  by (simp add: trim_prefix_def)

lemma trim_suffix_append [simp]: "trim_suffix p (s @ p) = s"
  by (simp add: trim_suffix_def)

lemma contains_str_iff: "contains_str sub s \<longleftrightarrow> (\<exists>u v. s = u @ sub @ v)"
proof (induction s)
  case (Cons c s)
  show ?case
  proof
    assume "contains_str sub (c # s)"
    then consider (here) t where "c # s = sub @ t" | (later) u v where "s = u @ sub @ v"
      using Cons.IH by (auto simp: has_prefix_iff)
    then show "\<exists>u v. c # s = u @ sub @ v"
      by cases (metis append_Nil, metis append_Cons)
  next
    assume "\<exists>u v. c # s = u @ sub @ v"
    then obtain u v where eq: "c # s = u @ sub @ v" by blast
    show "contains_str sub (c # s)"
    proof (cases u)
      case Nil
      then have "has_prefix sub (c # s)" using eq by (auto simp: has_prefix_iff)
      then show ?thesis by simp
    next
      case (Cons d u')
      then show ?thesis using eq Cons.IH by auto
    qed
  qed
qed auto

lemma contains_str_sublist: "contains_str sub s \<longleftrightarrow> sublist sub s"
  by (simp add: contains_str_iff sublist_def)

lemma contains_any_iff [simp]: "contains_any s chars \<longleftrightarrow> (\<exists>c \<in> set s. c \<in> set chars)"
  by (auto simp: contains_any_def list_ex_iff)

subsection \<open>Cutting, splitting and joining\<close>

text \<open>\<open>cut_char c s\<close> is \<open>strings.Cut\<close> at the first byte \<open>c\<close>: before, after, and whether it is there.\<close>

fun cut_char :: "char \<Rightarrow> string \<Rightarrow> string \<times> string \<times> bool" where
  "cut_char c [] = ([], [], False)"
| "cut_char c (x # xs) =
     (if x = c then ([], xs, True)
      else case cut_char c xs of (a, b, f) \<Rightarrow> (x # a, b, f))"

lemma cut_char_spec:
  "cut_char c s = (a, b, f) \<Longrightarrow>
     c \<notin> set a \<and> (if f then s = a @ c # b else s = a \<and> b = [])"
  by (induction s arbitrary: a b f) (auto split: if_splits prod.splits)

lemma cut_char_found [simp]: "c \<notin> set a \<Longrightarrow> cut_char c (a @ c # b) = (a, b, True)"
  by (induction a) auto

lemma cut_char_absent [simp]: "c \<notin> set s \<Longrightarrow> cut_char c s = (s, [], False)"
  by (induction s) auto

lemma cut_char_flag: "snd (snd (cut_char c s)) \<longleftrightarrow> c \<in> set s"
  by (induction s) (auto split: prod.splits)

text \<open>\<open>cut_str sep s\<close> is \<open>strings.Cut\<close> at a longer separator.\<close>

fun cut_str :: "string \<Rightarrow> string \<Rightarrow> string \<times> string \<times> bool" where
  "cut_str sep [] = (if sep = [] then ([], [], True) else ([], [], False))"
| "cut_str sep (x # xs) =
     (if has_prefix sep (x # xs) then ([], drop (length sep) (x # xs), True)
      else case cut_str sep xs of (a, b, f) \<Rightarrow> (x # a, b, f))"

lemma cut_str_spec:
  "cut_str sep s = (a, b, f) \<Longrightarrow> (if f then s = a @ sep @ b else s = a \<and> b = [])"
proof (induction s arbitrary: a b f)
  case (Cons x xs)
  show ?case
  proof (cases "has_prefix sep (x # xs)")
    case True
    then show ?thesis using Cons.prems by (auto simp: has_prefix_iff)
  next
    case False
    with Cons show ?thesis by (auto split: prod.splits)
  qed
qed (auto split: if_splits)

lemma cut_str_flag: "snd (snd (cut_str sep s)) \<longleftrightarrow> contains_str sep s"
  by (induction s) (auto split: prod.splits)

fun split_on :: "char \<Rightarrow> string \<Rightarrow> string list" where
  "split_on c [] = [[]]"
| "split_on c (x # xs) =
     (if x = c then [] # split_on c xs
      else case split_on c xs of [] \<Rightarrow> [[x]] | p # ps \<Rightarrow> (x # p) # ps)"

fun join_with :: "string \<Rightarrow> string list \<Rightarrow> string" where
  "join_with sep [] = []"
| "join_with sep [s] = s"
| "join_with sep (s # t # ts) = s @ sep @ join_with sep (t # ts)"

lemma split_on_nonempty [simp]: "split_on c s \<noteq> []"
  by (induction s) (auto split: list.splits)

lemma join_with_Cons_head: "join_with sep ((x # s) # ss) = x # join_with sep (s # ss)"
  by (cases ss) simp_all

lemma join_with_Nil_head: "ss \<noteq> [] \<Longrightarrow> join_with sep ([] # ss) = sep @ join_with sep ss"
  by (cases ss) simp_all

lemma join_split [simp]: "join_with [c] (split_on c s) = s"
proof (induction s)
  case (Cons x xs)
  then show ?case
    by (cases "split_on c xs") (auto simp: join_with_Cons_head join_with_Nil_head)
qed simp

lemma split_on_parts: "p \<in> set (split_on c s) \<Longrightarrow> c \<notin> set p \<and> set p \<subseteq> set s"
proof (induction s arbitrary: p)
  case (Cons x xs)
  then show ?case
    by (cases "split_on c xs") (auto split: if_splits, blast+)
qed simp

lemma set_split_on: "set s \<subseteq> {c} \<union> \<Union> (set ` set (split_on c s))"
proof (induction s)
  case (Cons x xs)
  then show ?case by (cases "split_on c xs") auto
qed simp

lemma split_on_no_sep [simp]: "c \<notin> set s \<Longrightarrow> split_on c s = [s]"
  by (induction s) auto

lemma split_on_append_sep:
  "c \<notin> set a \<Longrightarrow> split_on c (a @ c # b) = a # split_on c b"
  by (induction a) auto

lemma split_on_append: "split_on c (a @ c # b) = split_on c a @ split_on c b"
proof (induction a)
  case (Cons x a)
  then show ?case by (cases "split_on c a") auto
qed simp

lemma split_join:
  assumes "ps \<noteq> []" and "\<forall>p \<in> set ps. c \<notin> set p"
  shows "split_on c (join_with [c] ps) = ps"
  using assms by (induction "[c]" ps rule: join_with.induct) (auto simp: split_on_append_sep)

subsection \<open>White space and control characters\<close>

text \<open>
  The runes of \<open>unicode.IsSpace\<close> in UTF-8. Each encoding starts with a lead byte and is a valid
  rune, so it is decoded as that rune wherever it occurs.
\<close>

definition space_runes :: "string list" where
  "space_runes =
     map (\<lambda>n. [char_of (n::nat)]) [9, 10, 11, 12, 13, 32]
     @ map (\<lambda>n. [char_of (194::nat), char_of (n::nat)]) [133, 160]
     @ [map char_of [225::nat, 154, 128]]
     @ map (\<lambda>n. map char_of [226::nat, 128, n]) [128, 129, 130, 131, 132, 133, 134, 135, 136, 137, 138, 168, 169, 175]
     @ [map char_of [226::nat, 129, 159], map char_of [227::nat, 128, 128]]"

definition has_space :: "string \<Rightarrow> bool" where
  "has_space s \<longleftrightarrow> list_ex (\<lambda>r. contains_str r s) space_runes"

definition control_runes :: "string list" where
  "control_runes =
     map (\<lambda>n. [char_of (n::nat)]) ([0..<32] @ [127])
     @ map (\<lambda>n. [char_of (194::nat), char_of (n::nat)]) [128..<160]"

definition has_control :: "string \<Rightarrow> bool" where
  "has_control s \<longleftrightarrow> list_ex (\<lambda>r. contains_str r s) control_runes"

definition leading_space :: "string \<Rightarrow> string option" where
  "leading_space s = find (\<lambda>r. has_prefix r s) space_runes"

definition trailing_space :: "string \<Rightarrow> string option" where
  "trailing_space s = find (\<lambda>r. has_suffix r s) space_runes"

text \<open>\<open>strings.TrimSpace\<close>. The fuel is the length, since each step drops a rune.\<close>

fun trim_left_n :: "nat \<Rightarrow> string \<Rightarrow> string" where
  "trim_left_n 0 s = s"
| "trim_left_n (Suc n) s =
     (case leading_space s of None \<Rightarrow> s | Some r \<Rightarrow> trim_left_n n (drop (length r) s))"

fun trim_right_n :: "nat \<Rightarrow> string \<Rightarrow> string" where
  "trim_right_n 0 s = s"
| "trim_right_n (Suc n) s =
     (case trailing_space s of None \<Rightarrow> s
      | Some r \<Rightarrow> trim_right_n n (take (length s - length r) s))"

definition trim_space :: "string \<Rightarrow> string" where
  "trim_space s = (let t = trim_left_n (length s) s in trim_right_n (length t) t)"

lemma space_runes_nonempty: "r \<in> set space_runes \<Longrightarrow> r \<noteq> []"
  by (auto simp: space_runes_def)

lemma find_SomeD: "find P xs = Some x \<Longrightarrow> x \<in> set xs \<and> P x"
  by (induction xs) (auto split: if_splits)

lemma trim_left_n_done: "length s \<le> n \<Longrightarrow> leading_space (trim_left_n n s) = None"
proof (induction n arbitrary: s)
  case 0
  then show ?case
    by (auto simp: leading_space_def find_None_iff has_prefix_iff dest: space_runes_nonempty)
next
  case (Suc n)
  show ?case
  proof (cases "leading_space s")
    case None
    then show ?thesis by simp
  next
    case (Some r)
    then have "r \<in> set space_runes" "has_prefix r s"
      by (auto simp: leading_space_def dest: find_SomeD)
    then have "length (drop (length r) s) \<le> n"
    proof -
      have "0 < length r" using space_runes_nonempty \<open>r \<in> set space_runes\<close> by auto
      then show ?thesis using Suc.prems by (simp only: length_drop)
    qed
    with Some Suc.IH show ?thesis by simp
  qed
qed

end
