(* ===== verification/Session_Ref.thy ===== *)
theory Session_Ref
  imports Go_Prelude
begin

text \<open>
  Session names and refs: \<open>internal/session/session.go\<close>, \<open>internal/session/ref.go\<close> and the
  lookups of \<open>internal/profile/registry.go\<close> they call. A slug names a directory and a sandbox,
  so the facts shown are that it is always a safe path component, that it is its own slug, and
  that a ref is read back exactly as it is typed.
\<close>

subsection \<open>Profiles and the registry\<close>

text \<open>
  The fields of a profile that the modelled code reads. The registry is the list of the loaded
  profiles sorted by name, which is what \<open>All\<close> returns; names are unique in it.
\<close>

datatype kind = KindAgent | KindShell | KindGUI

record profile =
  p_name :: string
  p_kind :: "kind option"
  p_policy :: "string list"
  p_reserved :: bool
  p_deny :: "string list"

type_synonym registry = "profile list"

definition profile_kind :: "profile \<Rightarrow> kind" where
  "profile_kind p = (case p_kind p of None \<Rightarrow> KindAgent | Some k \<Rightarrow> k)"

definition IsShell :: "profile \<Rightarrow> bool" where
  "IsShell p \<longleftrightarrow> profile_kind p = KindShell"

definition IsGUI :: "profile \<Rightarrow> bool" where
  "IsGUI p \<longleftrightarrow> profile_kind p = KindGUI"

definition aliases :: "string \<Rightarrow> string option" where
  "aliases = map_of
     [(''claude'', ''claude-code''), (''desktop'', ''claude-desktop''), (''herd'', ''herdr'')]"

definition reg_find :: "registry \<Rightarrow> string \<Rightarrow> profile option" where
  "reg_find reg name = find (\<lambda>p. p_name p = name) reg"

definition profile_lookup :: "registry \<Rightarrow> string \<Rightarrow> profile option" where
  "profile_lookup reg name =
     (case reg_find reg name of
        Some p \<Rightarrow> Some p
      | None \<Rightarrow> (case aliases name of None \<Rightarrow> None | Some canonical \<Rightarrow> reg_find reg canonical))"

definition ReservedFor :: "registry \<Rightarrow> string \<Rightarrow> string \<Rightarrow> string option" where
  "ReservedFor reg slug agent =
     map_option p_name (find (\<lambda>p. p_reserved p \<and> agent @ ''-'' @ slug = p_name p) reg)"

subsection \<open>Slugs\<close>

definition slug_char :: "char \<Rightarrow> char" where
  "slug_char r =
     (if is_upper r then lower_char r
      else if is_lower r \<or> is_digit r \<or> r = CHR ''.'' \<or> r = CHR ''_'' \<or> r = CHR ''-'' then r
      else CHR ''-'')"

fun collapse_dashes :: "bool \<Rightarrow> string \<Rightarrow> string" where
  "collapse_dashes prevDash [] = []"
| "collapse_dashes prevDash (r # s) =
     (if r = CHR ''-''
      then (if prevDash then collapse_dashes True s else r # collapse_dashes True s)
      else r # collapse_dashes False s)"

definition trim_left_set :: "char set \<Rightarrow> string \<Rightarrow> string" where
  "trim_left_set cs s = dropWhile (\<lambda>c. c \<in> cs) s"

definition trim_right_set :: "char set \<Rightarrow> string \<Rightarrow> string" where
  "trim_right_set cs s = rev (dropWhile (\<lambda>c. c \<in> cs) (rev s))"

abbreviation edge_chars :: "char set" where
  "edge_chars \<equiv> {CHR ''-'', CHR ''.''}"

text \<open>
  Go's \<open>range\<close> gives one rune per character and the model one byte, so a character of several
  bytes is several dashes here and one there. \<open>collapse_dashes\<close> makes both one dash.
\<close>

definition Slug :: "string \<Rightarrow> string" where
  "Slug name =
     trim_right_set edge_chars
       (trim_left_set edge_chars (collapse_dashes False (map slug_char name)))"

definition legacyBudget :: nat where
  "legacyBudget = 10"

definition LegacySlug :: "string \<Rightarrow> string" where
  "LegacySlug name =
     (let s = Slug name in
      if length s \<le> legacyBudget then s else trim_right_set edge_chars (take legacyBudget s))"

datatype session_error =
    NoUsableCharacters | NameReserved string
  | MoreThanOneAt | NoAgent | EmptyLabel | LabelNotClean string | LabelReserved string

definition Resolve :: "registry \<Rightarrow> string \<Rightarrow> string \<Rightarrow> session_error + string" where
  "Resolve reg agent name =
     (let slug = Slug name in
      if slug = [] then Inl NoUsableCharacters
      else case ReservedFor reg slug agent of
             Some owner \<Rightarrow> Inl (NameReserved owner)
           | None \<Rightarrow> Inr slug)"

subsection \<open>Refs\<close>

record ref =
  Agent :: string
  Label :: string

definition ParseRef :: "registry \<Rightarrow> string \<Rightarrow> session_error + ref" where
  "ParseRef reg s =
     (case cut_char CHR ''@'' s of (agent, label, hasLabel) \<Rightarrow>
      if contains_str ''@'' label then Inl MoreThanOneAt
      else if agent = [] then Inl NoAgent
      else if \<not> hasLabel then Inr \<lparr>Agent = agent, Label = []\<rparr>
      else if label = [] then Inl EmptyLabel
      else if Slug label \<noteq> label
        then Inl (if Slug label = [] then NoUsableCharacters else LabelNotClean (Slug label))
      else case profile_lookup reg agent of
             None \<Rightarrow> Inr \<lparr>Agent = agent, Label = label\<rparr>
           | Some p \<Rightarrow> (case ReservedFor reg label (p_name p) of
                 Some owner \<Rightarrow> Inl (LabelReserved owner)
               | None \<Rightarrow> Inr \<lparr>Agent = agent, Label = label\<rparr>))"

definition IsRefShaped :: "string \<Rightarrow> bool" where
  "IsRefShaped s \<longleftrightarrow> contains_str ''@'' s"

definition Ref_String :: "ref \<Rightarrow> string" where
  "Ref_String r = (if Label r = [] then Agent r else Agent r @ ''@'' @ Label r)"

subsection \<open>What a slug is\<close>

definition slug_alphabet :: "char \<Rightarrow> bool" where
  "slug_alphabet c \<longleftrightarrow>
     is_lower c \<or> is_digit c \<or> c = CHR ''.'' \<or> c = CHR ''_'' \<or> c = CHR ''-''"

fun no_double_dash :: "string \<Rightarrow> bool" where
  "no_double_dash (a # b # s) \<longleftrightarrow>
     \<not> (a = CHR ''-'' \<and> b = CHR ''-'') \<and> no_double_dash (b # s)"
| "no_double_dash _ \<longleftrightarrow> True"

text \<open>The form a slug has: its alphabet, single dashes, and no dot or dash at either end.\<close>

definition slug_clean :: "string \<Rightarrow> bool" where
  "slug_clean s \<longleftrightarrow> list_all slug_alphabet s \<and> no_double_dash s
     \<and> (s \<noteq> [] \<longrightarrow> hd s \<notin> edge_chars \<and> last s \<notin> edge_chars)"

lemma slug_char_alphabet: "slug_alphabet (slug_char c)"
  by (auto simp: slug_alphabet_def slug_char_def lower_char_def is_lower_nat is_upper_nat)

lemma slug_char_fixed: "slug_alphabet c \<Longrightarrow> slug_char c = c"
  by (auto simp: slug_alphabet_def slug_char_def is_lower_nat is_upper_nat is_digit_nat)

lemma collapse_set: "set (collapse_dashes b s) \<subseteq> set s"
  by (induction b s rule: collapse_dashes.induct) auto

lemma collapse_no_double:
  "no_double_dash (collapse_dashes b s) \<and>
   (b \<longrightarrow> collapse_dashes b s \<noteq> [] \<longrightarrow> hd (collapse_dashes b s) \<noteq> CHR ''-'')"
proof (induction b s rule: collapse_dashes.induct)
  case (2 b r s)
  then show ?case
    by (cases "collapse_dashes (r = CHR ''-'') s") (auto split: if_splits)
qed simp

lemma collapse_fixed:
  "no_double_dash s \<Longrightarrow> (b \<Longrightarrow> s = [] \<or> hd s \<noteq> CHR ''-'') \<Longrightarrow> collapse_dashes b s = s"
proof (induction b s rule: collapse_dashes.induct)
  case (2 b r s)
  then show ?case by (cases s) auto
qed simp

lemma no_double_dash_Cons: "no_double_dash (c # s) \<Longrightarrow> no_double_dash s"
  by (cases s) auto

lemma no_double_dash_append: "no_double_dash (s @ t) \<Longrightarrow> no_double_dash s \<and> no_double_dash t"
proof (induction s)
  case (Cons c s)
  then show ?case by (cases s) (auto dest: no_double_dash_Cons)
qed simp

lemma no_double_dash_dropWhile: "no_double_dash s \<Longrightarrow> no_double_dash (dropWhile P s)"
  by (metis no_double_dash_append takeWhile_dropWhile_id)

lemma trim_right_prefix: "\<exists>t. s = trim_right_set cs s @ t"
proof -
  have "rev s = takeWhile (\<lambda>c. c \<in> cs) (rev s) @ dropWhile (\<lambda>c. c \<in> cs) (rev s)"
    by simp
  then have "s = rev (dropWhile (\<lambda>c. c \<in> cs) (rev s)) @ rev (takeWhile (\<lambda>c. c \<in> cs) (rev s))"
    by (metis rev_append rev_rev_ident)
  then show ?thesis unfolding trim_right_set_def by blast
qed

lemma trim_right_last: "trim_right_set cs s \<noteq> [] \<Longrightarrow> last (trim_right_set cs s) \<notin> cs"
  unfolding trim_right_set_def using hd_dropWhile by (metis last_rev rev.simps(1) rev_rev_ident)

lemma trim_right_hd: "trim_right_set cs s \<noteq> [] \<Longrightarrow> hd (trim_right_set cs s) = hd s"
  using trim_right_prefix[of s cs] by (metis hd_append2)

lemma trim_left_hd: "trim_left_set cs s \<noteq> [] \<Longrightarrow> hd (trim_left_set cs s) \<notin> cs"
  unfolding trim_left_set_def using hd_dropWhile[of "\<lambda>c. c \<in> cs" s] by auto

lemma Slug_clean: "slug_clean (Slug name)"
proof -
  define c where "c = collapse_dashes False (map slug_char name)"
  define l where "l = trim_left_set edge_chars c"
  obtain t where t: "l = trim_right_set edge_chars l @ t"
    using trim_right_prefix[of l edge_chars] by blast
  have s: "Slug name = trim_right_set edge_chars l"
    by (simp add: Slug_def l_def c_def)
  have "set c \<subseteq> set (map slug_char name)"
    unfolding c_def by (rule collapse_set)
  then have "\<forall>x \<in> set c. slug_alphabet x"
    using slug_char_alphabet by auto
  moreover have "set l \<subseteq> set c"
    by (auto simp: l_def trim_left_set_def dest: set_dropWhileD)
  moreover have "set (Slug name) \<subseteq> set l"
    using t s by (metis UnCI set_append subsetI)
  ultimately have alpha: "list_all slug_alphabet (Slug name)"
    by (auto simp: list_all_iff)
  have "no_double_dash l"
    unfolding l_def trim_left_set_def c_def
    using collapse_no_double by (blast intro: no_double_dash_dropWhile)
  then have "no_double_dash (Slug name)"
    using t s by (metis no_double_dash_append)
  moreover have "Slug name \<noteq> [] \<Longrightarrow> hd (Slug name) \<notin> edge_chars \<and> last (Slug name) \<notin> edge_chars"
    using trim_right_last trim_right_hd trim_left_hd unfolding s l_def
    by (metis append_Nil2 append_is_Nil_conv trim_right_prefix)
  ultimately show ?thesis
    using alpha by (simp add: slug_clean_def)
qed

lemma Slug_of_clean: "slug_clean s \<Longrightarrow> Slug s = s"
proof -
  assume clean: "slug_clean s"
  have "map slug_char s = s"
    using clean by (simp add: slug_clean_def list_all_iff slug_char_fixed map_idI)
  moreover have "collapse_dashes False s = s"
    using clean by (simp add: slug_clean_def collapse_fixed)
  moreover have "trim_left_set edge_chars s = s"
    using clean by (cases s) (auto simp: slug_clean_def trim_left_set_def)
  moreover have "trim_right_set edge_chars s = s"
    using clean by (cases s rule: rev_cases) (auto simp: slug_clean_def trim_right_set_def)
  ultimately show ?thesis
    by (simp add: Slug_def)
qed

lemma Slug_fixed_iff: "Slug s = s \<longleftrightarrow> slug_clean s"
  using Slug_clean Slug_of_clean by metis

lemma slug_clean_no_at: "slug_clean s \<Longrightarrow> CHR ''@'' \<notin> set s"
  by (auto simp: slug_clean_def list_all_iff slug_alphabet_def is_lower_nat is_digit_nat)

lemma contains_char: "contains_str [c] s \<longleftrightarrow> c \<in> set s"
  by (auto simp: contains_str_iff in_set_conv_decomp)

subsection \<open>Properties\<close>

text \<open>the slug of any name is a safe path component: lower case letters, digits, dot, dash
  and underscore alone, so no path separator, no dot or dash at an end, so never hidden, never
  \<open>..\<close> and never a flag; and taking the slug again changes nothing.\<close>

theorem slug_safe:
  "set (Slug name) \<subseteq> {c. is_lower c \<or> is_digit c \<or> c \<in> {CHR ''.'', CHR ''_'', CHR ''-''}}
   \<and> CHR ''/'' \<notin> set (Slug name)
   \<and> Slug name \<noteq> ''.'' \<and> Slug name \<noteq> ''..''
   \<and> take 1 (Slug name) \<notin> {''-'', ''.''}
   \<and> Slug (Slug name) = Slug name"
proof -
  have c: "slug_clean (Slug name)" by (rule Slug_clean)
  then have "list_all slug_alphabet (Slug name)" by (simp add: slug_clean_def)
  then have "set (Slug name) \<subseteq> {c. is_lower c \<or> is_digit c \<or> c \<in> {CHR ''.'', CHR ''_'', CHR ''-''}}"
    by (auto simp: list_all_iff slug_alphabet_def)
  moreover from this have "CHR ''/'' \<notin> set (Slug name)"
    by (auto simp: is_lower_nat is_digit_nat)
  ultimately show ?thesis
    using c Slug_of_clean[OF c] by (cases "Slug name") (auto simp: slug_clean_def)
qed

text \<open>a ref reads back exactly as it is typed. Whatever \<open>ParseRef\<close> accepts prints as the
  text it read, its label is its own slug, and parsing the printed ref gives the same ref again.\<close>

theorem parse_ref_roundtrip:
  assumes "ParseRef reg s = Inr r"
  shows "Ref_String r = s \<and> Slug (Label r) = Label r \<and> Agent r \<noteq> []
    \<and> ParseRef reg (Ref_String r) = Inr r"
proof -
  obtain agent label f where cut: "cut_char CHR ''@'' s = (agent, label, f)"
    by (cases "cut_char CHR ''@'' s") auto
  note spec = cut_char_spec[OF cut]
  have "Ref_String r = s \<and> Slug (Label r) = Label r \<and> Agent r \<noteq> []"
    using assms spec
    by (auto simp: ParseRef_def cut Ref_String_def Slug_def trim_left_set_def trim_right_set_def
        split: if_splits option.splits)
  with assms show ?thesis by simp
qed

text \<open>The ref \<open>claude@refactor\<close> under the built-in alias table.\<close>

theorem parse_ref_roundtrip_witness:
  "ParseRef [] ''claude@refactor'' = Inr \<lparr>Agent = ''claude'', Label = ''refactor''\<rparr>
   \<and> Ref_String \<lparr>Agent = ''claude'', Label = ''refactor''\<rparr> = ''claude@refactor''"
proof -
  have h: "ParseRef [] ''claude@refactor'' = Inr \<lparr>Agent = ''claude'', Label = ''refactor''\<rparr>"
    by code_simp
  show ?thesis using h parse_ref_roundtrip[OF h] by simp
qed

end
