(* ===== verification/Policy_Types.thy ===== *)
theory Policy_Types
  imports Go_Prelude
begin

text \<open>
  The documents of \<open>api/policy/v1alpha1\<close>: routes, policies and egress rules, field by field. A
  pointer is an option. A slice whose code tells \<open>nil\<close> from empty is an optional list, read with
  \<open>els\<close>; other slices are lists, and a Go map is an association list. The enumerations of the
  source are strings there, since a document can hold any text, and are strings here.
\<close>

definition els :: "'a list option \<Rightarrow> 'a list" where
  "els s = (case s of None \<Rightarrow> [] | Some xs \<Rightarrow> xs)"

lemma els_simps [simp]: "els None = []" "els (Some xs) = xs"
  by (simp_all add: els_def)

subsection \<open>Names of the enumerations\<close>

definition PresetClaudeCode :: string where "PresetClaudeCode = ''claude-code''"
definition PresetAnthropicAPIKey :: string where "PresetAnthropicAPIKey = ''anthropic-api-key''"
definition PresetGitHubToken :: string where "PresetGitHubToken = ''github-token''"
definition PresetAWS :: string where "PresetAWS = ''aws''"
definition PresetGCP :: string where "PresetGCP = ''gcp''"
definition ModeEndpoint :: string where "ModeEndpoint = ''endpoint''"
definition LifecycleAnthropicOAuth :: string where "LifecycleAnthropicOAuth = ''anthropic-oauth''"
definition PlaceholderValue :: string where "PlaceholderValue = ''{value}''"
definition PlaceholderRouteURL :: string where "PlaceholderRouteURL = ''{route.url}''"
definition PlaceholderSessionToken :: string where "PlaceholderSessionToken = ''{session.token}''"
definition PlaceholderRouteRegion :: string where "PlaceholderRouteRegion = ''{route.region}''"

lemmas preset_defs = PresetClaudeCode_def PresetAnthropicAPIKey_def PresetGitHubToken_def
  PresetAWS_def PresetGCP_def

lemmas placeholder_defs = PlaceholderValue_def PlaceholderRouteURL_def
  PlaceholderSessionToken_def PlaceholderRouteRegion_def

subsection \<open>Routes\<close>

record credential_ref =
  cr_SecretRef :: string
  cr_Field :: string
  cr_Lifecycle :: string

record header =
  hd_Name :: string
  hd_Value :: string

record header_allow =
  ha_Name :: string
  ha_Values :: "string list option"

record header_inject =
  hi_Set :: "header list option"
  hi_Remove :: "string list option"
  hi_Allow :: "header_allow list option"

record tls_inject =
  ti_ClientCertificate :: "string option"
  ti_CA :: "string option"

record inject =
  in_Headers :: "header_inject option"
  in_BasicAuth :: "string option"
  in_TLS :: "tls_inject option"

record guest =
  gu_Env :: "(string \<times> string) list"
  gu_Git :: "string list option"

record request_allow =
  ra_Methods :: "string list option"
  ra_Paths :: "string list option"
  ra_Repos :: "string list option"

record request_policy =
  rp_Allow :: "request_allow option"

record service =
  sv_Name :: string
  sv_Request :: "request_policy option"

record route =
  r_Name :: string
  r_Preset :: string
  r_Mode :: string
  r_Upstream :: string
  r_Credential :: "credential_ref option"
  r_Inject :: "inject option"
  r_Guest :: "guest option"
  r_Request :: "request_policy option"
  r_Services :: "service list option"
  lifecycleFromPreset :: bool

definition Vends :: "route \<Rightarrow> bool" where
  "Vends r \<longleftrightarrow> r_Preset r = PresetAWS"

definition no_credential :: credential_ref where
  "no_credential = \<lparr>cr_SecretRef = [], cr_Field = [], cr_Lifecycle = []\<rparr>"

definition SetLifecycleFromPreset :: "route \<Rightarrow> string \<Rightarrow> route" where
  "SetLifecycleFromPreset r l =
     (let c = (case r_Credential r of None \<Rightarrow> no_credential | Some c \<Rightarrow> c) in
      r\<lparr>r_Credential := Some (c\<lparr>cr_Lifecycle := l\<rparr>), lifecycleFromPreset := (l \<noteq> [])\<rparr>)"

definition CertificateOnly :: "inject option \<Rightarrow> bool" where
  "CertificateOnly i =
     (case i of
        None \<Rightarrow> False
      | Some ij \<Rightarrow>
          (case in_TLS ij of
             None \<Rightarrow> False
           | Some t \<Rightarrow>
               ti_ClientCertificate t \<noteq> None
               \<and> (case in_Headers ij of None \<Rightarrow> True | Some h \<Rightarrow> els (hi_Set h) = [])
               \<and> in_BasicAuth ij = None))"

subsection \<open>Google services\<close>

definition GCPEndpointOverridePrefix :: string where
  "GCPEndpointOverridePrefix = ''CLOUDSDK_API_ENDPOINT_OVERRIDES_''"

definition GCPCACertsVar :: string where
  "GCPCACertsVar = ''CLOUDSDK_CORE_CUSTOM_CA_CERTS_FILE''"

definition GCPEndpointOverrideName :: "string \<Rightarrow> string" where
  "GCPEndpointOverrideName s = GCPEndpointOverridePrefix @ to_upper s"

definition GCPGuestVars :: "service list \<Rightarrow> string list" where
  "GCPGuestVars svcs = map (\<lambda>s. GCPEndpointOverrideName (sv_Name s)) svcs @ [GCPCACertsVar]"

definition gcpServicePaths :: "(string \<times> string) list" where
  "gcpServicePaths =
     [(''storage'', ''storage/v1/''), (''cloudresourcemanager'', []), (''compute'', ''compute/v1/''),
      (''logging'', []), (''iam'', [])]"

definition GCPServicePath :: "string \<Rightarrow> string option" where
  "GCPServicePath name = map_of gcpServicePaths name"

definition GCPServiceNames :: "string list" where
  "GCPServiceNames = sort (map fst gcpServicePaths)"

subsection \<open>Policies\<close>

record rule =
  ru_Host :: string
  ru_CIDR :: string

record egress =
  eg_Default :: string
  eg_Allow :: "rule list"
  eg_Deny :: "rule list"

definition EgressAllow :: string where "EgressAllow = ''allow''"
definition EgressDeny :: string where "EgressDeny = ''deny''"

record policy =
  po_APIVersion :: string
  po_Kind :: string
  po_Name :: string
  po_Description :: string
  po_Egress :: "egress option"
  po_Routes :: "route list"

definition APIVersion :: string where "APIVersion = ''brig.sh/v1alpha1''"
definition PolicyKind :: string where "PolicyKind = ''Policy''"

text \<open>The guest variables of the Google services are distinct, so a route never sets one twice.\<close>

lemma GCPGuestVars_distinct:
  assumes "distinct (map sv_Name svcs)" and "\<forall>s \<in> set svcs. GCPServicePath (sv_Name s) \<noteq> None"
  shows "distinct (GCPGuestVars svcs)"
proof -
  let ?names = "map fst gcpServicePaths"
  have inj: "inj_on GCPEndpointOverrideName (set ?names)"
    by (simp add: inj_on_def gcpServicePaths_def GCPEndpointOverrideName_def to_upper_def upper_char_def
        is_lower_def)
  have known: "set (map sv_Name svcs) \<subseteq> set ?names"
    using assms(2) by (force simp: GCPServicePath_def map_of_eq_None_iff)
  have "distinct (map GCPEndpointOverrideName (map sv_Name svcs))"
    using assms(1) inj_on_subset[OF inj known] by (simp only: distinct_map)
  moreover have "GCPCACertsVar \<notin> range GCPEndpointOverrideName"
    by (auto simp: GCPCACertsVar_def GCPEndpointOverrideName_def GCPEndpointOverridePrefix_def)
  ultimately show ?thesis
    by (auto simp: GCPGuestVars_def comp_def)
qed

end
