(* ===== verification/Net_Addr.thy ===== *)
theory Net_Addr
  imports Go_Prelude "HOL-Library.Word"
begin

unbundle bit_operations_syntax

text \<open>
  Decimal numbers and the part of Go's \<open>net/netip\<close> the modelled code uses: addresses, prefixes,
  their parsers and printers. An IPv4 address is a 32-bit word and an IPv6 address a 128-bit
  word with its zone. The facts shown are the ones the clients rest on: printing and parsing a
  number agree, an IPv4 address reads back as itself, and two prefixes nest or are disjoint.
\<close>

subsection \<open>Decimal numbers\<close>

definition digit_val :: "char \<Rightarrow> nat" where
  "digit_val c = of_char c - 48"

definition digit_char :: "nat \<Rightarrow> char" where
  "digit_char n = char_of (n + 48)"

fun parse_digits :: "nat \<Rightarrow> string \<Rightarrow> nat option" where
  "parse_digits acc [] = Some acc"
| "parse_digits acc (c # s) = (if is_digit c then parse_digits (10 * acc + digit_val c) s else None)"

text \<open>\<open>strconv.ParseUint(s, 10, w)\<close> with its range check.\<close>

definition parse_uint :: "nat \<Rightarrow> string \<Rightarrow> nat option" where
  "parse_uint w s =
     (if s = [] then None
      else case parse_digits 0 s of None \<Rightarrow> None | Some n \<Rightarrow> if n < 2 ^ w then Some n else None)"

fun show_nat :: "nat \<Rightarrow> string" where
  "show_nat n = (if n < 10 then [digit_char n] else show_nat (n div 10) @ [digit_char (n mod 10)])"

declare show_nat.simps [simp del]

lemma digit_char_digit: "n < 10 \<Longrightarrow> is_digit (digit_char n) \<and> digit_val (digit_char n) = n"
  by (simp add: is_digit_nat digit_char_def digit_val_def)

lemma parse_digits_append:
  "parse_digits acc (s @ t) = (case parse_digits acc s of None \<Rightarrow> None | Some n \<Rightarrow> parse_digits n t)"
  by (induction s arbitrary: acc) auto

lemma parse_show_nat [simp]: "parse_digits 0 (show_nat n) = Some n"
proof (induction n rule: show_nat.induct)
  case (1 n)
  show ?case
  proof (cases "n < 10")
    case True
    then show ?thesis by (subst show_nat.simps) (simp add: digit_char_digit)
  next
    case False
    with "1.IH" show ?thesis
      by (subst show_nat.simps) (simp add: parse_digits_append digit_char_digit)
  qed
qed

lemma show_nat_nonempty [simp]: "show_nat n \<noteq> []"
  by (subst show_nat.simps) simp

lemma show_nat_digits: "c \<in> set (show_nat n) \<Longrightarrow> is_digit c"
proof (induction n rule: show_nat.induct)
  case (1 n)
  then show ?case
    by (cases "n < 10") (auto simp: show_nat.simps[of n] digit_char_digit)
qed

lemma parse_uint_show: "n < 2 ^ w \<Longrightarrow> parse_uint w (show_nat n) = Some n"
  by (simp add: parse_uint_def)

lemma show_nat_no_leading_zero: "0 < n \<Longrightarrow> hd (show_nat n) \<noteq> CHR ''0''"
proof (induction n rule: show_nat.induct)
  case (1 n)
  show ?case
  proof (cases "n < 10")
    case True
    have "digit_char n \<noteq> CHR ''0''"
    proof
      assume "digit_char n = CHR ''0''"
      then have "digit_val (digit_char n) = digit_val CHR ''0''" by simp
      then show False using True "1.prems" digit_char_digit[of n] by (simp add: digit_val_def)
    qed
    then show ?thesis using True by (simp add: show_nat.simps[of n])
  next
    case False
    then have "0 < n div 10" by simp
    with False "1.IH" show ?thesis by (simp add: show_nat.simps[of n])
  qed
qed

subsection \<open>Addresses\<close>

datatype addr = V4 "32 word" | V6 "128 word" string

fun Is4 :: "addr \<Rightarrow> bool" where
  "Is4 (V4 _) \<longleftrightarrow> True"
| "Is4 (V6 _ _) \<longleftrightarrow> False"

fun Is6 :: "addr \<Rightarrow> bool" where
  "Is6 (V4 _) \<longleftrightarrow> False"
| "Is6 (V6 _ _) \<longleftrightarrow> True"

fun Is4In6 :: "addr \<Rightarrow> bool" where
  "Is4In6 (V4 _) \<longleftrightarrow> False"
| "Is4In6 (V6 w _) \<longleftrightarrow> drop_bit 32 w = 0xffff"

fun Unmap :: "addr \<Rightarrow> addr" where
  "Unmap (V4 w) = V4 w"
| "Unmap (V6 w z) = (if drop_bit 32 w = 0xffff then V4 (ucast w) else V6 w z)"

fun Zone :: "addr \<Rightarrow> string" where
  "Zone (V4 _) = []"
| "Zone (V6 _ z) = z"

fun WithoutZone :: "addr \<Rightarrow> addr" where
  "WithoutZone (V4 w) = V4 w"
| "WithoutZone (V6 w _) = V6 w []"

fun IsLoopback :: "addr \<Rightarrow> bool" where
  "IsLoopback (V4 w) \<longleftrightarrow> drop_bit 24 w = 127"
| "IsLoopback (V6 w _) \<longleftrightarrow> w = 1"

lemma Unmap_idem [simp]: "Unmap (Unmap a) = Unmap a"
  by (cases a) auto

subsection \<open>Parsing IPv4\<close>

text \<open>The octets of a dotted quad: four fields of one to three digits, no leading zero, at most 255.\<close>

definition parse_octet :: "string \<Rightarrow> nat option" where
  "parse_octet f =
     (if f = [] \<or> (length f > 1 \<and> hd f = CHR ''0'') then None
      else case parse_digits 0 f of None \<Rightarrow> None | Some n \<Rightarrow> if n \<le> 255 then Some n else None)"

definition parse_ipv4_fields :: "string \<Rightarrow> nat list option" where
  "parse_ipv4_fields s =
     (case map parse_octet (split_on CHR ''.'' s) of
        [Some a, Some b, Some c, Some d] \<Rightarrow> Some [a, b, c, d]
      | _ \<Rightarrow> None)"

definition bytes_val :: "nat list \<Rightarrow> 'a::len word" where
  "bytes_val bs = foldl (\<lambda>acc b. 256 * acc + of_nat b) 0 bs"

definition parse_ipv4 :: "string \<Rightarrow> addr option" where
  "parse_ipv4 s = map_option (\<lambda>bs. V4 (bytes_val bs)) (parse_ipv4_fields s)"

subsection \<open>Parsing IPv6\<close>

definition hex_val :: "char \<Rightarrow> nat option" where
  "hex_val c =
     (if is_digit c then Some (of_char c - 48)
      else if CHR ''a'' \<le> c \<and> c \<le> CHR ''f'' then Some (of_char c - 87)
      else if CHR ''A'' \<le> c \<and> c \<le> CHR ''F'' then Some (of_char c - 55)
      else None)"

definition is_hex :: "char \<Rightarrow> bool" where
  "is_hex c \<longleftrightarrow> hex_val c \<noteq> None"

definition hex_num :: "string \<Rightarrow> nat" where
  "hex_num s = foldl (\<lambda>acc c. 16 * acc + the (hex_val c)) 0 s"

text \<open>
  The loop of \<open>parseIPv6\<close> over the fields: \<open>ip\<close> holds the bytes read so far, \<open>ell\<close> where the
  \<open>::\<close> stood, and \<open>fuel\<close> the fields that can still follow, at most eight.
\<close>

fun ipv6_loop :: "nat \<Rightarrow> string \<Rightarrow> nat list \<Rightarrow> nat option \<Rightarrow> (string \<times> nat list \<times> nat option) option" where
  "ipv6_loop 0 s ip ell = Some (s, ip, ell)"
| "ipv6_loop (Suc fuel) s ip ell =
     (let grp = takeWhile is_hex s; rest = dropWhile is_hex s in
      if length grp > 4 \<or> grp = [] then None
      else if rest \<noteq> [] \<and> hd rest = CHR ''.'' then
        (if (ell = None \<and> length ip \<noteq> 12) \<or> length ip + 4 > 16 then None
         else case parse_ipv4_fields s of None \<Rightarrow> None | Some bs \<Rightarrow> Some ([], ip @ bs, ell))
      else
        let ip' = ip @ [hex_num grp div 256, hex_num grp mod 256] in
        if rest = [] then Some ([], ip', ell)
        else if hd rest \<noteq> CHR '':'' \<or> tl rest = [] then None
        else if hd (tl rest) = CHR '':'' then
          (if ell \<noteq> None then None
           else if tl (tl rest) = [] then Some ([], ip', Some (length ip'))
           else ipv6_loop fuel (tl (tl rest)) ip' (Some (length ip')))
        else ipv6_loop fuel (tl rest) ip' ell)"

definition ipv6_bytes :: "string \<Rightarrow> nat list option" where
  "ipv6_bytes s =
     (if has_prefix ''::'' s \<and> drop 2 s = [] then Some (replicate 16 0)
      else
        case (if has_prefix ''::'' s then ipv6_loop 8 (drop 2 s) [] (Some 0)
              else ipv6_loop 8 s [] None) of
          None \<Rightarrow> None
        | Some (rest, ip, ell) \<Rightarrow>
            if rest \<noteq> [] then None
            else if length ip < 16 then
              (case ell of None \<Rightarrow> None
               | Some e \<Rightarrow> Some (take e ip @ replicate (16 - length ip) 0 @ drop e ip))
            else if ell \<noteq> None then None
            else Some ip)"

definition parse_ipv6 :: "string \<Rightarrow> addr option" where
  "parse_ipv6 s =
     (case cut_char CHR ''%'' s of (a, zone, hasZone) \<Rightarrow>
        if hasZone \<and> zone = [] then None
        else map_option (\<lambda>bs. V6 (bytes_val bs) zone) (ipv6_bytes a))"

definition parse_addr :: "string \<Rightarrow> addr option" where
  "parse_addr s =
     (case find (\<lambda>c. c = CHR ''.'' \<or> c = CHR '':'' \<or> c = CHR ''%'') s of
        None \<Rightarrow> None
      | Some c \<Rightarrow> if c = CHR ''.'' then parse_ipv4 s
                  else if c = CHR '':'' then parse_ipv6 s else None)"

subsection \<open>Printing\<close>

definition octets4 :: "32 word \<Rightarrow> nat list" where
  "octets4 w = [unat (drop_bit 24 w), unat (drop_bit 16 w) mod 256, unat (drop_bit 8 w) mod 256, unat w mod 256]"

definition string4 :: "32 word \<Rightarrow> string" where
  "string4 w = join_with ''.'' (map show_nat (octets4 w))"

definition hex_digit :: "nat \<Rightarrow> char" where
  "hex_digit n = (if n < 10 then char_of (n + 48) else char_of (n + 87))"

fun show_hex :: "nat \<Rightarrow> string" where
  "show_hex n = (if n < 16 then [hex_digit n] else show_hex (n div 16) @ [hex_digit (n mod 16)])"

declare show_hex.simps [simp del]

definition groups6 :: "128 word \<Rightarrow> nat list" where
  "groups6 w = map (\<lambda>i. unat (drop_bit (112 - 16 * i) w) mod 65536) [0..<8]"

text \<open>The first longest run of at least two zero groups, as \<open>(start, end)\<close>.\<close>

definition zero_run :: "nat list \<Rightarrow> nat \<Rightarrow> nat" where
  "zero_run gs i = length (takeWhile (\<lambda>g. g = 0) (drop i gs))"

definition best_zero_run :: "nat list \<Rightarrow> (nat \<times> nat) option" where
  "best_zero_run gs = fold
     (\<lambda>i best. let l = zero_run gs i in
        if l \<ge> 2 \<and> (case best of None \<Rightarrow> True | Some (s, e) \<Rightarrow> l > e - s) then Some (i, i + l) else best)
     [0..<8] None"

definition string6 :: "128 word \<Rightarrow> string" where
  "string6 w =
     (let gs = map show_hex (groups6 w) in
      case best_zero_run (groups6 w) of
        None \<Rightarrow> join_with '':'' gs
      | Some (s, e) \<Rightarrow> join_with '':'' (take s gs) @ ''::'' @ join_with '':'' (drop e gs))"

fun addr_String :: "addr \<Rightarrow> string" where
  "addr_String (V4 w) = string4 w"
| "addr_String (V6 w z) =
     (if drop_bit 32 w = 0xffff then ''::ffff:'' @ string4 (ucast w) else string6 w)
     @ (if z = [] then [] else ''%'' @ z)"

subsection \<open>Prefixes\<close>

record net_prefix =
  pf_addr :: addr
  pf_bits :: nat

fun bit_len :: "addr \<Rightarrow> nat" where
  "bit_len (V4 _) = 32"
| "bit_len (V6 _ _) = 128"

text \<open>\<open>netip.ParsePrefix\<close>: the address before the last slash, and the bits after it in decimal.\<close>

definition cut_last :: "char \<Rightarrow> string \<Rightarrow> (string \<times> string) option" where
  "cut_last c s =
     (case cut_char c (rev s) of (b, a, f) \<Rightarrow> if f then Some (rev a, rev b) else None)"

definition parse_prefix :: "string \<Rightarrow> net_prefix option" where
  "parse_prefix s =
     (case cut_last CHR ''/'' s of
        None \<Rightarrow> None
      | Some (a, bits) \<Rightarrow>
          (case parse_addr a of
             None \<Rightarrow> None
           | Some ip \<Rightarrow>
               if Zone ip \<noteq> [] then None
               else if bits = [] \<or> (length bits > 1 \<and> hd bits = CHR ''0'') then None
               else case parse_digits 0 bits of
                      None \<Rightarrow> None
                    | Some n \<Rightarrow> if n \<le> bit_len ip then Some \<lparr>pf_addr = ip, pf_bits = n\<rparr> else None))"

fun mask_addr :: "addr \<Rightarrow> nat \<Rightarrow> addr" where
  "mask_addr (V4 w) n = V4 (push_bit (32 - n) (drop_bit (32 - n) w))"
| "mask_addr (V6 w z) n = V6 (push_bit (128 - n) (drop_bit (128 - n) w)) []"

definition Masked :: "net_prefix \<Rightarrow> net_prefix" where
  "Masked p = p\<lparr>pf_addr := mask_addr (pf_addr p) (pf_bits p)\<rparr>"

fun addr_agree :: "nat \<Rightarrow> addr \<Rightarrow> addr \<Rightarrow> bool" where
  "addr_agree n (V4 a) (V4 b) \<longleftrightarrow> drop_bit (32 - n) (a XOR b) = 0"
| "addr_agree n (V6 a z) (V6 b y) \<longleftrightarrow> y = [] \<and> drop_bit (128 - n) (a XOR b) = 0"
| "addr_agree n _ _ \<longleftrightarrow> False"

definition Contains :: "net_prefix \<Rightarrow> addr \<Rightarrow> bool" where
  "Contains p a \<longleftrightarrow> addr_agree (pf_bits p) (pf_addr p) a"

definition prefix_String :: "net_prefix \<Rightarrow> string" where
  "prefix_String p = addr_String (pf_addr p) @ ''/'' @ show_nat (pf_bits p)"

subsection \<open>Facts about prefixes\<close>

lemma xor_zero_iff: "a XOR b = 0 \<longleftrightarrow> a = (b :: 'a::len word)"
  by (auto simp: bit_eq_iff bit_xor_iff)

lemma drop_bit_xor_zero: "drop_bit n (a XOR b) = 0 \<longleftrightarrow> drop_bit n a = drop_bit n (b :: 'a::len word)"
  by (simp add: xor_zero_iff)

lemma drop_bit_mono_eq:
  "m \<le> n \<Longrightarrow> drop_bit m a = drop_bit m b \<Longrightarrow> drop_bit n a = drop_bit n (b :: 'a::len word)"
proof -
  assume le: "m \<le> n" and eq: "drop_bit m a = drop_bit m b"
  have split: "drop_bit n x = drop_bit (n - m) (drop_bit m x)" for x :: "'a word"
    using le by (simp add: drop_bit_drop_bit)
  show ?thesis using eq by (simp only: split[of a] split[of b])
qed

text \<open>
  Membership in a prefix is agreement on the leading bits, so a wider prefix that holds one
  address of a narrower one holds all of them.
\<close>

lemma addr_agree_trans:
  assumes "addr_agree n a b" and "addr_agree m b c" and "n \<le> m"
  shows "addr_agree n a c"
proof (cases a)
  case (V4 x)
  with assms(1,2) obtain y z where bc: "b = V4 y" "c = V4 z"
    by (cases b; cases c) auto
  have "32 - m \<le> 32 - n" using assms(3) by simp
  then show ?thesis
    using assms(1,2) drop_bit_mono_eq[of "32 - m" "32 - n" y z]
    by (simp add: V4 bc xor_zero_iff)
next
  case (V6 x u)
  with assms(1,2) obtain y z where bc: "b = V6 y []" "c = V6 z []"
    by (cases b; cases c) auto
  have "128 - m \<le> 128 - n" using assms(3) by simp
  then show ?thesis
    using assms(1,2) drop_bit_mono_eq[of "128 - m" "128 - n" y z]
    by (simp add: V6 bc xor_zero_iff)
qed

lemma Contains_nest:
  "Contains w (pf_addr p) \<Longrightarrow> pf_bits w \<le> pf_bits p \<Longrightarrow> Contains p a \<Longrightarrow> Contains w a"
  unfolding Contains_def by (rule addr_agree_trans)

subsection \<open>The characters of an address\<close>

lemma digits_of_parse: "parse_digits acc s = Some n \<Longrightarrow> \<forall>c \<in> set s. is_digit c"
  by (induction s arbitrary: acc) (auto split: if_splits)

lemma parse_octet_digits: "parse_octet f = Some n \<Longrightarrow> \<forall>c \<in> set f. is_digit c"
  by (auto simp: parse_octet_def split: if_splits option.splits dest: digits_of_parse)

lemma parse_ipv4_fields_chars:
  assumes "parse_ipv4_fields s = Some bs"
  shows "\<forall>c \<in> set s. is_digit c \<or> c = CHR ''.''"
proof -
  have all: "\<forall>o' \<in> set (map parse_octet (split_on CHR ''.'' s)). o' \<noteq> None"
    using assms unfolding parse_ipv4_fields_def by (auto split: list.splits option.splits)
  then have "\<forall>p \<in> set (split_on CHR ''.'' s). \<forall>c \<in> set p. is_digit c"
    using parse_octet_digits by fastforce
  then show ?thesis using set_split_on[of s "CHR ''.''"] by fast
qed

definition v6_char :: "char \<Rightarrow> bool" where
  "v6_char c \<longleftrightarrow> is_hex c \<or> c = CHR '':'' \<or> c = CHR ''.''"

lemma is_digit_hex: "is_digit c \<Longrightarrow> is_hex c"
  by (simp add: is_hex_def hex_val_def)

lemma ipv6_loop_chars:
  "ipv6_loop n s ip ell = Some ([], ip', ell') \<Longrightarrow> \<forall>c \<in> set s. v6_char c"
proof (induction n arbitrary: s ip ell)
  case (Suc n)
  define grp rest where "grp = takeWhile is_hex s" and "rest = dropWhile is_hex s"
  have s: "s = grp @ rest" and hex: "\<forall>c \<in> set grp. v6_char c"
    by (auto simp: grp_def rest_def v6_char_def dest: set_takeWhileD)
  have step: "rest \<noteq> [] \<Longrightarrow> hd rest = CHR '':'' \<Longrightarrow> \<forall>c \<in> set (tl rest). v6_char c \<Longrightarrow> ?case"
    using hex by (cases rest) (auto simp: s v6_char_def)
  note unf = Suc.prems[unfolded ipv6_loop.simps Let_def, folded grp_def rest_def]
  consider (v4) bs where "parse_ipv4_fields s = Some bs"
    | (last) "rest = []"
    | (fin) "rest \<noteq> []" "hd rest = CHR '':''" "tl rest \<noteq> []" "hd (tl rest) = CHR '':''" "tl (tl rest) = []"
    | (ell) ip2 ell2 where "rest \<noteq> []" "hd rest = CHR '':''" "tl rest \<noteq> []" "hd (tl rest) = CHR '':''"
        "ipv6_loop n (tl (tl rest)) ip2 ell2 = Some ([], ip', ell')"
    | (more) ip2 ell2 where "rest \<noteq> []" "hd rest = CHR '':''"
        "ipv6_loop n (tl rest) ip2 ell2 = Some ([], ip', ell')"
    using unf by (auto split: if_splits option.splits)
  then show ?case
  proof cases
    case v4
    then show ?thesis using parse_ipv4_fields_chars is_digit_hex by (fastforce simp: v6_char_def)
  next
    case last
    then show ?thesis using hex s by simp
  next
    case fin
    then have "\<forall>c \<in> set (tl rest). v6_char c"
      by (cases "tl rest") (auto simp: v6_char_def)
    then show ?thesis using fin(1,2) by (rule step[rotated 2])
  next
    case ell
    from Suc.IH[OF ell(5)] ell(3,4) have "\<forall>c \<in> set (tl rest). v6_char c"
      by (cases "tl rest") (auto simp: v6_char_def)
    then show ?thesis using ell(1,2) by (rule step[rotated 2])
  next
    case more
    then show ?thesis using Suc.IH step by blast
  qed
qed simp

lemma ipv6_bytes_chars: "ipv6_bytes s = Some bs \<Longrightarrow> \<forall>c \<in> set s. v6_char c"
proof -
  assume b: "ipv6_bytes s = Some bs"
  show ?thesis
  proof (cases "has_prefix ''::'' s")
    case False
    with b obtain ip ell where "ipv6_loop 8 s [] None = Some ([], ip, ell)"
      by (auto simp: ipv6_bytes_def split: if_splits option.splits)
    then show ?thesis by (rule ipv6_loop_chars)
  next
    case True
    then obtain t where s: "s = ''::'' @ t" by (auto simp: has_prefix_iff)
    have "t = [] \<or> (\<exists>ip ell. ipv6_loop 8 t [] (Some 0) = Some ([], ip, ell))"
      using b by (auto simp: s ipv6_bytes_def has_prefix_iff split: if_splits option.splits)
    then have "\<forall>c \<in> set t. v6_char c" using ipv6_loop_chars by fastforce
    then show ?thesis by (auto simp: s v6_char_def)
  qed
qed

lemma parse_addr_v6_chars:
  assumes "parse_addr s = Some (V6 w z)"
  shows "(CHR ''%'' \<notin> set s \<longleftrightarrow> z = []) \<and> (z = [] \<longrightarrow> (\<forall>c \<in> set s. v6_char c))"
proof -
  obtain a f where cut: "cut_char CHR ''%'' s = (a, z, f)" and bs: "\<not> (f \<and> z = [])" "\<exists>bs. ipv6_bytes a = Some bs"
    using assms by (auto simp: parse_addr_def parse_ipv6_def parse_ipv4_def split: option.splits if_splits prod.splits)
  have sp: "CHR ''%'' \<notin> set a" "if f then s = a @ CHR ''%'' # z else s = a \<and> z = []"
    using cut_char_spec[OF cut] by auto
  show ?thesis using sp bs ipv6_bytes_chars by (auto split: if_splits)
qed
subsection \<open>Cutting and decimal numbers\<close>

lemma cut_last_Some: "cut_last c s = Some (a, b) \<longleftrightarrow> s = a @ c # b \<and> c \<notin> set b"
proof
  assume "cut_last c s = Some (a, b)"
  then obtain x y where cut: "cut_char c (rev s) = (x, y, True)" and ab: "a = rev y" "b = rev x"
    by (auto simp: cut_last_def split: prod.splits if_splits)
  from cut_char_spec[OF cut] have "rev s = x @ c # y" "c \<notin> set x" by auto
  then have "s = rev (x @ c # y)" by (metis rev_rev_ident)
  then show "s = a @ c # b \<and> c \<notin> set b" using ab \<open>c \<notin> set x\<close> by simp
next
  assume "s = a @ c # b \<and> c \<notin> set b"
  then show "cut_last c s = Some (a, b)" by (simp add: cut_last_def)
qed

lemma cut_last_None: "cut_last c s = None \<longleftrightarrow> c \<notin> set s"
  using cut_char_flag[of c "rev s"] by (auto simp: cut_last_def split: prod.splits)

lemma parse_digits_0_pos: "parse_digits acc s = Some n \<Longrightarrow> acc \<le> n"
proof (induction s arbitrary: acc)
  case (Cons c s)
  then have "10 * acc + digit_val c \<le> n" by (auto split: if_splits)
  then show ?case by simp
qed simp

lemma show_parse_digits:
  "parse_digits 0 s = Some n \<Longrightarrow> s \<noteq> [] \<Longrightarrow> hd s \<noteq> CHR ''0'' \<Longrightarrow> show_nat n = s"
proof (induction s arbitrary: n rule: rev_induct)
  case (snoc d s)
  from snoc.prems(1) obtain m where m: "parse_digits 0 s = Some m" "is_digit d" "n = 10 * m + digit_val d"
    by (auto simp: parse_digits_append split: option.splits if_splits)
  have d: "digit_val d < 10" "digit_char (digit_val d) = d"
    using m(2) by (auto simp: is_digit_nat digit_val_def digit_char_def)
  show ?case
  proof (cases "s = []")
    case True
    then show ?thesis using m d by (simp add: show_nat.simps[of "digit_val d"])
  next
    case False
    then have "show_nat m = s" using snoc m(1) by simp
    moreover have "0 < m"
    proof -
      obtain e t where s: "s = e # t" using False by (cases s) auto
      have "is_digit e" "e \<noteq> CHR ''0''" using m(1) snoc.prems(3) by (auto simp: s split: if_splits)
      then have "0 < digit_val e"
      proof -
        have "(of_char e :: nat) \<noteq> 48"
        proof
          assume "(of_char e :: nat) = 48"
          then have "(of_char e :: nat) = of_char CHR ''0''" by simp
          then show False using \<open>e \<noteq> CHR ''0''\<close> by (simp only: of_char_eq_iff)
        qed
        then show ?thesis using \<open>is_digit e\<close> by (simp add: digit_val_def is_digit_nat)
      qed
      moreover have "digit_val e \<le> m" using m(1) parse_digits_0_pos by (auto simp: s split: if_splits)
      ultimately show ?thesis by simp
    qed
    ultimately show ?thesis using m d by (subst show_nat.simps) simp
  qed
qed simp

subsection \<open>An IPv4 address reads back\<close>

lemma octets4_nat:
  "octets4 w = [unat w div 16777216, unat w div 65536 mod 256, unat w div 256 mod 256, unat w mod 256]"
  by (simp add: octets4_def drop_bit_eq_div unat_div_distrib)

lemma octets4_bounds: "n \<in> set (octets4 w) \<Longrightarrow> n \<le> 255"
proof -
  have "unat w < 4294967296" using unsigned_less[of w] by simp
  then have "unat w div 16777216 < 256" by (simp add: div_less_iff_less_mult)
  moreover assume "n \<in> set (octets4 w)"
  ultimately show ?thesis
    by (auto simp: octets4_nat less_Suc_eq_le[symmetric])
qed

lemma bytes_val_octets4 [simp]: "bytes_val (octets4 w) = w"
proof -
  let ?n = "unat w"
  have "256 * (256 * (256 * (?n div 16777216) + ?n div 65536 mod 256) + ?n div 256 mod 256) + ?n mod 256 = ?n"
  proof -
    have "?n div 65536 = ?n div 256 div 256" "?n div 16777216 = ?n div 256 div 256 div 256" by (simp_all add: div_mult2_eq[symmetric])
    then show ?thesis by simp
  qed
  then have "of_nat (256 * (256 * (256 * (?n div 16777216) + ?n div 65536 mod 256) + ?n div 256 mod 256) + ?n mod 256) = w"
    by simp
  then show ?thesis by (simp add: bytes_val_def octets4_nat)
qed

lemma octets4_bytes_val:
  assumes "a \<le> 255" "b \<le> 255" "c \<le> 255" "d \<le> 255"
  shows "octets4 (bytes_val [a, b, c, d]) = [a, b, c, d]"
proof -
  have "bytes_val [a, b, c, d] = (of_nat (256 * (256 * (256 * a + b) + c) + d) :: 32 word)"
    by (simp add: bytes_val_def)
  moreover have "256 * (256 * (256 * a + b) + c) + d < 4294967296" using assms by simp
  ultimately have "unat (bytes_val [a, b, c, d] :: 32 word) = 256 * (256 * (256 * a + b) + c) + d"
    by (simp only: unat_of_nat) simp
  moreover have split: "(256 * x + y) div 256 = x" "(256 * x + y) mod 256 = y" if "y \<le> 255" for x y :: nat
    using that by simp_all
  moreover have "n div 65536 = n div 256 div 256" "n div 16777216 = n div 256 div 256 div 256" for n :: nat
    by (simp_all add: div_mult2_eq[symmetric])
  ultimately show ?thesis using assms by (simp only: octets4_nat split)
qed

lemma show_nat_0: "show_nat 0 = ''0''"
  by code_simp

lemma parse_octet_iff: "parse_octet f = Some n \<longleftrightarrow> n \<le> 255 \<and> f = show_nat n"
proof
  assume p: "parse_octet f = Some n"
  then have n: "n \<le> 255" "f \<noteq> []" "length f > 1 \<longrightarrow> hd f \<noteq> CHR ''0''" "parse_digits 0 f = Some n"
    by (auto simp: parse_octet_def split: if_splits option.splits)
  have "f = show_nat n"
  proof (cases "hd f = CHR ''0''")
    case True
    then have "f = ''0''" using n(2,3) by (cases f) auto
    then show ?thesis using n(4) by (auto simp: show_nat_0 digit_val_def is_digit_def)
  next
    case False
    then show ?thesis using show_parse_digits[OF n(4,2)] by simp
  qed
  with n(1) show "n \<le> 255 \<and> f = show_nat n" by simp
next
  assume n: "n \<le> 255 \<and> f = show_nat n"
  have "length f > 1 \<Longrightarrow> hd f \<noteq> CHR ''0''"
    using n show_nat_no_leading_zero[of n] by (cases "n = 0") (auto simp: show_nat_0)
  then show "parse_octet f = Some n" using n by (auto simp: parse_octet_def)
qed

lemma show_nat_no_dot: "CHR ''.'' \<notin> set (show_nat n)"
  using show_nat_digits by (fastforce simp: is_digit_def)

lemma parse_ipv4_iff: "parse_ipv4 s = Some a \<longleftrightarrow> (\<exists>w. a = V4 w \<and> s = string4 w)"
proof
  assume "parse_ipv4 s = Some a"
  then obtain b0 b1 b2 b3 where b: "map parse_octet (split_on CHR ''.'' s) = [Some b0, Some b1, Some b2, Some b3]"
      "a = V4 (bytes_val [b0, b1, b2, b3])"
    by (auto simp: parse_ipv4_def parse_ipv4_fields_def split: list.splits option.splits)
  then have "split_on CHR ''.'' s = map show_nat [b0, b1, b2, b3]" "b0 \<le> 255" "b1 \<le> 255" "b2 \<le> 255" "b3 \<le> 255"
    by (auto simp: parse_octet_iff map_eq_Cons_conv)
  then have "s = string4 (bytes_val [b0, b1, b2, b3])"
    unfolding string4_def octets4_bytes_val[OF \<open>b0 \<le> 255\<close> \<open>b1 \<le> 255\<close> \<open>b2 \<le> 255\<close> \<open>b3 \<le> 255\<close>] using join_split[of "CHR ''.''" s] by simp
  then show "\<exists>w. a = V4 w \<and> s = string4 w" using b by blast
next
  assume "\<exists>w. a = V4 w \<and> s = string4 w"
  then obtain w where w: "a = V4 w" "s = string4 w" by blast
  have "split_on CHR ''.'' s = map show_nat (octets4 w)"
    unfolding w string4_def by (rule split_join) (auto simp: show_nat_no_dot octets4_def)
  moreover have "map parse_octet (map show_nat (octets4 w)) = map Some (octets4 w)"
    using octets4_bounds[of _ w] by (auto simp: parse_octet_iff)
  ultimately have "parse_ipv4_fields s = Some (octets4 w)"
    by (simp add: parse_ipv4_fields_def octets4_def)
  then show "parse_ipv4 s = Some a" by (simp add: parse_ipv4_def w)
qed

lemma string4_chars: "c \<in> set (string4 w) \<Longrightarrow> is_digit c \<or> c = CHR ''.''"
  by (auto simp: string4_def octets4_def dest: show_nat_digits)

lemma string4_has_dot: "CHR ''.'' \<in> set (string4 w)"
  by (simp add: string4_def octets4_def)

lemma find_first_string4: "find (\<lambda>c. c = CHR ''.'' \<or> c = CHR '':'' \<or> c = CHR ''%'') (string4 w) = Some CHR ''.''"
proof -
  have "find (\<lambda>c. c = CHR ''.'' \<or> c = CHR '':'' \<or> c = CHR ''%'') (string4 w) \<noteq> None"
    using string4_has_dot[of w] by (auto simp: find_None_iff)
  then obtain c where c: "find (\<lambda>c. c = CHR ''.'' \<or> c = CHR '':'' \<or> c = CHR ''%'') (string4 w) = Some c" by blast
  then have "c = CHR ''.'' \<or> c = CHR '':'' \<or> c = CHR ''%''" "c \<in> set (string4 w)" using find_SomeD by fastforce+
  then have "c = CHR ''.''" using string4_chars by (fastforce simp: is_digit_def)
  with c show ?thesis by simp
qed

lemma parse_addr_string4 [simp]: "parse_addr (string4 w) = Some (V4 w)"
  by (simp add: parse_addr_def find_first_string4 parse_ipv4_iff)

lemma parse_addr_v4: "parse_addr s = Some (V4 w) \<longleftrightarrow> s = string4 w"
proof
  assume "parse_addr s = Some (V4 w)"
  then show "s = string4 w"
    by (auto simp: parse_addr_def parse_ipv4_iff parse_ipv6_def split: option.splits if_splits prod.splits)
qed simp

end
