(* ===== verification/Go_URL.thy ===== *)
theory Go_URL
  imports Net_Addr
begin

text \<open>
  The part of Go's \<open>net/url\<close> the policy checks use: \<open>url.Parse\<close> of a string that starts with
  \<open>https://\<close>, the host and port accessors, and the printed form of an origin. A parse error
  is \<open>None\<close>. The main fact is the shape of a string that parses to a bare host.
\<close>

subsection \<open>Percent-encoding\<close>

definition host_safe :: "char \<Rightarrow> bool" where
  "host_safe c \<longleftrightarrow> is_alpha c \<or> is_digit c \<or> c \<in> set ''!$&'()*+,;=:[]<>-_.~'' \<or> of_char c = (34::nat)"

definition hex_byte :: "char \<Rightarrow> char \<Rightarrow> char option" where
  "hex_byte a b =
     (case (hex_val a, hex_val b) of
        (Some x, Some y) \<Rightarrow> Some (char_of (16 * x + y))
      | _ \<Rightarrow> None)"

text \<open>\<open>unescape\<close> with the checks a mode adds: on a decoded byte, and on a byte taken as it is.\<close>

fun unescape :: "(char \<Rightarrow> bool) \<Rightarrow> (char \<Rightarrow> bool) \<Rightarrow> string \<Rightarrow> string option" where
  "unescape dec lit [] = Some []"
| "unescape dec lit (c # s) =
     (if c = CHR ''%'' then
        (case s of
           a # b # t \<Rightarrow>
             (case hex_byte a b of
                Some d \<Rightarrow> if dec d then map_option ((#) d) (unescape dec lit t) else None
              | None \<Rightarrow> None)
         | _ \<Rightarrow> None)
      else if lit c then map_option ((#) c) (unescape dec lit s) else None)"

definition ascii :: "char \<Rightarrow> bool" where
  "ascii c \<longleftrightarrow> (of_char c :: nat) < 128"

definition unescape_any :: "string \<Rightarrow> string option" where
  "unescape_any = unescape (\<lambda>_. True) (\<lambda>_. True)"

definition unescape_host :: "string \<Rightarrow> string option" where
  "unescape_host = unescape (\<lambda>d. \<not> ascii d \<or> d = CHR ''%'') (\<lambda>c. \<not> ascii c \<or> host_safe c)"

definition unescape_zone :: "string \<Rightarrow> string option" where
  "unescape_zone = unescape (\<lambda>d. d = CHR ''%'' \<or> d = CHR '' '' \<or> (ascii d \<and> host_safe d))
                            (\<lambda>c. \<not> ascii c \<or> host_safe c)"

definition escape_host :: "string \<Rightarrow> string" where
  "escape_host s =
     concat (map (\<lambda>c. if host_safe c then [c]
                      else [CHR ''%'', upper_char (hex_digit (of_char c div 16)), upper_char (hex_digit (of_char c mod 16))]) s)"

subsection \<open>Authority\<close>

definition validOptionalPort :: "string \<Rightarrow> bool" where
  "validOptionalPort p \<longleftrightarrow> p = [] \<or> (hd p = CHR '':'' \<and> list_all is_digit (tl p))"

definition parse_host :: "string \<Rightarrow> string option" where
  "parse_host h =
     (case cut_last CHR ''['' h of
        Some (pre, _) \<Rightarrow>
          if pre \<noteq> [] then None
          else (case cut_last CHR '']'' h of
                  None \<Rightarrow> None
                | Some (lit, port) \<Rightarrow>
                    if \<not> validOptionalPort port then None
                    else
                      let hostname = tl lit in
                      (case (case cut_str ''%25'' hostname of (a, b, zoned) \<Rightarrow>
                               if zoned then
                                 (case (unescape_host a, unescape_zone (''%25'' @ b)) of
                                    (Some x, Some y) \<Rightarrow> Some (x @ y) | _ \<Rightarrow> None)
                               else unescape_host hostname) of
                         None \<Rightarrow> None
                       | Some name \<Rightarrow>
                           (case parse_addr name of
                              None \<Rightarrow> None
                            | Some a \<Rightarrow> if Is4 a then None else Some (''['' @ name @ '']'' @ port))))
      | None \<Rightarrow>
          (case cut_char CHR '':'' h of (_, port, colon) \<Rightarrow>
             if colon \<and> \<not> list_all is_digit port then None else unescape_host h))"

definition validUserinfo :: "string \<Rightarrow> bool" where
  "validUserinfo s \<longleftrightarrow> list_all (\<lambda>c. is_alpha c \<or> is_digit c \<or> c \<in> set ''-._:~!$&'()*+,;=%@'') s"

definition userinfo_ok :: "string \<Rightarrow> bool" where
  "userinfo_ok s \<longleftrightarrow> validUserinfo s \<and>
     (case cut_char CHR '':'' s of (u, p, _) \<Rightarrow> unescape_any u \<noteq> None \<and> unescape_any p \<noteq> None)"

text \<open>The user information before the last \<open>@\<close> (\<open>True\<close> when there is one), and the host.\<close>

definition parse_authority :: "string \<Rightarrow> (bool \<times> string) option" where
  "parse_authority a =
     (case cut_last CHR ''@'' a of
        None \<Rightarrow> map_option (Pair False) (parse_host a)
      | Some (user, h) \<Rightarrow>
          (case parse_host h of
             None \<Rightarrow> None
           | Some host \<Rightarrow> if userinfo_ok user then Some (True, host) else None))"

subsection \<open>URLs\<close>

record url =
  u_User :: bool
  u_Host :: string
  u_Path :: string
  u_RawQuery :: string
  u_ForceQuery :: bool
  u_Fragment :: string

definition has_ctl :: "string \<Rightarrow> bool" where
  "has_ctl s \<longleftrightarrow> list_ex (\<lambda>c. (of_char c :: nat) < 32 \<or> of_char c = (127::nat)) s"

definition cut_query :: "string \<Rightarrow> string \<times> string \<times> bool" where
  "cut_query s =
     (case cut_char CHR ''?'' s of (a, q, f) \<Rightarrow> if f \<and> q = [] then (a, [], True) else (a, q, False))"

text \<open>\<open>parse_https s\<close> is \<open>url.Parse("https://" + s)\<close>.\<close>

definition parse_https :: "string \<Rightarrow> url option" where
  "parse_https s =
     (case cut_char CHR ''#'' s of (u, frag, _) \<Rightarrow>
        if has_ctl u then None
        else
          case cut_query u of (rest, query, force) \<Rightarrow>
          let authority = takeWhile (\<lambda>c. c \<noteq> CHR ''/'') rest;
              path = dropWhile (\<lambda>c. c \<noteq> CHR ''/'') rest in
          case (parse_authority authority, unescape_any path, unescape_any frag) of
            (Some (user, host), Some p, Some f) \<Rightarrow>
              Some \<lparr>u_User = user, u_Host = host, u_Path = p, u_RawQuery = query,
                    u_ForceQuery = force, u_Fragment = f\<rparr>
          | _ \<Rightarrow> None)"

definition splitHostPort :: "string \<Rightarrow> string \<times> string" where
  "splitHostPort hp =
     (let (h, port) = (case cut_last CHR '':'' hp of
                         None \<Rightarrow> (hp, [])
                       | Some (a, p) \<Rightarrow> if list_all is_digit p then (a, p) else (hp, []))
      in (if has_prefix ''['' h \<and> has_suffix '']'' h then butlast (tl h) else h, port))"

definition u_Hostname :: "url \<Rightarrow> string" where
  "u_Hostname u = fst (splitHostPort (u_Host u))"

definition u_Port :: "url \<Rightarrow> string" where
  "u_Port u = snd (splitHostPort (u_Host u))"

definition https_string :: "string \<Rightarrow> string" where
  "https_string host = ''https://'' @ escape_host host"

subsection \<open>Text the parser leaves alone\<close>

lemma unescape_id: "\<forall>c \<in> set s. c \<noteq> CHR ''%'' \<and> lit c \<Longrightarrow> unescape dec lit s = Some s"
  by (induction s) auto

lemma escape_host_id: "\<forall>c \<in> set s. host_safe c \<Longrightarrow> escape_host s = s"
  by (induction s) (auto simp: escape_host_def)

lemma parse_https_plain:
  assumes "CHR ''#'' \<notin> set h" and "CHR ''?'' \<notin> set h" and "CHR ''/'' \<notin> set h" and "CHR ''@'' \<notin> set h"
    and "\<not> has_ctl h" and "parse_host h = Some h"
  shows "parse_https h = Some \<lparr>u_User = False, u_Host = h, u_Path = [], u_RawQuery = [], u_ForceQuery = False, u_Fragment = []\<rparr>"
proof -
  have "takeWhile (\<lambda>c. c \<noteq> CHR ''/'') h = h" "dropWhile (\<lambda>c. c \<noteq> CHR ''/'') h = []"
    using assms(3) by (auto simp: takeWhile_eq_all_conv)
  moreover have "cut_last CHR ''@'' h = None" using assms(4) by (simp add: cut_last_None)
  ultimately show ?thesis
    using assms by (simp add: parse_https_def cut_query_def parse_authority_def unescape_any_def
        del: takeWhile_eq_all_conv dropWhile_eq_Nil_conv)
qed

end
