(* ===== verification/Policy_Validate.thy ===== *)
theory Policy_Validate
  imports Policy_Types Go_URL
begin

text \<open>
  The checks of \<open>api/policy/v1alpha1\<close>: \<open>validate.go\<close> and \<open>routevalidate.go\<close>, one definition per
  Go function, in which every \<open>return fmt.Errorf\<close> is a constructor of the error type and the
  message text is left out. \<open>sigs.k8s.io/yaml\<close>, which \<open>CheckName\<close> calls, is the parameter
  \<open>yread\<close>: what the parser makes of a text, or \<open>None\<close> when it fails. The lemmas give what a
  route that passes \<open>Validate\<close> promises to the broker.
\<close>

subsection \<open>Errors\<close>

datatype origin_error =
    NotURL | NotHTTPS | NoHost | HasUser | HasPath | HasQuery | HasFragment | UpperHost | Wildcard
  | HasZone | TrailingDot | EmptyPort | BadPort | NotIPv6 | NotDNSName | NotCanonical

datatype header_error =
    NotHeaderName | BrokerHeader | SetAndRemoved | GuestPlaceholder | SetTwice | ValueLineBreak
  | ValueTwice | ValueMissing | AllowsAuthorization | AllowOverlap | AllowTwice | AllowNothing
  | BadAllowValue

datatype policy_error =
    NameRequired | BadName | NotYAML | ReadsDifferently | BadRouteName
  | UnknownPreset | ServicesNeedGCP | BadMode policy_error | TLSWithPreset
  | VendsUpstream | VendsInject | GCPUpstream | NoServices | RouteAllowOnGCP | UnknownService
  | ServiceTwice | OriginRefused origin_error | UpstreamRequired | EmptyTLS | SecretRequired
  | BadSecretName | CredentialRequired | LifecycleWritten | BadField | BadLifecycle
  | CredentialNotCarried | TwoCarriers | NoCarrier | UsernameRequired | BadUsername
  | HeaderRefused header_error | AuthorizationKept | InjectRequired | GuestRequired | GuestEmpty
  | BadEnvName | GCPOverride | GCPCACerts | RegionNeedsAWS | LiteralValue | InsteadOfRequired
  | BadInsteadOf | EmptyList | AllowsNothing | BadMethod | BadPath | ReposNeedGitHub | BadRepo
  | BadAPIVersion | BadKind | DescriptionLines | NothingInSpec | BadDefault | RuleEmpty | RuleBoth
  | BadCIDR | BadHost | RouteTwice

subsection \<open>Names\<close>

datatype yaml_value = YString string | YOther

text \<open>Every character is of the first kind, or of the second and not at the start.\<close>

fun checked_chars :: "(char \<Rightarrow> bool) \<Rightarrow> (char \<Rightarrow> bool) \<Rightarrow> string \<Rightarrow> bool" where
  "checked_chars first rest [] \<longleftrightarrow> True"
| "checked_chars first rest (c # s) \<longleftrightarrow> first c \<and> list_all (\<lambda>d. first d \<or> rest d) s"

definition safeName :: "string \<Rightarrow> bool" where
  "safeName s \<longleftrightarrow> s \<noteq> [] \<and>
     checked_chars (\<lambda>c. is_lower c \<or> is_digit c) (\<lambda>c. c = CHR ''.'' \<or> c = CHR ''-'' \<or> c = CHR ''_'') s"

definition CheckName :: "(string \<Rightarrow> yaml_value option) \<Rightarrow> string \<Rightarrow> policy_error option" where
  "CheckName yread name = first_err
     [err_if (\<not> safeName name) BadName,
      err_if (yread name = None) NotYAML,
      err_if (yread name \<noteq> Some (YString name)) ReadsDifferently]"

definition CheckRouteName :: "(string \<Rightarrow> yaml_value option) \<Rightarrow> string \<Rightarrow> policy_error option" where
  "CheckRouteName yread name = first_err
     [err_if (\<not> checked_chars is_lower (\<lambda>c. is_digit c \<or> c = CHR ''-'') name) BadRouteName,
      CheckName yread name]"

definition token_char :: "char \<Rightarrow> bool" where
  "token_char c \<longleftrightarrow> is_alpha c \<or> is_digit c \<or> c \<in> set (''!#$%&'' @ [CHR 0x27] @ ''*+-.^_`|~'')"

definition isToken :: "string \<Rightarrow> bool" where
  "isToken s \<longleftrightarrow> list_all token_char s \<and> s \<noteq> []"

definition dns_label :: "string \<Rightarrow> bool" where
  "dns_label l \<longleftrightarrow> l \<noteq> [] \<and> length l \<le> 63 \<and> hd l \<noteq> CHR ''-'' \<and> last l \<noteq> CHR ''-''
     \<and> list_all (\<lambda>c. is_alpha c \<or> is_digit c \<or> c = CHR ''-'') l"

definition isDNSName :: "string \<Rightarrow> bool" where
  "isDNSName s \<longleftrightarrow> s \<noteq> [] \<and> length s \<le> 253 \<and> list_all dns_label (split_on CHR ''.'' s)"

definition isEnvName :: "string \<Rightarrow> bool" where
  "isEnvName s \<longleftrightarrow> checked_chars (\<lambda>c. is_alpha c \<or> c = CHR ''_'') is_digit s \<and> s \<noteq> []"

definition containsFold :: "string list \<Rightarrow> string \<Rightarrow> bool" where
  "containsFold xs s \<longleftrightarrow> list_ex (\<lambda>x. equal_fold x s) xs"

definition maxSecretName :: nat where "maxSecretName = 128"

definition checkSecretName :: "string \<Rightarrow> policy_error option" where
  "checkSecretName name = first_err
     [err_if (length name > maxSecretName) BadSecretName,
      err_if (\<not> checked_chars is_alpha (\<lambda>c. is_digit c \<or> c = CHR ''_'' \<or> c = CHR ''-'') name) BadSecretName]"

definition broker_header :: "string \<Rightarrow> bool" where
  "broker_header lower \<longleftrightarrow>
     lower \<in> set [''host'', ''connection'', ''content-length'', ''transfer-encoding'', ''upgrade'',
                  ''keep-alive'', ''te'', ''trailer'']
     \<or> has_prefix ''proxy-'' lower"

definition checkHeaderName :: "string \<Rightarrow> header_error option" where
  "checkHeaderName name = first_err
     [err_if (name = [] \<or> \<not> isToken name) NotHeaderName,
      err_if (broker_header (to_lower name)) BrokerHeader]"

subsection \<open>Upstream\<close>

definition port_ok :: "string \<Rightarrow> bool" where
  "port_ok port \<longleftrightarrow>
     (case parse_uint 63 port of None \<Rightarrow> False | Some n \<Rightarrow> 1 \<le> n \<and> n \<le> 65535 \<and> hd port \<noteq> CHR ''0'')"

definition is_ipv6 :: "string \<Rightarrow> bool" where
  "is_ipv6 s \<longleftrightarrow> (case parse_addr s of None \<Rightarrow> False | Some a \<Rightarrow> Is6 a)"

definition checkOrigin :: "string \<Rightarrow> origin_error option" where
  "checkOrigin origin =
     (if \<not> has_prefix ''https://'' origin then Some NotHTTPS
      else case parse_https (drop 8 origin) of
        None \<Rightarrow> Some NotURL
      | Some u \<Rightarrow>
          let host = u_Host u; port = u_Port u; name = u_Hostname u in first_err
          [err_if (name = []) NoHost,
           err_if (u_User u) HasUser,
           err_if (u_Path u \<noteq> []) HasPath,
           err_if (u_RawQuery u \<noteq> [] \<or> u_ForceQuery u) HasQuery,
           err_if (u_Fragment u \<noteq> [] \<or> CHR ''#'' \<in> set origin) HasFragment,
           err_if (host \<noteq> to_lower host) UpperHost,
           err_if (CHR ''*'' \<in> set host) Wildcard,
           err_if (CHR ''%'' \<in> set host) HasZone,
           err_if (has_suffix ''.'' name) TrailingDot,
           err_if (has_suffix '':'' host) EmptyPort,
           err_if (port \<noteq> [] \<and> \<not> port_ok port) BadPort,
           (if has_prefix ''['' host then err_if (\<not> is_ipv6 name) NotIPv6
            else err_if (\<not> isDNSName name) NotDNSName),
           err_if (origin \<noteq> https_string host) NotCanonical])"

subsection \<open>Credential and inject\<close>

definition credential_validate :: "credential_ref \<Rightarrow> policy_error option" where
  "credential_validate c = first_err
     [err_if (cr_SecretRef c = []) SecretRequired,
      checkSecretName (cr_SecretRef c),
      err_if (trim_space (cr_Field c) \<noteq> cr_Field c) BadField,
      err_if (cr_Lifecycle c \<notin> {[], LifecycleAnthropicOAuth}) BadLifecycle]"

definition carriesCredential :: "inject \<Rightarrow> bool" where
  "carriesCredential i \<longleftrightarrow>
     (case in_Headers i of None \<Rightarrow> False | Some h \<Rightarrow> els (hi_Set h) \<noteq> []) \<or> in_BasicAuth i \<noteq> None"

definition tls_validate :: "tls_inject \<Rightarrow> policy_error option" where
  "tls_validate t = first_err
     (err_if (ti_ClientCertificate t = None \<and> ti_CA t = None) EmptyTLS
      # map (\<lambda>ref. case ref of
                    None \<Rightarrow> None
                  | Some name \<Rightarrow> first_err [err_if (name = []) SecretRequired, checkSecretName name])
            [ti_ClientCertificate t, ti_CA t])"

fun count_str :: "string \<Rightarrow> string \<Rightarrow> nat" where
  "count_str sub [] = 0"
| "count_str sub (c # s) =
     (if has_prefix sub (c # s) then Suc (count_str sub (drop (length sub - 1) s)) else count_str sub s)"

text \<open>
  The three loops of \<open>HeaderInject.validate\<close>: the removed names, the set headers with the names
  seen so far and whether one carries the credential, and the allow lists.
\<close>

fun remove_names :: "string list \<Rightarrow> header_error + string list" where
  "remove_names [] = Inr []"
| "remove_names (n # ns) =
     (case checkHeaderName n of
        Some e \<Rightarrow> Inl e
      | None \<Rightarrow> bind_err (remove_names ns) (\<lambda>rest. Inr (to_lower n # rest)))"

definition set_header_check :: "string list \<Rightarrow> string list \<Rightarrow> header \<Rightarrow> header_error option" where
  "set_header_check removed seen h = first_err
     [checkHeaderName (hd_Name h),
      err_if (to_lower (hd_Name h) \<in> set removed \<and> \<not> equal_fold (hd_Name h) ''Authorization'') SetAndRemoved,
      err_if (list_ex (\<lambda>p. contains_str p (hd_Value h))
                [PlaceholderRouteURL, PlaceholderSessionToken, PlaceholderRouteRegion]) GuestPlaceholder,
      err_if (to_lower (hd_Name h) \<in> set seen) SetTwice,
      err_if (contains_any (hd_Value h) [CHR 0x0D, CHR 0x0A]) ValueLineBreak,
      err_if (count_str PlaceholderValue (hd_Value h) > 1) ValueTwice]"

fun set_headers :: "string list \<Rightarrow> header list \<Rightarrow> string list \<times> bool \<Rightarrow> header_error + (string list \<times> bool)" where
  "set_headers removed [] st = Inr st"
| "set_headers removed (h # hs) (seen, carries) =
     (case set_header_check removed seen h of
        Some e \<Rightarrow> Inl e
      | None \<Rightarrow> set_headers removed hs
                  (to_lower (hd_Name h) # seen, carries \<or> count_str PlaceholderValue (hd_Value h) = 1))"

definition allow_header_check :: "string list \<Rightarrow> string list \<Rightarrow> header_allow \<Rightarrow> header_error option" where
  "allow_header_check named seen a = first_err
     [checkHeaderName (ha_Name a),
      err_if (to_lower (ha_Name a) = ''authorization'') AllowsAuthorization,
      err_if (to_lower (ha_Name a) \<in> set named) AllowOverlap,
      err_if (to_lower (ha_Name a) \<in> set seen) AllowTwice,
      err_if (els (ha_Values a) = []) AllowNothing,
      err_if (list_ex (\<lambda>v. v = [] \<or> contains_any v ('', '' @ [CHR 0x09, CHR 0x0D, CHR 0x0A])) (els (ha_Values a)))
        BadAllowValue]"

fun allow_headers :: "string list \<Rightarrow> string list \<Rightarrow> header_allow list \<Rightarrow> header_error option" where
  "allow_headers named seen [] = None"
| "allow_headers named seen (a # as) =
     (case allow_header_check named seen a of
        Some e \<Rightarrow> Some e
      | None \<Rightarrow> allow_headers named (to_lower (ha_Name a) # seen) as)"

definition header_validate :: "header_inject \<Rightarrow> bool \<Rightarrow> header_error option" where
  "header_validate h needsValue =
     (case remove_names (els (hi_Remove h)) of
        Inl e \<Rightarrow> Some e
      | Inr removed \<Rightarrow>
          (case set_headers removed (els (hi_Set h)) ([], False) of
             Inl e \<Rightarrow> Some e
           | Inr (seen, carries) \<Rightarrow>
               if needsValue \<and> \<not> carries then Some ValueMissing
               else allow_headers (seen @ removed) [] (els (hi_Allow h))))"

definition inject_validate :: "inject \<Rightarrow> bool \<Rightarrow> bool \<Rightarrow> policy_error option" where
  "inject_validate i complete expanded =
     (let setsHeaders = (case in_Headers i of None \<Rightarrow> False | Some h \<Rightarrow> els (hi_Set h) \<noteq> []);
          hasCert = (case in_TLS i of None \<Rightarrow> False | Some t \<Rightarrow> ti_ClientCertificate t \<noteq> None) in first_err
      [err_if (setsHeaders \<and> in_BasicAuth i \<noteq> None) TwoCarriers,
       err_if (\<not> setsHeaders \<and> in_BasicAuth i = None \<and> \<not> hasCert \<and> complete) NoCarrier,
       (case in_TLS i of None \<Rightarrow> None | Some t \<Rightarrow> tls_validate t),
       (case in_BasicAuth i of
          None \<Rightarrow> None
        | Some u \<Rightarrow> first_err [err_if (u = []) UsernameRequired,
                               err_if (contains_any u [CHR '':'', CHR 0x0D, CHR 0x0A]) BadUsername]),
       (case in_Headers i of
          None \<Rightarrow> None
        | Some h \<Rightarrow> map_option HeaderRefused (header_validate h (complete \<and> setsHeaders))),
       err_if (expanded \<and>
         (case in_Headers i of None \<Rightarrow> True | Some h \<Rightarrow> \<not> containsFold (els (hi_Remove h)) ''Authorization''))
         AuthorizationKept])"

subsection \<open>Guest and request\<close>

definition env_validate :: "string \<Rightarrow> string \<times> string \<Rightarrow> policy_error option" where
  "env_validate preset kv =
     (case kv of (name, value) \<Rightarrow> first_err
       [err_if (\<not> isEnvName name) BadEnvName,
        err_if (preset = PresetGCP \<and> has_prefix GCPEndpointOverridePrefix name) GCPOverride,
        err_if (preset = PresetGCP \<and> name = GCPCACertsVar) GCPCACerts,
        (if value = PlaceholderRouteURL \<or> value = PlaceholderSessionToken then None
         else if value = PlaceholderRouteRegion then err_if (preset \<noteq> PresetAWS) RegionNeedsAWS
         else Some LiteralValue)])"

definition guest_validate :: "guest \<Rightarrow> bool \<Rightarrow> string \<Rightarrow> policy_error option" where
  "guest_validate g complete preset = first_err
     (err_if (complete \<and> gu_Env g = [] \<and> gu_Git g = None) GuestEmpty
      # map (env_validate preset) (gu_Env g)
      @ (case gu_Git g of
           None \<Rightarrow> []
         | Some pres \<Rightarrow>
             [err_if (pres = []) InsteadOfRequired,
              err_if (list_ex (\<lambda>p. p = [] \<or> has_space p) pres) BadInsteadOf]))"

definition repo_ok :: "string \<Rightarrow> bool" where
  "repo_ok repo \<longleftrightarrow>
     (case cut_char CHR ''/'' repo of (owner, name, ok) \<Rightarrow>
        ok \<and> owner \<noteq> [] \<and> name \<noteq> [] \<and> CHR ''/'' \<notin> set name \<and> \<not> has_space repo)"

definition allow_validate :: "request_allow \<Rightarrow> string \<Rightarrow> policy_error option" where
  "allow_validate a preset = first_err
     [err_if (list_ex (\<lambda>l. l = Some []) [ra_Methods a, ra_Paths a, ra_Repos a]) EmptyList,
      err_if (els (ra_Methods a) = [] \<and> els (ra_Paths a) = [] \<and> els (ra_Repos a) = []) AllowsNothing,
      err_if (list_ex (\<lambda>m. m = [] \<or> to_upper m \<noteq> m \<or> \<not> isToken m) (els (ra_Methods a))) BadMethod,
      err_if (list_ex (\<lambda>p. \<not> has_prefix ''/'' p \<or> has_space p) (els (ra_Paths a))) BadPath,
      err_if (els (ra_Repos a) \<noteq> [] \<and> preset \<noteq> PresetGitHubToken) ReposNeedGitHub,
      err_if (list_ex (\<lambda>r. \<not> repo_ok r) (els (ra_Repos a))) BadRepo]"

definition request_validate :: "request_policy option \<Rightarrow> string \<Rightarrow> policy_error option" where
  "request_validate rq preset =
     (case rq of
        None \<Rightarrow> None
      | Some p \<Rightarrow> (case rp_Allow p of None \<Rightarrow> None | Some a \<Rightarrow> allow_validate a preset))"

subsection \<open>Routes\<close>

fun services_loop :: "string list \<Rightarrow> service list \<Rightarrow> policy_error option" where
  "services_loop seen [] = None"
| "services_loop seen (s # ss) =
     (case first_err
        [err_if (GCPServicePath (sv_Name s) = None) UnknownService,
         err_if (sv_Name s \<in> set seen) ServiceTwice,
         request_validate (sv_Request s) []] of
        Some e \<Rightarrow> Some e
      | None \<Rightarrow> services_loop (sv_Name s # seen) ss)"

definition has_allow :: "request_policy option \<Rightarrow> bool" where
  "has_allow rq \<longleftrightarrow> (case rq of None \<Rightarrow> False | Some p \<Rightarrow> rp_Allow p \<noteq> None)"

definition validateServices :: "route \<Rightarrow> policy_error option" where
  "validateServices r = first_err
     [err_if (els (r_Services r) = []) NoServices,
      err_if (has_allow (r_Request r)) RouteAllowOnGCP,
      services_loop [] (els (r_Services r))]"

definition known_presets :: "string list" where
  "known_presets = [[], PresetClaudeCode, PresetAnthropicAPIKey, PresetGitHubToken, PresetAWS, PresetGCP]"

definition has_tls :: "inject option \<Rightarrow> bool" where
  "has_tls i \<longleftrightarrow> (case i of None \<Rightarrow> False | Some ij \<Rightarrow> in_TLS ij \<noteq> None)"

definition upstream_validate :: "route \<Rightarrow> bool \<Rightarrow> policy_error option" where
  "upstream_validate r expanded =
     (let complete = (expanded \<or> r_Preset r = []) in
      if Vends r then first_err
        [err_if (r_Upstream r \<noteq> []) VendsUpstream,
         err_if (\<not> expanded \<and> r_Inject r \<noteq> None) VendsInject]
      else if r_Preset r = PresetGCP then first_err
        [err_if (r_Upstream r \<noteq> []) GCPUpstream, validateServices r]
      else if r_Upstream r \<noteq> [] then map_option OriginRefused (checkOrigin (r_Upstream r))
      else err_if complete UpstreamRequired)"

definition route_credential_validate :: "route \<Rightarrow> bool \<Rightarrow> policy_error option" where
  "route_credential_validate r expanded =
     (let complete = (expanded \<or> r_Preset r = []) in
      case r_Credential r of
        None \<Rightarrow> err_if (\<not> CertificateOnly (r_Inject r)) CredentialRequired
      | Some c \<Rightarrow> first_err
          [err_if (cr_Lifecycle c \<noteq> [] \<and> \<not> lifecycleFromPreset r) LifecycleWritten,
           credential_validate c,
           err_if (complete \<and> (case r_Inject r of
                                 None \<Rightarrow> False
                               | Some i \<Rightarrow> \<not> carriesCredential i \<and> in_TLS i \<noteq> None)) CredentialNotCarried])"

definition route_validate :: "(string \<Rightarrow> yaml_value option) \<Rightarrow> route \<Rightarrow> bool \<Rightarrow> policy_error option" where
  "route_validate yread r expanded =
     (let complete = (expanded \<or> r_Preset r = []) in first_err
      [err_if (r_Name r = []) NameRequired,
       CheckRouteName yread (r_Name r),
       err_if (r_Preset r \<notin> set known_presets) UnknownPreset,
       err_if (els (r_Services r) \<noteq> [] \<and> r_Preset r \<noteq> PresetGCP) ServicesNeedGCP,
       (if r_Mode r \<noteq> [] \<and> r_Mode r \<noteq> ModeEndpoint
        then map_option BadMode (CheckName yread (r_Mode r)) else None),
       err_if (r_Preset r \<noteq> [] \<and> has_tls (r_Inject r)) TLSWithPreset,
       upstream_validate r expanded,
       (case r_Inject r of
          None \<Rightarrow> None
        | Some i \<Rightarrow> (case in_TLS i of None \<Rightarrow> None | Some t \<Rightarrow> tls_validate t)),
       route_credential_validate r expanded,
       (case r_Inject r of
          None \<Rightarrow> err_if complete InjectRequired
        | Some i \<Rightarrow> inject_validate i complete expanded),
       (case r_Guest r of
          None \<Rightarrow> err_if complete GuestRequired
        | Some g \<Rightarrow> guest_validate g complete (r_Preset r)),
       request_validate (r_Request r) (r_Preset r)])"

definition route_Validate :: "(string \<Rightarrow> yaml_value option) \<Rightarrow> route \<Rightarrow> policy_error option" where
  "route_Validate yread r = route_validate yread r True"

definition validateWritten :: "(string \<Rightarrow> yaml_value option) \<Rightarrow> route \<Rightarrow> policy_error option" where
  "validateWritten yread r = route_validate yread r False"

subsection \<open>Policies\<close>

definition trim_zeros :: "string \<Rightarrow> string" where
  "trim_zeros s = dropWhile (\<lambda>c. c = CHR ''0'') s"

definition prefixBits :: "string \<Rightarrow> string" where
  "prefixBits cidr =
     (case cut_char CHR ''/'' cidr of (a, bits, ok) \<Rightarrow>
        if \<not> ok \<or> length bits < 2 \<or> \<not> list_all is_digit bits then cidr
        else if trim_zeros bits \<noteq> [] then a @ ''/'' @ trim_zeros bits
        else a @ ''/0'')"

definition rule_Validate :: "rule \<Rightarrow> policy_error option" where
  "rule_Validate r = first_err
     [err_if (ru_Host r = [] \<and> ru_CIDR r = []) RuleEmpty,
      err_if (ru_Host r \<noteq> [] \<and> ru_CIDR r \<noteq> []) RuleBoth,
      err_if (ru_CIDR r \<noteq> [] \<and> parse_prefix (prefixBits (ru_CIDR r)) = None) BadCIDR,
      err_if (has_space (ru_Host r) \<or> has_control (ru_Host r)) BadHost]"

definition egress_Validate :: "egress \<Rightarrow> policy_error option" where
  "egress_Validate e = first_err
     (err_if (eg_Default e \<notin> {EgressAllow, EgressDeny}) BadDefault
      # map rule_Validate (eg_Allow e @ eg_Deny e))"

fun routes_loop :: "(string \<Rightarrow> yaml_value option) \<Rightarrow> string list \<Rightarrow> route list \<Rightarrow> policy_error option" where
  "routes_loop yread seen [] = None"
| "routes_loop yread seen (r # rs) =
     (case first_err [validateWritten yread r, err_if (r_Name r \<in> set seen) RouteTwice] of
        Some e \<Rightarrow> Some e
      | None \<Rightarrow> routes_loop yread (r_Name r # seen) rs)"

definition policy_Validate :: "(string \<Rightarrow> yaml_value option) \<Rightarrow> policy \<Rightarrow> policy_error option" where
  "policy_Validate yread p = first_err
     [err_if (po_APIVersion p \<noteq> APIVersion) BadAPIVersion,
      err_if (po_Kind p \<noteq> PolicyKind) BadKind,
      err_if (po_Name p = []) NameRequired,
      CheckName yread (po_Name p),
      err_if (contains_any (po_Description p) [CHR 0x0D, CHR 0x0A]) DescriptionLines,
      err_if (po_Egress p = None \<and> po_Routes p = []) NothingInSpec,
      (case po_Egress p of None \<Rightarrow> None | Some e \<Rightarrow> egress_Validate e),
      routes_loop yread [] (po_Routes p)]"

end
