(* ===== verification/Policy_Origin.thy ===== *)
theory Policy_Origin
  imports Policy_Validate
begin

text \<open>
  What \<open>checkOrigin\<close> accepts, as a grammar: \<open>https://\<close>, a lower-case DNS name or a bracketed IPv6
  address, and an optional port in canonical decimal. The proofs go through the URL parser in
  both directions.
\<close>

definition origin_name :: "string \<Rightarrow> bool" where
  "origin_name name \<longleftrightarrow>
     (isDNSName name \<and> to_lower name = name)
     \<or> (\<exists>a w. name = ''['' @ a @ '']'' \<and> to_lower a = a \<and> \<not> has_suffix ''.'' a \<and> parse_addr a = Some (V6 w []))"

definition origin_port :: "string \<Rightarrow> bool" where
  "origin_port p \<longleftrightarrow> p = [] \<or> (\<exists>n. 1 \<le> n \<and> n \<le> 65535 \<and> p = '':'' @ show_nat n)"

definition dns_char :: "char \<Rightarrow> bool" where
  "dns_char c \<longleftrightarrow> is_alpha c \<or> is_digit c \<or> c = CHR ''-'' \<or> c = CHR ''.''"

lemma isDNSName_chars: "isDNSName s \<Longrightarrow> \<forall>c \<in> set s. dns_char c"
  using set_split_on[of s "CHR ''.''"]
  by (fastforce simp: isDNSName_def dns_label_def dns_char_def list_all_iff)

lemma isDNSName_no_dot: "isDNSName s \<Longrightarrow> \<not> has_suffix ''.'' s"
proof
  assume dns: "isDNSName s" and "has_suffix ''.'' s"
  then obtain t where s: "s = t @ [CHR ''.'']" by (auto simp: has_suffix_iff)
  have "[] \<in> set (split_on CHR ''.'' s)" by (simp add: s split_on_append)
  then show False using dns by (auto simp: isDNSName_def dns_label_def list_all_iff)
qed

definition origin_char :: "char \<Rightarrow> bool" where
  "origin_char c \<longleftrightarrow> host_safe c \<and> ascii c \<and> c \<notin> set ''%#/?@*'' \<and> 32 \<le> (of_char c :: nat) \<and> of_char c \<noteq> (127::nat)"

lemma dns_char_not: "dns_char c \<Longrightarrow> origin_char c \<and> c \<notin> set '':[]''"
  by (auto simp: origin_char_def dns_char_def is_alpha_def is_lower_nat is_upper_nat is_digit_nat host_safe_def ascii_def)

lemma v6_char_not:
  "v6_char c \<Longrightarrow> origin_char c \<and> c \<notin> set ''[]''"
  by (auto simp: origin_char_def v6_char_def is_hex_def hex_val_def is_alpha_def is_lower_nat is_upper_nat is_digit_nat
      host_safe_def ascii_def char_le_nat split: if_splits)

lemma digit_not:
  "is_digit c \<Longrightarrow> origin_char c \<and> c \<notin> set '':[]''"
  by (rule dns_char_not) (simp add: dns_char_def)

lemma splitHostPort_join:
  assumes "origin_name name" and "origin_port p"
  shows "splitHostPort (name @ p) = ((if has_prefix ''['' name then butlast (tl name) else name), tl p)"
proof -
  have col: "cut_last CHR '':'' (name @ p) = (if p = [] then cut_last CHR '':'' name else Some (name, tl p))"
  proof (cases "p = []")
    case False
    then obtain n where p: "p = CHR '':'' # show_nat n" using assms(2) by (auto simp: origin_port_def)
    have "CHR '':'' \<notin> set (show_nat n)" using show_nat_digits digit_not by fastforce
    then show ?thesis by (simp add: p cut_last_Some)
  qed simp
  have digs: "list_all is_digit (tl p)"
    using assms(2) by (auto simp: origin_port_def list_all_iff dest: show_nat_digits)
  show ?thesis
    using assms(1) unfolding origin_name_def
  proof (elim disjE exE conjE)
    assume dns: "isDNSName name"
    have nc: "CHR '':'' \<notin> set name" "CHR ''['' \<notin> set name"
      using isDNSName_chars[OF dns] dns_char_not by fastforce+
    then have "\<not> has_prefix ''['' name" by (auto simp: has_prefix_iff)
    moreover have "cut_last CHR '':'' name = None" using nc by (simp add: cut_last_None)
    ultimately show ?thesis using digs by (cases "p = []") (simp_all add: splitHostPort_def col)
  next
    fix a w assume name: "name = ''['' @ a @ '']''"
    have br: "has_prefix ''['' name" "has_suffix '']'' name"
      by (auto simp: name has_prefix_iff has_suffix_iff)
    have no: "cut_last CHR '':'' name = Some (x, y) \<Longrightarrow> \<not> list_all is_digit y" for x y
    proof
      assume "cut_last CHR '':'' name = Some (x, y)" and l: "list_all is_digit y"
      then have "name = x @ CHR '':'' # y" by (simp add: cut_last_Some)
      then have "last name = last (CHR '':'' # y)" by simp
      then have "last (CHR '':'' # y) = CHR '']''" by (simp add: name)
      then show False using l digit_not[of "CHR '']''"] by (cases y rule: rev_cases) auto
    qed
    show ?thesis
    proof (cases "p = []")
      case True
      then show ?thesis using no br by (auto simp: splitHostPort_def col split: option.splits)
    next
      case False
      then show ?thesis using digs br by (simp add: splitHostPort_def col)
    qed
  qed
qed

lemma origin_name_plain:
  assumes "origin_name name" and "origin_port p" and "c \<in> set (name @ p)"
  shows "origin_char c"
proof -
  have brackets: "origin_char CHR ''['' \<and> origin_char CHR '']'' \<and> origin_char CHR '':''"
    by (simp add: origin_char_def host_safe_def ascii_def)
  consider (port) "c \<in> set p" | (name) "c \<in> set name" using assms(3) by auto
  then show ?thesis
  proof cases
    case port
    then have "is_digit c \<or> c = CHR '':''"
      using assms(2) by (auto simp: origin_port_def dest: show_nat_digits)
    then show ?thesis using brackets digit_not by blast
  next
    case name
    show ?thesis using assms(1) unfolding origin_name_def
    proof (elim disjE exE conjE)
      assume "isDNSName name"
      then show ?thesis using name isDNSName_chars dns_char_not by blast
    next
      fix a w assume "name = ''['' @ a @ '']''" and "parse_addr a = Some (V6 w [])"
      then have "v6_char c \<or> c = CHR ''['' \<or> c = CHR '']''"
        using name parse_addr_v6_chars by fastforce
      then show ?thesis using brackets v6_char_not by blast
    qed
  qed
qed

lemma origin_port_valid: "origin_port p \<Longrightarrow> validOptionalPort p"
  by (auto simp: origin_port_def validOptionalPort_def list_all_iff dest: show_nat_digits)

lemma parse_host_origin:
  assumes "origin_name name" and "origin_port p"
  shows "parse_host (name @ p) = Some (name @ p)"
proof -
  have plain: "\<forall>c \<in> set (name @ p). c \<noteq> CHR ''%'' \<and> (\<not> ascii c \<or> host_safe c)"
    using origin_name_plain[OF assms] by (auto simp: origin_char_def)
  have pd: "\<forall>c \<in> set p. is_digit c \<or> c = CHR '':''"
    using assms(2) by (auto simp: origin_port_def dest: show_nat_digits)
  have pb: "CHR ''['' \<notin> set p" "CHR '']'' \<notin> set p"
    using pd digit_not by fastforce+
  show ?thesis
    using assms(1) unfolding origin_name_def
  proof (elim disjE exE conjE)
    assume dns: "isDNSName name"
    have nc: "CHR '':'' \<notin> set name" "CHR ''['' \<notin> set name"
      using isDNSName_chars[OF dns] dns_char_not by fastforce+
    have "cut_char CHR '':'' (name @ p) = (name, tl p, p \<noteq> [])"
      using nc assms(2) by (auto simp: origin_port_def)
    moreover have "list_all is_digit (tl p)"
      using assms(2) by (auto simp: origin_port_def list_all_iff dest: show_nat_digits)
    moreover have "cut_last CHR ''['' (name @ p) = None" using nc pb by (simp add: cut_last_None)
    ultimately show ?thesis
      using unescape_id[OF plain] by (simp add: parse_host_def unescape_host_def)
  next
    fix a w assume name: "name = ''['' @ a @ '']''" and pa: "parse_addr a = Some (V6 w [])"
    have ch: "\<forall>c \<in> set a. v6_char c" using parse_addr_v6_chars[OF pa] by blast
    moreover have "\<not> v6_char CHR ''[''" "\<not> v6_char CHR '']''" "\<not> v6_char CHR ''%''"
      by (auto dest: v6_char_not simp: origin_char_def)
    ultimately have nb: "CHR ''['' \<notin> set a" "CHR '']'' \<notin> set a" "CHR ''%'' \<notin> set a"
      by blast+
    have "cut_last CHR ''['' (name @ p) = Some ([], a @ '']'' @ p)"
      using nb pb by (simp add: name cut_last_Some)
    moreover have "cut_last CHR '']'' (name @ p) = Some (''['' @ a, p)"
      using pb by (simp add: name cut_last_Some)
    moreover have "cut_str ''%25'' a = (a, [], False)"
    proof -
      obtain x y f where c: "cut_str ''%25'' a = (x, y, f)" by (metis prod_cases3)
      then have "\<not> f" using cut_str_spec[OF c] nb(3) by auto
      then show ?thesis using c cut_str_spec[OF c] by auto
    qed
    moreover have "unescape_host a = Some a"
      unfolding unescape_host_def using ch nb(3) v6_char_not by (intro unescape_id) (auto simp: origin_char_def)
    ultimately show ?thesis
      using origin_port_valid[OF assms(2)] pa by (simp add: parse_host_def name)
  qed
qed

lemma checkOrigin_None:
  "checkOrigin origin = None \<longleftrightarrow> has_prefix ''https://'' origin \<and>
     (\<exists>u. parse_https (drop 8 origin) = Some u \<and> u_Hostname u \<noteq> [] \<and> \<not> u_User u \<and> u_Path u = []
        \<and> u_RawQuery u = [] \<and> \<not> u_ForceQuery u \<and> u_Fragment u = [] \<and> CHR ''#'' \<notin> set origin
        \<and> to_lower (u_Host u) = u_Host u \<and> CHR ''*'' \<notin> set (u_Host u) \<and> CHR ''%'' \<notin> set (u_Host u)
        \<and> \<not> has_suffix ''.'' (u_Hostname u) \<and> \<not> has_suffix '':'' (u_Host u)
        \<and> (u_Port u = [] \<or> port_ok (u_Port u))
        \<and> (if has_prefix ''['' (u_Host u) then is_ipv6 (u_Hostname u)
           else isDNSName (u_Hostname u))
        \<and> origin = https_string (u_Host u))"
proof (cases "parse_https (drop 8 origin)")
  case (Some u)
  have low: "h \<noteq> to_lower h \<longleftrightarrow> \<not> to_lower h = h" for h by metis
  show ?thesis
    unfolding checkOrigin_def Let_def Some option.case low
    by (simp del: first_err.simps cong: if_cong)
next
  case None
  then show ?thesis by (simp add: checkOrigin_def)
qed

lemma checkOrigin_complete:
  assumes "origin_name name" and "origin_port p"
  shows "checkOrigin (''https://'' @ name @ p) = None"
proof -
  have ch: "c \<in> set (name @ p) \<Longrightarrow> origin_char c" for c using origin_name_plain[OF assms] .
  have no: "CHR ''#'' \<notin> set (name @ p)" "CHR ''?'' \<notin> set (name @ p)" "CHR ''/'' \<notin> set (name @ p)"
     "CHR ''@'' \<notin> set (name @ p)" "CHR ''*'' \<notin> set (name @ p)" "CHR ''%'' \<notin> set (name @ p)"
  proof -
    have neg: "\<not> origin_char CHR ''#''" "\<not> origin_char CHR ''?''" "\<not> origin_char CHR ''/''"
      "\<not> origin_char CHR ''@''" "\<not> origin_char CHR ''*''" "\<not> origin_char CHR ''%''"
      by (simp_all add: origin_char_def)
    show "CHR ''#'' \<notin> set (name @ p)" "CHR ''?'' \<notin> set (name @ p)" "CHR ''/'' \<notin> set (name @ p)"
     "CHR ''@'' \<notin> set (name @ p)" "CHR ''*'' \<notin> set (name @ p)" "CHR ''%'' \<notin> set (name @ p)"
      using ch neg by blast+
  qed
  have ctl: "\<not> has_ctl (name @ p)"
    unfolding has_ctl_def list_ex_iff using ch unfolding origin_char_def by (meson not_less)
  note parsed = parse_https_plain[OF no(1-4) ctl parse_host_origin[OF assms]]
  have "origin_port p \<Longrightarrow> to_lower p = p"
    by (auto simp: origin_port_def to_lower_fix is_upper_nat is_digit_nat dest!: show_nat_digits)
  then have low: "to_lower (name @ p) = name @ p"
    using assms by (auto simp: origin_name_def to_lower_def lower_char_def is_upper_def)
  have hps: "splitHostPort (name @ p) = ((if has_prefix ''['' name then butlast (tl name) else name), tl p)"
    by (rule splitHostPort_join[OF assms])
  have port: "tl p = [] \<or> port_ok (tl p)"
  proof (cases "p = []")
    case False
    then obtain n where n: "1 \<le> n" "n \<le> 65535" "p = '':'' @ show_nat n"
      using assms(2) by (auto simp: origin_port_def)
    then show ?thesis using show_nat_no_leading_zero[of n] by (simp add: parse_uint_show port_ok_def)
  qed simp
  let ?host = "if has_prefix ''['' name then butlast (tl name) else name"
  have host: "?host \<noteq> [] \<and> \<not> has_suffix ''.'' ?host
    \<and> has_prefix ''['' (name @ p) = has_prefix ''['' name
    \<and> (if has_prefix ''['' name then is_ipv6 ?host else isDNSName ?host)"
    using assms(1) unfolding origin_name_def
  proof (elim disjE exE conjE)
    assume dns: "isDNSName name"
    then have ne: "name \<noteq> []" and "hd name \<noteq> CHR ''[''"
      using isDNSName_chars dns_char_not by (auto simp: isDNSName_def dest!: hd_in_set)
    then have np: "\<not> has_prefix ''['' (name @ p)" "\<not> has_prefix ''['' name"
      by (cases name; simp add: has_prefix_def)+
    then show ?thesis using ne dns isDNSName_no_dot by simp
  next
    fix a w assume name: "name = ''['' @ a @ '']''" and a: "\<not> has_suffix ''.'' a" "parse_addr a = Some (V6 w [])"
    have np: "has_prefix ''['' (name @ p)" "has_prefix ''['' name" by (simp_all add: name has_prefix_def)
    have "a \<noteq> []" using a by (auto simp: parse_addr_def)
    then show ?thesis using np a by (simp add: name is_ipv6_def)
  qed
  have colon: "\<not> has_suffix '':'' (name @ p)"
  proof
    assume "has_suffix '':'' (name @ p)"
    then have l: "last (name @ p) = CHR '':''" by (auto simp: has_suffix_iff)
    show False
    proof (cases "p = []")
      case True
      then have "last name = CHR '':''" "name \<noteq> []" using l host by auto
      moreover have "\<not> dns_char CHR '':''" by (auto dest: dns_char_not)
      ultimately show False
        using assms(1) isDNSName_chars last_in_set unfolding origin_name_def by fastforce
    next
      case False
      then obtain n where "p = '':'' @ show_nat n" using assms(2) by (auto simp: origin_port_def)
      then have "last (show_nat n) = CHR '':''" using l by simp
      then have "is_digit CHR '':''" using show_nat_digits[of _ n] by (metis last_in_set show_nat_nonempty)
      then show False by (simp add: is_digit_nat)
    qed
  qed
  have canon: "https_string (name @ p) = ''https://'' @ name @ p"
    using escape_host_id[of "name @ p"] ch by (simp add: https_string_def origin_char_def)
  have drop8: "drop 8 (''https://'' @ name @ p) = name @ p" by simp
  show ?thesis
    unfolding checkOrigin_None drop8 parsed u_Hostname_def u_Port_def url.select_convs fst_conv snd_conv
    using no low port host colon canon by (cases "has_prefix ''['' name") (simp_all add: hps del: append.simps)
qed

lemma splitHostPort_inv:
  assumes "\<not> has_suffix '':'' host" and "snd (splitHostPort host) = [] \<or> port_ok (snd (splitHostPort host))"
  obtains h p where "host = h @ p" "origin_port p"
    "fst (splitHostPort host) = (if has_prefix ''['' h \<and> has_suffix '']'' h then butlast (tl h) else h)"
proof (cases "\<exists>a b. cut_last CHR '':'' host = Some (a, b) \<and> list_all is_digit b")
  case True
  then obtain a b where cut: "cut_last CHR '':'' host = Some (a, b)" "list_all is_digit b" by blast
  then have host: "host = a @ CHR '':'' # b" by (simp add: cut_last_Some)
  have split: "splitHostPort host = (if has_prefix ''['' a \<and> has_suffix '']'' a then butlast (tl a) else a, b)"
    using cut by (simp add: splitHostPort_def)
  have "b \<noteq> []" using assms(1) by (auto simp: host has_suffix_iff)
  then obtain n where n: "parse_digits 0 b = Some n" "1 \<le> n" "n \<le> 65535" "hd b \<noteq> CHR ''0''"
    using assms(2) by (auto simp: split port_ok_def parse_uint_def split: option.splits if_splits)
  then have "b = show_nat n" using show_parse_digits \<open>b \<noteq> []\<close> by metis
  then have "origin_port (CHR '':'' # b)" using n by (auto simp: origin_port_def)
  then show ?thesis using that[of a "CHR '':'' # b"] by (simp add: host split[unfolded host])
next
  case False
  then have split: "splitHostPort host = (if has_prefix ''['' host \<and> has_suffix '']'' host then butlast (tl host) else host, [])"
    by (auto simp: splitHostPort_def split: option.splits)
  show ?thesis using that[of host "[]"] by (simp add: split origin_port_def)
qed

lemma checkOrigin_sound:
  assumes "checkOrigin origin = None"
  shows "\<exists>name p. origin = ''https://'' @ name @ p \<and> origin_name name \<and> origin_port p"
proof -
  obtain u where u: "u_Hostname u \<noteq> []" "to_lower (u_Host u) = u_Host u" "CHR ''%'' \<notin> set (u_Host u)"
      "\<not> has_suffix ''.'' (u_Hostname u)" "\<not> has_suffix '':'' (u_Host u)" "u_Port u = [] \<or> port_ok (u_Port u)"
      "if has_prefix ''['' (u_Host u) then is_ipv6 (u_Hostname u) else isDNSName (u_Hostname u)"
      "origin = https_string (u_Host u)"
    using assms unfolding checkOrigin_None by blast
  obtain h p where hp: "u_Host u = h @ p" "origin_port p"
    "u_Hostname u = (if has_prefix ''['' h \<and> has_suffix '']'' h then butlast (tl h) else h)"
    using splitHostPort_inv[of "u_Host u"] u(5,6) unfolding u_Hostname_def u_Port_def by metis
  have low: "to_lower h = h" using u(2) by (simp add: hp to_lower_def append_eq_append_conv)
  have "h \<noteq> []" using u(1) hp(3) by (auto split: if_splits)
  then have pre: "has_prefix ''['' (u_Host u) \<longleftrightarrow> has_prefix ''['' h"
    by (cases h) (simp_all add: hp has_prefix_def)
  have "origin_name h"
  proof (cases "has_prefix ''['' h")
    case False
    then show ?thesis using u(7) pre hp(3) low by (simp add: origin_name_def)
  next
    case True
    then obtain w z where a: "parse_addr (u_Hostname u) = Some (V6 w z)"
      using u(7) pre by (auto simp: is_ipv6_def split: option.splits elim: Is6.elims)
    have sub: "set (u_Hostname u) \<subseteq> set (u_Host u)"
      using hp \<open>h \<noteq> []\<close> by (auto dest!: in_set_butlastD list.set_sel(2)[rotated] split: if_splits)
    then have z: "z = []" using parse_addr_v6_chars[OF a] u(3) by blast
    have suf: "has_suffix '']'' h"
    proof (rule ccontr)
      assume "\<not> has_suffix '']'' h"
      then have "CHR ''['' \<in> set (u_Hostname u)" using True hp(3) by (auto simp: has_prefix_iff)
      then show False using parse_addr_v6_chars[OF a] z v6_char_not[of "CHR ''[''"] by auto
    qed
    then obtain t where t: "h = t @ '']''" by (auto simp: has_suffix_iff)
    have h: "h = ''['' @ u_Hostname u @ '']''"
      using True suf hp(3) by (cases t) (auto simp: t has_prefix_def)
    then have "to_lower (u_Hostname u) = u_Hostname u" using low by (simp add: to_lower_def)
    then show ?thesis using h a z u(4) by (auto simp: origin_name_def)
  qed
  moreover have "https_string (h @ p) = ''https://'' @ h @ p"
    using escape_host_id[of "h @ p"] origin_name_plain[OF \<open>origin_name h\<close> hp(2)]
    by (simp add: https_string_def origin_char_def)
  ultimately show ?thesis using u(8) hp by auto
qed

text \<open>\<open>checkOrigin\<close> accepts a text exactly when it is \<open>https://\<close> followed by a lower-case DNS
  name or a bracketed lower-case IPv6 address without a zone, and nothing else but a port from 1 to
  65535 written without a leading zero. So no path, query, fragment, user name, wildcard, upper
  case letter or trailing dot reaches the broker, and the accepted text is the one it dials.\<close>
theorem checkOrigin_iff:
  "checkOrigin origin = None \<longleftrightarrow>
     (\<exists>name p. origin = ''https://'' @ name @ p \<and> origin_name name \<and> origin_port p)"
  by (rule iffI, erule checkOrigin_sound, elim exE conjE) (simp only: checkOrigin_complete)

end
