(* ===== verification/Policy_Contract.thy ===== *)
theory Policy_Contract
  imports Policy_Origin "HOL-Library.Code_Target_Numeral"
begin

text \<open>
  What a route that passes the checks promises. \<open>header_spec\<close> says without loops which header
  edits are accepted, and \<open>header_validate\<close> is shown to decide it. The facts of a validated
  route are collected in the locale \<open>route_contract\<close> of \<open>Broker_Register\<close>, from which the lemmas of the broker follow.
\<close>

subsection \<open>Header edits\<close>

definition set_header_ok :: "string list \<Rightarrow> header \<Rightarrow> bool" where
  "set_header_ok removed h \<longleftrightarrow>
     checkHeaderName (hd_Name h) = None
     \<and> (to_lower (hd_Name h) \<in> set removed \<longrightarrow> equal_fold (hd_Name h) ''Authorization'')
     \<and> (\<forall>p \<in> {PlaceholderRouteURL, PlaceholderSessionToken, PlaceholderRouteRegion}. \<not> contains_str p (hd_Value h))
     \<and> CHR 0x0D \<notin> set (hd_Value h) \<and> CHR 0x0A \<notin> set (hd_Value h)
     \<and> count_str PlaceholderValue (hd_Value h) \<le> 1"

definition allow_header_ok :: "string list \<Rightarrow> header_allow \<Rightarrow> bool" where
  "allow_header_ok named a \<longleftrightarrow>
     checkHeaderName (ha_Name a) = None \<and> to_lower (ha_Name a) \<noteq> ''authorization''
     \<and> to_lower (ha_Name a) \<notin> set named \<and> els (ha_Values a) \<noteq> []
     \<and> (\<forall>v \<in> set (els (ha_Values a)). v \<noteq> [] \<and> set v \<inter> {CHR '','', CHR '' '', CHR 0x09, CHR 0x0D, CHR 0x0A} = {})"

definition set_keys :: "header_inject \<Rightarrow> string list" where
  "set_keys h = map (\<lambda>x. to_lower (hd_Name x)) (els (hi_Set h))"

definition remove_keys :: "header_inject \<Rightarrow> string list" where
  "remove_keys h = map to_lower (els (hi_Remove h))"

definition allow_keys :: "header_inject \<Rightarrow> string list" where
  "allow_keys h = map (\<lambda>x. to_lower (ha_Name x)) (els (hi_Allow h))"

definition header_spec :: "header_inject \<Rightarrow> bool \<Rightarrow> bool" where
  "header_spec h needsValue \<longleftrightarrow>
     (\<forall>n \<in> set (els (hi_Remove h)). checkHeaderName n = None)
     \<and> (\<forall>x \<in> set (els (hi_Set h)). set_header_ok (remove_keys h) x)
     \<and> distinct (set_keys h)
     \<and> (needsValue \<longrightarrow> (\<exists>x \<in> set (els (hi_Set h)). count_str PlaceholderValue (hd_Value x) = 1))
     \<and> (\<forall>a \<in> set (els (hi_Allow h)). allow_header_ok (set_keys h @ remove_keys h) a)
     \<and> distinct (allow_keys h)"

lemma remove_names_Inr:
  "remove_names ns = Inr ks \<longleftrightarrow> (\<forall>n \<in> set ns. checkHeaderName n = None) \<and> ks = map to_lower ns"
  by (induction ns arbitrary: ks) (auto simp: bind_err_Inr split: option.splits)

lemma remove_names_cases:
  obtains e where "remove_names ns = Inl e" "\<exists>n \<in> set ns. checkHeaderName n \<noteq> None"
    | "remove_names ns = Inr (map to_lower ns)" "\<forall>n \<in> set ns. checkHeaderName n = None"
  using remove_names_Inr[of ns] by (cases "remove_names ns") auto

lemma contains_any_line: "contains_any v [a, b] \<longleftrightarrow> a \<in> set v \<or> b \<in> set v"
  by auto

lemma set_header_check_None:
  "set_header_check removed seen h = None \<longleftrightarrow> set_header_ok removed h \<and> to_lower (hd_Name h) \<notin> set seen"
  unfolding set_header_check_def first_err_None set_header_ok_def contains_any_line
  by (simp add: not_less del: contains_any_iff) blast

lemma set_headers_Inr:
  "set_headers removed hs (seen, c) = Inr r \<longleftrightarrow>
     (\<forall>h \<in> set hs. set_header_ok removed h)
     \<and> distinct (map (\<lambda>x. to_lower (hd_Name x)) hs)
     \<and> set (map (\<lambda>x. to_lower (hd_Name x)) hs) \<inter> set seen = {}
     \<and> r = (rev (map (\<lambda>x. to_lower (hd_Name x)) hs) @ seen,
            c \<or> (\<exists>h \<in> set hs. count_str PlaceholderValue (hd_Value h) = 1))"
proof (induction hs arbitrary: seen c)
  case (Cons h hs)
  show ?case
  proof (cases "set_header_check removed seen h")
    case None
    then have "set_header_ok removed h \<and> to_lower (hd_Name h) \<notin> set seen"
      unfolding set_header_check_None .
    with None show ?thesis using Cons.IH by auto
  next
    case (Some e)
    then have "\<not> (set_header_ok removed h \<and> to_lower (hd_Name h) \<notin> set seen)"
      by (simp flip: set_header_check_None)
    then show ?thesis using Some by auto
  qed
qed auto

lemma allow_value_ok:
  "v = [] \<or> contains_any v ('', '' @ [CHR 0x09, CHR 0x0D, CHR 0x0A]) \<longleftrightarrow>
     \<not> (v \<noteq> [] \<and> set v \<inter> {CHR '','', CHR '' '', CHR 0x09, CHR 0x0D, CHR 0x0A} = {})"
  by auto

lemma allow_header_check_None:
  "allow_header_check named seen a = None \<longleftrightarrow> allow_header_ok named a \<and> to_lower (ha_Name a) \<notin> set seen"
  unfolding allow_header_check_def first_err_None allow_header_ok_def allow_value_ok
  by (simp add: list_ex_iff) blast

lemma allow_headers_None:
  "allow_headers named seen as = None \<longleftrightarrow>
     (\<forall>a \<in> set as. allow_header_ok named a) \<and> distinct (map (\<lambda>x. to_lower (ha_Name x)) as)
     \<and> set (map (\<lambda>x. to_lower (ha_Name x)) as) \<inter> set seen = {}"
proof (induction as arbitrary: seen)
  case (Cons a as)
  show ?case
  proof (cases "allow_header_check named seen a")
    case None
    then have "allow_header_ok named a \<and> to_lower (ha_Name a) \<notin> set seen"
      unfolding allow_header_check_None .
    with None show ?thesis using Cons.IH by auto
  next
    case (Some e)
    then have "\<not> (allow_header_ok named a \<and> to_lower (ha_Name a) \<notin> set seen)"
      by (simp flip: allow_header_check_None)
    then show ?thesis using Some by auto
  qed
qed simp

lemma allow_header_ok_cong:
  "set named = set named' \<Longrightarrow> allow_header_ok named a = allow_header_ok named' a"
  by (simp add: allow_header_ok_def)

text \<open>The checks of \<open>HeaderInject.validate\<close> accept the header edits of a route exactly when the
  declarative specification holds: every name is an HTTP token that the broker does not own, a
  set header is not also removed unless it is Authorization, no set value holds a guest placeholder
  or a line break or the credential twice, the credential is carried when it must be, and the
  allow lists name headers that neither set nor remove names, each once.\<close>
theorem header_validate_iff: "header_validate h needsValue = None \<longleftrightarrow> header_spec h needsValue"
proof (cases rule: remove_names_cases[of "els (hi_Remove h)"])
  case 1
  then show ?thesis by (auto simp: header_validate_def header_spec_def)
next
  case 2
  note removed = 2
  let ?set = "set_headers (remove_keys h) (els (hi_Set h)) ([], False)"
  have ok: "?set = Inr r \<longleftrightarrow> (\<forall>x \<in> set (els (hi_Set h)). set_header_ok (remove_keys h) x) \<and> distinct (set_keys h)
      \<and> r = (rev (set_keys h), \<exists>x \<in> set (els (hi_Set h)). count_str PlaceholderValue (hd_Value x) = 1)" for r
    using set_headers_Inr[of "remove_keys h" "els (hi_Set h)" "[]" False r] by (simp add: set_keys_def)
  have named: "allow_header_ok (rev (set_keys h) @ remove_keys h) a = allow_header_ok (set_keys h @ remove_keys h) a" for a
    by (rule allow_header_ok_cong) simp
  show ?thesis
  proof (cases ?set)
    case (Inl e)
    then show ?thesis
      using ok removed by (auto simp: header_validate_def header_spec_def remove_keys_def)
  next
    case (Inr r)
    with ok have r: "(\<forall>x \<in> set (els (hi_Set h)). set_header_ok (remove_keys h) x) \<and> distinct (set_keys h)"
      "r = (rev (set_keys h), \<exists>x \<in> set (els (hi_Set h)). count_str PlaceholderValue (hd_Value x) = 1)"
      by blast+
    show ?thesis
      using r(1) removed Inr[unfolded r(2)]
      by (auto simp: header_validate_def header_spec_def allow_headers_None named allow_keys_def
          simp flip: remove_keys_def split: if_splits)
  qed
qed

subsection \<open>A validated route\<close>

lemma route_Validate_parts:
  assumes "route_Validate yread r = None"
  shows "upstream_validate r True = None" "route_credential_validate r True = None"
    "CheckRouteName yread (r_Name r) = None" "r_Preset r \<in> set known_presets"
    "els (r_Services r) \<noteq> [] \<longrightarrow> r_Preset r = PresetGCP"
    "\<exists>i. r_Inject r = Some i \<and> inject_validate i True True = None"
    "\<exists>g. r_Guest r = Some g \<and> guest_validate g True (r_Preset r) = None"
    "request_validate (r_Request r) (r_Preset r) = None"
  using assms unfolding route_Validate_def route_validate_def Let_def
  by (auto simp del: first_err.simps split: option.splits)

lemma inject_validate_expanded:
  assumes "inject_validate i True True = None"
  obtains h where "in_Headers i = Some h" "containsFold (els (hi_Remove h)) ''Authorization''"
    "header_spec h (els (hi_Set h) \<noteq> [])" "\<not> (els (hi_Set h) \<noteq> [] \<and> in_BasicAuth i \<noteq> None)"
    "carriesCredential i \<or> (\<exists>t. in_TLS i = Some t \<and> ti_ClientCertificate t \<noteq> None)"
proof -
  obtain h where h: "in_Headers i = Some h" "containsFold (els (hi_Remove h)) ''Authorization''"
    using assms unfolding inject_validate_def Let_def
    by (auto simp del: first_err.simps split: option.splits)
  show ?thesis
  proof (rule that[OF h])
    show "header_spec h (els (hi_Set h) \<noteq> [])"
      using assms h(1) unfolding inject_validate_def Let_def header_validate_iff[symmetric]
      by (simp del: first_err.simps)
    show "\<not> (els (hi_Set h) \<noteq> [] \<and> in_BasicAuth i \<noteq> None)"
      using assms h(1) unfolding inject_validate_def Let_def by (simp del: first_err.simps)
    show "carriesCredential i \<or> (\<exists>t. in_TLS i = Some t \<and> ti_ClientCertificate t \<noteq> None)"
      using assms h(1) unfolding inject_validate_def Let_def carriesCredential_def
      by (auto simp del: first_err.simps split: option.splits)
  qed
qed

lemma services_loop_None:
  "services_loop seen ss = None \<longleftrightarrow>
     (\<forall>s \<in> set ss. GCPServicePath (sv_Name s) \<noteq> None \<and> request_validate (sv_Request s) [] = None)
     \<and> distinct (map sv_Name ss) \<and> set (map sv_Name ss) \<inter> set seen = {}"
  by (induction ss arbitrary: seen) (auto simp: err_if_def split: option.splits)

lemma env_validate_None:
  "env_validate preset (name, value) = None \<Longrightarrow>
     isEnvName name \<and> value \<in> {PlaceholderRouteURL, PlaceholderSessionToken, PlaceholderRouteRegion}"
  by (auto simp: env_validate_def simp del: first_err.simps split: if_splits)

text \<open>A route that passes \<open>Route.Validate\<close> gives the broker what it relies on. The guest's
  Authorization header is in the list of removed headers, the header edits satisfy the
  specification, at most one of the two carriers is used, and a route with a credential has one.
  The upstream is a bare https origin, or absent on a route that vends keys and on one that lists
  services, and those are known and listed once. No guest variable holds a literal value.\<close>
theorem validated_route:
  assumes "route_Validate yread r = None"
  shows "\<exists>i h g. r_Inject r = Some i \<and> in_Headers i = Some h \<and> r_Guest r = Some g
     \<and> containsFold (els (hi_Remove h)) ''Authorization''
     \<and> header_spec h (els (hi_Set h) \<noteq> [])
     \<and> \<not> (els (hi_Set h) \<noteq> [] \<and> in_BasicAuth i \<noteq> None)
     \<and> (if r_Credential r = None then CertificateOnly (Some i) else carriesCredential i)
     \<and> (if Vends r then r_Upstream r = []
        else if r_Preset r = PresetGCP
        then r_Upstream r = [] \<and> els (r_Services r) \<noteq> [] \<and> distinct (map sv_Name (els (r_Services r)))
             \<and> set (map sv_Name (els (r_Services r))) \<subseteq> dom GCPServicePath
        else checkOrigin (r_Upstream r) = None)
     \<and> set (map snd (gu_Env g)) \<subseteq> {PlaceholderRouteURL, PlaceholderSessionToken, PlaceholderRouteRegion}"
proof -
  note parts = route_Validate_parts[OF assms]
  obtain i where i: "r_Inject r = Some i" "inject_validate i True True = None" using parts(6) by blast
  obtain g where g: "r_Guest r = Some g" "guest_validate g True (r_Preset r) = None" using parts(7) by blast
  obtain h where h: "in_Headers i = Some h" "containsFold (els (hi_Remove h)) ''Authorization''"
    "header_spec h (els (hi_Set h) \<noteq> [])" "\<not> (els (hi_Set h) \<noteq> [] \<and> in_BasicAuth i \<noteq> None)"
    "carriesCredential i \<or> (\<exists>t. in_TLS i = Some t \<and> ti_ClientCertificate t \<noteq> None)"
    using inject_validate_expanded[OF i(2)] .
  have cred: "if r_Credential r = None then CertificateOnly (Some i) else carriesCredential i"
    using parts(2) i(1) h(5)
    by (auto simp: route_credential_validate_def simp del: first_err.simps split: option.splits)
  have up: "if Vends r then r_Upstream r = []
        else if r_Preset r = PresetGCP
        then r_Upstream r = [] \<and> els (r_Services r) \<noteq> [] \<and> distinct (map sv_Name (els (r_Services r)))
             \<and> set (map sv_Name (els (r_Services r))) \<subseteq> dom GCPServicePath
        else checkOrigin (r_Upstream r) = None"
    using parts(1) unfolding upstream_validate_def Let_def validateServices_def
    by (auto simp: services_loop_None simp del: first_err.simps split: if_splits)
  have "set (map snd (gu_Env g)) \<subseteq> {PlaceholderRouteURL, PlaceholderSessionToken, PlaceholderRouteRegion}"
  proof -
    have "env_validate (r_Preset r) kv = None" if "kv \<in> set (gu_Env g)" for kv
      using g(2) that unfolding guest_validate_def by (auto simp del: first_err.simps)
    then have "v \<in> {PlaceholderRouteURL, PlaceholderSessionToken, PlaceholderRouteRegion}"
      if "(k, v) \<in> set (gu_Env g)" for k v
      using env_validate_None that by blast
    then show ?thesis by force
  qed
  then show ?thesis using i(1) g(1) h cred up by blast
qed

definition sample_route :: route where
  "sample_route = \<lparr>r_Name = ''api'', r_Preset = [], r_Mode = ''endpoint'', r_Upstream = ''https://api.example.com:8443'',
     r_Credential = Some \<lparr>cr_SecretRef = ''token'', cr_Field = [], cr_Lifecycle = []\<rparr>,
     r_Inject = Some \<lparr>in_Headers = Some \<lparr>hi_Set = Some [\<lparr>hd_Name = ''X-Api-Key'', hd_Value = ''{value}''\<rparr>],
        hi_Remove = Some [''Authorization''], hi_Allow = None\<rparr>, in_BasicAuth = None, in_TLS = None\<rparr>,
     r_Guest = Some \<lparr>gu_Env = [(''API_URL'', ''{route.url}'')], gu_Git = None\<rparr>,
     r_Request = None, r_Services = None, lifecycleFromPreset = False\<rparr>"

lemma sample_route_valid: "route_Validate (\<lambda>s. Some (YString s)) sample_route = None"
  by code_simp

theorem validated_route_witness:
  "checkOrigin (r_Upstream sample_route) = None"
  using validated_route[OF sample_route_valid] by (simp add: sample_route_def Vends_def preset_defs)

end
