(* ===== verification/Policy_Expand.thy ===== *)
theory Policy_Expand
  imports Policy_Contract "HOL-Library.AList"
begin

text \<open>
  The presets brig ships, the registry of route modes, and the expansion of a written route over
  its preset: \<open>internal/routemode\<close> and \<open>internal/policy/presets.go\<close>. The preset files are data
  here, one definition per file. The registry is an argument, since a build decides what it
  registers, and the check of a registered mode is a field of it. A deep copy of a route is the
  route itself.
\<close>

subsection \<open>The registry of route modes\<close>

record route_mode =
  md_Name :: string
  md_Presets :: "string list"
  md_Check :: "(route \<Rightarrow> route \<Rightarrow> route \<Rightarrow> string option) option"

type_synonym mode_registry = "(string \<times> route_mode) list"

datatype register_panic = NotAMode | ModeName policy_error | ModeTwice

definition mode_Lookup :: "mode_registry \<Rightarrow> string \<Rightarrow> route_mode option" where
  "mode_Lookup reg name = map_of reg name"

definition Register :: "(string \<Rightarrow> yaml_value option) \<Rightarrow> mode_registry \<Rightarrow> route_mode \<Rightarrow> register_panic + mode_registry" where
  "Register yread reg m =
     (if md_Name m = [] \<or> md_Name m = ModeEndpoint then Inl NotAMode
      else case CheckName yread (md_Name m) of
             Some e \<Rightarrow> Inl (ModeName e)
           | None \<Rightarrow> if mode_Lookup reg (md_Name m) \<noteq> None then Inl ModeTwice
                     else Inr ((md_Name m, m) # reg))"

definition unregister :: "mode_registry \<Rightarrow> string \<Rightarrow> mode_registry" where
  "unregister reg name = filter (\<lambda>p. fst p \<noteq> name) reg"

definition mode_Names :: "mode_registry \<Rightarrow> string list" where
  "mode_Names reg = sort (map fst reg)"

definition Served :: "mode_registry \<Rightarrow> string \<Rightarrow> bool" where
  "Served reg name \<longleftrightarrow> name = [] \<or> name = ModeEndpoint \<or> mode_Lookup reg name \<noteq> None"

subsection \<open>The preset files\<close>

record preset_file =
  pr_Route :: route
  pr_Modes :: "string list"
  presetName :: string

definition beta_values :: "string list" where
  "beta_values =
     [''claude-code-20250219'', ''interleaved-thinking-2025-05-14'', ''fine-grained-tool-streaming-2025-05-14'',
      ''context-1m-2025-08-07'', ''context-management-2025-06-27'', ''advanced-tool-use-2025-11-20'',
      ''advisor-tool-2026-03-01'', ''afk-mode-2026-01-31'', ''dangerous-tool-use-2026-09-03'', ''effort-2025-11-24'',
      ''extended-cache-ttl-2025-04-11'', ''inline-tools-2026-09-15'', ''mid-conversation-system-2026-04-07'',
      ''mid-conversation-tool-changes-2026-07-01'', ''per-turn-control-2026-07-01'',
      ''prompt-caching-scope-2026-01-05'', ''thinking-token-count-2026-05-13'']"

definition bare_route :: "string \<Rightarrow> string \<Rightarrow> header_inject \<Rightarrow> guest \<Rightarrow> route" where
  "bare_route name upstream h g =
     \<lparr>r_Name = name, r_Preset = [], r_Mode = ModeEndpoint, r_Upstream = upstream, r_Credential = None,
      r_Inject = Some \<lparr>in_Headers = Some h, in_BasicAuth = None, in_TLS = None\<rparr>, r_Guest = Some g,
      r_Request = None, r_Services = None, lifecycleFromPreset = False\<rparr>"

definition preset_claude_code :: route where
  "preset_claude_code =
     (bare_route ''anthropic'' ''https://api.anthropic.com''
        \<lparr>hi_Set = Some [\<lparr>hd_Name = ''Authorization'', hd_Value = ''Bearer {value}''\<rparr>],
         hi_Remove = Some [''Authorization'', ''X-Api-Key''],
         hi_Allow = Some [\<lparr>ha_Name = ''Anthropic-Beta'', ha_Values = Some (''oauth-2025-04-20'' # beta_values)\<rparr>]\<rparr>
        \<lparr>gu_Env = [(''ANTHROPIC_BASE_URL'', PlaceholderRouteURL), (''CLAUDE_CODE_OAUTH_TOKEN'', PlaceholderSessionToken)],
         gu_Git = None\<rparr>)
     \<lparr>r_Credential := Some \<lparr>cr_SecretRef = [], cr_Field = ''claudeAiOauth.accessToken'',
                           cr_Lifecycle = LifecycleAnthropicOAuth\<rparr>\<rparr>"

definition preset_anthropic_api_key :: route where
  "preset_anthropic_api_key =
     bare_route ''anthropic'' ''https://api.anthropic.com''
        \<lparr>hi_Set = Some [\<lparr>hd_Name = ''x-api-key'', hd_Value = PlaceholderValue\<rparr>],
         hi_Remove = Some [''Authorization''],
         hi_Allow = Some [\<lparr>ha_Name = ''Anthropic-Beta'', ha_Values = Some beta_values\<rparr>]\<rparr>
        \<lparr>gu_Env = [(''ANTHROPIC_BASE_URL'', PlaceholderRouteURL), (''ANTHROPIC_API_KEY'', PlaceholderSessionToken)],
         gu_Git = None\<rparr>"

definition preset_github_token :: route where
  "preset_github_token =
     (bare_route ''github'' ''https://github.com''
        \<lparr>hi_Set = None, hi_Remove = Some [''Authorization''], hi_Allow = None\<rparr>
        \<lparr>gu_Env = [], gu_Git = Some [''https://github.com/'', ''git@github.com:'']\<rparr>)
     \<lparr>r_Inject := Some \<lparr>in_Headers = Some \<lparr>hi_Set = None, hi_Remove = Some [''Authorization''], hi_Allow = None\<rparr>,
                        in_BasicAuth = Some ''x-access-token'', in_TLS = None\<rparr>\<rparr>"

definition preset_aws :: route where
  "preset_aws =
     (bare_route ''aws'' []
        \<lparr>hi_Set = Some [\<lparr>hd_Name = ''Authorization'', hd_Value = PlaceholderValue\<rparr>],
         hi_Remove = Some [''Authorization''], hi_Allow = None\<rparr>
        \<lparr>gu_Env = [(''AWS_CONTAINER_CREDENTIALS_FULL_URI'', PlaceholderRouteURL),
                   (''AWS_CONTAINER_AUTHORIZATION_TOKEN'', PlaceholderSessionToken),
                   (''AWS_REGION'', PlaceholderRouteRegion), (''AWS_DEFAULT_REGION'', PlaceholderRouteRegion)],
         gu_Git = None\<rparr>)
     \<lparr>r_Request := Some \<lparr>rp_Allow = Some \<lparr>ra_Methods = Some [''GET''], ra_Paths = None, ra_Repos = None\<rparr>\<rparr>\<rparr>"

definition preset_gcp :: route where
  "preset_gcp =
     bare_route ''gcp'' []
        \<lparr>hi_Set = Some [\<lparr>hd_Name = ''Authorization'', hd_Value = ''Bearer {value}''\<rparr>],
         hi_Remove = Some [''Authorization''], hi_Allow = None\<rparr>
        \<lparr>gu_Env = [(''BRIG_GCP_URL'', PlaceholderRouteURL), (''BRIG_GCP_TOKEN'', PlaceholderSessionToken)],
         gu_Git = None\<rparr>"

definition presetFiles :: "(string \<times> route) list" where
  "presetFiles =
     [(PresetAnthropicAPIKey, preset_anthropic_api_key), (PresetAWS, preset_aws),
      (PresetClaudeCode, preset_claude_code), (PresetGCP, preset_gcp), (PresetGitHubToken, preset_github_token)]"

definition PresetNames :: "string list" where
  "PresetNames = sort (map fst presetFiles)"

subsection \<open>Expansion of one route\<close>

datatype expand_error =
    UnknownPresetFile | PresetMode | NoModes | ModeNotServed | ModeListedTwice | OwnModeMissing
  | UpstreamKept | FieldKept | ModeUnsupported | ModeNeedsPreset | ModeRefused string
  | VendsTakesNoInject | RouteInvalid policy_error

fun modes_listed :: "mode_registry \<Rightarrow> string list \<Rightarrow> string list \<Rightarrow> expand_error option" where
  "modes_listed reg seen [] = None"
| "modes_listed reg seen (m # ms) =
     (if \<not> Served reg m then Some ModeNotServed
      else if m \<in> set seen then Some ModeListedTwice
      else modes_listed reg (m # seen) ms)"

definition checkModes :: "mode_registry \<Rightarrow> preset_file \<Rightarrow> expand_error option" where
  "checkModes reg p = first_err
     [err_if (r_Mode (pr_Route p) \<noteq> ModeEndpoint) PresetMode,
      err_if (pr_Modes p = []) NoModes,
      modes_listed reg [] (pr_Modes p),
      err_if (r_Mode (pr_Route p) \<notin> set (pr_Modes p)) OwnModeMissing]"

definition decodePreset :: "mode_registry \<Rightarrow> string \<Rightarrow> expand_error + preset_file" where
  "decodePreset reg name =
     (case map_of presetFiles name of
        None \<Rightarrow> Inl UnknownPresetFile
      | Some route \<Rightarrow>
          let p = \<lparr>pr_Route = route, pr_Modes = [ModeEndpoint], presetName = name\<rparr> in
          (case checkModes reg p of
             Some e \<Rightarrow> Inl e
           | None \<Rightarrow> Inr (case r_Credential route of
                            None \<Rightarrow> p
                          | Some c \<Rightarrow> p\<lparr>pr_Route := SetLifecycleFromPreset route (cr_Lifecycle c)\<rparr>)))"

definition preset_modes :: "mode_registry \<Rightarrow> preset_file \<Rightarrow> string list" where
  "preset_modes reg p = fold
     (\<lambda>name out. case mode_Lookup reg name of
         None \<Rightarrow> out
       | Some m \<Rightarrow> if presetName p \<in> set (md_Presets m) \<and> name \<notin> set out then out @ [name] else out)
     (mode_Names reg) (pr_Modes p)"

fun add_fold :: "string list \<Rightarrow> string list \<Rightarrow> string list" where
  "add_fold have [] = have"
| "add_fold have (n # ns) = add_fold (if containsFold have n then have else have @ [n]) ns"

definition overlay_headers :: "header_inject option \<Rightarrow> header_inject \<Rightarrow> header_inject" where
  "overlay_headers base h =
     (let b = (case base of None \<Rightarrow> \<lparr>hi_Set = None, hi_Remove = None, hi_Allow = None\<rparr> | Some b \<Rightarrow> b) in
      \<lparr>hi_Set = (if hi_Set h \<noteq> None then hi_Set h else hi_Set b),
       hi_Remove = (let l = add_fold (els (hi_Remove b)) (els (hi_Remove h)) in
                    if l = [] then hi_Remove b else Some l),
       hi_Allow = (if hi_Allow h \<noteq> None then hi_Allow h else hi_Allow b)\<rparr>)"

definition overlay_inject :: "inject option \<Rightarrow> inject \<Rightarrow> inject" where
  "overlay_inject base i =
     (let b = (case base of None \<Rightarrow> \<lparr>in_Headers = None, in_BasicAuth = None, in_TLS = None\<rparr> | Some b \<Rightarrow> b) in
      b\<lparr>in_Headers := (case in_Headers i of None \<Rightarrow> in_Headers b | Some h \<Rightarrow> Some (overlay_headers (in_Headers b) h)),
        in_BasicAuth := (if in_BasicAuth i \<noteq> None then in_BasicAuth i else in_BasicAuth b)\<rparr>)"

definition overlay_guest :: "guest option \<Rightarrow> guest \<Rightarrow> guest" where
  "overlay_guest base g =
     (let b = (case base of None \<Rightarrow> \<lparr>gu_Env = [], gu_Git = None\<rparr> | Some b \<Rightarrow> b) in
      \<lparr>gu_Env = fold (\<lambda>(k, v) env. AList.update k v env) (gu_Env g) (gu_Env b),
       gu_Git = (if gu_Git g \<noteq> None then gu_Git g else gu_Git b)\<rparr>)"

definition overlay_credential :: "credential_ref option \<Rightarrow> credential_ref \<Rightarrow> credential_ref" where
  "overlay_credential base c =
     (let b = (case base of None \<Rightarrow> no_credential | Some b \<Rightarrow> b) in
      b\<lparr>cr_SecretRef := (if cr_SecretRef c \<noteq> [] then cr_SecretRef c else cr_SecretRef b),
        cr_Field := (if cr_Field c \<noteq> [] then cr_Field c else cr_Field b)\<rparr>)"

text \<open>A preset with a lifecycle keeps its upstream and its field.\<close>

definition overlay_refuses :: "route \<Rightarrow> route \<Rightarrow> expand_error option" where
  "overlay_refuses base r =
     (case r_Credential base of
        None \<Rightarrow> None
      | Some bc \<Rightarrow>
          if cr_Lifecycle bc = [] then None
          else first_err
            [err_if (r_Upstream r \<noteq> [] \<and> r_Upstream r \<noteq> r_Upstream base) UpstreamKept,
             err_if (case r_Credential r of
                       None \<Rightarrow> False
                     | Some c \<Rightarrow> cr_Field c \<noteq> [] \<and> cr_Field c \<noteq> cr_Field bc) FieldKept])"

definition overlay_fields :: "route \<Rightarrow> route \<Rightarrow> route" where
  "overlay_fields base r = base
     \<lparr>r_Name := r_Name r, r_Preset := r_Preset r,
      r_Mode := (if r_Mode r \<noteq> [] then r_Mode r else r_Mode base),
      r_Upstream := (if r_Upstream r \<noteq> [] then r_Upstream r else r_Upstream base),
      r_Credential := (case r_Credential r of
         None \<Rightarrow> r_Credential base | Some c \<Rightarrow> Some (overlay_credential (r_Credential base) c)),
      r_Inject := (case r_Inject r of
         None \<Rightarrow> r_Inject base | Some i \<Rightarrow> Some (overlay_inject (r_Inject base) i)),
      r_Guest := (case r_Guest r of
         None \<Rightarrow> r_Guest base | Some g \<Rightarrow> Some (overlay_guest (r_Guest base) g)),
      r_Request := (if r_Request r \<noteq> None then r_Request r else r_Request base),
      r_Services := (if r_Services r \<noteq> None then r_Services r else r_Services base)\<rparr>"

definition overlay :: "route \<Rightarrow> route \<Rightarrow> expand_error + route" where
  "overlay base r = on_ok (overlay_refuses base r) (overlay_fields base r)"

definition default_headers :: "header_inject option \<Rightarrow> header_inject" where
  "default_headers h =
     (let b = (case h of None \<Rightarrow> \<lparr>hi_Set = None, hi_Remove = None, hi_Allow = None\<rparr> | Some b \<Rightarrow> b) in
      if containsFold (els (hi_Remove b)) ''Authorization'' then b
      else b\<lparr>hi_Remove := Some (''Authorization'' # els (hi_Remove b))\<rparr>)"

definition setDefaults :: "route \<Rightarrow> route" where
  "setDefaults r =
     (let r1 = (if r_Mode r = [] then r\<lparr>r_Mode := ModeEndpoint\<rparr> else r) in
      case r_Inject r1 of
        None \<Rightarrow> r1
      | Some i \<Rightarrow> r1\<lparr>r_Inject := Some (i\<lparr>in_Headers := Some (default_headers (in_Headers i))\<rparr>)\<rparr>)"

definition PresetRoute :: "mode_registry \<Rightarrow> string \<Rightarrow> expand_error + route" where
  "PresetRoute reg name = bind_err (decodePreset reg name) (\<lambda>p. Inr (setDefaults (pr_Route p)))"

definition PresetModes :: "mode_registry \<Rightarrow> string \<Rightarrow> expand_error + string list" where
  "PresetModes reg name = bind_err (decodePreset reg name) (\<lambda>p. Inr (preset_modes reg p))"

definition empty_route :: route where
  "empty_route = \<lparr>r_Name = [], r_Preset = [], r_Mode = [], r_Upstream = [], r_Credential = None, r_Inject = None,
     r_Guest = None, r_Request = None, r_Services = None, lifecycleFromPreset = False\<rparr>"

text \<open>The route over its preset, and the preset's route, which the check of a mode also reads.\<close>

definition over_preset :: "mode_registry \<Rightarrow> route \<Rightarrow> expand_error + (route \<times> route)" where
  "over_preset reg r =
     (if r_Preset r \<noteq> [] then
        bind_err (decodePreset reg (r_Preset r)) (\<lambda>base.
        bind_err (overlay (pr_Route base) r) (\<lambda>out.
          if Served reg (r_Mode out) \<and> r_Mode out \<notin> set (preset_modes reg base) then Inl ModeUnsupported
          else Inr (pr_Route base, out)))
      else if mode_Lookup reg (r_Mode r) \<noteq> None then Inl ModeNeedsPreset
      else Inr (empty_route, r))"

definition mode_refuses :: "mode_registry \<Rightarrow> route \<Rightarrow> route \<Rightarrow> route \<Rightarrow> string option" where
  "mode_refuses reg base r out =
     (case mode_Lookup reg (r_Mode r) of
        None \<Rightarrow> None
      | Some m \<Rightarrow> (case md_Check m of None \<Rightarrow> None | Some check \<Rightarrow> check base r out))"

definition expand_bare :: "(string \<Rightarrow> yaml_value option) \<Rightarrow> mode_registry \<Rightarrow> route \<Rightarrow> expand_error + route" where
  "expand_bare yread reg r =
     bind_err (over_preset reg r) (\<lambda>(base, out).
       case mode_refuses reg base r out of
         Some e \<Rightarrow> Inl (ModeRefused e)
       | None \<Rightarrow>
           (case route_Validate yread (setDefaults out) of
              Some e \<Rightarrow> Inl (RouteInvalid e)
            | None \<Rightarrow> Inr (setDefaults out)))"

definition ExpandRoute :: "(string \<Rightarrow> yaml_value option) \<Rightarrow> mode_registry \<Rightarrow> route \<Rightarrow> expand_error + route" where
  "ExpandRoute yread reg r =
     (if Vends r \<and> r_Inject r \<noteq> None then
        bind_err (expand_bare yread reg (r\<lparr>r_Inject := None\<rparr>)) (\<lambda>e.
          if r_Inject r \<noteq> r_Inject e then Inl VendsTakesNoInject else Inr e)
      else expand_bare yread reg r)"

subsection \<open>The routes of a run\<close>

datatype routes_error =
    ExpandFailed expand_error | RouteNameShared | TwoServiceRoutes | EnvShared | PrefixShared | OverrideOnOther

definition expand_all :: "(string \<Rightarrow> yaml_value option) \<Rightarrow> mode_registry \<Rightarrow> route list \<Rightarrow> expand_error + route list" where
  "expand_all yread reg rs =
     fold_err (\<lambda>r out. bind_err (ExpandRoute yread reg r) (\<lambda>e. Inr (out @ [e]))) rs []"

definition Expand :: "(string \<Rightarrow> yaml_value option) \<Rightarrow> mode_registry \<Rightarrow> policy \<Rightarrow> expand_error + policy" where
  "Expand yread reg p =
     (if po_Routes p = [] then Inr p
      else bind_err (expand_all yread reg (po_Routes p)) (\<lambda>rs. Inr (p\<lparr>po_Routes := rs\<rparr>)))"

text \<open>The state of the loop of \<open>Routes\<close>: who owns a name, a variable, a prefix and the services.\<close>

record routes_state =
  routeOwner :: "(string \<times> string) list"
  envOwner :: "(string \<times> string \<times> string) list"
  prefixOwner :: "(string \<times> string \<times> string) list"
  servicesRoute :: "string \<times> string"
  rs_out :: "route list"

definition route_vars :: "route \<Rightarrow> string list" where
  "route_vars e =
     (case r_Guest e of None \<Rightarrow> [] | Some g \<Rightarrow> sort (map fst (gu_Env g)))
     @ (if els (r_Services e) \<noteq> [] then GCPGuestVars (els (r_Services e)) else [])"

definition route_prefixes :: "route \<Rightarrow> string list" where
  "route_prefixes e = (case r_Guest e of None \<Rightarrow> [] | Some g \<Rightarrow> els (gu_Git g))"

definition claim_key :: "routes_error \<Rightarrow> string \<times> string \<Rightarrow> string \<Rightarrow> (string \<times> string \<times> string) list
    \<Rightarrow> routes_error + (string \<times> string \<times> string) list" where
  "claim_key err owner name m = (if map_of m name \<noteq> None then Inl err else Inr ((name, owner) # m))"

definition add_route :: "(string \<Rightarrow> yaml_value option) \<Rightarrow> mode_registry \<Rightarrow> string \<times> route \<Rightarrow> routes_state
    \<Rightarrow> routes_error + routes_state" where
  "add_route yread reg pr st =
     (case pr of (pname, r) \<Rightarrow>
      case ExpandRoute yread reg r of
        Inl e \<Rightarrow> Inl (ExpandFailed e)
      | Inr e \<Rightarrow>
          if map_of (routeOwner st) (r_Name e) \<noteq> None then Inl RouteNameShared
          else if els (r_Services e) \<noteq> [] \<and> snd (servicesRoute st) \<noteq> [] then Inl TwoServiceRoutes
          else
            bind_err (fold_err (claim_key EnvShared (pname, r_Name e)) (route_vars e) (envOwner st)) (\<lambda>env.
            bind_err (fold_err (claim_key PrefixShared (pname, r_Name e)) (route_prefixes e) (prefixOwner st)) (\<lambda>pre.
              Inr \<lparr>routeOwner = (r_Name e, pname) # routeOwner st, envOwner = env, prefixOwner = pre,
                   servicesRoute = (if els (r_Services e) \<noteq> [] then (pname, r_Name e) else servicesRoute st),
                   rs_out = rs_out st @ [e]\<rparr>)))"

definition override_elsewhere :: "routes_state \<Rightarrow> bool" where
  "override_elsewhere st \<longleftrightarrow>
     list_ex (\<lambda>(name, o'). snd o' \<noteq> snd (servicesRoute st) \<and> has_prefix GCPEndpointOverridePrefix name) (envOwner st)"

definition Routes :: "(string \<Rightarrow> yaml_value option) \<Rightarrow> mode_registry \<Rightarrow> policy list \<Rightarrow> routes_error + route list" where
  "Routes yread reg ps =
     bind_err
       (fold_err (add_route yread reg) (concat (map (\<lambda>p. map (Pair (po_Name p)) (po_Routes p)) ps))
          \<lparr>routeOwner = [], envOwner = [], prefixOwner = [], servicesRoute = ([], []), rs_out = []\<rparr>)
       (\<lambda>st. if snd (servicesRoute st) \<noteq> [] \<and> override_elsewhere st then Inl OverrideOnOther
             else Inr (rs_out st))"

end
