(* ===== verification/Policy_Expand_Facts.thy ===== *)
theory Policy_Expand_Facts
  imports Policy_Expand
begin

text \<open>
  What expansion guarantees: the result validates, a refreshed credential stays with the endpoint
  of its preset, expanding twice changes nothing, and the routes of a run own their names.
\<close>

subsection \<open>Defaults and presets\<close>

lemma setDefaults_select [simp]:
  "r_Name (setDefaults r) = r_Name r" "r_Preset (setDefaults r) = r_Preset r"
  "r_Upstream (setDefaults r) = r_Upstream r" "r_Credential (setDefaults r) = r_Credential r"
  "r_Guest (setDefaults r) = r_Guest r" "r_Request (setDefaults r) = r_Request r"
  "r_Services (setDefaults r) = r_Services r" "lifecycleFromPreset (setDefaults r) = lifecycleFromPreset r"
  "r_Mode (setDefaults r) = (if r_Mode r = [] then ModeEndpoint else r_Mode r)"
  "r_Inject (setDefaults r) =
     map_option (\<lambda>i. i\<lparr>in_Headers := Some (default_headers (in_Headers i))\<rparr>) (r_Inject r)"
  by (auto simp: setDefaults_def Let_def split: option.splits)

lemma default_headers_Some:
  "containsFold (els (hi_Remove h)) ''Authorization'' \<Longrightarrow> default_headers (Some h) = h"
  by (simp add: default_headers_def)

lemma default_headers_removes: "containsFold (els (hi_Remove (default_headers h))) ''Authorization''"
  by (auto simp: default_headers_def Let_def containsFold_def)

lemma ModeEndpoint_nonempty [simp]: "ModeEndpoint \<noteq> []"
  by (simp add: ModeEndpoint_def)

lemma setDefaults_idem: "setDefaults (setDefaults r) = setDefaults r"
  by (cases "r_Inject r")
    (auto intro!: route.equality inject.equality simp: default_headers_Some default_headers_removes)

text \<open>What every preset file has, whatever the registry.\<close>

definition preset_ok :: "route \<Rightarrow> bool" where
  "preset_ok base \<longleftrightarrow> r_Mode base = ModeEndpoint
     \<and> (case r_Inject base of
          None \<Rightarrow> False
        | Some i \<Rightarrow> in_TLS i = None \<and>
            (case in_Headers i of None \<Rightarrow> False | Some h \<Rightarrow> containsFold (els (hi_Remove h)) ''Authorization''))
     \<and> (case r_Guest base of None \<Rightarrow> False | Some g \<Rightarrow> distinct (map fst (gu_Env g)))
     \<and> (case r_Credential base of None \<Rightarrow> \<not> lifecycleFromPreset base | Some c \<Rightarrow> r_Upstream base = ''https://api.anthropic.com''
          \<and> cr_Field c = ''claudeAiOauth.accessToken'')"

lemma decodePreset_ok:
  assumes "decodePreset reg name = Inr p"
  shows "preset_ok (pr_Route p) \<and> (r_Credential (pr_Route p) \<noteq> None \<longrightarrow> name = PresetClaudeCode)"
proof -
  obtain route where route: "map_of presetFiles name = Some route"
    and p: "pr_Route p = (case r_Credential route of None \<Rightarrow> route | Some c \<Rightarrow> SetLifecycleFromPreset route (cr_Lifecycle c))"
    using assms by (auto simp: decodePreset_def Let_def split: option.splits)
  have all: "list_all (\<lambda>(name, route).
      let r = (case r_Credential route of None \<Rightarrow> route | Some c \<Rightarrow> SetLifecycleFromPreset route (cr_Lifecycle c)) in
      preset_ok r \<and> (r_Credential r \<noteq> None \<longrightarrow> name = PresetClaudeCode)) presetFiles"
    by code_simp
  show ?thesis
    using all map_of_SomeD[OF route] unfolding p list_all_iff Let_def by blast
qed

lemma overlay_fields_select [simp]:
  "r_Name (overlay_fields base r) = r_Name r" "r_Preset (overlay_fields base r) = r_Preset r"
  "r_Mode (overlay_fields base r) = (if r_Mode r \<noteq> [] then r_Mode r else r_Mode base)"
  "r_Upstream (overlay_fields base r) = (if r_Upstream r \<noteq> [] then r_Upstream r else r_Upstream base)"
  "r_Credential (overlay_fields base r) =
     (case r_Credential r of None \<Rightarrow> r_Credential base | Some c \<Rightarrow> Some (overlay_credential (r_Credential base) c))"
  "r_Inject (overlay_fields base r) =
     (case r_Inject r of None \<Rightarrow> r_Inject base | Some i \<Rightarrow> Some (overlay_inject (r_Inject base) i))"
  "r_Guest (overlay_fields base r) =
     (case r_Guest r of None \<Rightarrow> r_Guest base | Some g \<Rightarrow> Some (overlay_guest (r_Guest base) g))"
  "r_Request (overlay_fields base r) = (if r_Request r \<noteq> None then r_Request r else r_Request base)"
  "r_Services (overlay_fields base r) = (if r_Services r \<noteq> None then r_Services r else r_Services base)"
  "lifecycleFromPreset (overlay_fields base r) = lifecycleFromPreset base"
  by (simp_all add: overlay_fields_def)

lemma overlay_Inr: "overlay base r = Inr out \<longleftrightarrow> overlay_refuses base r = None \<and> out = overlay_fields base r"
  by (simp add: overlay_def)

lemma overlay_refuses_None:
  assumes "overlay_refuses base r = None" and "r_Credential base = Some bc" and "cr_Lifecycle bc \<noteq> []"
  shows "r_Upstream (overlay_fields base r) = r_Upstream base"
    "r_Credential (overlay_fields base r) = Some c \<Longrightarrow> cr_Field c = cr_Field bc"
  using assms
  by (auto simp: overlay_refuses_def overlay_credential_def Let_def err_if_def split: if_splits option.splits)

lemma overlay_credential_lifecycle [simp]:
  "cr_Lifecycle (overlay_credential base c) = (case base of None \<Rightarrow> [] | Some b \<Rightarrow> cr_Lifecycle b)"
  by (simp add: overlay_credential_def no_credential_def Let_def split: option.splits)

lemma expand_bare_Inr:
  assumes "expand_bare yread reg r = Inr e"
  obtains base out where "over_preset reg r = Inr (base, out)" "mode_refuses reg base r out = None"
    "e = setDefaults out" "route_Validate yread e = None"
  using assms by (auto simp: expand_bare_def bind_err_Inr split: option.splits)

lemma ExpandRoute_Inr:
  assumes "ExpandRoute yread reg r = Inr e"
  obtains r' where "r' = r \<or> r' = r\<lparr>r_Inject := None\<rparr>" "expand_bare yread reg r' = Inr e"
    "Vends r' \<longrightarrow> r_Inject r' = None"
proof (cases "Vends r \<and> r_Inject r \<noteq> None")
  case True
  then have "expand_bare yread reg (r\<lparr>r_Inject := None\<rparr>) = Inr e"
    using assms by (auto simp: ExpandRoute_def bind_err_Inr split: if_splits)
  then show ?thesis by (intro that[of "r\<lparr>r_Inject := None\<rparr>"]) simp_all
next
  case False
  then show ?thesis using assms by (intro that[of r]) (auto simp: ExpandRoute_def)
qed

lemma over_preset_cases:
  assumes "over_preset reg r = Inr (base, out)"
  obtains (none) "r_Preset r = []" "mode_Lookup reg (r_Mode r) = None" "out = r" "base = empty_route"
    | (preset) p where "r_Preset r \<noteq> []" "decodePreset reg (r_Preset r) = Inr p" "base = pr_Route p"
        "overlay_refuses (pr_Route p) r = None" "out = overlay_fields (pr_Route p) r"
        "Served reg (r_Mode out) \<longrightarrow> r_Mode out \<in> set (preset_modes reg p)"
proof (cases "r_Preset r = []")
  case True
  have "mode_Lookup reg (r_Mode r) = None \<and> Inr (empty_route, r) = (Inr (base, out) :: expand_error + _)"
    using assms True unfolding over_preset_def by (cases "mode_Lookup reg (r_Mode r)") simp_all
  then show ?thesis using True by (intro none) auto
next
  case False
  then obtain p out' where p: "decodePreset reg (r_Preset r) = Inr p" "overlay (pr_Route p) r = Inr out'"
      "(if Served reg (r_Mode out') \<and> r_Mode out' \<notin> set (preset_modes reg p) then Inl ModeUnsupported
        else Inr (pr_Route p, out')) = Inr (base, out)"
    using assms unfolding over_preset_def by (simp only: if_True bind_err_Inr not_False_eq_True) metis
  then have "out' = out" "base = pr_Route p" "Served reg (r_Mode out) \<longrightarrow> r_Mode out \<in> set (preset_modes reg p)"
    by (cases "Served reg (r_Mode out') \<and> r_Mode out' \<notin> set (preset_modes reg p)"; simp)+
  then show ?thesis using preset[OF False p(1)] p(2) unfolding overlay_Inr by simp
qed

text \<open>C25: A route that \<open>ExpandRoute\<close> returns passes \<open>Route.Validate\<close>, keeps the name and the preset of
  the route it was made from, has a mode, and removes the guest's Authorization header.\<close>
theorem expand_route_valid:
  assumes "ExpandRoute yread reg r = Inr e"
  shows "route_Validate yread e = None \<and> r_Name e = r_Name r \<and> r_Preset e = r_Preset r \<and> r_Mode e \<noteq> []
     \<and> (\<exists>i h. r_Inject e = Some i \<and> in_Headers i = Some h \<and> containsFold (els (hi_Remove h)) ''Authorization'')"
proof -
  obtain r' where r': "r' = r \<or> r' = r\<lparr>r_Inject := None\<rparr>" "expand_bare yread reg r' = Inr e"
    using ExpandRoute_Inr[OF assms] by metis
  obtain base out where e: "over_preset reg r' = Inr (base, out)" "e = setDefaults out" "route_Validate yread e = None"
    using expand_bare_Inr[OF r'(2)] by metis
  have "r_Name out = r_Name r' \<and> r_Preset out = r_Preset r'"
    using e(1) by (cases rule: over_preset_cases) simp_all
  moreover have "r_Inject e \<noteq> None" using route_Validate_parts(6)[OF e(3)] by auto
  ultimately show ?thesis
    using r'(1) e(3) default_headers_removes by (auto simp: e(2))
qed

lemma lifecycle_over_preset:
  assumes "over_preset reg r = Inr (base, out)" and "r_Credential out = Some c" and "cr_Lifecycle c \<noteq> []"
    and "r_Preset r \<noteq> []"
  shows "r_Preset r = PresetClaudeCode \<and> r_Upstream out = ''https://api.anthropic.com''
     \<and> cr_Field c = ''claudeAiOauth.accessToken''"
  using assms(1)
proof (cases rule: over_preset_cases)
  case (preset p)
  note ok = decodePreset_ok[OF preset(2)]
  obtain bc where bc: "r_Credential (pr_Route p) = Some bc" "cr_Lifecycle bc \<noteq> []"
    using assms(2,3) by (cases "r_Credential (pr_Route p)"; cases "r_Credential r") (auto simp: preset(5))
  have "r_Upstream (pr_Route p) = ''https://api.anthropic.com'' \<and> cr_Field bc = ''claudeAiOauth.accessToken''"
    using ok bc by (simp add: preset_ok_def split: option.splits)
  then show ?thesis
    using overlay_refuses_None[OF preset(4) bc] assms(2) ok bc(1) by (simp add: preset(5))
qed (use assms(4) in simp)

text \<open>C26: A credential that the broker keeps fresh stays with its endpoint. When the expansion of a
  route read from a document has a credential lifecycle, the route names the claude-code preset,
  goes to that preset's upstream and injects that preset's field, whatever the document wrote.\<close>
theorem lifecycle_pinned:
  assumes "ExpandRoute yread reg r = Inr e" and "\<not> lifecycleFromPreset r"
    and "r_Credential e = Some c" and "cr_Lifecycle c \<noteq> []"
  shows "r_Preset e = PresetClaudeCode \<and> r_Upstream e = ''https://api.anthropic.com''
     \<and> cr_Field c = ''claudeAiOauth.accessToken''"
proof -
  obtain r' where r': "r' = r \<or> r' = r\<lparr>r_Inject := None\<rparr>" "expand_bare yread reg r' = Inr e"
    using ExpandRoute_Inr[OF assms(1)] by metis
  obtain base out where e: "over_preset reg r' = Inr (base, out)" "e = setDefaults out" "route_Validate yread e = None"
    using expand_bare_Inr[OF r'(2)] by metis
  have same: "r_Preset out = r_Preset r'"
    using e(1) by (cases rule: over_preset_cases) simp_all
  have "r_Preset r' \<noteq> []"
  proof
    assume "r_Preset r' = []"
    with e(1) have "out = r'" by (cases rule: over_preset_cases) auto
    then have "\<not> lifecycleFromPreset e" using assms(2) r'(1) by (auto simp: e(2))
    then show False
      using route_Validate_parts(2)[OF e(3)] assms(3,4)
      by (simp add: route_credential_validate_def err_if_def)
  qed
  then show ?thesis
    using lifecycle_over_preset[OF e(1)] assms(3,4) same by (simp add: e(2))
qed

definition yaml_plain :: "string \<Rightarrow> yaml_value option" where
  "yaml_plain s = Some (YString s)"

definition sample_claude :: route where
  "sample_claude = empty_route\<lparr>r_Name := ''anthropic'', r_Preset := PresetClaudeCode,
     r_Credential := Some \<lparr>cr_SecretRef = ''claude-code'', cr_Field = [], cr_Lifecycle = []\<rparr>\<rparr>"

definition sample_expanded :: route where
  "sample_expanded = projr (ExpandRoute yaml_plain [] sample_claude)"

lemma sample_expands: "ExpandRoute yaml_plain [] sample_claude = Inr sample_expanded"
  by code_simp

theorem expand_route_valid_witness:
  "route_Validate yaml_plain sample_expanded = None \<and> r_Name sample_expanded = ''anthropic''"
  using expand_route_valid[OF sample_expands] by (simp add: sample_claude_def)

theorem lifecycle_pinned_witness: "r_Upstream sample_expanded = ''https://api.anthropic.com''"
proof -
  have c: "r_Credential sample_expanded = Some \<lparr>cr_SecretRef = ''claude-code'', cr_Field = ''claudeAiOauth.accessToken'',
      cr_Lifecycle = LifecycleAnthropicOAuth\<rparr>"
    by code_simp
  then show ?thesis
    using lifecycle_pinned[OF sample_expands _ c]
    by (simp add: sample_claude_def empty_route_def LifecycleAnthropicOAuth_def)
qed

subsection \<open>Expanding twice\<close>

lemma containsFold_append [simp]: "containsFold (xs @ ys) n \<longleftrightarrow> containsFold xs n \<or> containsFold ys n"
  by (simp add: containsFold_def)

lemma containsFold_member: "n \<in> set xs \<Longrightarrow> containsFold xs n"
  unfolding containsFold_def list_ex_iff using equal_fold_refl by blast

text \<open>The names \<open>add_fold\<close> appends are new up to case, so adding the result again adds nothing.\<close>

lemma add_fold_known: "\<forall>n \<in> set ns. containsFold xs n \<Longrightarrow> add_fold xs (ns @ ms) = add_fold xs ms"
  by (induction ns) auto

lemma add_fold_ext: "\<exists>ys. add_fold xs ns = xs @ ys \<and> add_fold xs ys = xs @ ys"
proof (induction ns arbitrary: xs)
  case (Cons n ns)
  show ?case
  proof (cases "containsFold xs n")
    case False
    obtain ys where ys: "add_fold (xs @ [n]) ns = (xs @ [n]) @ ys" "add_fold (xs @ [n]) ys = (xs @ [n]) @ ys"
      using Cons.IH by blast
    then show ?thesis using False by (intro exI[of _ "n # ys"]) simp
  qed (use Cons.IH in simp)
qed simp

lemma add_fold_idem: "add_fold xs (add_fold xs ns) = add_fold xs ns"
proof -
  obtain ys where "add_fold xs ns = xs @ ys" "add_fold xs ys = xs @ ys" using add_fold_ext by blast
  then show ?thesis using add_fold_known[of xs xs ys] containsFold_member by simp
qed

lemma add_fold_self: "add_fold xs xs = xs"
  using add_fold_known[of xs xs "[]"] containsFold_member by simp

lemma add_fold_contains: "containsFold xs n \<Longrightarrow> containsFold (add_fold xs ns) n"
  using add_fold_ext[of xs ns] by auto

text \<open>An environment laid over a base keeps the base's order, so laying it over again is the same.\<close>

definition lay_env :: "(string \<times> string) list \<Rightarrow> (string \<times> string) list \<Rightarrow> (string \<times> string) list" where
  "lay_env env base = fold (\<lambda>(k, v) e. AList.update k v e) env base"

lemma update_app: "k \<notin> fst ` set xs \<Longrightarrow> AList.update k v (xs @ ys) = xs @ AList.update k v ys"
  by (induction xs) auto

lemma lay_env_keys: "\<exists>ks. map fst (lay_env env base) = map fst base @ ks"
proof (induction env arbitrary: base)
  case (Cons kv env)
  obtain k v where kv: "kv = (k, v)" by (cases kv)
  obtain ks where "map fst (lay_env env (AList.update k v base)) = map fst (AList.update k v base) @ ks"
    using Cons.IH by blast
  then show ?case by (auto simp: kv lay_env_def update_keys)
qed (simp add: lay_env_def)

lemma lay_env_distinct: "distinct (map fst base) \<Longrightarrow> distinct (map fst (lay_env env base))"
  by (induction env arbitrary: base) (auto simp: lay_env_def distinct_update split: prod.splits)

lemma lay_env_prefix:
  assumes "prefix (map fst base) (map fst xs)" and "distinct (map fst (pre @ xs))"
  shows "lay_env xs (pre @ base) = pre @ xs"
  using assms
proof (induction xs arbitrary: pre base)
  case (Cons kv xs)
  obtain k v where kv: "kv = (k, v)" by (cases kv)
  have new: "k \<notin> fst ` set pre" using Cons.prems(2) by (auto simp: kv)
  have "\<exists>base'. AList.update k v (pre @ base) = (pre @ [(k, v)]) @ base' \<and> prefix (map fst base') (map fst xs)"
  proof (cases base)
    case Nil
    then show ?thesis using Cons.prems(1) new update_app[OF new, of v "[]"] by (auto simp: kv)
  next
    case (Cons b base')
    then show ?thesis using Cons.prems(1) new update_app[OF new, of v base] by (cases b) (auto simp: kv)
  qed
  then obtain base' where b: "AList.update k v (pre @ base) = (pre @ [(k, v)]) @ base'"
      "prefix (map fst base') (map fst xs)" by blast
  have "lay_env xs ((pre @ [(k, v)]) @ base') = (pre @ [(k, v)]) @ xs"
    using Cons.prems(2) by (intro Cons.IH b(2)) (simp add: kv)
  then show ?case using b(1) by (simp add: lay_env_def kv)
qed (simp add: lay_env_def)

lemma lay_env_idem: "distinct (map fst base) \<Longrightarrow> lay_env (lay_env env base) base = lay_env env base"
  using lay_env_keys[of env base] lay_env_prefix[of base _ "[]"] lay_env_distinct[of base env]
  by (auto simp: prefix_def)


lemma overlay_credential_idem:
  "overlay_credential base (overlay_credential base c) = overlay_credential base c"
  "overlay_credential (Some b) b = b"
  by (cases base; simp add: overlay_credential_def Let_def no_credential_def)+

lemma overlay_guest_idem:
  assumes "case base of None \<Rightarrow> True | Some b \<Rightarrow> distinct (map fst (gu_Env b))"
  shows "overlay_guest base (overlay_guest base g) = overlay_guest base g"
proof -
  have "distinct (map fst (gu_Env (case base of None \<Rightarrow> \<lparr>gu_Env = [], gu_Git = None\<rparr> | Some b \<Rightarrow> b)))"
    using assms by (cases base) auto
  from lay_env_idem[OF this, of "gu_Env g"]
  show "overlay_guest base (overlay_guest base g) = overlay_guest base g"
    by (simp add: overlay_guest_def Let_def flip: lay_env_def)
qed

lemma overlay_guest_self: "distinct (map fst (gu_Env b)) \<Longrightarrow> overlay_guest (Some b) b = b"
  using lay_env_prefix[of "gu_Env b" "gu_Env b" "[]"]
  by (simp add: overlay_guest_def Let_def flip: lay_env_def)

lemma overlay_headers_idem:
  "overlay_headers base (overlay_headers base h) = overlay_headers base h"
  "overlay_headers (Some b) b = b"
proof -
  show "overlay_headers base (overlay_headers base h) = overlay_headers base h"
    by (cases base; cases "hi_Remove (the base)")
      (auto simp: overlay_headers_def Let_def add_fold_idem add_fold_self)
  show "overlay_headers (Some b) b = b"
    by (cases "hi_Remove b") (auto intro!: header_inject.equality simp: overlay_headers_def Let_def add_fold_self)
qed


text \<open>Over a preset, the headers always drop Authorization, so the defaults change nothing.\<close>

lemma overlay_headers_removes:
  "containsFold (els (hi_Remove b)) n \<Longrightarrow> containsFold (els (hi_Remove (overlay_headers (Some b) h))) n"
  using add_fold_contains[of "els (hi_Remove b)" n "els (hi_Remove h)"]
  by (auto simp: overlay_headers_def Let_def)

lemma overlay_inject_preset:
  assumes "in_Headers b = Some hb" and "containsFold (els (hi_Remove hb)) ''Authorization''"
  shows "overlay_inject (Some b) (overlay_inject (Some b) i) = overlay_inject (Some b) i"
    "overlay_inject (Some b) b = b"
    "\<exists>h. in_Headers (overlay_inject (Some b) i) = Some h \<and> containsFold (els (hi_Remove h)) ''Authorization''"
  using assms overlay_headers_removes[OF assms(2)]
  by (auto simp: overlay_inject_def Let_def overlay_headers_idem split: option.splits)

lemma inject_default_id:
  "in_Headers i = Some h \<Longrightarrow> containsFold (els (hi_Remove h)) ''Authorization'' \<Longrightarrow>
     i\<lparr>in_Headers := Some (default_headers (in_Headers i))\<rparr> = i"
  by (auto intro!: inject.equality simp: default_headers_Some)

lemma preset_inject:
  assumes "preset_ok base"
  obtains b hb where "r_Inject base = Some b" "in_Headers b = Some hb" "containsFold (els (hi_Remove hb)) ''Authorization''"
  using assms by (auto simp: preset_ok_def split: option.splits)

lemma setDefaults_preset:
  assumes "preset_ok base"
  shows "setDefaults (overlay_fields base r) = overlay_fields base r"
proof -
  obtain b hb where b: "r_Inject base = Some b" "in_Headers b = Some hb" "containsFold (els (hi_Remove hb)) ''Authorization''"
    using preset_inject[OF assms] .
  have "r_Mode base \<noteq> []" using assms by (simp add: preset_ok_def)
  moreover have "r_Inject (setDefaults (overlay_fields base r)) = r_Inject (overlay_fields base r)"
    using b inject_default_id overlay_inject_preset(3)[OF b(2,3)]
    by (cases "r_Inject r") fastforce+
  ultimately show ?thesis by (intro route.equality) simp_all
qed

lemma overlay_fields_idem:
  assumes "preset_ok base"
  shows "overlay_fields base (overlay_fields base r) = overlay_fields base r"
    "r_Inject r = None \<Longrightarrow> overlay_fields base ((overlay_fields base r)\<lparr>r_Inject := None\<rparr>) = overlay_fields base r"
proof -
  obtain b hb where b: "r_Inject base = Some b" "in_Headers b = Some hb" "containsFold (els (hi_Remove hb)) ''Authorization''"
    using preset_inject[OF assms] .
  have guest: "case r_Guest base of None \<Rightarrow> True | Some b \<Rightarrow> distinct (map fst (gu_Env b))"
    using assms by (auto simp: preset_ok_def split: option.splits)
  note idem = overlay_credential_idem overlay_guest_idem[OF guest] overlay_guest_self overlay_inject_preset[OF b(2,3)]
  show "overlay_fields base (overlay_fields base r) = overlay_fields base r"
    using guest by (intro route.equality) (auto simp: b(1) idem split: option.splits)
  show "r_Inject r = None \<Longrightarrow> overlay_fields base ((overlay_fields base r)\<lparr>r_Inject := None\<rparr>) = overlay_fields base r"
    using guest by (intro route.equality) (auto simp: b(1) idem split: option.splits)
qed

lemma overlay_refuses_idem:
  "overlay_refuses base r = None \<Longrightarrow> overlay_refuses base (overlay_fields base r) = None"
  "overlay_refuses base r = None \<Longrightarrow> overlay_refuses base ((overlay_fields base r)\<lparr>r_Inject := i\<rparr>) = None"
  by (auto simp: overlay_refuses_def overlay_credential_def Let_def err_if_def split: option.splits if_splits)


lemma expand_bare_preset:
  assumes "r_Preset x \<noteq> []" and "decodePreset reg (r_Preset x) = Inr p"
    and "overlay_refuses (pr_Route p) x = None" and "overlay_fields (pr_Route p) x = e"
    and "Served reg (r_Mode e) \<longrightarrow> r_Mode e \<in> set (preset_modes reg p)"
    and "mode_Lookup reg (r_Mode x) = None" and "route_Validate yread e = None"
  shows "expand_bare yread reg x = Inr e"
proof -
  have "over_preset reg x = Inr (pr_Route p, e)"
    using assms(1-5) by (auto simp: over_preset_def overlay_def on_ok_def)
  moreover have "setDefaults e = e"
    using setDefaults_preset decodePreset_ok[OF assms(2)] assms(4) by blast
  ultimately show ?thesis
    using assms(6,7) by (simp add: expand_bare_def mode_refuses_def)
qed

lemma expand_bare_plain:
  assumes "r_Preset e = []" and "mode_Lookup reg (r_Mode e) = None" and "setDefaults e = e" and "route_Validate yread e = None"
  shows "expand_bare yread reg e = Inr e"
  using assms by (simp add: expand_bare_def over_preset_def mode_refuses_def)

lemma Vends_preset: "Vends e \<Longrightarrow> r_Preset e \<noteq> []"
  by (simp add: Vends_def PresetAWS_def)

text \<open>Expanding an expanded route gives it back, so what brig sends to the broker, which expands
  it again, is what the broker serves. The route is in a mode that registers no check of its own,
  such as endpoint.\<close>
theorem expand_idempotent:
  assumes "ExpandRoute yread reg r = Inr e" and "mode_Lookup reg (r_Mode e) = None"
  shows "ExpandRoute yread reg e = Inr e"
proof -
  obtain r' where r': "expand_bare yread reg r' = Inr e" "Vends r' \<longrightarrow> r_Inject r' = None"
    using ExpandRoute_Inr[OF assms(1)] by metis
  obtain base out where e: "over_preset reg r' = Inr (base, out)" "e = setDefaults out" and valid: "route_Validate yread e = None"
    using expand_bare_Inr[OF r'(1)] by metis
  from e(1) show ?thesis
  proof (cases rule: over_preset_cases)
    case none
    then have "r_Preset e = []" by (simp add: e(2))
    moreover have "setDefaults e = e" by (simp add: e(2) setDefaults_idem)
    ultimately show ?thesis
      using expand_bare_plain[OF _ assms(2) _ valid] Vends_preset by (auto simp: ExpandRoute_def)
  next
    case (preset p)
    let ?base = "pr_Route p"
    have ok: "preset_ok ?base" using decodePreset_ok[OF preset(2)] by blast
    have eq: "e = overlay_fields ?base r'" using e(2) preset(5) setDefaults_preset[OF ok] by simp
    have out: "out = e" using eq preset(5) by simp
    have pre: "r_Preset e = r_Preset r'" by (simp add: eq)
    have again: "expand_bare yread reg x = Inr e"
      if "overlay_refuses ?base x = None" "overlay_fields ?base x = e" "r_Preset x = r_Preset e" "r_Mode x = r_Mode e" for x
      using that preset(1,2,6) assms(2) valid pre out by (intro expand_bare_preset[of x reg p e]) auto
    have plain: "expand_bare yread reg e = Inr e"
      using overlay_refuses_idem(1)[OF preset(4)] overlay_fields_idem(1)[OF ok, of r'] by (intro again) (simp_all flip: eq)
    have bare: "Vends e \<Longrightarrow> expand_bare yread reg (e\<lparr>r_Inject := None\<rparr>) = Inr e"
    proof -
      assume "Vends e"
      then have "r_Inject r' = None" using r'(2) pre by (simp add: Vends_def)
      then show ?thesis
        using overlay_refuses_idem(2)[OF preset(4), of None] overlay_fields_idem(2)[OF ok, of r']
        by (intro again) (simp_all flip: eq)
    qed
    show ?thesis using plain bare by (auto simp: ExpandRoute_def)
  qed
qed

theorem expand_idempotent_witness: "ExpandRoute yaml_plain [] sample_expanded = Inr sample_expanded"
  by (rule expand_idempotent[OF sample_expands]) (simp add: mode_Lookup_def)

end
