(* ===== verification/Policy_Routes.thy ===== *)
theory Policy_Routes
  imports Policy_Expand_Facts
begin

text \<open>
  The routes of a run: \<open>Routes\<close> is shown to return exactly the expansions that satisfy a
  specification without owners and maps. The state of the loop is written as a function of the
  routes it has taken so far, which is the invariant of the loop.
\<close>

definition serves :: "route \<Rightarrow> bool" where
  "serves e \<longleftrightarrow> els (r_Services e) \<noteq> []"

definition owns_apart :: "route list \<Rightarrow> bool" where
  "owns_apart rs \<longleftrightarrow>
     distinct (map r_Name rs) \<and> distinct (concat (map route_vars rs)) \<and> distinct (concat (map route_prefixes rs))
     \<and> length (filter serves rs) \<le> 1"

text \<open>A gcloud endpoint override stands only on the route that lists the services, if there is one.\<close>

definition overrides_apart :: "route list \<Rightarrow> bool" where
  "overrides_apart rs \<longleftrightarrow>
     (\<forall>s \<in> set rs. \<forall>e \<in> set rs. serves s \<and> r_Name e \<noteq> r_Name s
        \<longrightarrow> (\<forall>v \<in> set (route_vars e). \<not> has_prefix GCPEndpointOverridePrefix v))"

definition env_entries :: "(string \<times> route) list \<Rightarrow> (string \<times> string \<times> string) list" where
  "env_entries pes = rev (concat (map (\<lambda>(pn, e). map (\<lambda>v. (v, pn, r_Name e)) (route_vars e)) pes))"

definition prefix_entries :: "(string \<times> route) list \<Rightarrow> (string \<times> string \<times> string) list" where
  "prefix_entries pes = rev (concat (map (\<lambda>(pn, e). map (\<lambda>v. (v, pn, r_Name e)) (route_prefixes e)) pes))"

definition services_owner :: "(string \<times> route) list \<Rightarrow> string \<times> string" where
  "services_owner pes =
     (case rev (filter (\<lambda>pe. serves (snd pe)) pes) of [] \<Rightarrow> ([], []) | (pn, e) # _ \<Rightarrow> (pn, r_Name e))"

definition state_of :: "(string \<times> route) list \<Rightarrow> routes_state" where
  "state_of pes = \<lparr>routeOwner = rev (map (\<lambda>(pn, e). (r_Name e, pn)) pes), envOwner = env_entries pes,
     prefixOwner = prefix_entries pes, servicesRoute = services_owner pes, rs_out = map snd pes\<rparr>"

lemma claim_keys:
  "fold_err (claim_key err ow) names m = Inr m' \<longleftrightarrow>
     distinct names \<and> set names \<inter> fst ` set m = {} \<and> m' = rev (map (\<lambda>n. (n, ow)) names) @ m"
  by (induction names arbitrary: m) (auto simp: claim_key_def map_of_eq_None_iff image_iff split: if_splits)

lemma entries_keys:
  "fst ` set (env_entries pes) = set (concat (map route_vars (map snd pes)))"
  "fst ` set (prefix_entries pes) = set (concat (map route_prefixes (map snd pes)))"
  "fst ` set (rev (map (\<lambda>(pn, e). (r_Name e, pn)) pes)) = set (map r_Name (map snd pes))"
  by (force simp: env_entries_def prefix_entries_def)+

lemma owns_apart_snoc:
  "owns_apart (rs @ [e]) \<longleftrightarrow> owns_apart rs \<and> r_Name e \<notin> set (map r_Name rs)
     \<and> distinct (route_vars e) \<and> set (route_vars e) \<inter> set (concat (map route_vars rs)) = {}
     \<and> distinct (route_prefixes e) \<and> set (route_prefixes e) \<inter> set (concat (map route_prefixes rs)) = {}
     \<and> \<not> (serves e \<and> filter serves rs \<noteq> [])"
  by (cases "filter serves rs") (auto simp: owns_apart_def)

lemma services_owner_none:
  assumes "\<forall>pe \<in> set pes. r_Name (snd pe) \<noteq> []"
  shows "snd (services_owner pes) = [] \<longleftrightarrow> filter serves (map snd pes) = []"
proof (cases "rev (filter (\<lambda>pe. serves (snd pe)) pes)")
  case Nil
  then show ?thesis by (auto simp: services_owner_def filter_empty_conv)
next
  case (Cons pe pes')
  then have "pe \<in> set (rev (filter (\<lambda>pe. serves (snd pe)) pes))" by simp
  then have "pe \<in> set pes" "serves (snd pe)" by auto
  then show ?thesis using assms Cons by (auto simp: services_owner_def filter_empty_conv split: prod.splits)
qed

lemma expanded_named: "ExpandRoute yread reg r = Inr e \<Longrightarrow> r_Name e \<noteq> []"
  using expand_route_valid[of yread reg r e] route_Validate_parts(3)[of yread e]
  by (auto simp: CheckRouteName_def CheckName_def safeName_def simp del: first_err.simps)

lemma add_route_Inr:
  assumes "owns_apart (map snd pes)" and "\<forall>pe \<in> set pes. r_Name (snd pe) \<noteq> []"
  shows "add_route yread reg (pn, r) (state_of pes) = Inr st \<longleftrightarrow>
     (\<exists>e. ExpandRoute yread reg r = Inr e \<and> owns_apart (map snd (pes @ [(pn, e)])) \<and> st = state_of (pes @ [(pn, e)]))"
proof (cases "ExpandRoute yread reg r")
  case (Inr e)
  have st: "state_of (pes @ [(pn, e)]) =
      \<lparr>routeOwner = (r_Name e, pn) # rev (map (\<lambda>(pn, e). (r_Name e, pn)) pes),
       envOwner = rev (map (\<lambda>n. (n, pn, r_Name e)) (route_vars e)) @ env_entries pes,
       prefixOwner = rev (map (\<lambda>n. (n, pn, r_Name e)) (route_prefixes e)) @ prefix_entries pes,
       servicesRoute = (if serves e then (pn, r_Name e) else services_owner pes), rs_out = map snd pes @ [e]\<rparr>"
    by (simp add: state_of_def env_entries_def prefix_entries_def services_owner_def)
  have rhs: "(\<exists>e'. ExpandRoute yread reg r = Inr e' \<and> owns_apart (map snd (pes @ [(pn, e')])) \<and> st = state_of (pes @ [(pn, e')]))
      \<longleftrightarrow> owns_apart (map snd pes @ [e]) \<and> st = state_of (pes @ [(pn, e)])"
    by (simp add: Inr)
  show ?thesis
    unfolding rhs unfolding owns_apart_snoc st
    using assms(1) entries_keys[of pes] services_owner_none[OF assms(2)]
    by (auto simp: add_route_def Inr state_of_def map_of_eq_None_iff bind_err_Inr claim_keys serves_def)
qed (simp add: add_route_def)


lemma owns_apart_prefix: "owns_apart (xs @ ys) \<Longrightarrow> owns_apart xs"
  by (auto simp: owns_apart_def)

text \<open>The loop from the state of some routes returns exactly when the further routes expand and
  stay apart from them.\<close>

lemma add_routes_Inr:
  assumes "owns_apart (map snd pes)" and "\<forall>pe \<in> set pes. r_Name (snd pe) \<noteq> []"
  shows "fold_err (add_route yread reg) prs (state_of pes) = Inr st \<longleftrightarrow>
     (\<exists>es. list_all2 (\<lambda>pr e. ExpandRoute yread reg (snd pr) = Inr e) prs es
        \<and> owns_apart (map snd pes @ es) \<and> st = state_of (pes @ zip (map fst prs) es))"
  using assms
proof (induction prs arbitrary: pes)
  case (Cons pr prs)
  obtain pn r where pr: "pr = (pn, r)" by (cases pr)
  have "fold_err (add_route yread reg) (pr # prs) (state_of pes) = Inr st \<longleftrightarrow>
      (\<exists>e. ExpandRoute yread reg r = Inr e \<and> owns_apart (map snd (pes @ [(pn, e)]))
         \<and> fold_err (add_route yread reg) prs (state_of (pes @ [(pn, e)])) = Inr st)"
    unfolding fold_err_Cons_Inr pr add_route_Inr[OF Cons.prems] by blast
  also have "\<dots> \<longleftrightarrow> (\<exists>e. ExpandRoute yread reg r = Inr e \<and> owns_apart (map snd (pes @ [(pn, e)]))
      \<and> (\<exists>es. list_all2 (\<lambda>pr e. ExpandRoute yread reg (snd pr) = Inr e) prs es
            \<and> owns_apart (map snd (pes @ [(pn, e)]) @ es)
            \<and> st = state_of ((pes @ [(pn, e)]) @ zip (map fst prs) es)))"
    using Cons.IH[of "pes @ [(pn, _)]"] Cons.prems(2) expanded_named[of yread reg r] by auto
  also have "\<dots> \<longleftrightarrow> (\<exists>es. list_all2 (\<lambda>pr e. ExpandRoute yread reg (snd pr) = Inr e) (pr # prs) es
        \<and> owns_apart (map snd pes @ es) \<and> st = state_of (pes @ zip (map fst (pr # prs)) es))"
    using owns_apart_prefix[of "map snd pes @ [_]"] unfolding list_all2_Cons1 pr by fastforce
  finally show ?case .
qed auto


lemma expand_all_Inr:
  "expand_all yread reg rs = Inr es \<longleftrightarrow> list_all2 (\<lambda>r e. ExpandRoute yread reg r = Inr e) rs es"
proof -
  have "fold_err (\<lambda>r out. bind_err (ExpandRoute yread reg r) (\<lambda>e. Inr (out @ [e]))) rs acc = Inr es \<longleftrightarrow>
      (\<exists>es'. list_all2 (\<lambda>r e. ExpandRoute yread reg r = Inr e) rs es' \<and> es = acc @ es')" for acc
    by (induction rs arbitrary: acc) (auto simp: fold_err_Cons_Inr bind_err_Inr list_all2_Cons1 simp del: fold_err.simps(2))
  from this[of "[]"] show ?thesis by (simp add: expand_all_def)
qed

lemma env_entries_member:
  "(v, pn, n) \<in> set (env_entries pes) \<longleftrightarrow> (\<exists>e. (pn, e) \<in> set pes \<and> n = r_Name e \<and> v \<in> set (route_vars e))"
  unfolding env_entries_def set_rev set_concat set_map case_prod_unfold by (simp add: image_iff) (metis prod.collapse fst_conv snd_conv)

lemma override_elsewhere_iff:
  "override_elsewhere (state_of pes) \<longleftrightarrow>
     (\<exists>e \<in> set (map snd pes). r_Name e \<noteq> snd (services_owner pes)
        \<and> (\<exists>v \<in> set (route_vars e). has_prefix GCPEndpointOverridePrefix v))"
proof -
  have "override_elsewhere (state_of pes) \<longleftrightarrow> (\<exists>v pn n. (v, pn, n) \<in> set (env_entries pes)
      \<and> n \<noteq> snd (services_owner pes) \<and> has_prefix GCPEndpointOverridePrefix v)"
    by (force simp: override_elsewhere_def state_of_def list_ex_iff)
  also have "\<dots> \<longleftrightarrow> (\<exists>pe \<in> set pes. r_Name (snd pe) \<noteq> snd (services_owner pes)
        \<and> (\<exists>v \<in> set (route_vars (snd pe)). has_prefix GCPEndpointOverridePrefix v))"
    unfolding env_entries_member by force
  finally show ?thesis by simp
qed

lemma services_owner_serves:
  assumes "filter serves (map snd pes) = [s]"
  shows "snd (services_owner pes) = r_Name s"
proof -
  have "map snd (filter (\<lambda>pe. serves (snd pe)) pes) = [s]"
    using assms by (simp add: filter_map comp_def)
  then show ?thesis by (auto simp: services_owner_def split: prod.splits)
qed

lemma override_apart_iff:
  assumes "owns_apart (map snd pes)" and "\<forall>pe \<in> set pes. r_Name (snd pe) \<noteq> []"
  shows "snd (servicesRoute (state_of pes)) \<noteq> [] \<and> override_elsewhere (state_of pes) \<longleftrightarrow> \<not> overrides_apart (map snd pes)"
proof (cases "filter serves (map snd pes)")
  case Nil
  then have "\<forall>e \<in> set (map snd pes). \<not> serves e" unfolding filter_empty_conv by blast
  then have "overrides_apart (map snd pes)" by (auto simp: overrides_apart_def)
  then show ?thesis using services_owner_none[OF assms(2)] Nil by (simp add: state_of_def)
next
  case (Cons s ss)
  then have one: "filter serves (map snd pes) = [s]" using assms(1) by (simp add: owns_apart_def)
  have own: "snd (services_owner pes) = r_Name s" by (rule services_owner_serves[OF one])
  have mem: "x \<in> set (map snd pes) \<and> serves x \<longleftrightarrow> x = s" for x
  proof -
    have "{x \<in> set (map snd pes). serves x} = {s}" using arg_cong[OF one, of set] unfolding set_filter list.set .
    then show ?thesis by blast
  qed
  have "r_Name s \<noteq> []" using mem[of s] assms(2) by auto
  moreover have "overrides_apart (map snd pes) \<longleftrightarrow> (\<forall>e \<in> set (map snd pes). r_Name e \<noteq> r_Name s
      \<longrightarrow> (\<forall>v \<in> set (route_vars e). \<not> has_prefix GCPEndpointOverridePrefix v))"
    unfolding overrides_apart_def using mem by metis
  ultimately show ?thesis
    unfolding override_elsewhere_iff own by (simp add: own state_of_def)
qed

text \<open>\<open>Routes\<close> returns the routes of a run exactly when every route of every bound policy expands
  and the expansions own what they name: no two share a route name, a guest variable (the gcloud
  variables brig writes included) or a rewritten git prefix, at most one lists services, and no
  other route sets a gcloud endpoint override beside it. The routes come in the order written.\<close>
theorem routes_iff:
  "Routes yread reg ps = Inr rs \<longleftrightarrow>
     expand_all yread reg (concat (map po_Routes ps)) = Inr rs \<and> owns_apart rs \<and> overrides_apart rs"
proof -
  let ?prs = "concat (map (\<lambda>p. map (Pair (po_Name p)) (po_Routes p)) ps)"
  have snds: "map snd ?prs = concat (map po_Routes ps)"
    by (induction ps) (auto simp: comp_def)
  have exp: "list_all2 (\<lambda>pr e. ExpandRoute yread reg (snd pr) = Inr e) ?prs es \<longleftrightarrow>
      expand_all yread reg (concat (map po_Routes ps)) = Inr es" for es
    unfolding expand_all_Inr snds[symmetric] by (simp add: list_all2_map1)
  have nil: "state_of [] = \<lparr>routeOwner = [], envOwner = [], prefixOwner = [], servicesRoute = ([], []), rs_out = []\<rparr>"
    by (simp add: state_of_def env_entries_def prefix_entries_def services_owner_def)
  have loop: "fold_err (add_route yread reg) ?prs (state_of []) = Inr st \<longleftrightarrow>
      (\<exists>es. expand_all yread reg (concat (map po_Routes ps)) = Inr es \<and> owns_apart es
         \<and> st = state_of (zip (map fst ?prs) es))" for st
    using add_routes_Inr[of "[]" yread reg ?prs st] exp by (simp add: owns_apart_def)
  have zipped: "map snd (zip (map fst ?prs) es) = es"
    "\<forall>pe \<in> set (zip (map fst ?prs) es). r_Name (snd pe) \<noteq> []"
    if "expand_all yread reg (concat (map po_Routes ps)) = Inr es" for es
  proof -
    have all2: "list_all2 (\<lambda>pr e. ExpandRoute yread reg (snd pr) = Inr e) ?prs es" using that exp by blast
    then have len: "length ?prs = length es" by (rule list_all2_lengthD)
    then show "map snd (zip (map fst ?prs) es) = es" by (simp only: map_snd_zip length_map)
    have named: "r_Name e \<noteq> []" if "e \<in> set es" for e
      using list_all2_right[OF all2 that] expanded_named by blast
    show "\<forall>pe \<in> set (zip (map fst ?prs) es). r_Name (snd pe) \<noteq> []"
      by (intro ballI named) (metis prod.collapse set_zip_rightD)
  qed
  have last: "(if snd (servicesRoute st) \<noteq> [] \<and> override_elsewhere st then Inl OverrideOnOther else Inr (rs_out st)) = Inr rs
      \<longleftrightarrow> overrides_apart es \<and> es = rs"
    if "expand_all yread reg (concat (map po_Routes ps)) = Inr es" "owns_apart es" "st = state_of (zip (map fst ?prs) es)" for es st
  proof -
    have out: "rs_out st = es" using zipped(1)[OF that(1)] that(3) by (simp add: state_of_def)
    have "snd (servicesRoute st) \<noteq> [] \<and> override_elsewhere st \<longleftrightarrow> \<not> overrides_apart es"
      using override_apart_iff[of "zip (map fst ?prs) es", unfolded zipped(1)[OF that(1)], OF that(2) zipped(2)[OF that(1)]]
      unfolding that(3) .
    then show ?thesis using out by simp
  qed
  show ?thesis
    unfolding Routes_def nil[symmetric] bind_err_Inr loop using last by blast
qed

end
