(* ===== verification/Policy_Bind.thy ===== *)
theory Policy_Bind
  imports Policy_Routes Session_Ref
begin

text \<open>
  Which policies bind a run, and what they fold into: \<open>attachments.go\<close>, \<open>effective.go\<close>,
  \<open>bindings.go\<close>, \<open>coverage.go\<close>, \<open>load.go\<close>, \<open>parse.go\<close> and \<open>merge.go\<close> of \<open>internal/policy\<close>. Reading
  and writing the files is left out: the attachment record is a value, a directory is the list of
  its files, and a decoded document is an argument. The two levels of attachment, profile and
  session, are two interpretations of one locale.
\<close>

subsection \<open>Attachments\<close>

record attachments =
  at_Profiles :: "(string \<times> string list) list"
  at_Sessions :: "(string \<times> (string \<times> string list) list) list"

definition lookup_list :: "('k \<times> 'v list) list \<Rightarrow> 'k \<Rightarrow> 'v list" where
  "lookup_list m k = (case map_of m k of None \<Rightarrow> [] | Some l \<Rightarrow> l)"

definition addOnce :: "string list \<Rightarrow> string \<Rightarrow> string list" where
  "addOnce names name = (if name \<in> set names then names else names @ [name])"

definition remove_name :: "string list \<Rightarrow> string \<Rightarrow> string list \<times> bool" where
  "remove_name names name = (filter (\<lambda>n. n \<noteq> name) names, name \<in> set names)"

text \<open>Writes an entry, and drops it when the list it would hold is empty.\<close>

definition put_list :: "'k \<Rightarrow> 'v list \<Rightarrow> ('k \<times> 'v list) list \<Rightarrow> ('k \<times> 'v list) list" where
  "put_list k l m = (if l = [] then AList.delete k m else AList.update k l m)"

definition AttachToProfile :: "string \<Rightarrow> string \<Rightarrow> attachments \<Rightarrow> attachments" where
  "AttachToProfile name prof a =
     a\<lparr>at_Profiles := AList.update prof (addOnce (lookup_list (at_Profiles a) prof) name) (at_Profiles a)\<rparr>"

definition DetachFromProfile :: "string \<Rightarrow> string \<Rightarrow> attachments \<Rightarrow> attachments \<times> bool" where
  "DetachFromProfile name prof a =
     (case remove_name (lookup_list (at_Profiles a) prof) name of (names, removed) \<Rightarrow>
        (a\<lparr>at_Profiles := put_list prof names (at_Profiles a)\<rparr>, removed))"

definition AttachToSession :: "string \<Rightarrow> string \<Rightarrow> string \<Rightarrow> attachments \<Rightarrow> attachments" where
  "AttachToSession name prof sess a =
     (let m = lookup_list (at_Sessions a) prof in
      a\<lparr>at_Sessions := AList.update prof (AList.update sess (addOnce (lookup_list m sess) name) m) (at_Sessions a)\<rparr>)"

definition DetachFromSession :: "string \<Rightarrow> string \<Rightarrow> string \<Rightarrow> attachments \<Rightarrow> attachments \<times> bool" where
  "DetachFromSession name prof sess a =
     (let m = lookup_list (at_Sessions a) prof in
      if map_of (at_Sessions a) prof = None then (a, False)
      else case remove_name (lookup_list m sess) name of (names, removed) \<Rightarrow>
        (a\<lparr>at_Sessions := put_list prof (put_list sess names m) (at_Sessions a)\<rparr>, removed))"

subsection \<open>What applies to a run\<close>

fun add_new :: "string list \<Rightarrow> string list \<Rightarrow> string list" where
  "add_new names [] = names"
| "add_new names (n # ns) = add_new (if n \<in> set names then names else names @ [n]) ns"

definition EffectivePolicies :: "profile \<Rightarrow> string \<Rightarrow> attachments \<Rightarrow> string list" where
  "EffectivePolicies p session a =
     (let n1 = add_new [] (p_policy p);
          n2 = add_new n1 (lookup_list (at_Profiles a) (p_name p)) in
      if session \<noteq> [] then add_new n2 (lookup_list (lookup_list (at_Sessions a) (p_name p)) session) else n2)"

definition InlineSuffix :: string where "InlineSuffix = '' (inline)''"

text \<open>One source list: each policy it names gets the binder once.\<close>

definition recordBindings :: "string \<Rightarrow> string list \<Rightarrow> (string \<times> string list) list \<Rightarrow> (string \<times> string list) list" where
  "recordBindings binder names bound =
     snd (fold (\<lambda>n (seen, b). if n \<in> set seen then (seen, b)
                              else (n # seen, AList.update n (lookup_list b n @ [binder]) b)) names ([], bound))"

definition session_binder :: "string \<Rightarrow> string \<Rightarrow> string" where
  "session_binder prof sess = prof @ '' -n '' @ sess"

text \<open>The lists that bind policies, each with the name it is reported under, in report order.\<close>

definition binding_sources :: "profile list \<Rightarrow> attachments \<Rightarrow> (string \<times> string list) list" where
  "binding_sources profiles a =
     map (\<lambda>p. (p_name p @ InlineSuffix, p_policy p)) (sort_key p_name profiles)
     @ map (\<lambda>k. (k, lookup_list (at_Profiles a) k)) (sort (map fst (at_Profiles a)))
     @ concat (map (\<lambda>k. map (\<lambda>s. (session_binder k s, lookup_list (lookup_list (at_Sessions a) k) s))
                            (sort (map fst (lookup_list (at_Sessions a) k))))
                   (sort (map fst (at_Sessions a))))"

definition Bindings :: "profile list \<Rightarrow> attachments \<Rightarrow> (string \<times> string list) list" where
  "Bindings profiles a = fold (\<lambda>(binder, names). recordBindings binder names) (binding_sources profiles a) []"

definition Orphaned :: "(string \<times> string list) list \<Rightarrow> (string \<times> 'e) list \<Rightarrow> string list" where
  "Orphaned bound entries = sort (filter (\<lambda>n. map_of entries n = None) (map fst bound))"

datatype coverage_error = ShellProfile | GUIProfile

definition CheckCoverage :: "profile \<Rightarrow> coverage_error option" where
  "CheckCoverage p = (if IsShell p then Some ShellProfile else if IsGUI p then Some GUIProfile else None)"

subsection \<open>Loading\<close>

definition attachmentsBasename :: string where "attachmentsBasename = ''attachments.yaml''"

definition reservedBasenames :: "string list" where "reservedBasenames = [attachmentsBasename]"

definition IsReservedName :: "string \<Rightarrow> bool" where
  "IsReservedName name \<longleftrightarrow> name @ ''.yaml'' \<in> set reservedBasenames"

text \<open>\<open>filepath.Ext\<close>: from the last dot of the last path element.\<close>

definition file_ext :: "string \<Rightarrow> string" where
  "file_ext name =
     (let base = (case cut_last CHR ''/'' name of None \<Rightarrow> name | Some (_, b) \<Rightarrow> b) in
      case cut_last CHR ''.'' base of None \<Rightarrow> [] | Some (_, e) \<Rightarrow> CHR ''.'' # e)"

definition isPolicyFile :: "string \<Rightarrow> bool" where
  "isPolicyFile name \<longleftrightarrow> name \<notin> set reservedBasenames \<and> file_ext name \<in> set [''.yaml'', ''.yml'', ''.json'']"

record flat_policy =
  fl_APIVersion :: string
  fl_Name :: string
  fl_Desc :: string
  fl_Egress :: egress

definition oneLine :: "string \<Rightarrow> string" where
  "oneLine s = join_with '' '' (filter (\<lambda>l. l \<noteq> []) (map trim_space (split_on CHR 0x0A s)))"

definition flat_to_policy :: "flat_policy \<Rightarrow> policy" where
  "flat_to_policy f = \<lparr>po_APIVersion = fl_APIVersion f, po_Kind = PolicyKind, po_Name = fl_Name f,
     po_Description = oneLine (fl_Desc f), po_Egress = Some (fl_Egress f), po_Routes = []\<rparr>"

text \<open>What the YAML decoder makes of a file: nothing readable, the retired flat form, or the envelope.\<close>

datatype document = Undecodable | Flat flat_policy | Envelope policy

datatype parse_error = DecodeFailed | PolicyInvalid policy_error | RoutesInvalid routes_error

definition parse_policy :: "(string \<Rightarrow> yaml_value option) \<Rightarrow> mode_registry \<Rightarrow> document \<Rightarrow> parse_error + (policy \<times> bool)" where
  "parse_policy yread reg d =
     (case (case d of Undecodable \<Rightarrow> None | Flat f \<Rightarrow> Some (flat_to_policy f, True) | Envelope p \<Rightarrow> Some (p, False)) of
        None \<Rightarrow> Inl DecodeFailed
      | Some (p, flat) \<Rightarrow>
          (case policy_Validate yread p of
             Some e \<Rightarrow> Inl (PolicyInvalid e)
           | None \<Rightarrow> (case Routes yread reg [p] of
                        Inl e \<Rightarrow> Inl (RoutesInvalid e)
                      | Inr _ \<Rightarrow> Inr (p, flat))))"

record policy_entry =
  pe_Policy :: policy
  pe_Path :: string
  pe_Flat :: bool

text \<open>
  A directory is its files with what each holds, \<open>None\<close> when it cannot be read. The result is
  the loaded entries, the unusable files, and the files whose policy replaced an earlier one.
\<close>

definition load_file :: "(string \<Rightarrow> yaml_value option) \<Rightarrow> mode_registry \<Rightarrow> string \<times> document option
    \<Rightarrow> (string \<times> policy_entry) list \<times> string list \<times> string list
    \<Rightarrow> (string \<times> policy_entry) list \<times> string list \<times> string list" where
  "load_file yread reg f st =
     (case (f, st) of ((name, content), entries, unusable, duplicate) \<Rightarrow>
        if \<not> isPolicyFile name then st
        else case content of
          None \<Rightarrow> (entries, unusable @ [name], duplicate)
        | Some d \<Rightarrow>
            (case parse_policy yread reg d of
               Inl _ \<Rightarrow> (entries, unusable @ [name], duplicate)
             | Inr (p, flat) \<Rightarrow>
                 (AList.update (po_Name p) \<lparr>pe_Policy = p, pe_Path = name, pe_Flat = flat\<rparr> entries, unusable,
                  if map_of entries (po_Name p) \<noteq> None then duplicate @ [name] else duplicate)))"

definition LoadAll :: "(string \<Rightarrow> yaml_value option) \<Rightarrow> mode_registry \<Rightarrow> (string \<times> document option) list
    \<Rightarrow> (string \<times> policy_entry) list \<times> string list \<times> string list" where
  "LoadAll yread reg files = fold (load_file yread reg) (sort_key fst files) ([], [], [])"

subsection \<open>Resolving and merging\<close>

definition ResolvePolicies :: "(string \<Rightarrow> yaml_value option) \<Rightarrow> mode_registry \<Rightarrow> profile \<Rightarrow> string \<Rightarrow> attachments
    \<Rightarrow> (string \<times> document option) list \<Rightarrow> string list + (policy list \<times> string list)" where
  "ResolvePolicies yread reg p session a files =
     (let names = EffectivePolicies p session a in
      if names = [] then Inr ([], [])
      else
        let entries = fst (LoadAll yread reg files);
            missing = filter (\<lambda>n. map_of entries n = None) names in
        if missing \<noteq> [] then Inl (sort missing)
        else Inr (map (\<lambda>n. pe_Policy (the (map_of entries n))) names, names))"

fun unique_from :: "rule list \<Rightarrow> rule list \<Rightarrow> rule list" where
  "unique_from seen [] = []"
| "unique_from seen (r # rs) = (if r \<in> set seen then unique_from seen rs else r # unique_from (r # seen) rs)"

definition unique :: "rule list \<Rightarrow> rule list" where
  "unique rules = unique_from [] rules"

definition dedupe :: "egress \<Rightarrow> egress" where
  "dedupe e = e\<lparr>eg_Allow := unique (eg_Allow e), eg_Deny := unique (eg_Deny e)\<rparr>"

definition merge_step :: "policy \<Rightarrow> egress \<Rightarrow> egress" where
  "merge_step p merged =
     (case po_Egress p of
        None \<Rightarrow> merged
      | Some e \<Rightarrow>
          \<lparr>eg_Default = (if eg_Default e = EgressDeny then EgressDeny
                         else if eg_Default merged = [] then EgressAllow else eg_Default merged),
           eg_Allow = eg_Allow merged @ eg_Allow e, eg_Deny = eg_Deny merged @ eg_Deny e\<rparr>)"

definition Merge :: "policy list \<Rightarrow> egress" where
  "Merge ps = dedupe (fold merge_step ps \<lparr>eg_Default = [], eg_Allow = [], eg_Deny = []\<rparr>)"

definition Resolve :: "(string \<Rightarrow> yaml_value option) \<Rightarrow> mode_registry \<Rightarrow> profile \<Rightarrow> string \<Rightarrow> attachments
    \<Rightarrow> (string \<times> document option) list \<Rightarrow> string list + (egress \<times> string list)" where
  "Resolve yread reg p session a files =
     bind_err (ResolvePolicies yread reg p session a files) (\<lambda>(ps, names). Inr (Merge ps, names))"

end
