(* ===== verification/Policy_Bind_Facts.thy ===== *)
theory Policy_Bind_Facts
  imports Policy_Bind
begin

text \<open>
  Facts about bindings. \<open>binding_store\<close> is what a level of attachment promises: a write changes
  the list of its own key and no other. The profile level and the session level are its two
  interpretations. Then: what applies to a run is the union of its sources and is always reported
  by \<open>Bindings\<close>, a boot never carries on without a bound policy, and merging is a union of the
  rules with the strictest default.
\<close>

subsection \<open>A level of attachment\<close>

locale binding_store =
  fixes bound :: "'s \<Rightarrow> 'k \<Rightarrow> string list"
    and attach :: "string \<Rightarrow> 'k \<Rightarrow> 's \<Rightarrow> 's"
    and detach :: "string \<Rightarrow> 'k \<Rightarrow> 's \<Rightarrow> 's \<times> bool"
    and inv :: "'s \<Rightarrow> bool"
  assumes attach_bound: "bound (attach n k s) k' = (if k' = k then addOnce (bound s k) n else bound s k')"
    and detach_bound: "bound (fst (detach n k s)) k' = (if k' = k then filter (\<lambda>m. m \<noteq> n) (bound s k) else bound s k')"
    and detach_flag: "snd (detach n k s) \<longleftrightarrow> n \<in> set (bound s k)"
    and inv_distinct: "inv s \<Longrightarrow> distinct (bound s k)"
    and inv_attach: "inv s \<Longrightarrow> inv (attach n k s)"
    and inv_detach: "inv s \<Longrightarrow> inv (fst (detach n k s))"
begin

lemma attach_binds: "n \<in> set (bound (attach n k s) k)"
  by (simp add: attach_bound addOnce_def)

lemma detach_unbinds: "n \<notin> set (bound (fst (detach n k s)) k)"
  by (simp add: detach_bound)

lemma attach_twice: "bound (attach n k (attach n k s)) = bound (attach n k s)"
  by (rule ext) (auto simp: attach_bound addOnce_def)

lemma detach_attach: "n \<notin> set (bound s k) \<Longrightarrow> bound (fst (detach n k (attach n k s))) = bound s"
  by (rule ext) (auto simp: attach_bound detach_bound addOnce_def filter_id_conv)

lemma detach_reports: "snd (detach n k (attach n k s))"
  by (simp add: detach_flag attach_binds)

lemma attach_distinct: "inv s \<Longrightarrow> distinct (bound (attach n k s) k')"
  by (intro inv_distinct inv_attach)

end

definition profile_bound :: "attachments \<Rightarrow> string \<Rightarrow> string list" where
  "profile_bound a prof = lookup_list (at_Profiles a) prof"

definition session_bound :: "attachments \<Rightarrow> string \<times> string \<Rightarrow> string list" where
  "session_bound a k = lookup_list (lookup_list (at_Sessions a) (fst k)) (snd k)"

text \<open>The record as the commands keep it: no key twice, no list empty, no name twice in a list.\<close>

definition lists_ok :: "('k \<times> string list) list \<Rightarrow> bool" where
  "lists_ok m \<longleftrightarrow> distinct (map fst m) \<and> (\<forall>l \<in> snd ` set m. l \<noteq> [] \<and> distinct l)"

definition attachments_ok :: "attachments \<Rightarrow> bool" where
  "attachments_ok a \<longleftrightarrow> lists_ok (at_Profiles a) \<and> distinct (map fst (at_Sessions a))
     \<and> (\<forall>m \<in> snd ` set (at_Sessions a). m \<noteq> [] \<and> lists_ok m)"

lemma lookup_update [simp]: "lookup_list (AList.update k l m) k' = (if k' = k then l else lookup_list m k')"
  by (simp add: lookup_list_def update_conv)

lemma lookup_put [simp]: "lookup_list (put_list k l m) k' = (if k' = k then l else lookup_list m k')"
  by (simp add: put_list_def) (auto simp: lookup_list_def delete_conv)

lemma addOnce_nonempty [simp]: "addOnce l n \<noteq> []"
  by (auto simp: addOnce_def)

lemma addOnce_distinct: "distinct l \<Longrightarrow> distinct (addOnce l n)"
  by (auto simp: addOnce_def)

lemma update_values: "snd ` set (AList.update k v m) \<subseteq> insert v (snd ` set m)"
  by (induction m) auto

lemma delete_values: "snd ` set (AList.delete k m) \<subseteq> snd ` set m"
  by (auto simp: AList.delete_eq)

lemma lookup_ok: "(\<forall>l \<in> snd ` set m. P l) \<Longrightarrow> P [] \<Longrightarrow> P (lookup_list m k)"
  by (auto simp: lookup_list_def split: option.splits dest!: map_of_SomeD)

lemma put_keys: "distinct (map fst m) \<Longrightarrow> distinct (map fst (put_list k l m))"
  by (auto simp: put_list_def distinct_update distinct_delete)

lemma put_list_values: "snd ` set (put_list k l m) \<subseteq> snd ` set m \<union> (if l = [] then {} else {l})"
  using update_values[of k l m] delete_values[of k m] by (simp add: put_list_def)

lemma put_values:
  assumes "\<forall>x \<in> snd ` set m. P x" and "l \<noteq> [] \<Longrightarrow> P l"
  shows "\<forall>x \<in> snd ` set (put_list k l m). P x"
proof
  fix x assume "x \<in> snd ` set (put_list k l m)"
  then have "x \<in> snd ` set m \<union> (if l = [] then {} else {l})" by (rule subsetD[OF put_list_values])
  then have "x \<in> snd ` set m \<or> (l \<noteq> [] \<and> x = l)" by (simp split: if_splits)
  then show "P x" using assms by blast
qed

lemma put_update: "l \<noteq> [] \<Longrightarrow> AList.update k l m = put_list k l m"
  by (simp add: put_list_def)

lemma put_nonempty: "l \<noteq> [] \<Longrightarrow> put_list k l m \<noteq> []"
  by (simp add: put_list_def update_nonempty)

lemma lists_ok_put: "lists_ok m \<Longrightarrow> distinct l \<Longrightarrow> lists_ok (put_list k l m)"
  unfolding lists_ok_def by (intro conjI put_keys put_values) auto

lemma lists_ok_distinct: "lists_ok m \<Longrightarrow> distinct (lookup_list m k)"
  by (rule lookup_ok) (auto simp: lists_ok_def)

lemma sessions_lists_ok: "attachments_ok a \<Longrightarrow> lists_ok (lookup_list (at_Sessions a) k)"
  by (rule lookup_ok) (auto simp: attachments_ok_def lists_ok_def)

lemma attachments_ok_profiles:
  "attachments_ok a \<Longrightarrow> distinct l \<Longrightarrow> attachments_ok (a\<lparr>at_Profiles := put_list k l (at_Profiles a)\<rparr>)"
  by (simp add: attachments_ok_def lists_ok_put)

lemma attachments_ok_sessions:
  assumes "attachments_ok a" and "distinct l"
  shows "attachments_ok (a\<lparr>at_Sessions := put_list k (put_list s l (lookup_list (at_Sessions a) k)) (at_Sessions a)\<rparr>)"
proof -
  let ?m = "put_list s l (lookup_list (at_Sessions a) k)"
  have "\<forall>x \<in> snd ` set (put_list k ?m (at_Sessions a)). x \<noteq> [] \<and> lists_ok x"
    using assms(1) lists_ok_put[OF sessions_lists_ok[OF assms(1)] assms(2)]
    by (intro put_values) (simp_all add: attachments_ok_def)
  then show ?thesis using assms(1) by (simp add: attachments_ok_def put_keys)
qed

interpretation profile_store: binding_store profile_bound AttachToProfile DetachFromProfile attachments_ok
proof
  show "attachments_ok s \<Longrightarrow> attachments_ok (AttachToProfile n k s)" for s n k
    unfolding AttachToProfile_def put_update[OF addOnce_nonempty]
    by (rule attachments_ok_profiles) (auto intro!: addOnce_distinct lists_ok_distinct simp: attachments_ok_def)
  show "attachments_ok s \<Longrightarrow> attachments_ok (fst (DetachFromProfile n k s))" for s n k
    unfolding DetachFromProfile_def remove_name_def prod.case fst_conv
    by (rule attachments_ok_profiles) (auto intro!: distinct_filter lists_ok_distinct simp: attachments_ok_def)
  show "attachments_ok s \<Longrightarrow> distinct (profile_bound s k)" for s k
    by (auto simp: profile_bound_def attachments_ok_def intro: lists_ok_distinct)
qed (simp_all add: profile_bound_def AttachToProfile_def DetachFromProfile_def remove_name_def)

interpretation session_store:
  binding_store session_bound "\<lambda>n k. AttachToSession n (fst k) (snd k)" "\<lambda>n k. DetachFromSession n (fst k) (snd k)" attachments_ok
proof
  have none: "map_of m k = None \<Longrightarrow> lookup_list m k = []" for m :: "('a \<times> 'b list) list" and k
    by (simp add: lookup_list_def)
  show "attachments_ok s \<Longrightarrow> attachments_ok (AttachToSession n (fst k) (snd k) s)" for s n k
    unfolding AttachToSession_def Let_def put_update[OF addOnce_nonempty] put_update[OF put_nonempty[OF addOnce_nonempty]]
    by (intro attachments_ok_sessions addOnce_distinct lists_ok_distinct sessions_lists_ok)
  show "attachments_ok s \<Longrightarrow> attachments_ok (fst (DetachFromSession n (fst k) (snd k) s))" for s n k
    using attachments_ok_sessions[of s _ "fst k" "snd k"] lists_ok_distinct[OF sessions_lists_ok]
    by (simp add: DetachFromSession_def Let_def remove_name_def)
  show "attachments_ok s \<Longrightarrow> distinct (session_bound s k)" for s k
    unfolding session_bound_def by (intro lists_ok_distinct sessions_lists_ok)
  show "session_bound (AttachToSession n (fst k) (snd k) s) k' = (if k' = k then addOnce (session_bound s k) n else session_bound s k')" for n k s k'
    by (auto simp: session_bound_def AttachToSession_def Let_def prod_eq_iff)
  show "session_bound (fst (DetachFromSession n (fst k) (snd k) s)) k' =
      (if k' = k then filter (\<lambda>m. m \<noteq> n) (session_bound s k) else session_bound s k')" for n k s k'
    by (auto simp: session_bound_def DetachFromSession_def Let_def remove_name_def prod_eq_iff none lookup_list_def[of "[]"])
  show "snd (DetachFromSession n (fst k) (snd k) s) \<longleftrightarrow> n \<in> set (session_bound s k)" for n k s
    by (simp add: session_bound_def DetachFromSession_def Let_def remove_name_def none lookup_list_def[of "[]"])
qed


text \<open>Attaching and detaching at one level touch the list of one key. A policy attached to a
  session binds that session of that profile alone, not the session of the same name under another
  profile and not the profile; detaching takes the name off that list and reports whether it was on
  it. No write leaves an empty list, a key twice or a name twice in a list.\<close>
theorem attachment_isolation:
  "session_bound (AttachToSession n p s a) (p', s') =
     (if p' = p \<and> s' = s then addOnce (session_bound a (p, s)) n else session_bound a (p', s'))
   \<and> profile_bound (AttachToSession n p s a) = profile_bound a
   \<and> session_bound (fst (DetachFromSession n p s a)) (p', s') =
     (if p' = p \<and> s' = s then filter (\<lambda>m. m \<noteq> n) (session_bound a (p, s)) else session_bound a (p', s'))
   \<and> profile_bound (fst (DetachFromSession n p s a)) = profile_bound a
   \<and> snd (DetachFromSession n p s a) = (n \<in> set (session_bound a (p, s)))
   \<and> profile_bound (AttachToProfile n p a) p' =
     (if p' = p then addOnce (profile_bound a p) n else profile_bound a p')
   \<and> session_bound (fst (DetachFromProfile n p a)) = session_bound a
   \<and> {attachments_ok (AttachToSession n p s a), attachments_ok (fst (DetachFromSession n p s a)),
      attachments_ok (AttachToProfile n p a), attachments_ok (fst (DetachFromProfile n p a))}
     \<subseteq> {True, attachments_ok a}"
proof -
  have ok: "{attachments_ok (AttachToSession n p s a), attachments_ok (fst (DetachFromSession n p s a)),
      attachments_ok (AttachToProfile n p a), attachments_ok (fst (DetachFromProfile n p a))} \<subseteq> {True, attachments_ok a}"
    using session_store.inv_attach[of a n "(p, s)"] session_store.inv_detach[of a n "(p, s)"]
      profile_store.inv_attach[of a n p] profile_store.inv_detach[of a n p]
    by auto
  show ?thesis
    using ok session_store.attach_bound[of n "(p, s)" a "(p', s')"] session_store.detach_bound[of n "(p, s)" a "(p', s')"]
      session_store.detach_flag[of n "(p, s)" a] profile_store.attach_bound[of n p a p']
    by (auto simp: profile_bound_def session_bound_def fun_eq_iff AttachToSession_def DetachFromSession_def
        DetachFromProfile_def Let_def remove_name_def)
qed

subsection \<open>What applies and what is reported\<close>

lemma add_new_set [simp]: "set (add_new names ns) = set names \<union> set ns"
  by (induction names ns rule: add_new.induct) auto

lemma add_new_distinct: "distinct names \<Longrightarrow> distinct (add_new names ns)"
  by (induction names ns rule: add_new.induct) auto

lemma EffectivePolicies_set:
  "set (EffectivePolicies p s a) = set (p_policy p) \<union> set (profile_bound a (p_name p))
     \<union> (if s = [] then {} else set (session_bound a (p_name p, s)))"
  by (simp add: EffectivePolicies_def Let_def profile_bound_def session_bound_def Un_assoc)

lemma EffectivePolicies_distinct: "distinct (EffectivePolicies p s a)"
  by (simp add: EffectivePolicies_def Let_def add_new_distinct)

text \<open>Recording one source adds its binder to every policy it names and to no other.\<close>

lemma recordBindings_lookup:
  "lookup_list (recordBindings binder names bound) n =
     (if n \<in> set names then lookup_list bound n @ [binder] else lookup_list bound n)"
proof -
  let ?step = "\<lambda>n (seen, b). if n \<in> set seen then (seen, b) else (n # seen, AList.update n (lookup_list b n @ [binder]) b)"
  have "lookup_list (snd (fold ?step names (seen, b))) n =
      (if n \<in> set names \<and> n \<notin> set seen then lookup_list b n @ [binder] else lookup_list b n)" for seen b
    by (induction names arbitrary: seen b) auto
  from this[of "[]" bound] show ?thesis by (simp add: recordBindings_def)
qed

lemma Bindings_lookup:
  "lookup_list (Bindings profiles a) n =
     map fst (filter (\<lambda>(_, names). n \<in> set names) (binding_sources profiles a))"
proof -
  have "lookup_list (fold (\<lambda>(binder, names). recordBindings binder names) srcs b) n =
      lookup_list b n @ map fst (filter (\<lambda>(_, names). n \<in> set names) srcs)" for srcs b
    by (induction srcs arbitrary: b) (auto simp: recordBindings_lookup)
  then show ?thesis by (simp add: Bindings_def lookup_list_def)
qed

lemma lookup_list_key:
  assumes "lookup_list m k \<noteq> []"
  shows "k \<in> fst ` set m"
proof (cases "map_of m k")
  case None
  then show ?thesis using assms by (simp add: lookup_list_def)
next
  case (Some l)
  then show ?thesis by (metis fst_conv image_eqI map_of_SomeD)
qed

lemma source_inline: "p \<in> set profiles \<Longrightarrow> (p_name p @ InlineSuffix, p_policy p) \<in> set (binding_sources profiles a)"
  unfolding binding_sources_def set_append set_map set_sort by blast

lemma source_profile:
  "k \<in> fst ` set (at_Profiles a) \<Longrightarrow> (k, profile_bound a k) \<in> set (binding_sources profiles a)"
  unfolding binding_sources_def profile_bound_def set_append set_map set_sort by blast

lemma source_session:
  assumes "k \<in> fst ` set (at_Sessions a)" and "s \<in> fst ` set (lookup_list (at_Sessions a) k)"
  shows "(session_binder k s, session_bound a (k, s)) \<in> set (binding_sources profiles a)"
proof -
  let ?f = "\<lambda>k. map (\<lambda>s. (session_binder k s, lookup_list (lookup_list (at_Sessions a) k) s))
                   (sort (map fst (lookup_list (at_Sessions a) k)))"
  have "(session_binder k s, session_bound a (k, s)) \<in> set (?f k)"
    using imageI[OF assms(2), of "\<lambda>s. (session_binder k s, lookup_list (lookup_list (at_Sessions a) k) s)"]
    unfolding set_map set_sort session_bound_def fst_conv snd_conv .
  moreover have "?f k \<in> set (map ?f (sort (map fst (at_Sessions a))))"
    using imageI[OF assms(1), of ?f] unfolding set_map set_sort .
  ultimately show ?thesis
    unfolding binding_sources_def set_append set_concat by blast
qed

text \<open>Every policy that applies to a run of a known profile is reported by \<open>Bindings\<close>, under the
  source that binds it: the profile's own list, the profile's attachments or the session's. So a
  command that asks \<open>Bindings\<close> before removing a policy never misses a run that it binds.\<close>
theorem effective_reported:
  assumes "p \<in> set profiles" and "n \<in> set (EffectivePolicies p s a)"
  shows "\<exists>b \<in> set (lookup_list (Bindings profiles a) n).
     (b = p_name p @ InlineSuffix \<and> n \<in> set (p_policy p))
     \<or> (b = p_name p \<and> n \<in> set (profile_bound a (p_name p)))
     \<or> (b = session_binder (p_name p) s \<and> n \<in> set (session_bound a (p_name p, s)))"
proof -
  have src: "(b, names) \<in> set (binding_sources profiles a) \<Longrightarrow> n \<in> set names \<Longrightarrow> b \<in> set (lookup_list (Bindings profiles a) n)" for b names
    by (force simp: Bindings_lookup)
  consider (inline) "n \<in> set (p_policy p)" | (prof) "n \<in> set (profile_bound a (p_name p))"
    | (sess) "n \<in> set (session_bound a (p_name p, s))"
    using assms(2) unfolding EffectivePolicies_set by (auto split: if_splits)
  then show ?thesis
  proof cases
    case inline
    note source_inline[OF assms(1), of a]
    from src[OF this inline] show ?thesis using inline by blast
  next
    case prof
    then have "(p_name p, profile_bound a (p_name p)) \<in> set (binding_sources profiles a)"
      by (intro source_profile lookup_list_key) (auto simp: profile_bound_def)
    from src[OF this prof] show ?thesis using prof by blast
  next
    case sess
    let ?m = "lookup_list (at_Sessions a) (p_name p)"
    have s: "s \<in> fst ` set ?m" using sess by (intro lookup_list_key) (auto simp: session_bound_def)
    then have "p_name p \<in> fst ` set (at_Sessions a)" by (intro lookup_list_key) auto
    then have "(session_binder (p_name p) s, session_bound a (p_name p, s)) \<in> set (binding_sources profiles a)"
      using s by (rule source_session)
    from src[OF this sess] show ?thesis using sess by blast
  qed
qed


definition sample_profile :: profile where
  "sample_profile = \<lparr>p_name = ''codex'', p_kind = None, p_policy = [''base''], p_reserved = False, p_deny = []\<rparr>"

definition sample_attachments :: attachments where
  "sample_attachments = AttachToSession ''extra'' ''codex'' ''work'' \<lparr>at_Profiles = [], at_Sessions = []\<rparr>"

theorem effective_reported_witness:
  "\<exists>b \<in> set (lookup_list (Bindings [sample_profile] sample_attachments) ''extra''). b = ''codex -n work''"
proof -
  have eff: "''extra'' \<in> set (EffectivePolicies sample_profile ''work'' sample_attachments)" by code_simp
  have no: "''extra'' \<notin> set (p_policy sample_profile)" "''extra'' \<notin> set (profile_bound sample_attachments (p_name sample_profile))"
    by code_simp+
  have "session_binder (p_name sample_profile) ''work'' = ''codex -n work''" by code_simp
  then show ?thesis using effective_reported[of sample_profile "[sample_profile]", OF _ eff] no by auto
qed

subsection \<open>Resolving a run\<close>

definition entry_ok :: "(string \<Rightarrow> yaml_value option) \<Rightarrow> mode_registry \<Rightarrow> string \<Rightarrow> policy_entry \<Rightarrow> bool" where
  "entry_ok yread reg k e \<longleftrightarrow> po_Name (pe_Policy e) = k \<and> policy_Validate yread (pe_Policy e) = None
     \<and> (\<exists>rs. Routes yread reg [pe_Policy e] = Inr rs)"

lemma parse_policy_Inr:
  "parse_policy yread reg d = Inr (p, flat) \<Longrightarrow> policy_Validate yread p = None \<and> (\<exists>rs. Routes yread reg [p] = Inr rs)"
  by (cases d) (simp_all add: parse_policy_def split: option.splits sum.splits)

lemma load_file_ok:
  assumes "\<And>k e. map_of (fst st) k = Some e \<Longrightarrow> entry_ok yread reg k e"
    and "map_of (fst (load_file yread reg f st)) k = Some e"
  shows "entry_ok yread reg k e"
proof -
  obtain name content es us ds where st: "f = (name, content)" "st = (es, us, ds)" by (cases f; cases st)
  show ?thesis
  proof (cases "isPolicyFile name \<and> (\<exists>d p flat. content = Some d \<and> parse_policy yread reg d = Inr (p, flat))")
    case True
    then obtain d p flat where d: "isPolicyFile name" "content = Some d" "parse_policy yread reg d = Inr (p, flat)" by blast
    then have "fst (load_file yread reg f st) = AList.update (po_Name p) \<lparr>pe_Policy = p, pe_Path = name, pe_Flat = flat\<rparr> es"
      by (simp add: st load_file_def)
    then show ?thesis
      using assms parse_policy_Inr[OF d(3)] by (auto simp: st update_conv entry_ok_def split: if_splits)
  next
    case False
    then have "fst (load_file yread reg f st) = es"
      by (auto simp: st load_file_def split: option.splits sum.splits)
    then show ?thesis using assms by (simp add: st)
  qed
qed

lemma LoadAll_ok: "map_of (fst (LoadAll yread reg files)) k = Some e \<Longrightarrow> entry_ok yread reg k e"
proof -
  have "map_of (fst (fold (load_file yread reg) fs st)) k = Some e \<Longrightarrow>
      (\<And>k e. map_of (fst st) k = Some e \<Longrightarrow> entry_ok yread reg k e) \<Longrightarrow> entry_ok yread reg k e" for fs st k e
    by (induction fs arbitrary: st) (simp, metis fold_simps(2) load_file_ok)
  from this[of _ "([], [], [])"] show "map_of (fst (LoadAll yread reg files)) k = Some e \<Longrightarrow> entry_ok yread reg k e"
    by (simp add: LoadAll_def)
qed

text \<open>C23: A run never carries on without a policy that binds it. When \<open>ResolvePolicies\<close> returns, it
  returns one loaded policy for each effective name, in binding order and under that name, and each
  of them has passed validation and the check of its expanded routes.\<close>
theorem resolve_complete:
  assumes "ResolvePolicies yread reg p session a files = Inr (ps, names)"
  shows "names = EffectivePolicies p session a \<and> map po_Name ps = names
     \<and> list_all (\<lambda>q. policy_Validate yread q = None) ps
     \<and> list_all (\<lambda>q. \<exists>rs. Routes yread reg [q] = Inr rs) ps"
proof (cases "EffectivePolicies p session a = []")
  case True
  then show ?thesis using assms by (simp add: ResolvePolicies_def)
next
  case False
  let ?E = "EffectivePolicies p session a" and ?m = "map_of (fst (LoadAll yread reg files))"
  have all: "filter (\<lambda>n. ?m n = None) ?E = []" and res: "names = ?E" "ps = map (\<lambda>n. pe_Policy (the (?m n))) ?E"
    using assms False by (auto simp: ResolvePolicies_def Let_def split: if_splits)
  have ok: "entry_ok yread reg n (the (?m n))" if "n \<in> set ?E" for n
    using that all LoadAll_ok[of yread reg files n] unfolding filter_empty_conv by (cases "?m n") auto
  then show ?thesis
    unfolding res list_all_iff by (auto simp: entry_ok_def map_idI)
qed

definition sample_policy :: policy where
  "sample_policy = \<lparr>po_APIVersion = APIVersion, po_Kind = PolicyKind, po_Name = ''base'', po_Description = [],
     po_Egress = Some \<lparr>eg_Default = EgressDeny, eg_Allow = [\<lparr>ru_Host = ''github.com'', ru_CIDR = []\<rparr>], eg_Deny = []\<rparr>,
     po_Routes = []\<rparr>"

theorem resolve_complete_witness:
  "\<exists>ps names. ResolvePolicies yaml_plain [] sample_profile [] \<lparr>at_Profiles = [], at_Sessions = []\<rparr>
       [(''base.yaml'', Some (Envelope sample_policy))] = Inr (ps, names) \<and> map po_Name ps = names"
proof -
  have "ResolvePolicies yaml_plain [] sample_profile [] \<lparr>at_Profiles = [], at_Sessions = []\<rparr>
       [(''base.yaml'', Some (Envelope sample_policy))] = Inr ([sample_policy], [''base''])"
    by code_simp
  then show ?thesis using resolve_complete by blast
qed

subsection \<open>Merging\<close>

lemma unique_from_set: "set (unique_from seen rs) = set rs - set seen \<and> distinct (unique_from seen rs)"
  by (induction seen rs rule: unique_from.induct) auto

lemma unique_spec: "set (unique rs) = set rs" "distinct (unique rs)"
  using unique_from_set[of "[]" rs] by (simp_all add: unique_def)

definition egresses :: "policy list \<Rightarrow> egress list" where
  "egresses ps = List.map_filter po_Egress ps"

lemma egresses_simps [simp]:
  "egresses [] = []" "egresses (p # ps) = (case po_Egress p of None \<Rightarrow> egresses ps | Some e \<Rightarrow> e # egresses ps)"
  by (simp_all add: egresses_def List.map_filter_simps split: option.splits)

lemma merge_fold:
  "eg_Allow (fold merge_step ps m) = eg_Allow m @ concat (map eg_Allow (egresses ps))"
  "eg_Deny (fold merge_step ps m) = eg_Deny m @ concat (map eg_Deny (egresses ps))"
  "eg_Default (fold merge_step ps m) =
     (if egresses ps = [] then eg_Default m
      else if EgressDeny \<in> set (map eg_Default (egresses ps)) then EgressDeny
      else if eg_Default m = [] then EgressAllow else eg_Default m)"
  by (induction ps arbitrary: m) (auto simp: merge_step_def EgressDeny_def EgressAllow_def split: option.splits)

text \<open>C24: Merging the policies of a run takes the union of their rules, each once, and the strictest
  default: deny when any of them denies by default, allow when at least one has an egress block and
  none denies, and no default at all when none has a block.\<close>
theorem merge_spec:
  "set (eg_Allow (Merge ps)) = set (concat (map eg_Allow (egresses ps)))
   \<and> set (eg_Deny (Merge ps)) = set (concat (map eg_Deny (egresses ps)))
   \<and> distinct (eg_Allow (Merge ps)) \<and> distinct (eg_Deny (Merge ps))
   \<and> eg_Default (Merge ps) =
     (if egresses ps = [] then []
      else if EgressDeny \<in> set (map eg_Default (egresses ps)) then EgressDeny else EgressAllow)"
  by (simp add: Merge_def dedupe_def unique_spec merge_fold)

end
