(* ===== verification/Egress_Rules.thy ===== *)
theory Egress_Rules
  imports Net_Addr
begin

text \<open>
  The rules of an egress policy as the Linux enforcer reads them, \<open>internal/egress/rules.go\<close>, and
  the glob patterns of Go's \<open>path.Match\<close>. A pattern is parsed into its terms and matched by the
  documented meaning of each; a malformed pattern is an error whatever the name. A pattern and a
  name are matched byte by byte, which is Go's reading of ASCII text; the names the resolver judges
  hold ASCII letters, digits, dashes, underscores and dots alone.
\<close>

subsection \<open>Glob patterns\<close>

datatype glob_term = GLit char | GAny | GStar | GClass bool "(char \<times> char) list"

text \<open>\<open>getEsc\<close>: one character of a class, and what follows it, which is never empty.\<close>

fun getEsc :: "string \<Rightarrow> (char \<times> string) option" where
  "getEsc [] = None"
| "getEsc (c # s) =
     (if c = CHR ''-'' \<or> c = CHR '']'' then None
      else if c = CHR 0x5C then (case s of d # t \<Rightarrow> if t = [] then None else Some (d, t) | [] \<Rightarrow> None)
      else if s = [] then None else Some (c, s))"

text \<open>The ranges of a class up to the closing bracket. The fuel is the length of the text.\<close>

fun class_ranges :: "nat \<Rightarrow> (char \<times> char) list \<Rightarrow> string \<Rightarrow> ((char \<times> char) list \<times> string) option" where
  "class_ranges 0 acc s = None"
| "class_ranges (Suc fuel) acc s =
     (if s \<noteq> [] \<and> hd s = CHR '']'' \<and> acc \<noteq> [] then Some (acc, tl s)
      else case getEsc s of
        None \<Rightarrow> None
      | Some (lo, t) \<Rightarrow>
          if hd t = CHR ''-'' then
            (case getEsc (tl t) of
               None \<Rightarrow> None
             | Some (hi, u) \<Rightarrow> class_ranges fuel (acc @ [(lo, hi)]) u)
          else class_ranges fuel (acc @ [(lo, lo)]) t)"

lemma getEsc_shorter: "getEsc s = Some (c, t) \<Longrightarrow> length t < length s"
  by (cases s) (auto split: if_splits list.splits)

lemma class_ranges_shorter: "class_ranges n acc s = Some (rs, t) \<Longrightarrow> length t < length s"
proof (induction n acc s rule: class_ranges.induct)
  case (2 fuel acc s)
  show ?case
  proof (cases "s \<noteq> [] \<and> hd s = CHR '']'' \<and> acc \<noteq> []")
    case True
    then show ?thesis using "2.prems" by (cases s) auto
  next
    case False
    then obtain lo u where u: "getEsc s = Some (lo, u)" using "2.prems" by (auto split: option.splits)
    show ?thesis
    proof (cases "hd u = CHR ''-''")
      case True
      then obtain hi v where v: "getEsc (tl u) = Some (hi, v)" "class_ranges fuel (acc @ [(lo, hi)]) v = Some (rs, t)"
        using "2.prems" False u by (auto split: option.splits)
      then have "length t < length v" using "2.IH"(1)[OF False u] True by auto
      also have "length v < length (tl u)" using getEsc_shorter[OF v(1)] .
      finally show ?thesis using getEsc_shorter[OF u] by simp
    next
      case ne: False
      then have "class_ranges fuel (acc @ [(lo, lo)]) u = Some (rs, t)" using "2.prems" False u by auto
      then have "length t < length u" using "2.IH"(2)[OF False u] ne by auto
      then show ?thesis using getEsc_shorter[OF u] by simp
    qed
  qed
qed simp

function glob_parse :: "string \<Rightarrow> glob_term list option" where
  "glob_parse [] = Some []"
| "glob_parse (c # s) =
     (if c = CHR ''*'' then map_option ((#) GStar) (glob_parse s)
      else if c = CHR ''?'' then map_option ((#) GAny) (glob_parse s)
      else if c = CHR 0x5C then (case s of [] \<Rightarrow> None | d # t \<Rightarrow> map_option ((#) (GLit d)) (glob_parse t))
      else if c = CHR ''['' then
        (let neg = (s \<noteq> [] \<and> hd s = CHR 0x5E); body = (if neg then tl s else s) in
         case class_ranges (length body) [] body of
           None \<Rightarrow> None
         | Some (ranges, t) \<Rightarrow> map_option ((#) (GClass neg ranges)) (glob_parse t))
      else map_option ((#) (GLit c)) (glob_parse s))"
  by pat_completeness auto
termination
proof (relation "measure length", goal_cases)
  case (5 c s neg body p ranges t)
  then have "length t < length body" using class_ranges_shorter by metis
  then show ?case using 5 by (auto split: if_splits)
qed auto

definition in_class :: "bool \<Rightarrow> (char \<times> char) list \<Rightarrow> char \<Rightarrow> bool" where
  "in_class neg ranges c \<longleftrightarrow> (list_ex (\<lambda>(lo, hi). lo \<le> c \<and> c \<le> hi) ranges \<noteq> neg)"

text \<open>A star stands for any run of characters without a slash, and \<open>?\<close> for one.\<close>

fun glob_match :: "glob_term list \<Rightarrow> string \<Rightarrow> bool" where
  "glob_match [] s \<longleftrightarrow> s = []"
| "glob_match (GStar # ts) [] \<longleftrightarrow> glob_match ts []"
| "glob_match (GStar # ts) (c # s) \<longleftrightarrow>
     glob_match ts (c # s) \<or> (c \<noteq> CHR ''/'' \<and> glob_match (GStar # ts) s)"
| "glob_match (t # ts) [] \<longleftrightarrow> False"
| "glob_match (GLit d # ts) (c # s) \<longleftrightarrow> c = d \<and> glob_match ts s"
| "glob_match (GAny # ts) (c # s) \<longleftrightarrow> c \<noteq> CHR ''/'' \<and> glob_match ts s"
| "glob_match (GClass neg rs # ts) (c # s) \<longleftrightarrow> in_class neg rs c \<and> glob_match ts s"

text \<open>\<open>path.Match\<close>, with \<open>None\<close> for \<open>ErrBadPattern\<close>.\<close>

definition path_Match :: "string \<Rightarrow> string \<Rightarrow> bool option" where
  "path_Match pattern name = map_option (\<lambda>ts. glob_match ts name) (glob_parse pattern)"

subsection \<open>Rules\<close>

record rule_set =
  rs_cidrs :: "net_prefix list"
  rs_hosts :: "string list"

record egress_policy =
  ep_Default :: string
  ep_allow :: rule_set
  ep_deny :: rule_set

datatype rule_error = BadDefaultWord | NotARule | NotACIDR | EmptyGlob | BadGlob

definition normalizeName :: "string \<Rightarrow> string" where
  "normalizeName name = trim_suffix ''.'' (to_lower (trim_space name))"

definition unmap_prefix :: "net_prefix \<Rightarrow> net_prefix" where
  "unmap_prefix p =
     (if Is4In6 (pf_addr p) \<and> pf_bits p \<ge> 96
      then \<lparr>pf_addr = Unmap (pf_addr p), pf_bits = pf_bits p - 96\<rparr> else p)"

definition parse_rule :: "string \<Rightarrow> rule_set \<Rightarrow> rule_error + rule_set" where
  "parse_rule r st =
     (case cut_char CHR ''='' r of (kind, value, ok) \<Rightarrow>
        if \<not> ok then Inl NotARule
        else if kind = ''cidr'' then
          (case parse_prefix value of
             None \<Rightarrow> Inl NotACIDR
           | Some p \<Rightarrow> Inr (st\<lparr>rs_cidrs := rs_cidrs st @ [Masked (unmap_prefix p)]\<rparr>))
        else if kind = ''host'' then
          (let glob = normalizeName value in
           if glob = [] then Inl EmptyGlob
           else if path_Match glob ''example.com'' = None then Inl BadGlob
           else Inr (st\<lparr>rs_hosts := rs_hosts st @ [glob]\<rparr>))
        else Inl NotARule)"

definition parseRules :: "string list \<Rightarrow> rule_error + rule_set" where
  "parseRules rules = fold_err parse_rule rules \<lparr>rs_cidrs = [], rs_hosts = []\<rparr>"

definition egress_Parse :: "string \<Rightarrow> string list \<Rightarrow> string list \<Rightarrow> rule_error + egress_policy" where
  "egress_Parse def allow deny =
     (if def \<notin> set [''allow'', ''deny''] then Inl BadDefaultWord
      else bind_err (parseRules allow) (\<lambda>a. bind_err (parseRules deny) (\<lambda>d.
        Inr \<lparr>ep_Default = def, ep_allow = a, ep_deny = d\<rparr>)))"

definition matchesHost :: "rule_set \<Rightarrow> string \<Rightarrow> bool" where
  "matchesHost r name \<longleftrightarrow> list_ex (\<lambda>glob. path_Match glob name = Some True) (rs_hosts r)"

definition literalHosts :: "rule_set \<Rightarrow> string list" where
  "literalHosts r = filter (\<lambda>glob. \<not> contains_any glob ''*?['') (rs_hosts r)"

definition v4CIDRs :: "rule_set \<Rightarrow> net_prefix list" where
  "v4CIDRs r = filter (\<lambda>c. Is4 (pf_addr c)) (rs_cidrs r)"

definition Unfiltered :: egress_policy where
  "Unfiltered = \<lparr>ep_Default = [], ep_allow = \<lparr>rs_cidrs = [], rs_hosts = []\<rparr>, ep_deny = \<lparr>rs_cidrs = [], rs_hosts = []\<rparr>\<rparr>"

definition Filters :: "egress_policy \<Rightarrow> bool" where
  "Filters p \<longleftrightarrow> ep_Default p \<noteq> []"

definition HasHostRules :: "egress_policy \<Rightarrow> bool" where
  "HasHostRules p \<longleftrightarrow> rs_hosts (ep_allow p) \<noteq> [] \<or> rs_hosts (ep_deny p) \<noteq> []"

definition AllowsQuery :: "egress_policy \<Rightarrow> string \<Rightarrow> bool" where
  "AllowsQuery p name =
     (if ep_Default p \<noteq> ''deny'' then True
      else let n = normalizeName name in
        if matchesHost (ep_deny p) n then False else matchesHost (ep_allow p) n)"

definition DeniesQuery :: "egress_policy \<Rightarrow> string \<Rightarrow> bool" where
  "DeniesQuery p name = matchesHost (ep_deny p) (normalizeName name)"

end
