(* ===== verification/Egress_Dns.thy ===== *)
theory Egress_Dns
  imports Egress_Rules "HOL-Library.Code_Target_Numeral"
begin

unbundle bit_operations_syntax

text \<open>
  The DNS wire format of \<open>internal/egress/dns.go\<close>: reading a query and an answer, and the replies
  the resolver makes. A message is a list of bytes. An index or a slice outside the message would
  panic in Go; here every access is checked and gives the error \<open>Panic\<close>, so that its absence is a
  theorem. The loop over the labels of a name is a function with its termination proof.
\<close>

type_synonym byte = "8 word"

datatype dns_error =
    Panic | ErrShort | IsResponse | ErrOpcode | QuestionCount | HasRecords | TrailingBytes | NotHostname
  | Compressed | CompressionLoop | LabelType | NameTooLong | IDMismatch | NotResponse | WrongQuestion

definition headerLen :: nat where "headerLen = 12"
definition typeA :: nat where "typeA = 1"
definition typeNS :: nat where "typeNS = 2"
definition typeCNAME :: nat where "typeCNAME = 5"
definition typeMX :: nat where "typeMX = 15"
definition typeTXT :: nat where "typeTXT = 16"
definition typeSRV :: nat where "typeSRV = 33"
definition typeOPT :: nat where "typeOPT = 41"
definition classIN :: nat where "classIN = 1"
definition rcodeFormErr :: byte where "rcodeFormErr = 1"
definition rcodeServFail :: byte where "rcodeServFail = 2"
definition rcodeNotImp :: byte where "rcodeNotImp = 4"
definition rcodeRefused :: byte where "rcodeRefused = 5"
definition maxPointers :: nat where "maxPointers = 32"
definition maxNameLen :: nat where "maxNameLen = 255"

subsection \<open>Reading bytes\<close>

definition byte_at :: "byte list \<Rightarrow> nat \<Rightarrow> dns_error + byte" where
  "byte_at msg i = (if i < length msg then Inr (msg ! i) else Inl Panic)"

text \<open>\<open>binary.BigEndian.Uint16(msg[i:])\<close>.\<close>

definition be16 :: "byte list \<Rightarrow> nat \<Rightarrow> dns_error + nat" where
  "be16 msg i = bind_err (byte_at msg i) (\<lambda>a. bind_err (byte_at msg (i + 1)) (\<lambda>b. Inr (256 * unat a + unat b)))"

text \<open>\<open>msg[i:j]\<close>.\<close>

definition slice :: "byte list \<Rightarrow> nat \<Rightarrow> nat \<Rightarrow> dns_error + byte list" where
  "slice msg i j = (if i \<le> j \<and> j \<le> length msg then Inr (take (j - i) (drop i msg)) else Inl Panic)"

definition put16 :: "byte list \<Rightarrow> nat \<Rightarrow> nat \<Rightarrow> byte list" where
  "put16 msg i v = msg[i := of_nat (v div 256), i + 1 := of_nat v]"

definition put32 :: "byte list \<Rightarrow> nat \<Rightarrow> nat \<Rightarrow> byte list" where
  "put32 msg i v = put16 (put16 msg i (v div 65536)) (i + 2) v"

subsection \<open>Names\<close>

function name_loop :: "byte list \<Rightarrow> bool \<Rightarrow> nat \<Rightarrow> byte list list \<Rightarrow> nat option \<Rightarrow> nat \<Rightarrow> nat
    \<Rightarrow> dns_error + (byte list list \<times> nat)" where
  "name_loop msg compress off labels nend wire pointers =
     (if off \<ge> length msg then Inl ErrShort
      else
        let n = unat (msg ! off) in
        if n = 0 then Inr (labels, case nend of None \<Rightarrow> off + 1 | Some e \<Rightarrow> e)
        else if n AND 0xc0 = 0xc0 then
          (if \<not> compress then Inl Compressed
           else if off + 2 > length msg then Inl ErrShort
           else if pointers + 1 > maxPointers then Inl CompressionLoop
           else name_loop msg compress (256 * (n AND 0x3f) + unat (msg ! (off + 1))) labels
                  (case nend of None \<Rightarrow> Some (off + 2) | Some e \<Rightarrow> Some e) wire (pointers + 1))
        else if n AND 0xc0 \<noteq> 0 then Inl LabelType
        else if off + 1 + n > length msg then Inl ErrShort
        else if wire + 1 + n > maxNameLen then Inl NameTooLong
        else name_loop msg compress (off + 1 + n) (labels @ [take n (drop (off + 1) msg)]) nend
               (wire + 1 + n) pointers)"
  by pat_completeness auto
termination
  by (relation "measure (\<lambda>(_, _, _, _, _, wire, pointers). (maxNameLen - wire) + (maxPointers - pointers))") auto

declare name_loop.simps [simp del]

definition nameLabels :: "byte list \<Rightarrow> nat \<Rightarrow> bool \<Rightarrow> dns_error + (byte list list \<times> nat)" where
  "nameLabels msg off compress = name_loop msg compress off [] None 1 0"

definition byte_char :: "byte \<Rightarrow> char" where
  "byte_char b = char_of (unat b)"

definition hostnameByte :: "byte \<Rightarrow> bool" where
  "hostnameByte b \<longleftrightarrow>
     (let c = byte_char b in is_lower c \<or> is_upper c \<or> is_digit c \<or> c = CHR ''-'' \<or> c = CHR ''_'')"

definition readName :: "byte list \<Rightarrow> nat \<Rightarrow> dns_error + (string \<times> nat)" where
  "readName msg off =
     bind_err (nameLabels msg off False) (\<lambda>(labels, nend).
       if list_ex (\<lambda>l. list_ex (\<lambda>b. \<not> hostnameByte b) l) labels then Inl NotHostname
       else Inr (join_with ''.'' (map (map byte_char) labels), nend))"

definition joinLabels :: "byte list list \<Rightarrow> string" where
  "joinLabels labels = join_with ''.'' (map (\<lambda>l. to_lower (map byte_char l)) labels)"

subsection \<open>Queries\<close>

record question =
  q_name :: string
  q_type :: nat
  q_end :: nat

definition forwarded :: "question \<Rightarrow> bool" where
  "forwarded q \<longleftrightarrow> q_type q \<in> set [typeA, typeNS, typeCNAME, typeMX, typeTXT, typeSRV]"

definition readQuestion :: "byte list \<Rightarrow> nat \<Rightarrow> dns_error + question" where
  "readQuestion msg off =
     bind_err (readName msg off) (\<lambda>(name, off').
       if off' + 4 > length msg then Inl ErrShort
       else bind_err (be16 msg off') (\<lambda>t. Inr \<lparr>q_name = name, q_type = t, q_end = off' + 4\<rparr>))"

fun tail_loop :: "nat \<Rightarrow> byte list \<Rightarrow> nat \<Rightarrow> dns_error + nat" where
  "tail_loop 0 msg off = Inr off"
| "tail_loop (Suc records) msg off =
     bind_err (nameLabels msg off False) (\<lambda>(_, next).
       if next + 10 > length msg then Inl ErrShort
       else bind_err (be16 msg (next + 8)) (\<lambda>rdlen.
         if next + 10 + rdlen > length msg then Inl ErrShort
         else tail_loop records msg (next + 10 + rdlen)))"

definition checkQueryTail :: "byte list \<Rightarrow> nat \<Rightarrow> dns_error option" where
  "checkQueryTail msg off =
     (case bind_err (be16 msg 6) (\<lambda>an. bind_err (be16 msg 8) (\<lambda>ns.
        if an \<noteq> 0 \<or> ns \<noteq> 0 then Inl HasRecords
        else bind_err (be16 msg 10) (\<lambda>records. tail_loop records msg off))) of
        Inl e \<Rightarrow> Some e
      | Inr off' \<Rightarrow> err_if (off' \<noteq> length msg) TrailingBytes)"

definition parseQuery :: "byte list \<Rightarrow> dns_error + question" where
  "parseQuery msg =
     (if length msg < headerLen then Inl ErrShort
      else bind_err (byte_at msg 2) (\<lambda>flags.
        if flags AND 0x80 \<noteq> 0 then Inl IsResponse
        else if drop_bit 3 flags AND 0x0f \<noteq> 0 then Inl ErrOpcode
        else bind_err (be16 msg 4) (\<lambda>n.
          if n \<noteq> 1 then Inl QuestionCount
          else bind_err (readQuestion msg headerLen) (\<lambda>q. on_ok (checkQueryTail msg (q_end q)) q))))"

subsection \<open>Replies\<close>

definition reply :: "byte list \<Rightarrow> question \<Rightarrow> byte \<Rightarrow> byte list" where
  "reply query q rcode =
     (let out = take (q_end q) query;
          out = out[2 := 0x80 OR (query ! 2 AND 0x79), 3 := 0x80 OR (rcode AND 0x0f)] in
      put16 (put16 (put16 (put16 out 4 1) 6 0) 8 0) 10 0)"

definition addr_bytes :: "32 word \<Rightarrow> byte list" where
  "addr_bytes w = map of_nat (octets4 w)"

definition localAnswer :: "byte list \<Rightarrow> question \<Rightarrow> addr \<Rightarrow> byte list" where
  "localAnswer query q a =
     (let out = reply query q 0; out = out[2 := out ! 2 OR 0x04] in
      case a of
        V4 w \<Rightarrow>
          if q_type q \<noteq> typeA then out
          else put16 out 6 1 @ [0xc0, of_nat headerLen, 0, of_nat typeA, 0, of_nat classIN, 0, 0, 0, 0, 0, 4] @ addr_bytes w
      | V6 _ _ \<Rightarrow> out)"

definition headerReply :: "byte list \<Rightarrow> byte \<Rightarrow> byte list" where
  "headerReply query rcode =
     take 2 query @ [0x80 OR (query ! 2 AND 0x79), 0x80 OR (rcode AND 0x0f)] @ replicate (headerLen - 4) 0"


subsection \<open>Answers\<close>

record inspect_state =
  is_resp :: "byte list"
  is_addrs :: "addr list"
  is_opt :: "byte list list"
  is_cut :: "nat option"
  is_off :: nat

definition addr_from4 :: "byte list \<Rightarrow> addr" where
  "addr_from4 bs = V4 (bytes_val (map unat bs))"

text \<open>One record of the loop of \<open>inspectAnswer\<close>, at index \<open>i\<close>.\<close>

definition inspect_record :: "nat \<Rightarrow> nat \<Rightarrow> nat \<Rightarrow> nat \<Rightarrow> inspect_state \<Rightarrow> dns_error + inspect_state" where
  "inspect_record answers kept ttl i st =
     (let resp = is_resp st; off = is_off st in
      bind_err (nameLabels resp off True) (\<lambda>(_, next).
      if next + 10 > length resp then Inl ErrShort
      else bind_err (be16 resp next) (\<lambda>rtype. bind_err (be16 resp (next + 2)) (\<lambda>class. bind_err (be16 resp (next + 8)) (\<lambda>rdlen.
        let rdata = next + 10 in
        if rdata + rdlen > length resp then Inl ErrShort
        else
          let resp' = (if ttl > 0 \<and> rtype \<noteq> typeOPT then put32 resp (next + 4) ttl else resp) in
          bind_err (slice resp' rdata (rdata + rdlen)) (\<lambda>data. bind_err (slice resp' off (rdata + rdlen)) (\<lambda>whole.
            Inr \<lparr>is_resp = resp',
                 is_addrs = (if i < answers \<and> rtype = typeA \<and> class = classIN \<and> rdlen = 4
                             then is_addrs st @ [addr_from4 data] else is_addrs st),
                 is_opt = (if i \<ge> kept \<and> rtype = typeOPT \<and> next = off + 1 then is_opt st @ [whole] else is_opt st),
                 is_cut = (if i = kept then Some off else is_cut st),
                 is_off = rdata + rdlen\<rparr>)))))))"

definition inspect_finish :: "inspect_state \<Rightarrow> byte list \<times> addr list" where
  "inspect_finish st =
     (case is_cut st of
        None \<Rightarrow> (is_resp st, is_addrs st)
      | Some c \<Rightarrow> (put16 (take c (is_resp st) @ concat (is_opt st)) 10 (length (is_opt st)), is_addrs st))"

definition inspectAnswer :: "byte list \<Rightarrow> byte list \<Rightarrow> question \<Rightarrow> nat \<Rightarrow> dns_error + (byte list \<times> addr list)" where
  "inspectAnswer resp query q ttl =
     (if length resp < headerLen then Inl ErrShort
      else bind_err (byte_at resp 0) (\<lambda>r0. bind_err (byte_at query 0) (\<lambda>q0.
           bind_err (byte_at resp 1) (\<lambda>r1. bind_err (byte_at query 1) (\<lambda>q1.
        if r0 \<noteq> q0 \<or> r1 \<noteq> q1 then Inl IDMismatch
        else bind_err (byte_at resp 2) (\<lambda>flags.
          if flags AND 0x80 = 0 then Inl NotResponse
          else bind_err (be16 resp 4) (\<lambda>n.
            if n \<noteq> 1 then Inl QuestionCount
            else bind_err (readQuestion resp headerLen) (\<lambda>rq.
              if \<not> equal_fold (q_name rq) (q_name q) \<or> q_type rq \<noteq> q_type q then Inl WrongQuestion
              else bind_err (be16 resp 6) (\<lambda>answers. bind_err (be16 resp 8) (\<lambda>ns. bind_err (be16 resp 10) (\<lambda>ar.
                bind_err (fold_err (inspect_record answers (answers + ns) ttl) [0..<answers + ns + ar]
                    \<lparr>is_resp = resp, is_addrs = [], is_opt = [], is_cut = None, is_off = q_end rq\<rparr>)
                  (\<lambda>st. Inr (inspect_finish st)))))))))))))"

subsection \<open>Alias chains\<close>

record chain_record =
  ch_owner :: string
  ch_target :: string
  ch_addr :: "addr option"

definition chain_record_at :: "byte list \<Rightarrow> nat \<Rightarrow> dns_error + (chain_record \<times> nat)" where
  "chain_record_at resp off =
     bind_err (nameLabels resp off True) (\<lambda>(owner, next).
     if next + 10 > length resp then Inl ErrShort
     else bind_err (be16 resp next) (\<lambda>rtype. bind_err (be16 resp (next + 2)) (\<lambda>class. bind_err (be16 resp (next + 8)) (\<lambda>rdlen.
       let rdata = next + 10 in
       if rdata + rdlen > length resp then Inl ErrShort
       else
         bind_err (if rtype = typeCNAME \<and> class = classIN
                   then bind_err (nameLabels resp rdata True) (\<lambda>(target, _). Inr (joinLabels target)) else Inr []) (\<lambda>target.
         bind_err (slice resp rdata (rdata + rdlen)) (\<lambda>data.
           Inr (\<lparr>ch_owner = joinLabels owner, ch_target = target,
                 ch_addr = (if rtype = typeA \<and> class = classIN \<and> rdlen = 4 then Some (addr_from4 data) else None)\<rparr>,
                rdata + rdlen)))))))"

fun chain_records :: "nat \<Rightarrow> byte list \<Rightarrow> nat \<Rightarrow> dns_error + chain_record list" where
  "chain_records 0 resp off = Inr []"
| "chain_records (Suc n) resp off =
     bind_err (chain_record_at resp off) (\<lambda>(r, off').
     bind_err (chain_records n resp off') (\<lambda>rest. Inr (r # rest)))"

text \<open>One pass of the loop, which follows the links of the section in order.\<close>

definition chain_pass :: "chain_record list \<Rightarrow> string list \<Rightarrow> string list" where
  "chain_pass records names = fold
     (\<lambda>r ns. if ch_target r \<noteq> [] \<and> ch_owner r \<in> set ns \<and> ch_target r \<notin> set ns then ns @ [ch_target r] else ns) records names"

fun chain_names :: "nat \<Rightarrow> chain_record list \<Rightarrow> string list \<Rightarrow> string list" where
  "chain_names 0 records names = names"
| "chain_names (Suc n) records names =
     (let names' = chain_pass records names in if names' = names then names else chain_names n records names')"

definition chain_addrs :: "chain_record list \<Rightarrow> string \<Rightarrow> addr list" where
  "chain_addrs records name =
     (let names = chain_names (length records) records [normalizeName name] in
      fold (\<lambda>r out. case ch_addr r of
                       None \<Rightarrow> out
                     | Some a \<Rightarrow> if ch_owner r \<in> set names \<and> a \<notin> set out then out @ [a] else out) records [])"

definition chainAddrs :: "byte list \<Rightarrow> string \<Rightarrow> dns_error + addr list" where
  "chainAddrs resp name =
     (if length resp < headerLen then Inl ErrShort
      else bind_err (nameLabels resp headerLen True) (\<lambda>(_, off).
           bind_err (be16 resp 6) (\<lambda>count.
           bind_err (chain_records count resp (off + 4)) (\<lambda>records. Inr (chain_addrs records name)))))"

end
