(* ===== verification/Divert.thy ===== *)
theory Divert
  imports Net_Addr "HOL-Library.List_Lexorder" "HOL-Library.Code_Target_Numeral"
begin

text \<open>
  The divert contract, \<open>internal/divert/divert.go\<close>: the destinations a guest connection is diverted
  from, the set of addresses each one has, and the one-line preamble the relay writes to the
  injector. A set's map of addresses is a HOL set, a port is a 16-bit word, and the zero
  \<open>netip.Addr\<close>, which is not valid, is \<open>None\<close>. The set is guarded by one lock in Go, so each
  operation is one step on the whole state.
\<close>

subsection \<open>The order of addresses\<close>

text \<open>\<open>netip.Addr.Compare\<close>: first the length, then the number, then the zone.\<close>

fun addr_num :: "addr \<Rightarrow> nat" where
  "addr_num (V4 w) = unat w"
| "addr_num (V6 w _) = unat w"

definition addr_le :: "addr \<Rightarrow> addr \<Rightarrow> bool" where
  "addr_le a b \<longleftrightarrow>
     (if bit_len a \<noteq> bit_len b then bit_len a < bit_len b
      else if addr_num a \<noteq> addr_num b then addr_num a < addr_num b
      else Zone a \<le> Zone b)"

lemma addr_key_inj: "bit_len a = bit_len b \<Longrightarrow> addr_num a = addr_num b \<Longrightarrow> Zone a = Zone b \<Longrightarrow> a = b"
  by (cases a; cases b) (auto simp: word_unat_eq_iff)

instantiation addr :: linorder
begin

definition less_eq_addr :: "addr \<Rightarrow> addr \<Rightarrow> bool" where
  "less_eq_addr = addr_le"

definition less_addr :: "addr \<Rightarrow> addr \<Rightarrow> bool" where
  "less_addr a b \<longleftrightarrow> addr_le a b \<and> a \<noteq> b"

instance
proof
  fix a b c :: addr
  have anti: "a = b" if "addr_le a b" "addr_le b a" for a b
    using that addr_key_inj[of a b] by (auto simp: addr_le_def split: if_splits)
  show "a < b \<longleftrightarrow> a \<le> b \<and> \<not> b \<le> a" using anti by (auto simp: less_addr_def less_eq_addr_def)
  show "a \<le> a" by (simp add: less_eq_addr_def addr_le_def)
  show "a \<le> c" if "a \<le> b" "b \<le> c" using that by (auto simp: less_eq_addr_def addr_le_def split: if_splits)
  show "a = b" if "a \<le> b" "b \<le> a" using that anti by (simp add: less_eq_addr_def)
  show "a \<le> b \<or> b \<le> a" by (auto simp: less_eq_addr_def addr_le_def)
qed

end

subsection \<open>Routes\<close>

definition MaxAddrs :: nat where "MaxAddrs = 4096"

record divert_route =
  dr_Host :: string
  dr_Port :: "16 word"

datatype divert_error =
    NotHostPort | NotTCPPort | Port53 | NoIPv6 | NotHostName | NoRoute | SetFull
  | MissingEnd | PreambleTooLong | NoNewline | NotPreamble | NotCanonicalAddr | NotDecimalPort

text \<open>\<open>net.SplitHostPort\<close>: the port follows the last colon, and a host in brackets ends just before it.\<close>

definition net_SplitHostPort :: "string \<Rightarrow> (string \<times> string) option" where
  "net_SplitHostPort s =
     (case cut_last CHR '':'' s of
        None \<Rightarrow> None
      | Some (front, port) \<Rightarrow>
          if has_prefix ''['' s then
            (case cut_char CHR '']'' s of (host, rest, found) \<Rightarrow>
               if \<not> found \<or> rest \<noteq> CHR '':'' # port then None
               else if CHR ''['' \<in> set (tl s) \<or> CHR '']'' \<in> set rest then None
               else Some (tl host, port))
          else if CHR '':'' \<in> set front \<or> CHR ''['' \<in> set s \<or> CHR '']'' \<in> set s then None
          else Some (front, port))"

definition net_JoinHostPort :: "string \<Rightarrow> string \<Rightarrow> string" where
  "net_JoinHostPort host port =
     (if CHR '':'' \<in> set host then ''['' @ host @ '']:'' @ port else host @ '':'' @ port)"

definition divert_route_String :: "divert_route \<Rightarrow> string" where
  "divert_route_String r = net_JoinHostPort (dr_Host r) (show_nat (unat (dr_Port r)))"

definition hostname_char :: "char \<Rightarrow> bool" where
  "hostname_char c \<longleftrightarrow> is_lower c \<or> is_digit c \<or> c = CHR ''-'' \<or> c = CHR ''_''"

definition Hostname :: "string \<Rightarrow> bool" where
  "Hostname name \<longleftrightarrow>
     name \<noteq> [] \<and> length name \<le> 253
     \<and> list_all (\<lambda>label. label \<noteq> [] \<and> length label \<le> 63 \<and> list_all hostname_char label) (split_on CHR ''.'' name)"

definition ParseRoute :: "string \<Rightarrow> divert_error + divert_route" where
  "ParseRoute s =
     (case net_SplitHostPort s of
        None \<Rightarrow> Inl NotHostPort
      | Some (host, port) \<Rightarrow>
          (case parse_uint 16 port of
             None \<Rightarrow> Inl NotTCPPort
           | Some p \<Rightarrow>
               if p = 0 then Inl NotTCPPort
               else if p = 53 then Inl Port53
               else case parse_addr host of
                      Some a \<Rightarrow>
                        if \<not> Is4 (Unmap a) then Inl NoIPv6
                        else Inr \<lparr>dr_Host = addr_String (Unmap a), dr_Port = of_nat p\<rparr>
                    | None \<Rightarrow>
                        let name = trim_suffix ''.'' (to_lower host) in
                        if \<not> Hostname name then Inl NotHostName
                        else Inr \<lparr>dr_Host = name, dr_Port = of_nat p\<rparr>))"

subsection \<open>The address sets\<close>

record divert_set =
  ds_routes :: "divert_route list"
  ds_addrs :: "addr set list"

definition route_start :: "divert_route \<Rightarrow> addr set" where
  "route_start r = (case parse_addr (dr_Host r) of Some a \<Rightarrow> if Is4 a then {a} else {} | None \<Rightarrow> {})"

definition NewSet :: "divert_route list \<Rightarrow> divert_set" where
  "NewSet routes = \<lparr>ds_routes = routes, ds_addrs = map route_start routes\<rparr>"

definition Lookup :: "divert_set \<Rightarrow> string \<Rightarrow> nat list" where
  "Lookup s name =
     (let n = trim_suffix ''.'' (to_lower name) in
      filter (\<lambda>i. dr_Host (ds_routes s ! i) = n) [0..<length (ds_routes s)])"

text \<open>The IPv4 addresses of a list, each once, in order of appearance.\<close>

definition v4_once :: "addr list \<Rightarrow> addr list" where
  "v4_once addrs = fold (\<lambda>a v4. if Is4 (Unmap a) \<and> Unmap a \<notin> set v4 then v4 @ [Unmap a] else v4) addrs []"

definition Set_Add :: "divert_set \<Rightarrow> nat \<Rightarrow> addr list \<Rightarrow> divert_error + (divert_set \<times> addr list)" where
  "Set_Add s i addrs =
     (if i \<ge> length (ds_routes s) then Inl NoRoute
      else
        let v4 = v4_once addrs; old = ds_addrs s ! i;
            fresh = length (filter (\<lambda>a. a \<notin> old) v4) in
        if card old + fresh > MaxAddrs then Inl SetFull
        else Inr (s\<lparr>ds_addrs := (ds_addrs s)[i := old \<union> set v4]\<rparr>, v4))"

definition Set_Addrs :: "divert_set \<Rightarrow> nat \<Rightarrow> addr list" where
  "Set_Addrs s i = sorted_list_of_set (ds_addrs s ! i)"

record addr_port =
  ap_Addr :: "addr option"
  ap_Port :: "16 word"

definition Set_Match :: "divert_set \<Rightarrow> addr_port \<Rightarrow> bool" where
  "Set_Match s dst \<longleftrightarrow>
     (case ap_Addr dst of
        None \<Rightarrow> False
      | Some a \<Rightarrow>
          list_ex (\<lambda>i. dr_Port (ds_routes s ! i) = ap_Port dst \<and> Unmap a \<in> ds_addrs s ! i) [0..<length (ds_routes s)])"

subsection \<open>The preamble\<close>

definition Magic :: string where "Magic = ''BRIG-DIVERT/1''"

definition MaxPreamble :: nat where "MaxPreamble = 160"

definition newline :: char where "newline = CHR 0x0A"

definition preamble_text :: "addr \<Rightarrow> 16 word \<Rightarrow> addr \<Rightarrow> 16 word \<Rightarrow> string" where
  "preamble_text da dp sa sp =
     Magic @ '' '' @ addr_String da @ '' '' @ show_nat (unat dp) @ '' '' @ addr_String sa @ '' '' @ show_nat (unat sp)"

definition Preamble :: "addr_port \<Rightarrow> addr_port \<Rightarrow> divert_error + string" where
  "Preamble dst src =
     (case (ap_Addr dst, ap_Addr src) of
        (Some d, Some s) \<Rightarrow>
          if ap_Port dst = 0 \<or> ap_Port src = 0 then Inl MissingEnd
          else
            let line = preamble_text (WithoutZone (Unmap d)) (ap_Port dst) (WithoutZone (Unmap s)) (ap_Port src) @ [newline] in
            if length line > MaxPreamble then Inl PreambleTooLong else Inr line
      | _ \<Rightarrow> Inl MissingEnd)"

definition addrPort :: "string \<Rightarrow> string \<Rightarrow> divert_error + addr_port" where
  "addrPort a port =
     (case parse_addr a of
        None \<Rightarrow> Inl NotCanonicalAddr
      | Some ip \<Rightarrow>
          if Zone ip \<noteq> [] \<or> addr_String ip \<noteq> a then Inl NotCanonicalAddr
          else case parse_uint 16 port of
                 None \<Rightarrow> Inl NotDecimalPort
               | Some p \<Rightarrow>
                   if p = 0 \<or> show_nat p \<noteq> port then Inl NotDecimalPort
                   else Inr \<lparr>ap_Addr = Some ip, ap_Port = of_nat p\<rparr>)"

definition ParsePreamble :: "string \<Rightarrow> divert_error + (addr_port \<times> addr_port)" where
  "ParsePreamble line =
     (if length line > MaxPreamble then Inl PreambleTooLong
      else if \<not> has_suffix [newline] line then Inl NoNewline
      else case split_on CHR '' '' (trim_suffix [newline] line) of
             [m, da, dp, sa, sp] \<Rightarrow>
               if m \<noteq> Magic then Inl NotPreamble
               else bind_err (addrPort da dp) (\<lambda>dst. bind_err (addrPort sa sp) (\<lambda>src. Inr (dst, src)))
           | _ \<Rightarrow> Inl NotPreamble)"

end
