(* ===== verification/Egress_Nft.thy ===== *)
theory Egress_Nft
  imports Egress_Rules Divert
begin

text \<open>
  The nftables side of the Linux enforcer, \<open>internal/egress/nft.go\<close>: the table brig installs for
  a sandbox and the scripts that pin addresses in it. A table is built as data, its sets and its
  chains of rules, and printed as the code prints it. A rule is a list of matches and a verdict. The
  kernel's matching is not part of the program: the verdict of a chain is taken under any function
  that says which matches hold of a packet, and follows the documented order, where the first rule
  whose matches all hold decides and \<open>goto\<close> leaves the chain.
\<close>

subsection \<open>Names and scripts\<close>

definition SetAllowIP :: string where "SetAllowIP = ''allow_ip''"
definition SetDenyIP :: string where "SetDenyIP = ''deny_ip''"
definition SetAllowHost :: string where "SetAllowHost = ''allow_host''"
definition SetDenyHost :: string where "SetDenyHost = ''deny_host''"
definition setAllowNet :: string where "setAllowNet = ''allow_net''"
definition setDenyNet :: string where "setDenyNet = ''deny_net''"
definition setAlive :: string where "setAlive = ''alive''"
definition setDivertPrefix :: string where "setDivertPrefix = ''divert_''"

definition DivertPort :: "16 word" where "DivertPort = 15443"

definition TablePrefix :: string where "TablePrefix = ''brig_egress_''"

definition linkLocal :: net_prefix where
  "linkLocal = \<lparr>pf_addr = V4 0xa9fe0000, pf_bits = 16\<rparr>"

text \<open>\<open>^[a-z0-9][a-z0-9._-]*$\<close>.\<close>

definition tableNameRe :: "string \<Rightarrow> bool" where
  "tableNameRe s \<longleftrightarrow>
     s \<noteq> [] \<and> (is_lower (hd s) \<or> is_digit (hd s))
     \<and> list_all (\<lambda>c. is_lower c \<or> is_digit c \<or> c \<in> set ''._-'') s"

definition TableName :: "string \<Rightarrow> string option" where
  "TableName sandbox =
     (let rest = trim_prefix ''brig-'' sandbox in
      if tableNameRe rest then Some (TablePrefix @ rest) else None)"

text \<open>\<open>^[A-Za-z0-9_.-]{1,15}$\<close>.\<close>

definition ifaceRe :: "string \<Rightarrow> bool" where
  "ifaceRe s \<longleftrightarrow>
     1 \<le> length s \<and> length s \<le> 15 \<and> list_all (\<lambda>c. is_alpha c \<or> is_digit c \<or> c \<in> set ''_.-'') s"

definition DivertSet :: "nat \<Rightarrow> string" where
  "DivertSet i = setDivertPrefix @ show_nat i"

definition nl :: string where "nl = [newline]"

definition DeleteScript :: "string \<Rightarrow> string" where
  "DeleteScript table = ''add table inet '' @ table @ nl @ ''delete table inet '' @ table @ nl"

text \<open>The commands of a script that changes the elements of one set, as data.\<close>

datatype nft_command =
    AddElements string string "(string \<times> nat option) list"
  | DeleteElements string string "string list"

definition timed_element :: "string \<times> nat option \<Rightarrow> string" where
  "timed_element e =
     (case e of (a, None) \<Rightarrow> a | (a, Some secs) \<Rightarrow> a @ '' timeout '' @ show_nat secs @ ''s'')"

fun command_text :: "nft_command \<Rightarrow> string" where
  "command_text (AddElements table s es) =
     ''add element inet '' @ table @ '' '' @ s @ '' { '' @ join_with '', '' (map timed_element es) @ '' }'' @ nl"
| "command_text (DeleteElements table s es) =
     ''delete element inet '' @ table @ '' '' @ s @ '' { '' @ join_with '', '' es @ '' }'' @ nl"

definition script_text :: "nft_command list \<Rightarrow> string" where
  "script_text cs = concat (map command_text cs)"

definition second :: nat where "second = 1000000000"

definition refresh_commands :: "string \<Rightarrow> string \<Rightarrow> string list \<Rightarrow> nat \<Rightarrow> nft_command list" where
  "refresh_commands table s es secs =
     [AddElements table s (map (\<lambda>e. (e, Some secs)) es), DeleteElements table s es,
      AddElements table s (map (\<lambda>e. (e, Some secs)) es)]"

text \<open>The texts of the IPv4 addresses of a list, each once.\<close>

definition v4_texts :: "addr list \<Rightarrow> string list" where
  "v4_texts addrs =
     fold (\<lambda>a plain. if \<not> Is4 a \<or> addr_String a \<in> set plain then plain else plain @ [addr_String a]) addrs []"

definition pin_commands :: "string \<Rightarrow> string \<Rightarrow> addr list \<Rightarrow> nat \<Rightarrow> nft_command list" where
  "pin_commands table s addrs lifetime =
     (let plain = v4_texts addrs in
      if plain = [] then [] else refresh_commands table s plain (lifetime div second))"

definition PinScript :: "string \<Rightarrow> string \<Rightarrow> addr list \<Rightarrow> nat \<Rightarrow> string" where
  "PinScript table s addrs lifetime = script_text (pin_commands table s addrs lifetime)"

definition divert_commands :: "string \<Rightarrow> nat \<Rightarrow> addr list \<Rightarrow> nft_command list" where
  "divert_commands table i addrs =
     (let plain = v4_texts addrs in
      if plain = [] then [] else [AddElements table (DivertSet i) (map (\<lambda>e. (e, None)) plain)])"

definition DivertScript :: "string \<Rightarrow> nat \<Rightarrow> addr list \<Rightarrow> string" where
  "DivertScript table i addrs = script_text (divert_commands table i addrs)"

definition quoted :: "string \<Rightarrow> string" where
  "quoted s = [CHR 0x22] @ s @ [CHR 0x22]"

definition HeartbeatScript :: "string \<Rightarrow> string \<Rightarrow> nat \<Rightarrow> string" where
  "HeartbeatScript table bridge lapse = script_text (refresh_commands table setAlive [quoted bridge] (lapse div second))"

subsection \<open>The prefixes of an interval set\<close>

definition keep_prefix :: "net_prefix \<Rightarrow> net_prefix list \<Rightarrow> net_prefix list" where
  "keep_prefix p wide = (if list_ex (\<lambda>w. Contains w (pf_addr p)) wide then wide else wide @ [p])"

definition kept_prefixes :: "net_prefix list \<Rightarrow> net_prefix list" where
  "kept_prefixes ps = fold keep_prefix (sort_key pf_bits ps) []"

definition elements :: "net_prefix list \<Rightarrow> string" where
  "elements ps =
     (let kept = kept_prefixes ps in
      if kept = [] then [] else '' elements = { '' @ join_with '', '' (map prefix_String kept) @ '' };'')"

subsection \<open>Tables\<close>

datatype nft_match =
    Iif bool string | IifNotIn string | SAddrNot net_prefix | DAddr bool addr | DAddrIn string
  | DAddrOneOf "string list" | L4In bool "string list" | L4Is string | ThDport nat | TcpDport nat
  | NfProto string | CtState string | CtMark "16 word" | CtStatus string | IcmpType string

datatype nft_verdict =
    Accept | Drop | Return | Goto string | DnatTo addr nat | SetMarkAccept "16 word" | RejectReset

type_synonym nft_rule = "nft_match list \<times> nft_verdict"

record nft_chain =
  nc_name :: string
  nc_hook :: string
  nc_rules :: "nft_rule list"

datatype nft_set = TimedSet string string | IntervalSet string "net_prefix list" | SizedSet string nat

record nft_table =
  nt_name :: string
  nt_sets :: "nft_set list"
  nt_chains :: "nft_chain list"

subsection \<open>Printing\<close>

definition hex4 :: "16 word \<Rightarrow> string" where
  "hex4 m = (let t = show_hex (unat m) in replicate (4 - length t) CHR ''0'' @ t)"

definition eq_text :: "bool \<Rightarrow> string" where
  "eq_text eq = (if eq then [] else ''!= '')"

definition braces :: "string list \<Rightarrow> string" where
  "braces xs = ''{ '' @ join_with '', '' xs @ '' }''"

fun match_text :: "nft_match \<Rightarrow> string" where
  "match_text (Iif eq br) = ''iifname '' @ eq_text eq @ quoted br"
| "match_text (IifNotIn s) = ''iifname != @'' @ s"
| "match_text (SAddrNot p) = ''ip saddr != '' @ prefix_String p"
| "match_text (DAddr eq a) = ''ip daddr '' @ eq_text eq @ addr_String a"
| "match_text (DAddrIn s) = ''ip daddr @'' @ s"
| "match_text (DAddrOneOf xs) = ''ip daddr '' @ braces xs"
| "match_text (L4In eq xs) = ''meta l4proto '' @ eq_text eq @ braces xs"
| "match_text (L4Is p) = ''meta l4proto '' @ p"
| "match_text (ThDport p) = ''th dport '' @ show_nat p"
| "match_text (TcpDport p) = ''tcp dport '' @ show_nat p"
| "match_text (NfProto p) = ''meta nfproto '' @ p"
| "match_text (CtState s) = ''ct state '' @ s"
| "match_text (CtMark m) = ''ct mark and 0xffff0000 == 0x'' @ hex4 m @ ''0000''"
| "match_text (CtStatus s) = ''ct status '' @ s"
| "match_text (IcmpType t) = ''icmp type '' @ t"

fun verdict_text :: "nft_verdict \<Rightarrow> string" where
  "verdict_text Accept = ''accept''"
| "verdict_text Drop = ''drop''"
| "verdict_text Return = ''return''"
| "verdict_text (Goto c) = ''goto '' @ c"
| "verdict_text (DnatTo a p) = ''dnat ip to '' @ addr_String a @ '':'' @ show_nat p"
| "verdict_text (SetMarkAccept m) = ''ct mark set ct mark and 0x0000ffff or 0x'' @ hex4 m @ ''0000 accept''"
| "verdict_text RejectReset = ''reject with tcp reset''"

definition tab :: string where "tab = [CHR 0x09]"

definition rule_text :: "nft_rule \<Rightarrow> string" where
  "rule_text r = tab @ tab @ join_with '' '' (map match_text (fst r) @ [verdict_text (snd r)]) @ nl"

definition chain_text :: "nft_chain \<Rightarrow> string" where
  "chain_text c =
     tab @ ''chain '' @ nc_name c @ '' {'' @ nl
     @ (if nc_hook c = [] then [] else tab @ tab @ nc_hook c @ nl)
     @ concat (map rule_text (nc_rules c)) @ tab @ ''}'' @ nl"

fun set_text :: "nft_set \<Rightarrow> string" where
  "set_text (TimedSet s ty) = tab @ ''set '' @ s @ '' { type '' @ ty @ ''; flags timeout; }'' @ nl"
| "set_text (IntervalSet s ps) = tab @ ''set '' @ s @ '' { type ipv4_addr; flags interval;'' @ elements ps @ '' }'' @ nl"
| "set_text (SizedSet s n) = tab @ ''set '' @ s @ '' { type ipv4_addr; size '' @ show_nat n @ ''; }'' @ nl"

definition table_text :: "nft_table \<Rightarrow> string" where
  "table_text t =
     DeleteScript (nt_name t) @ ''table inet '' @ nt_name t @ '' {'' @ nl
     @ concat (map set_text (nt_sets t)) @ concat (map chain_text (nt_chains t)) @ ''}'' @ nl"

subsection \<open>The table of a sandbox\<close>

record egress_network =
  en_Bridge :: string
  en_Gateway :: "addr option"
  en_Subnet :: "net_prefix option"
  en_Redirect :: "addr list"
  en_Routes :: "divert_route list"
  en_Port :: "16 word"

datatype nft_error =
  BadInterface | BadBridgeAddr | BadSubnet | ZeroMark | BadRelayPort | NothingToDo | BadDivertPort

definition network_check :: "egress_network \<Rightarrow> egress_policy \<Rightarrow> 16 word \<Rightarrow> nft_error + (addr \<times> net_prefix)" where
  "network_check n p mark =
     (if \<not> ifaceRe (en_Bridge n) then Inl BadInterface
      else case en_Gateway n of
        None \<Rightarrow> Inl BadBridgeAddr
      | Some gw \<Rightarrow>
          if \<not> Is4 gw then Inl BadBridgeAddr
          else case en_Subnet n of
            None \<Rightarrow> Inl BadSubnet
          | Some net \<Rightarrow>
              if \<not> Is4 (pf_addr net) \<or> \<not> Contains net gw then Inl BadSubnet
              else if mark = 0 then Inl ZeroMark
              else if en_Routes n \<noteq> [] \<and> (en_Port n = 0 \<or> en_Port n = 53) then Inl BadRelayPort
              else if \<not> Filters p \<and> en_Routes n = [] then Inl NothingToDo
              else if list_ex (\<lambda>r. dr_Port r = 0 \<or> dr_Port r = 53) (en_Routes n) then Inl BadDivertPort
              else Inr (gw, net))"

definition table_sets :: "egress_network \<Rightarrow> egress_policy \<Rightarrow> nft_set list" where
  "table_sets n p =
     map (\<lambda>s. TimedSet s ''ipv4_addr'') [SetAllowIP, SetDenyIP, SetAllowHost, SetDenyHost]
     @ [IntervalSet setAllowNet (v4CIDRs (ep_allow p)),
        IntervalSet setDenyNet (linkLocal # v4CIDRs (ep_deny p)),
        TimedSet setAlive ''ifname'']
     @ map (\<lambda>i. SizedSet (DivertSet i) MaxAddrs) [0..<length (en_Routes n)]"

definition redirect_texts :: "egress_network \<Rightarrow> addr \<Rightarrow> string list" where
  "redirect_texts n gw =
     fold (\<lambda>a out. if Is4 a \<and> \<not> IsLoopback a \<and> a \<noteq> gw \<and> addr_String a \<notin> set out then out @ [addr_String a] else out)
       (en_Redirect n) []"

definition learns :: "egress_network \<Rightarrow> bool" where
  "learns n \<longleftrightarrow> list_ex (\<lambda>r. parse_addr (dr_Host r) = None) (en_Routes n)"

definition tcp_udp :: nft_match where "tcp_udp = L4In True [''tcp'', ''udp'']"

definition nat_hook :: string where
  "nat_hook = ''type nat hook prerouting priority dstnat - 10; policy accept;''"

definition forward_hook :: string where
  "forward_hook = ''type filter hook forward priority filter - 10; policy accept;''"

definition input_hook :: string where
  "input_hook = ''type filter hook input priority filter - 10; policy accept;''"

definition dns_chain :: "egress_network \<Rightarrow> addr \<Rightarrow> nft_chain list" where
  "dns_chain n gw =
     (if learns n then
        [\<lparr>nc_name = ''dns'', nc_hook = nat_hook,
          nc_rules = [([Iif True (en_Bridge n), DAddr False gw, tcp_udp, ThDport 53], DnatTo gw 53)]\<rparr>]
      else if redirect_texts n gw \<noteq> [] then
        [\<lparr>nc_name = ''dns'', nc_hook = nat_hook,
          nc_rules = [([Iif True (en_Bridge n), DAddrOneOf (redirect_texts n gw), tcp_udp, ThDport 53], DnatTo gw 53)]\<rparr>]
      else [])"

definition divert_rule :: "egress_network \<Rightarrow> addr \<Rightarrow> nat \<Rightarrow> nft_rule" where
  "divert_rule n gw i =
     ([Iif True (en_Bridge n), DAddrIn (DivertSet i), TcpDport (unat (dr_Port (en_Routes n ! i)))], DnatTo gw (unat (en_Port n)))"

definition divert_fwd_rule :: "egress_network \<Rightarrow> nat \<Rightarrow> nft_rule" where
  "divert_fwd_rule n i =
     ([DAddrIn (DivertSet i), tcp_udp, ThDport (unat (dr_Port (en_Routes n ! i)))], Goto ''refuse'')"

definition divert_chains :: "egress_network \<Rightarrow> addr \<Rightarrow> nft_chain list" where
  "divert_chains n gw =
     (if en_Routes n = [] then []
      else
        [\<lparr>nc_name = ''divert'', nc_hook = nat_hook, nc_rules = map (divert_rule n gw) [0..<length (en_Routes n)]\<rparr>,
         \<lparr>nc_name = ''divert_fwd'', nc_hook = forward_hook,
          nc_rules = ([Iif False (en_Bridge n)], Return) # map (divert_fwd_rule n) [0..<length (en_Routes n)]\<rparr>])"

definition guest_in_chain :: "egress_network \<Rightarrow> addr \<Rightarrow> net_prefix \<Rightarrow> nft_chain" where
  "guest_in_chain n gw net =
     \<lparr>nc_name = ''guest_in'', nc_hook = input_hook,
      nc_rules =
        [([Iif False (en_Bridge n), DAddr True gw, tcp_udp, ThDport 53], Drop)]
        @ (if en_Routes n \<noteq> [] then [([Iif False (en_Bridge n), DAddr True gw, TcpDport (unat (en_Port n))], Drop)] else [])
        @ [([Iif False (en_Bridge n)], Return),
           ([SAddrNot (Masked net)], Drop),
           ([DAddr True gw, tcp_udp, ThDport 53], Accept)]
        @ (if en_Routes n \<noteq> [] then [([DAddr True gw, TcpDport (unat (en_Port n)), CtStatus ''dnat''], Accept)] else [])
        @ [([DAddr True gw, IcmpType ''echo-request''], Accept),
           ([], Goto ''refuse'')]\<rparr>"

definition egress_chain :: "egress_network \<Rightarrow> egress_policy \<Rightarrow> net_prefix \<Rightarrow> 16 word \<Rightarrow> nft_chain list" where
  "egress_chain n p net mark =
     (if Filters p then
        [\<lparr>nc_name = ''egress'', nc_hook = forward_hook,
          nc_rules =
            [([Iif False (en_Bridge n)], Return),
             ([NfProto ''ipv6''], Goto ''refuse''),
             ([SAddrNot (Masked net)], Drop),
             ([CtState ''established,related'', CtMark mark], Accept),
             ([IifNotIn setAlive], Goto ''refuse''),
             ([L4In False [''tcp'', ''udp'', ''icmp'']], Goto ''refuse'')]
            @ map (\<lambda>s. ([DAddrIn s], Goto ''refuse'')) [setDenyNet, SetDenyIP, SetDenyHost]
            @ map (\<lambda>s. ([DAddrIn s], Goto ''admit'')) [setAllowNet, SetAllowIP, SetAllowHost]
            @ [([], Goto (if ep_Default p = ''allow'' then ''admit'' else ''refuse''))]\<rparr>]
      else [])"

definition admit_chain :: "16 word \<Rightarrow> nft_chain" where
  "admit_chain mark = \<lparr>nc_name = ''admit'', nc_hook = [], nc_rules = [([], SetMarkAccept mark)]\<rparr>"

definition refuse_chain :: nft_chain where
  "refuse_chain = \<lparr>nc_name = ''refuse'', nc_hook = [], nc_rules = [([L4Is ''tcp''], RejectReset), ([], Drop)]\<rparr>"

definition sandbox_table :: "string \<Rightarrow> egress_network \<Rightarrow> egress_policy \<Rightarrow> 16 word \<Rightarrow> nft_error + nft_table" where
  "sandbox_table table n p mark =
     bind_err (network_check n p mark) (\<lambda>(gw, net).
       Inr \<lparr>nt_name = table, nt_sets = table_sets n p,
            nt_chains = dns_chain n gw @ divert_chains n gw @ [guest_in_chain n gw net]
              @ egress_chain n p net mark @ [admit_chain mark, refuse_chain]\<rparr>)"

definition Ruleset :: "string \<Rightarrow> egress_network \<Rightarrow> egress_policy \<Rightarrow> 16 word \<Rightarrow> nft_error + string" where
  "Ruleset table n p mark = bind_err (sandbox_table table n p mark) (\<lambda>t. Inr (table_text t))"

end
