(* ===== verification/Egress_Resolver.thy ===== *)
theory Egress_Resolver
  imports Egress_Dns Egress_Nft "HOL-Library.AList"
begin

text \<open>
  The resolver of a sandbox, \<open>internal/egress/resolver.go\<close>, and the divert sets it feeds,
  \<open>internal/egress/divert.go\<close>. What the code asks of the world is a parameter: the answer of an
  upstream server, the two random bytes of the forwarded ID, whether a pin and whether an nft
  script succeed, and the time. An answer returns what the guest is sent together with the effects
  in the order they happen: a message sent upstream, a pin, a logged refusal. The lock of the divert
  sets makes each change of them one step.
\<close>

subsection \<open>Lifetimes and limits\<close>

definition PinTTL :: nat where "PinTTL = 60 * second"
definition PinGrace :: nat where "PinGrace = 60 * second"
definition RefreshInterval :: nat where "RefreshInterval = 30 * second"
definition refreshRetention :: nat where "refreshRetention = 3"
definition guestLogEvery :: int where "guestLogEvery = 30 * int second"
definition guestLogBurst :: nat where "guestLogBurst = 20"
definition guestLogBytes :: nat where "guestLogBytes = 4194304"
definition guestLogKeys :: nat where "guestLogKeys = 4096"

subsection \<open>The log of what a guest caused\<close>

text \<open>Times are nanoseconds; the zero time of a fresh resolver is \<open>None\<close>, which lies before any window.\<close>

record guest_log =
  gl_logged :: "(string \<times> int) list"
  gl_window :: "int option"
  gl_inWindow :: nat
  gl_suppressed :: nat
  gl_size :: nat

datatype log_line = DroppedLine nat | GuestLine string | FullLine

definition new_guest_log :: guest_log where
  "new_guest_log = \<lparr>gl_logged = [], gl_window = None, gl_inWindow = 0, gl_suppressed = 0, gl_size = 0\<rparr>"

definition logGuest :: "string \<Rightarrow> string \<Rightarrow> int \<Rightarrow> guest_log \<Rightarrow> guest_log \<times> log_line list" where
  "logGuest key line now st =
     (let st = (if length (gl_logged st) \<ge> guestLogKeys then st\<lparr>gl_logged := []\<rparr> else st);
          rolled = (case gl_window st of None \<Rightarrow> True | Some w \<Rightarrow> now - w \<ge> guestLogEvery);
          dropped = (if rolled then gl_suppressed st else 0);
          st = (if rolled then st\<lparr>gl_suppressed := 0, gl_window := Some now, gl_inWindow := 0\<rparr> else st);
          due = (case map_of (gl_logged st) key of None \<Rightarrow> True | Some prev \<Rightarrow> now - prev \<ge> guestLogEvery);
          burst = (due \<and> gl_inWindow st \<ge> guestLogBurst);
          write = (due \<and> \<not> burst);
          st = (if burst then st\<lparr>gl_suppressed := gl_suppressed st + 1\<rparr> else st);
          wasFull = (gl_size st \<ge> guestLogBytes);
          st = (if write \<and> \<not> wasFull
                then st\<lparr>gl_logged := AList.update key now (gl_logged st), gl_inWindow := gl_inWindow st + 1,
                        gl_size := gl_size st + length line\<rparr>
                else st);
          nowFull = (gl_size st \<ge> guestLogBytes) in
      (st, if wasFull then []
           else (if dropped > 0 then [DroppedLine dropped] else []) @ (if write then [GuestLine line] else [])
                @ (if nowFull then [FullLine] else [])))"

subsection \<open>The divert sets\<close>

text \<open>The copy in memory, and the contents of the table's sets, which an nft script adds to.\<close>

record diverts =
  dv_Set :: divert_set
  dv_Table :: string
  dv_NFT :: bool
  dv_kernel :: "addr set list"

datatype diverts_error = SetError divert_error | NFTFailed | BadAnswer dns_error | NoAddress | LookupFailed

definition Diverts_add :: "(string \<Rightarrow> bool) \<Rightarrow> nat \<Rightarrow> addr list \<Rightarrow> bool \<Rightarrow> diverts \<Rightarrow> diverts_error option \<times> diverts" where
  "Diverts_add nft_ok i addrs push d =
     (case Set_Add (dv_Set d) i addrs of
        Inl e \<Rightarrow> (Some (SetError e), d)
      | Inr (s, v4) \<Rightarrow>
          let d' = d\<lparr>dv_Set := s\<rparr>; script = DivertScript (dv_Table d) i v4 in
          if \<not> push \<or> \<not> dv_NFT d \<or> script = [] then (None, d')
          else if nft_ok script then (None, d'\<lparr>dv_kernel := (dv_kernel d)[i := dv_kernel d ! i \<union> set v4]\<rparr>)
          else (Some NFTFailed, d'))"

fun add_each :: "(string \<Rightarrow> bool) \<Rightarrow> addr list \<Rightarrow> nat list \<Rightarrow> diverts \<Rightarrow> diverts_error option \<times> diverts" where
  "add_each nft_ok addrs [] d = (None, d)"
| "add_each nft_ok addrs (i # is) d =
     (case Diverts_add nft_ok i addrs True d of
        (Some e, d') \<Rightarrow> (Some e, d')
      | (None, d') \<Rightarrow> add_each nft_ok addrs is d')"

fun answered_loop :: "(string \<Rightarrow> bool) \<Rightarrow> byte list \<Rightarrow> string list \<Rightarrow> string list \<Rightarrow> diverts \<Rightarrow> diverts_error option \<times> diverts" where
  "answered_loop nft_ok resp [] seen d = (None, d)"
| "answered_loop nft_ok resp (h # hs) seen d =
     (if h \<in> set seen then answered_loop nft_ok resp hs seen d
      else case chainAddrs resp h of
             Inl e \<Rightarrow> (Some (BadAnswer e), d)
           | Inr addrs \<Rightarrow>
               if addrs = [] then answered_loop nft_ok resp hs (h # seen) d
               else case add_each nft_ok addrs (Lookup (dv_Set d) h) d of
                      (Some e, d') \<Rightarrow> (Some e, d')
                    | (None, d') \<Rightarrow> answered_loop nft_ok resp hs (h # seen) d')"

definition Answered :: "(string \<Rightarrow> bool) \<Rightarrow> byte list \<Rightarrow> diverts \<Rightarrow> diverts_error option \<times> diverts" where
  "Answered nft_ok resp d = answered_loop nft_ok resp (map dr_Host (ds_routes (dv_Set d))) [] d"

definition Diverts_script :: "diverts \<Rightarrow> string" where
  "Diverts_script d =
     concat (map (\<lambda>i. DivertScript (dv_Table d) i (Set_Addrs (dv_Set d) i)) [0..<length (ds_routes (dv_Set d))])"

text \<open>\<open>install\<close>: the table's own script and every address in memory, in one transaction.\<close>

definition Diverts_install :: "(string \<Rightarrow> bool) \<Rightarrow> string \<Rightarrow> diverts \<Rightarrow> bool \<times> diverts" where
  "Diverts_install nft_ok script d =
     (if nft_ok (script @ Diverts_script d) then (True, d\<lparr>dv_kernel := ds_addrs (dv_Set d)\<rparr>) else (False, d))"

text \<open>\<open>Resolve\<close> goes on after a route that fails and collects the errors, with the index of each.\<close>

fun resolve_loop :: "(string \<Rightarrow> bool) \<Rightarrow> (string \<Rightarrow> addr list option) \<Rightarrow> bool \<Rightarrow> (nat \<times> divert_route) list
    \<Rightarrow> diverts \<Rightarrow> (nat \<times> diverts_error) list \<times> diverts" where
  "resolve_loop nft_ok lookup push [] d = ([], d)"
| "resolve_loop nft_ok lookup push ((i, r) # rs) d =
     (if parse_addr (dr_Host r) \<noteq> None then resolve_loop nft_ok lookup push rs d
      else
        let (e, d') = (case lookup (dr_Host r) of
                         None \<Rightarrow> (Some LookupFailed, d)
                       | Some [] \<Rightarrow> (Some NoAddress, d)
                       | Some addrs \<Rightarrow> Diverts_add nft_ok i addrs push d);
            (es, d'') = resolve_loop nft_ok lookup push rs d' in
        ((case e of None \<Rightarrow> es | Some x \<Rightarrow> (i, x) # es), d''))"

definition Diverts_Resolve :: "(string \<Rightarrow> bool) \<Rightarrow> (string \<Rightarrow> addr list option) \<Rightarrow> bool \<Rightarrow> diverts
    \<Rightarrow> (nat \<times> diverts_error) list \<times> diverts" where
  "Diverts_Resolve nft_ok lookup push d =
     resolve_loop nft_ok lookup push (enumerate 0 (ds_routes (dv_Set d))) d"

subsection \<open>Answering\<close>

record resolver =
  rv_Policy :: egress_policy
  rv_Upstream :: "string list"
  rv_Hosts :: "(string \<times> addr) list"

text \<open>What the world does: each function is a parameter of one answer.\<close>

record world =
  wd_exchange :: "string \<Rightarrow> byte list \<Rightarrow> byte list option"
  wd_rand :: "byte \<times> byte"
  wd_pin :: "string \<Rightarrow> addr list \<Rightarrow> nat \<Rightarrow> bool"
  wd_nft :: "string \<Rightarrow> bool"

datatype effect = Sent string "byte list" | Pinned string "addr list" nat | LogGuest string

definition pinSet :: "resolver \<Rightarrow> question \<Rightarrow> string option" where
  "pinSet r q =
     (if q_type q \<noteq> typeA \<or> \<not> HasHostRules (rv_Policy r) then None
      else if DeniesQuery (rv_Policy r) (q_name q) then Some SetDenyIP
      else if ep_Default (rv_Policy r) = ''allow'' then None
      else Some SetAllowIP)"

fun forward_loop :: "(string \<Rightarrow> byte list \<Rightarrow> byte list option) \<Rightarrow> byte list \<Rightarrow> byte list \<Rightarrow> string list
    \<Rightarrow> byte list option \<times> effect list" where
  "forward_loop exchange query out [] = (None, [])"
| "forward_loop exchange query out (server # servers) =
     (case exchange server out of
        Some resp \<Rightarrow>
          if length resp < headerLen \<or> take 2 resp \<noteq> take 2 out
          then let (r, evs) = forward_loop exchange query out servers in (r, Sent server out # evs)
          else (Some (take 2 query @ drop 2 resp), [Sent server out])
      | None \<Rightarrow> let (r, evs) = forward_loop exchange query out servers in (r, Sent server out # evs))"

definition resolver_forward :: "world \<Rightarrow> resolver \<Rightarrow> byte list \<Rightarrow> byte list option \<times> effect list" where
  "resolver_forward w r query =
     forward_loop (wd_exchange w) query ([fst (wd_rand w), snd (wd_rand w)] @ drop 2 query) (rv_Upstream r)"

text \<open>The part of \<open>Answer\<close> after a response from upstream: divert, then pin, then hand on.\<close>

definition deliver :: "world \<Rightarrow> resolver \<Rightarrow> byte list \<Rightarrow> question \<Rightarrow> byte list \<Rightarrow> addr list \<Rightarrow> diverts option
    \<Rightarrow> byte list \<times> diverts option \<times> effect list" where
  "deliver w r query q resp addrs dv =
     (let (err, dv') =
        (case dv of
           Some d \<Rightarrow> if q_type q = typeA then (let (e, d') = Answered (wd_nft w) resp d in (e, Some d')) else (None, dv)
         | None \<Rightarrow> (None, dv)) in
      if err \<noteq> None then (reply query q rcodeServFail, dv', [LogGuest (q_name q)])
      else case pinSet r q of
             Some s \<Rightarrow>
               if addrs = [] then (resp, dv', [])
               else if wd_pin w s addrs (PinTTL + PinGrace) then (resp, dv', [Pinned s addrs (PinTTL + PinGrace)])
               else (reply query q rcodeServFail, dv', [LogGuest (q_name q)])
           | None \<Rightarrow> (resp, dv', []))"

definition answer_ttl :: "resolver \<Rightarrow> nat" where
  "answer_ttl r = (if HasHostRules (rv_Policy r) then PinTTL div second else 0)"

definition answer_upstream :: "world \<Rightarrow> resolver \<Rightarrow> byte list \<Rightarrow> question \<Rightarrow> diverts option
    \<Rightarrow> byte list \<times> diverts option \<times> effect list" where
  "answer_upstream w r query q dv =
     (case resolver_forward w r query of
        (None, evs) \<Rightarrow> (reply query q rcodeServFail, dv, evs @ [LogGuest (q_name q)])
      | (Some resp, evs) \<Rightarrow>
          (case inspectAnswer resp query q (answer_ttl r) of
             Inl _ \<Rightarrow> (reply query q rcodeServFail, dv, evs @ [LogGuest (q_name q)])
           | Inr (out, addrs) \<Rightarrow>
               (case deliver w r query q out addrs dv of (ans, dv', evs') \<Rightarrow> (ans, dv', evs @ evs'))))"

definition Answer :: "world \<Rightarrow> resolver \<Rightarrow> byte list \<Rightarrow> diverts option \<Rightarrow> byte list option \<times> diverts option \<times> effect list" where
  "Answer w r query dv =
     (case parseQuery query of
        Inl e \<Rightarrow>
          (if length query < headerLen \<or> query ! 2 AND 0x80 \<noteq> 0 then None
           else if e = ErrOpcode then Some (headerReply query rcodeNotImp)
           else Some (headerReply query rcodeFormErr), dv, [])
      | Inr q \<Rightarrow>
          (case map_of (rv_Hosts r) (trim_suffix ''.'' (to_lower (q_name q))) of
             Some a \<Rightarrow> (Some (localAnswer query q a), dv, [])
           | None \<Rightarrow>
               if \<not> AllowsQuery (rv_Policy r) (q_name q) then (Some (reply query q rcodeRefused), dv, [LogGuest (q_name q)])
               else if \<not> forwarded q then (Some (reply query q 0), dv, [])
               else case answer_upstream w r query q dv of (ans, dv', evs) \<Rightarrow> (Some ans, dv', evs)))"

subsection \<open>Framing over TCP\<close>

definition writeTCP :: "byte list \<Rightarrow> byte list" where
  "writeTCP msg = put16 [0, 0] 0 (length msg mod 65536) @ msg"

definition readTCP :: "byte list \<Rightarrow> (byte list \<times> byte list) option" where
  "readTCP stream =
     (if length stream < 2 then None
      else let n = 256 * unat (stream ! 0) + unat (stream ! 1); body = drop 2 stream in
        if length body < n then None else Some (take n body, drop n body))"

subsection \<open>Refreshing the rules that name one host\<close>

text \<open>The lookups \<open>RefreshHosts\<close> starts, each with the set it pins in, and the effect of one of them.\<close>

definition refresh_jobs :: "egress_policy \<Rightarrow> nat \<Rightarrow> (string \<times> string) list" where
  "refresh_jobs p interval =
     (let allow = literalHosts (ep_allow p); deny = literalHosts (ep_deny p) in
      if interval = 0 \<or> length allow + length deny = 0 then []
      else map (\<lambda>h. (h, SetAllowHost)) allow @ map (\<lambda>h. (h, SetDenyHost)) deny)"

definition refreshHost :: "(string \<Rightarrow> addr list option) \<Rightarrow> (string \<Rightarrow> addr list \<Rightarrow> nat \<Rightarrow> bool) \<Rightarrow> nat \<Rightarrow> string \<times> string \<Rightarrow> effect list" where
  "refreshHost lookup pin lifetime job =
     (case lookup (fst job) of
        None \<Rightarrow> []
      | Some addrs \<Rightarrow> if pin (snd job) addrs lifetime then [Pinned (snd job) addrs lifetime] else [])"

definition RefreshHosts :: "(string \<Rightarrow> addr list option) \<Rightarrow> (string \<Rightarrow> addr list \<Rightarrow> nat \<Rightarrow> bool) \<Rightarrow> egress_policy \<Rightarrow> nat \<Rightarrow> effect list" where
  "RefreshHosts lookup pin p interval =
     concat (map (refreshHost lookup pin (refreshRetention * interval)) (refresh_jobs p interval))"

end
