(* ===== verification/Egress_Dns_Facts.thy ===== *)
theory Egress_Dns_Facts
  imports Egress_Dns
begin

unbundle bit_operations_syntax

text \<open>
  What the wire format code guarantees on any bytes: no index is out of range, a question is read
  from its own bytes and not from the ID the resolver replaces, its name is a plain host name of
  bounded length, a written query reads back, an answer hands on no additional record but OPT, and
  the addresses of a name are those its alias chain reaches.
\<close>

subsection \<open>Names\<close>

lemma name_loop_end:
  "name_loop msg compress off labels nend wire pointers = Inr (ls, e) \<Longrightarrow>
     (case nend of None \<Rightarrow> off < e | Some e0 \<Rightarrow> e = e0)"
proof (induction msg compress off labels nend wire pointers rule: name_loop.induct)
  case (1 msg compress off labels nend wire pointers)
  note step = "1.prems"[unfolded name_loop.simps[of msg compress off]]
  show ?case
    using step "1.IH" by (auto simp: Let_def split: if_splits option.splits)
qed

lemma name_loop_no_panic: "name_loop msg compress off labels nend wire pointers \<noteq> Inl Panic"
proof (induction msg compress off labels nend wire pointers rule: name_loop.induct)
  case (1 msg compress off labels nend wire pointers)
  show ?case
    unfolding name_loop.simps[of msg compress off]
    using "1.IH" by (auto simp: Let_def split: if_splits option.splits)
qed

lemma nameLabels_end: "nameLabels msg off compress = Inr (ls, e) \<Longrightarrow> off < e"
  unfolding nameLabels_def using name_loop_end by fastforce

lemma nameLabels_no_panic: "nameLabels msg off compress \<noteq> Inl Panic"
  unfolding nameLabels_def by (rule name_loop_no_panic)

text \<open>Without compression a name is read from its own offset on, whatever comes before it.\<close>

lemma name_loop_local:
  "length msg = length msg' \<Longrightarrow> drop k msg = drop k msg' \<Longrightarrow> k \<le> off \<Longrightarrow>
     name_loop msg False off labels nend wire pointers = name_loop msg' False off labels nend wire pointers"
proof (induction msg False off labels nend wire pointers rule: name_loop.induct)
  case (1 msg off labels nend wire pointers)
  have nth: "msg ! i = msg' ! i" if "k \<le> i" "i < length msg" for i
  proof -
    have "msg ! i = drop k msg ! (i - k)" "msg' ! i = drop k msg' ! (i - k)" using that 1(3) by simp_all
    then show ?thesis using 1(4) by simp
  qed
  have "drop (Suc off - k) (drop k msg) = drop (Suc off - k) (drop k msg')" using 1(4) by simp
  then have dr: "drop (Suc off) msg = drop (Suc off) msg'" using 1(5) by simp
  show ?case
  proof (cases "off < length msg")
    case True
    then show ?thesis
      unfolding name_loop.simps[of msg False off] name_loop.simps[of msg' False off]
      using 1(2)[OF _ _ _ _ _ _ _ 1(3,4)] 1(3,5) nth[OF 1(5) True] dr
      by (auto simp: Let_def)
  next
    case False
    then show ?thesis using 1(3) by (simp add: name_loop.simps[of msg False off] name_loop.simps[of msg' False off])
  qed
qed


subsection \<open>No access outside a message\<close>

lemma byte_at_ok [simp]: "i < length msg \<Longrightarrow> byte_at msg i = Inr (msg ! i)"
  by (simp add: byte_at_def)

lemma be16_ok [simp]: "i + 1 < length msg \<Longrightarrow> be16 msg i = Inr (256 * unat (msg ! i) + unat (msg ! (i + 1)))"
  by (simp add: be16_def)

lemma slice_ok [simp]: "i \<le> j \<Longrightarrow> j \<le> length msg \<Longrightarrow> slice msg i j = Inr (take (j - i) (drop i msg))"
  by (simp add: slice_def)

lemma length_put [simp]: "length (put16 msg i v) = length msg" "length (put32 msg i v) = length msg"
  by (simp_all add: put16_def put32_def)

lemma bind_no_panic:
  "r \<noteq> Inl Panic \<Longrightarrow> (\<And>v. r = Inr v \<Longrightarrow> f v \<noteq> Inl Panic) \<Longrightarrow> bind_err r f \<noteq> Inl Panic"
  by (cases r) auto

lemma bind_ok_no_panic: "r = Inr v \<Longrightarrow> f v \<noteq> Inl Panic \<Longrightarrow> bind_err r f \<noteq> Inl Panic"
  by simp

lemma readName_no_panic: "readName msg off \<noteq> Inl Panic"
  unfolding readName_def by (intro bind_no_panic nameLabels_no_panic) (simp split: prod.splits)

lemma readQuestion_no_panic: "readQuestion msg off \<noteq> Inl Panic"
  unfolding readQuestion_def by (intro bind_no_panic readName_no_panic) (simp split: prod.splits)

lemma tail_loop_no_panic: "tail_loop n msg off \<noteq> Inl Panic"
proof (induction n msg off rule: tail_loop.induct)
  case (2 records msg off)
  show ?case
    unfolding tail_loop.simps using "2.IH" by (intro bind_no_panic nameLabels_no_panic) (auto split: prod.splits)
qed simp

lemma checkQueryTail_no_panic: "12 \<le> length msg \<Longrightarrow> checkQueryTail msg off \<noteq> Some Panic"
  using tail_loop_no_panic[of _ msg off]
  by (auto simp: checkQueryTail_def err_if_def split: sum.splits if_splits)

lemma parseQuery_no_panic: "parseQuery msg \<noteq> Inl Panic"
proof (cases "length msg < headerLen")
  case False
  then have len: "12 \<le> length msg" by (simp add: headerLen_def)
  have "bind_err (readQuestion msg headerLen) (\<lambda>q. on_ok (checkQueryTail msg (q_end q)) q) \<noteq> Inl Panic"
    using checkQueryTail_no_panic[OF len] by (intro bind_no_panic readQuestion_no_panic) simp
  then show ?thesis using False len by (simp add: parseQuery_def)
qed (simp add: parseQuery_def)

lemma inspect_record_no_panic: "inspect_record answers kept ttl i st \<noteq> Inl Panic"
proof (cases "nameLabels (is_resp st) (is_off st) True")
  case (Inl e)
  then show ?thesis using nameLabels_no_panic[of "is_resp st" "is_off st" True] by (simp add: inspect_record_def)
next
  case (Inr v)
  obtain ls nx where v: "v = (ls, nx)" by (cases v)
  have "is_off st < nx" using nameLabels_end Inr v by blast
  then show ?thesis by (simp add: inspect_record_def Let_def Inr v)
qed

lemma fold_no_panic: "(\<And>x s. f x s \<noteq> Inl Panic) \<Longrightarrow> fold_err f xs s \<noteq> Inl Panic"
  by (induction xs arbitrary: s) (auto split: sum.splits)

lemma inspectAnswer_no_panic:
  assumes "2 \<le> length query"
  shows "inspectAnswer resp query q ttl \<noteq> Inl Panic"
proof (cases "length resp < headerLen")
  case False
  then have len: "12 \<le> length resp" by (simp add: headerLen_def)
  have loop: "bind_err (fold_err (inspect_record a k ttl) is st) (\<lambda>st. Inr (inspect_finish st)) \<noteq> Inl Panic" for a k "is" st
    by (intro bind_no_panic fold_no_panic inspect_record_no_panic) simp
  have reads: "byte_at resp 0 = Inr (resp ! 0)" "byte_at resp 1 = Inr (resp ! 1)" "byte_at resp 2 = Inr (resp ! 2)"
    "byte_at query 0 = Inr (query ! 0)" "byte_at query 1 = Inr (query ! 1)"
    using len assms by (auto simp: byte_at_def)
  have rest: "bind_err (readQuestion resp headerLen) (\<lambda>rq.
      if \<not> equal_fold (q_name rq) (q_name q) \<or> q_type rq \<noteq> q_type q then Inl WrongQuestion
      else bind_err (be16 resp 6) (\<lambda>answers. bind_err (be16 resp 8) (\<lambda>ns. bind_err (be16 resp 10) (\<lambda>ar.
        bind_err (fold_err (inspect_record answers (answers + ns) ttl) [0..<answers + ns + ar]
            \<lparr>is_resp = resp, is_addrs = [], is_opt = [], is_cut = None, is_off = q_end rq\<rparr>)
          (\<lambda>st. Inr (inspect_finish st)))))) \<noteq> Inl Panic"
    using len loop by (intro bind_no_panic readQuestion_no_panic) simp
  show ?thesis
    unfolding inspectAnswer_def reads bind_err_simps using False len rest by simp
qed (simp add: inspectAnswer_def)

lemma chain_record_at_no_panic: "chain_record_at resp off \<noteq> Inl Panic"
proof (cases "nameLabels resp off True")
  case (Inl e)
  then show ?thesis using nameLabels_no_panic[of resp off True] by (simp add: chain_record_at_def)
next
  case (Inr v)
  obtain ls nx where v: "v = (ls, nx)" by (cases v)
  have "bind_err (nameLabels resp k True) (\<lambda>(target, _). Inr (joinLabels target)) \<noteq> Inl Panic" for k
    by (intro bind_no_panic nameLabels_no_panic) (simp split: prod.splits)
  then show ?thesis
    by (simp add: chain_record_at_def Let_def Inr v bind_err_Inl)
qed

lemma chain_records_no_panic: "chain_records n resp off \<noteq> Inl Panic"
  by (induction n arbitrary: off) (auto simp: bind_err_Inl chain_record_at_no_panic)

lemma chainAddrs_no_panic: "chainAddrs resp name \<noteq> Inl Panic"
  by (auto simp: chainAddrs_def bind_err_Inl nameLabels_no_panic chain_records_no_panic headerLen_def)



subsection \<open>A question is read from its own bytes\<close>

text \<open>Two messages that agree from an offset on give the same result for every read after it.\<close>

definition same_from :: "nat \<Rightarrow> byte list \<Rightarrow> byte list \<Rightarrow> bool" where
  "same_from k msg msg' \<longleftrightarrow> length msg = length msg' \<and> drop k msg = drop k msg'"

lemma same_from_length: "same_from k msg msg' \<Longrightarrow> length msg = length msg'"
  by (simp add: same_from_def)

lemma same_from_nth:
  assumes "same_from k msg msg'" and "k \<le> i" and "i < length msg"
  shows "msg ! i = msg' ! i"
proof -
  have "k \<le> length msg" "k \<le> length msg'" using assms same_from_length[OF assms(1)] by linarith+
  then have "msg ! i = drop k msg ! (i - k)" "msg' ! i = drop k msg' ! (i - k)" using assms(2) by simp_all
  then show ?thesis using assms(1) unfolding same_from_def by metis
qed

lemma same_from_at: "same_from k msg msg' \<Longrightarrow> k \<le> i \<Longrightarrow> byte_at msg i = byte_at msg' i"
  using same_from_nth[of k msg msg' i] same_from_length[of k msg msg'] by (simp add: byte_at_def)

lemma same_from_be16: "same_from k msg msg' \<Longrightarrow> k \<le> i \<Longrightarrow> be16 msg i = be16 msg' i"
  using same_from_at[of k msg msg' i] same_from_at[of k msg msg' "i + 1"] by (simp add: be16_def)

lemma same_from_labels: "same_from k msg msg' \<Longrightarrow> k \<le> i \<Longrightarrow> nameLabels msg i False = nameLabels msg' i False"
  unfolding nameLabels_def by (intro name_loop_local) (auto simp: same_from_def)

lemmas same_from_reads = same_from_at same_from_be16 same_from_labels same_from_length

lemma readName_local: "same_from k msg msg' \<Longrightarrow> k \<le> off \<Longrightarrow> readName msg off = readName msg' off"
  by (simp add: readName_def same_from_reads)

lemma readName_end: "readName msg off = Inr (name, e) \<Longrightarrow> off < e"
  by (auto simp: readName_def bind_err_Inr split: prod.splits if_splits dest: nameLabels_end)

lemma readQuestion_local:
  assumes "same_from k msg msg'" and "k \<le> off"
  shows "readQuestion msg off = readQuestion msg' off"
proof (cases "readName msg' off")
  case (Inr v)
  obtain name e where v: "v = (name, e)" by (cases v)
  have "off < e" using readName_end Inr v by blast
  then show ?thesis
    using assms readName_local[OF assms] same_from_be16[OF assms(1), of e] same_from_length[OF assms(1)] by (simp add: readQuestion_def Inr v)
qed (simp add: readQuestion_def readName_local[OF assms])

lemma readQuestion_end: "readQuestion msg off = Inr q \<Longrightarrow> off < q_end q \<and> q_end q \<le> length msg"
  by (auto simp: readQuestion_def bind_err_Inr split: prod.splits if_splits dest: readName_end)

lemma tail_loop_local:
  "same_from k msg msg' \<Longrightarrow> k \<le> off \<Longrightarrow> tail_loop n msg off = tail_loop n msg' off"
proof (induction n arbitrary: off)
  case (Suc n)
  show ?case
  proof (cases "nameLabels msg' off False")
    case (Inl e)
    then show ?thesis using Suc.prems by (simp add: same_from_labels)
  next
    case (Inr v)
    obtain ls nx where v: "v = (ls, nx)" by (cases v)
    have nx: "off < nx" using nameLabels_end Inr v by blast
    then have "be16 msg (nx + 8) = be16 msg' (nx + 8)" "length msg = length msg'"
      using Suc.prems by (auto intro: same_from_reads)
    then show ?thesis
      using Suc nx by (simp add: same_from_labels Inr v bind_err_def split: sum.splits)
  qed
qed simp

lemma checkQueryTail_local:
  assumes "same_from 2 msg msg'" and "2 \<le> off"
  shows "checkQueryTail msg off = checkQueryTail msg' off"
proof -
  have "be16 msg i = be16 msg' i" if "i \<in> {6, 8, 10}" for i
    using that by (intro same_from_be16[OF assms(1)]) auto
  then have "be16 msg 6 = be16 msg' 6" "be16 msg 8 = be16 msg' 8" "be16 msg 10 = be16 msg' 10" by auto
  then show ?thesis
    unfolding checkQueryTail_def by (simp only: tail_loop_local[OF assms] same_from_length[OF assms(1)])
qed

lemma parseQuery_local:
  assumes same: "same_from 2 m m'"
  shows "parseQuery m = parseQuery m'"
proof -
  have rq: "readQuestion m headerLen = readQuestion m' headerLen"
    by (rule readQuestion_local[OF same]) (simp add: headerLen_def)
  have "bind_err (readQuestion m' headerLen) (\<lambda>q. on_ok (checkQueryTail m (q_end q)) q)
      = bind_err (readQuestion m' headerLen) (\<lambda>q. on_ok (checkQueryTail m' (q_end q)) q)"
  proof (cases "readQuestion m' headerLen")
    case (Inr q)
    have "2 \<le> q_end q" using readQuestion_end[OF Inr] by (simp add: headerLen_def)
    then show ?thesis using Inr checkQueryTail_local[OF same] by simp
  qed simp
  moreover have "byte_at m 2 = byte_at m' 2" "be16 m 4 = be16 m' 4"
    by (intro same_from_at[OF same] same_from_be16[OF same]; simp)+
  ultimately show ?thesis unfolding parseQuery_def by (simp only: rq same_from_length[OF same])
qed

text \<open>The question the resolver judges is the question the upstream server is asked. Replacing
  the two ID bytes of a query, as the resolver does before it forwards the query's own bytes,
  changes neither the name nor the type nor the verdict of the parser.\<close>
theorem parse_query_ignores_id: "parseQuery (a # b # rest) = parseQuery (c # d # rest)"
  by (rule parseQuery_local) (simp add: same_from_def)


subsection \<open>The encoding of a name\<close>

lemma label_bits_all: "list_all (\<lambda>n. (n AND 192 = 0) = (n < 64) \<and> (n AND 192 \<noteq> 192 \<or> 192 \<le> n)) [0..<256::nat]"
  by code_simp

lemma label_bits: "n < 256 \<Longrightarrow> (n AND 192 = 0) = (n < (64 :: nat))" "n < 256 \<Longrightarrow> n AND 192 = 192 \<Longrightarrow> (192 :: nat) \<le> n"
  using label_bits_all by (auto simp: list_all_iff)

lemma byte_less: "unat (b :: byte) < 256"
  using unsigned_less[of b] by simp

definition wire_name :: "byte list list \<Rightarrow> byte list" where
  "wire_name labels = concat (map (\<lambda>l. of_nat (length l) # l) labels) @ [0]"

definition label_ok :: "byte list \<Rightarrow> bool" where
  "label_ok l \<longleftrightarrow> l \<noteq> [] \<and> length l < 64"

lemma wire_name_simps [simp]:
  "wire_name [] = [0]" "wire_name (l # ls) = of_nat (length l) # l @ wire_name ls"
  by (simp_all add: wire_name_def)

lemma drop_step:
  assumes "off < length msg" "off + 1 + n \<le> length msg"
  shows "drop off msg = msg ! off # take n (drop (off + 1) msg) @ drop (off + 1 + n) msg"
  using assms append_take_drop_id[of n "drop (off + 1) msg"] by (simp add: Cons_nth_drop_Suc[symmetric] ac_simps)

lemma name_loop_sound:
  "name_loop msg False off labels None wire p = Inr (ls, e) \<Longrightarrow>
     \<exists>ls'. ls = labels @ ls' \<and> list_all label_ok ls' \<and> (ls' = [] \<or> wire + length (wire_name ls') \<le> maxNameLen + 1)
       \<and> drop off msg = wire_name ls' @ drop e msg \<and> e = off + length (wire_name ls')"
proof (induction msg False off labels "None :: nat option" wire p rule: name_loop.induct)
  case (1 msg off labels wire p)
  let ?n = "unat (msg ! off)"
  note step = "1.prems"[unfolded name_loop.simps[of msg False off]]
  have off: "off < length msg" using step by (simp split: if_splits)
  show ?case
  proof (cases "?n = 0")
    case True
    then have "msg ! off = 0" by (simp add: unat_eq_0)
    moreover have "ls = labels" "e = off + 1" using step off True by auto
    ultimately show ?thesis using off by (intro exI[of _ "[]"]) (simp add: Cons_nth_drop_Suc[symmetric])
  next
    case False
    have bits: "?n AND 192 = 0" and len: "off + 1 + ?n \<le> length msg" and w: "wire + 1 + ?n \<le> maxNameLen"
      and rec: "name_loop msg False (off + 1 + ?n) (labels @ [take ?n (drop (off + 1) msg)]) None (wire + 1 + ?n) p = Inr (ls, e)"
      using step off False by (auto simp: Let_def split: if_splits)
    obtain ls' where ls': "ls = (labels @ [take ?n (drop (off + 1) msg)]) @ ls'" "list_all label_ok ls'"
        "ls' = [] \<or> wire + 1 + ?n + length (wire_name ls') \<le> maxNameLen + 1"
        "drop (off + 1 + ?n) msg = wire_name ls' @ drop e msg" "e = off + 1 + ?n + length (wire_name ls')"
      using "1.hyps"(2)[OF _ refl False _ _ _ _ rec] off bits len w by auto
    let ?l = "take ?n (drop (off + 1) msg)"
    have ll: "length ?l = ?n" using len by simp
    have "label_ok ?l" using label_bits(1)[OF byte_less] bits False ll by (auto simp: label_ok_def)
    moreover have "drop off msg = wire_name (?l # ls') @ drop e msg"
      using drop_step[OF off len] ls'(4) ll by (simp add: ac_simps)
    ultimately show ?thesis
      using ls' ll w by (intro exI[of _ "?l # ls'"]) auto
  qed
qed

lemma name_loop_complete:
  "list_all label_ok ls \<Longrightarrow> ls = [] \<or> wire + length (wire_name ls) \<le> maxNameLen + 1 \<Longrightarrow> drop off msg = wire_name ls @ rest \<Longrightarrow>
     name_loop msg compress off labels None wire p = Inr (labels @ ls, off + length (wire_name ls))"
proof (induction ls arbitrary: off labels wire)
  case Nil
  then have "off < length msg" "msg ! off = 0"
    by (auto simp: nth_via_drop intro: ccontr)
  then show ?case by (simp add: name_loop.simps[of msg compress off])
next
  case (Cons l ls)
  let ?n = "length l"
  have n: "?n \<noteq> 0" "?n < 64" using Cons.prems(1) by (auto simp: label_ok_def)
  have off: "off < length msg" using Cons.prems(3) by (intro not_le_imp_less) auto
  have hd: "msg ! off = of_nat ?n" using Cons.prems(3) by (simp add: nth_via_drop)
  have un: "unat (msg ! off) = ?n" using n by (simp add: hd unat_of_nat)
  have tl: "drop (off + 1) msg = l @ wire_name ls @ rest"
    using Cons.prems(3) off by (simp add: Cons_nth_drop_Suc[symmetric])
  have "drop ?n (drop (off + 1) msg) = wire_name ls @ rest" unfolding tl by simp
  then have rest: "drop (off + 1 + ?n) msg = wire_name ls @ rest" by (simp add: ac_simps)
  have len: "off + 1 + ?n \<le> length msg"
    using arg_cong[OF tl, of length] off by simp
  have bits: "?n AND 192 = 0" using label_bits(1)[of ?n] n by simp
  have w: "wire + 1 + ?n \<le> maxNameLen" "wire + 1 + ?n + length (wire_name ls) \<le> maxNameLen + 1"
    using Cons.prems(2) by (auto simp: wire_name_def)
  have "name_loop msg compress (off + 1 + ?n) (labels @ [l]) None (wire + 1 + ?n) p
      = Inr ((labels @ [l]) @ ls, off + 1 + ?n + length (wire_name ls))"
    using Cons.IH[of "wire + 1 + ?n" "off + 1 + ?n" "labels @ [l]"] Cons.prems(1) w(2) rest by simp
  then show ?case
    using off un n bits len w(1) tl by (simp add: name_loop.simps[of msg compress off] Let_def)
qed


lemma nameLabels_iff:
  "nameLabels msg off False = Inr (ls, e) \<longleftrightarrow>
     list_all label_ok ls \<and> length (wire_name ls) \<le> maxNameLen \<and> e = off + length (wire_name ls) \<and> drop off msg = wire_name ls @ drop e msg"
  (is "?L \<longleftrightarrow> ?R")
proof
  assume ?L
  then show ?R using name_loop_sound[of msg off "[]" 1 0 ls e] by (auto simp: nameLabels_def maxNameLen_def)
next
  assume ?R
  then show ?L using name_loop_complete[of ls 1 off msg "drop e msg" False "[]" 0] by (auto simp: nameLabels_def)
qed

lemma length_wire_name: "length (wire_name ls) = sum_list (map length ls) + length ls + 1"
  by (induction ls) auto

lemma length_join_dot: "ls \<noteq> [] \<Longrightarrow> length (join_with ''.'' (map (map f) ls)) + 1 = sum_list (map length ls) + length ls"
  by (induction ls rule: induct_list012) auto

definition question_labels :: "byte list list \<Rightarrow> bool" where
  "question_labels ls \<longleftrightarrow> list_all label_ok ls \<and> list_all (list_all hostnameByte) ls \<and> length (wire_name ls) \<le> maxNameLen"

lemma readName_iff:
  "readName msg off = Inr (name, e) \<longleftrightarrow>
     (\<exists>ls. question_labels ls \<and> name = join_with ''.'' (map (map byte_char) ls)
        \<and> e = off + length (wire_name ls) \<and> drop off msg = wire_name ls @ drop e msg)"
proof -
  have ex: "list_ex (\<lambda>l. list_ex (\<lambda>b. \<not> hostnameByte b) l) ls \<longleftrightarrow> \<not> list_all (list_all hostnameByte) ls" for ls
    by (auto simp: list_ex_iff list_all_iff)
  show ?thesis
    by (auto simp: readName_def bind_err_Inr ex nameLabels_iff question_labels_def split: if_splits)
qed

lemma split_two: "e + 2 \<le> length msg \<Longrightarrow> drop e msg = msg ! e # msg ! (e + 1) # drop (e + 2) msg"
  by (simp add: Cons_nth_drop_Suc)

lemma byte_pair: "256 * unat (a :: byte) + unat b = t \<longleftrightarrow> t < 65536 \<and> a = of_nat (t div 256) \<and> b = (of_nat t :: byte)"
proof
  assume t: "256 * unat a + unat b = t"
  have lt: "unat a < 256" "unat b < 256" using byte_less by blast+
  have "t div 256 = unat a" using t lt by linarith
  moreover have "(of_nat t :: byte) = of_nat (unat b)"
    by (rule iffD2[OF word_of_nat_eq_iff]) (simp add: take_bit_eq_mod flip: t)
  ultimately show "t < 65536 \<and> a = of_nat (t div 256) \<and> b = of_nat t" using t lt by simp
next
  assume "t < 65536 \<and> a = of_nat (t div 256) \<and> b = (of_nat t :: byte)"
  moreover have "256 * (t div 256) + t mod 256 = t" by simp
  ultimately show "256 * unat a + unat b = t" by (simp add: unat_of_nat div_less_iff_less_mult)
qed

lemma be16_bytes:
  assumes "e + 4 \<le> length msg"
  shows "be16 msg e = Inr t \<longleftrightarrow> t < 65536 \<and> drop e msg = of_nat (t div 256) # of_nat t # drop (e + 2) msg"
proof -
  have be: "be16 msg e = Inr (256 * unat (msg ! e) + unat (msg ! (e + 1)))"
    using assms by (simp add: be16_def byte_at_def)
  have dr: "drop e msg = msg ! e # msg ! (e + 1) # drop (e + 2) msg" using assms by (intro split_two) simp
  show ?thesis unfolding be dr by (simp only: sum.inject byte_pair list.inject simp_thms)
qed

lemma readQuestion_iff:
  "readQuestion msg off = Inr q \<longleftrightarrow>
     (\<exists>ls c1 c2 rest. question_labels ls \<and> q_type q < 65536
        \<and> drop off msg = wire_name ls @ [of_nat (q_type q div 256), of_nat (q_type q), c1, c2] @ rest
        \<and> q_name q = join_with ''.'' (map (map byte_char) ls) \<and> q_end q = off + length (wire_name ls) + 4)"
  (is "?L \<longleftrightarrow> (\<exists>ls c1 c2 rest. ?R ls c1 c2 rest)")
proof
  assume ?L
  then obtain name e where n: "readName msg off = Inr (name, e)" and len: "e + 4 \<le> length msg"
      and t: "be16 msg e = Inr (q_type q)" and q: "q_name q = name" "q_end q = e + 4"
    by (auto simp: readQuestion_def bind_err_Inr split: prod.splits if_splits)
  obtain ls where ls: "question_labels ls" "name = join_with ''.'' (map (map byte_char) ls)"
      "e = off + length (wire_name ls)" "drop off msg = wire_name ls @ drop e msg"
    using n by (auto simp: readName_iff)
  have "drop (e + 2) msg = msg ! (e + 2) # msg ! (e + 2 + 1) # drop (e + 2 + 2) msg" using len by (intro split_two) simp
  then have "?R ls (msg ! (e + 2)) (msg ! (e + 2 + 1)) (drop (e + 2 + 2) msg)"
    using ls(1,2) q ls(3,4) iffD1[OF be16_bytes[OF len] t] by (metis append_Cons append_Nil)
  then show "\<exists>ls c1 c2 rest. ?R ls c1 c2 rest" by blast
next
  assume "\<exists>ls c1 c2 rest. ?R ls c1 c2 rest"
  then obtain ls c1 c2 rest where R: "?R ls c1 c2 rest" by blast
  let ?e = "off + length (wire_name ls)"
  have "drop (length (wire_name ls)) (drop off msg) = of_nat (q_type q div 256) # of_nat (q_type q) # c1 # c2 # rest"
    using R by simp
  then have de: "drop ?e msg = of_nat (q_type q div 256) # of_nat (q_type q) # c1 # c2 # rest" by (simp add: ac_simps)
  have len: "?e + 4 \<le> length msg" using arg_cong[OF de, of length] by simp
  have d2: "drop (?e + 2) msg = c1 # c2 # rest" using arg_cong[OF de, of "drop 2"] by (simp add: ac_simps)
  have t: "be16 msg ?e = Inr (q_type q)" unfolding be16_bytes[OF len] d2 de using R by simp
  have "readName msg off = Inr (q_name q, ?e)" using R de by (auto simp: readName_iff)
  then show ?L using t len R by (simp add: readQuestion_def)
qed

text \<open>The reader of a question and the wire encoding are inverse to each other. A question reads
  exactly when the bytes at its offset are the length-prefixed labels of the name, each of 1 to 63
  host name bytes and 255 bytes in all, then the type and a class; its name is those labels joined by
  dots. So the name the policy judges is the only name an upstream server can read from those bytes.\<close>
theorem read_question_roundtrip:
  "readQuestion msg off = Inr q \<longleftrightarrow>
     (\<exists>ls c1 c2 rest. question_labels ls \<and> q_type q < 65536
        \<and> drop off msg = wire_name ls @ [of_nat (q_type q div 256), of_nat (q_type q), c1, c2] @ rest
        \<and> q_name q = join_with ''.'' (map (map byte_char) ls) \<and> q_end q = off + length (wire_name ls) + 4)"
  by (rule readQuestion_iff)

lemma join_dot_chars: "set (join_with ''.'' xs) \<subseteq> \<Union> (set ` set xs) \<union> {CHR ''.''}"
  by (induction xs rule: induct_list012) auto

lemma readQuestion_bounds:
  assumes "readQuestion msg off = Inr q"
  shows "length (q_name q) \<le> 253" "q_type q < 65536" "off < q_end q" "q_end q \<le> length msg"
    "list_all (\<lambda>c. c = CHR ''.'' \<or> is_lower c \<or> is_upper c \<or> is_digit c \<or> c = CHR ''-'' \<or> c = CHR ''_'') (q_name q)"
proof -
  obtain ls where ls: "question_labels ls" "q_name q = join_with ''.'' (map (map byte_char) ls)" "q_type q < 65536"
    using assms by (auto simp: readQuestion_iff)
  show "q_type q < 65536" by (rule ls(3))
  show "off < q_end q" "q_end q \<le> length msg" using readQuestion_end[OF assms] by auto
  show "length (q_name q) \<le> 253"
    using ls(1,2) length_join_dot[of ls byte_char] length_wire_name[of ls]
    by (cases "ls = []") (auto simp: question_labels_def maxNameLen_def)
  have "hostnameByte b" if "l \<in> set ls" "b \<in> set l" for l b
    using ls(1) that by (auto simp: question_labels_def list_all_iff)
  then show "list_all (\<lambda>c. c = CHR ''.'' \<or> is_lower c \<or> is_upper c \<or> is_digit c \<or> c = CHR ''-'' \<or> c = CHR ''_'') (q_name q)"
    unfolding ls(2) list_all_iff using join_dot_chars[of "map (map byte_char) ls"]
    by (fastforce simp: hostnameByte_def Let_def)
qed

lemma parseQuery_question:
  assumes "parseQuery msg = Inr q"
  shows "readQuestion msg headerLen = Inr q" "checkQueryTail msg (q_end q) = None"
  using assms by (auto simp: parseQuery_def bind_err_Inr on_ok_Inr split: if_splits)

text \<open>A query that parses carries a name of at most 253 characters, each a letter, a digit, a
  hyphen, an underscore or a dot, and its question ends after the header and inside the message:
  what the resolver matches, logs and copies into a reply is bounded and plain.\<close>
theorem query_question_bounds:
  assumes "parseQuery msg = Inr q"
  shows "length (q_name q) \<le> 253 \<and> q_type q < 65536 \<and> headerLen < q_end q \<and> q_end q \<le> length msg
    \<and> list_all (\<lambda>c. c = CHR ''.'' \<or> is_lower c \<or> is_upper c \<or> is_digit c \<or> c = CHR ''-'' \<or> c = CHR ''_'') (q_name q)"
  using readQuestion_bounds[OF parseQuery_question(1)[OF assms]] by blast

definition example_query :: "byte list" where
  "example_query = [7, 9, 1, 0, 0, 1, 0, 0, 0, 0, 0, 0] @ wire_name [[97, 112, 105], [101, 120]] @ [0, 1, 0, 1]"

theorem query_question_bounds_witness:
  "parseQuery example_query = Inr \<lparr>q_name = ''api.ex'', q_type = 1, q_end = 24\<rparr>
   \<and> length ''api.ex'' \<le> 253 \<and> headerLen < 24 \<and> 24 \<le> length example_query"
proof -
  have "parseQuery example_query = Inr \<lparr>q_name = ''api.ex'', q_type = 1, q_end = 24\<rparr>" by code_simp
  from this query_question_bounds[OF this] show ?thesis by simp
qed

subsection \<open>Alias chains\<close>

definition alias_links :: "chain_record list \<Rightarrow> (string \<times> string) set" where
  "alias_links records = {(ch_owner r, ch_target r) | r. r \<in> set records \<and> ch_target r \<noteq> []}"

lemma chain_pass_Cons:
  "chain_pass (r # rs) ns =
     chain_pass rs (if ch_target r \<noteq> [] \<and> ch_owner r \<in> set ns \<and> ch_target r \<notin> set ns then ns @ [ch_target r] else ns)"
  by (simp add: chain_pass_def)

lemma chain_pass_Nil [simp]: "chain_pass [] ns = ns"
  by (simp add: chain_pass_def)

lemma alias_links_Cons:
  "alias_links (r # rs) = (if ch_target r \<noteq> [] then {(ch_owner r, ch_target r)} else {}) \<union> alias_links rs"
  by (auto simp: alias_links_def)

lemma chain_pass_extends: "\<exists>xs. chain_pass rs ns = ns @ xs"
proof (induction rs arbitrary: ns)
  case (Cons r rs)
  show ?case unfolding chain_pass_Cons using Cons[of ns] Cons[of "ns @ [ch_target r]"] by auto
qed simp

lemma chain_pass_sound: "set (chain_pass rs ns) \<subseteq> (alias_links rs)\<^sup>* `` set ns"
proof (induction rs arbitrary: ns)
  case (Cons r rs)
  let ?ns = "if ch_target r \<noteq> [] \<and> ch_owner r \<in> set ns \<and> ch_target r \<notin> set ns then ns @ [ch_target r] else ns"
  have sub: "alias_links rs \<subseteq> alias_links (r # rs)" by (auto simp: alias_links_Cons)
  have "set ?ns \<subseteq> (alias_links (r # rs))\<^sup>* `` set ns" by (auto simp: alias_links_Cons)
  then have "(alias_links rs)\<^sup>* `` set ?ns \<subseteq> (alias_links (r # rs))\<^sup>* `` set ns"
    using rtrancl_mono[OF sub] by (blast intro: rtrancl_trans)
  then show ?case unfolding chain_pass_Cons using Cons[of ?ns] by blast
qed (simp add: alias_links_def)

lemma chain_pass_targets: "set (chain_pass rs ns) \<subseteq> set ns \<union> ch_target ` set rs"
proof (induction rs arbitrary: ns)
  case (Cons r rs)
  show ?case using Cons[of ns] Cons[of "ns @ [ch_target r]"] by (simp add: chain_pass_Cons) blast
qed simp

lemma chain_pass_distinct: "distinct ns \<Longrightarrow> distinct (chain_pass rs ns)"
  by (induction rs arbitrary: ns) (simp_all add: chain_pass_Cons)

lemma chain_pass_fixed: "chain_pass rs ns = ns \<Longrightarrow> alias_links rs `` set ns \<subseteq> set ns"
proof (induction rs)
  case (Cons r rs)
  have no: "\<not> (ch_target r \<noteq> [] \<and> ch_owner r \<in> set ns \<and> ch_target r \<notin> set ns)"
  proof
    assume yes: "ch_target r \<noteq> [] \<and> ch_owner r \<in> set ns \<and> ch_target r \<notin> set ns"
    obtain xs where "chain_pass rs (ns @ [ch_target r]) = (ns @ [ch_target r]) @ xs" using chain_pass_extends by blast
    then show False using Cons.prems yes by (simp add: chain_pass_Cons)
  qed
  then have "chain_pass rs ns = ns" using Cons.prems by (auto simp: chain_pass_Cons split: if_splits)
  then show ?case using Cons.IH no by (auto simp: alias_links_Cons)
qed (simp add: alias_links_def)

lemma chain_names_sound: "set (chain_names n rs ns) \<subseteq> (alias_links rs)\<^sup>* `` set ns"
proof (induction n arbitrary: ns)
  case (Suc n)
  have "(alias_links rs)\<^sup>* `` set (chain_pass rs ns) \<subseteq> (alias_links rs)\<^sup>* `` set ns"
    using chain_pass_sound[of rs ns] by (blast intro: rtrancl_trans)
  then show ?case using Suc[of "chain_pass rs ns"] by (auto simp: Let_def)
qed auto

lemma chain_names_keeps: "set ns \<subseteq> set (chain_names n rs ns)"
proof (induction n arbitrary: ns)
  case (Suc n)
  obtain xs where "chain_pass rs ns = ns @ xs" using chain_pass_extends by blast
  then show ?case using Suc[of "ns @ xs"] by (auto simp: Let_def)
qed simp

lemma chain_names_closed:
  "distinct ns \<Longrightarrow> set ns \<subseteq> insert a (ch_target ` set rs) \<Longrightarrow> length rs < length ns + n \<Longrightarrow>
     alias_links rs `` set (chain_names n rs ns) \<subseteq> set (chain_names n rs ns)"
proof (induction n arbitrary: ns)
  case 0
  have "card (ch_target ` set rs) \<le> length rs"
    using card_image_le[of "set rs" ch_target] card_length[of rs] by simp
  then have "card (insert a (ch_target ` set rs)) \<le> Suc (length rs)"
    by (simp add: card_insert_if)
  moreover have "card (set ns) = length ns" using 0 distinct_card by blast
  ultimately have "card (insert a (ch_target ` set rs)) \<le> card (set ns)" using 0 by simp
  then have "set ns = insert a (ch_target ` set rs)" using 0 by (simp add: card_seteq)
  then show ?case by (auto simp: alias_links_def)
next
  case (Suc n)
  obtain xs where xs: "chain_pass rs ns = ns @ xs" using chain_pass_extends by blast
  show ?case
  proof (cases "xs = []")
    case True
    then show ?thesis using chain_pass_fixed[of rs ns] xs by simp
  next
    case False
    then have "length rs < length (ns @ xs) + n" using Suc.prems(3) by (cases xs) auto
    moreover have "distinct (ns @ xs)" using chain_pass_distinct[OF Suc.prems(1), of rs] xs by simp
    moreover have "set (ns @ xs) \<subseteq> insert a (ch_target ` set rs)"
      using chain_pass_targets[of rs ns] Suc.prems(2) xs by auto
    ultimately show ?thesis using Suc.IH[of "ns @ xs"] False xs by (simp add: Let_def)
  qed
qed

lemma chain_names_reach: "set (chain_names (length rs) rs [a]) = (alias_links rs)\<^sup>* `` {a}"
proof
  show "set (chain_names (length rs) rs [a]) \<subseteq> (alias_links rs)\<^sup>* `` {a}" using chain_names_sound[of _ rs "[a]"] by simp
  have "alias_links rs `` set (chain_names (length rs) rs [a]) \<subseteq> set (chain_names (length rs) rs [a])"
    by (rule chain_names_closed[of _ a]) auto
  then have "(alias_links rs)\<^sup>* `` set (chain_names (length rs) rs [a]) \<subseteq> set (chain_names (length rs) rs [a])"
    by (simp add: Image_closed_trancl)
  then show "(alias_links rs)\<^sup>* `` {a} \<subseteq> set (chain_names (length rs) rs [a])"
    using chain_names_keeps[of "[a]" "length rs" rs] by auto
qed

lemma chain_addrs_fold:
  "set (fold (\<lambda>r out. case ch_addr r of None \<Rightarrow> out
                       | Some a \<Rightarrow> if ch_owner r \<in> N \<and> a \<notin> set out then out @ [a] else out) rs out)
     = set out \<union> {a. \<exists>r \<in> set rs. ch_owner r \<in> N \<and> ch_addr r = Some a}"
proof (induction rs arbitrary: out)
  case (Cons r rs)
  show ?case by (simp add: Cons split: option.splits) blast
qed simp

text \<open>The addresses pinned for a name are those of the A records its alias chain reaches, and
  no others: the bounded passes over the answer section compute exactly the names reachable from
  the question by CNAME links, in whatever order and with whatever loops the server sent them.\<close>
theorem chain_addrs_reach:
  "set (chain_addrs records name) =
     {a. \<exists>r \<in> set records. ch_addr r = Some a \<and> (normalizeName name, ch_owner r) \<in> (alias_links records)\<^sup>*}"
  unfolding chain_addrs_def Let_def chain_addrs_fold chain_names_reach by auto

end
