(* ===== verification/Divert_Facts.thy ===== *)
theory Divert_Facts
  imports Divert
begin

text \<open>
  What the divert contract guarantees: the set of a route grows within its bound and never forgets,
  adding is all or nothing, the preamble of two IPv4 ends is the only line that reads back as
  them, and a route prints as text that reads back as the route. The interface the egress enforcer
  relies on is the locale \<open>divert_memory\<close>.
\<close>

subsection \<open>The interface of a divert set\<close>

locale divert_memory =
  fixes add :: "'s \<Rightarrow> nat \<Rightarrow> addr list \<Rightarrow> 'e + ('s \<times> addr list)"
    and holds :: "'s \<Rightarrow> nat \<Rightarrow> addr \<Rightarrow> bool"
    and good :: "'s \<Rightarrow> bool"
  assumes add_good: "good s \<Longrightarrow> add s i addrs = Inr (s', v4) \<Longrightarrow> good s'"
    and add_holds: "good s \<Longrightarrow> add s i addrs = Inr (s', v4) \<Longrightarrow> holds s' j a \<longleftrightarrow> holds s j a \<or> (j = i \<and> a \<in> set v4)"
begin

lemma add_keeps: "good s \<Longrightarrow> add s i addrs = Inr (s', v4) \<Longrightarrow> holds s j a \<Longrightarrow> holds s' j a"
  by (simp add: add_holds)

lemma add_covers: "good s \<Longrightarrow> add s i addrs = Inr (s', v4) \<Longrightarrow> a \<in> set v4 \<Longrightarrow> holds s' i a"
  by (simp add: add_holds)

text \<open>A copy of the set that holds only what the set holds stays so, whether or not it gets the addresses.\<close>

lemma copy_within:
  assumes "good s" and "add s i addrs = Inr (s', v4)" and "\<And>j a. copy j a \<Longrightarrow> holds s j a"
    and "\<And>j a. copy' j a \<Longrightarrow> copy j a \<or> (j = i \<and> a \<in> set v4)"
  shows "copy' j a \<Longrightarrow> holds s' j a"
  using assms add_holds by blast

end

subsection \<open>The address sets\<close>

lemma v4_once_fold:
  "distinct acc \<Longrightarrow>
     distinct (fold (\<lambda>a v4. if Is4 (Unmap a) \<and> Unmap a \<notin> set v4 then v4 @ [Unmap a] else v4) xs acc)
   \<and> set (fold (\<lambda>a v4. if Is4 (Unmap a) \<and> Unmap a \<notin> set v4 then v4 @ [Unmap a] else v4) xs acc)
       = set acc \<union> {Unmap a | a. a \<in> set xs \<and> Is4 (Unmap a)}"
proof (induction xs arbitrary: acc)
  case (Cons x xs)
  let ?acc = "if Is4 (Unmap x) \<and> Unmap x \<notin> set acc then acc @ [Unmap x] else acc"
  have "distinct ?acc" using Cons.prems by simp
  from Cons.IH[OF this] show ?case by auto
qed simp

lemma set_v4_once: "set (v4_once xs) = {Unmap a | a. a \<in> set xs \<and> Is4 (Unmap a)}"
  using v4_once_fold[of "[]" xs] by (simp add: v4_once_def)

lemma distinct_v4_once [simp]: "distinct (v4_once xs)"
  using v4_once_fold[of "[]" xs] by (simp add: v4_once_def)

lemma fresh_count: "finite old \<Longrightarrow> distinct v4 \<Longrightarrow> card old + length (filter (\<lambda>a. a \<notin> old) v4) = card (old \<union> set v4)"
proof -
  assume *: "finite old" "distinct v4"
  have "length (filter (\<lambda>a. a \<notin> old) v4) = card (set v4 - old)"
    using distinct_card[of "filter (\<lambda>a. a \<notin> old) v4"] * by (simp add: set_diff_eq)
  also have "card old + card (set v4 - old) = card (old \<union> (set v4 - old))"
    using * by (intro card_Un_disjoint[symmetric]) auto
  finally show ?thesis by simp
qed

text \<open>The invariant of a set: as many address sets as routes, each of IPv4 addresses and within the bound.\<close>

definition divert_ok :: "divert_set \<Rightarrow> bool" where
  "divert_ok s \<longleftrightarrow> length (ds_addrs s) = length (ds_routes s)
     \<and> (\<forall>A \<in> set (ds_addrs s). finite A \<and> card A \<le> MaxAddrs \<and> (\<forall>a \<in> A. Is4 a))"

inductive divert_reach :: "divert_route list \<Rightarrow> divert_set \<Rightarrow> bool" for routes where
  new: "divert_reach routes (NewSet routes)"
| add: "divert_reach routes s \<Longrightarrow> Set_Add s i addrs = Inr (s', v4) \<Longrightarrow> divert_reach routes s'"

lemma Set_Add_Inr:
  "Set_Add s i addrs = Inr (s', v4) \<longleftrightarrow>
     i < length (ds_routes s) \<and> v4 = v4_once addrs
     \<and> card (ds_addrs s ! i) + length (filter (\<lambda>a. a \<notin> ds_addrs s ! i) v4) \<le> MaxAddrs
     \<and> s' = s\<lparr>ds_addrs := (ds_addrs s)[i := ds_addrs s ! i \<union> set v4]\<rparr>"
  by (auto simp: Set_Add_def Let_def)

lemma divert_ok_nth: "divert_ok s \<Longrightarrow> i < length (ds_routes s) \<Longrightarrow> finite (ds_addrs s ! i)"
  by (simp add: divert_ok_def)

lemma divert_ok_new: "divert_ok (NewSet routes)"
  by (auto simp: divert_ok_def NewSet_def route_start_def MaxAddrs_def split: option.splits)

lemma divert_ok_add:
  assumes ok: "divert_ok s" and add: "Set_Add s i addrs = Inr (s', v4)"
  shows "divert_ok s'"
proof -
  let ?new = "ds_addrs s ! i \<union> set v4"
  note a = add[unfolded Set_Add_Inr]
  have nth: "ds_addrs s ! i \<in> set (ds_addrs s)" using a ok by (auto simp: divert_ok_def)
  have fin: "finite (ds_addrs s ! i)" using ok nth by (auto simp: divert_ok_def)
  have "distinct v4" "card (ds_addrs s ! i) + length (filter (\<lambda>a. a \<notin> ds_addrs s ! i) v4) \<le> MaxAddrs"
    using a by (simp, blast)
  then have "card ?new \<le> MaxAddrs" using fresh_count[OF fin, of v4] by linarith
  moreover have "\<forall>b \<in> ?new. Is4 b" using ok nth a by (auto simp: divert_ok_def set_v4_once)
  ultimately have "\<forall>A \<in> set ((ds_addrs s)[i := ?new]). finite A \<and> card A \<le> MaxAddrs \<and> (\<forall>b \<in> A. Is4 b)"
    using ok fin set_update_subset_insert[of "ds_addrs s" i ?new] unfolding divert_ok_def by blast
  then show ?thesis using ok a by (simp add: divert_ok_def)
qed

lemma divert_reach_ok: "divert_reach routes s \<Longrightarrow> divert_ok s \<and> ds_routes s = routes"
proof (induction rule: divert_reach.induct)
  case new
  then show ?case using divert_ok_new by (simp add: NewSet_def)
next
  case (add s i addrs s' v4)
  have "ds_routes s' = ds_routes s" using add.hyps(2) by (simp add: Set_Add_Inr)
  then show ?case using divert_ok_add[OF _ add.hyps(2)] add.IH by simp
qed

definition set_holds :: "divert_set \<Rightarrow> nat \<Rightarrow> addr \<Rightarrow> bool" where
  "set_holds s i a \<longleftrightarrow> i < length (ds_routes s) \<and> a \<in> ds_addrs s ! i"

interpretation divert_mem: divert_memory Set_Add set_holds divert_ok
proof
  fix s i addrs s' v4
  assume ok: "divert_ok s" and add: "Set_Add s i addrs = Inr (s', v4)"
  show "divert_ok s'" by (rule divert_ok_add[OF ok add])
  show "set_holds s' j a \<longleftrightarrow> set_holds s j a \<or> (j = i \<and> a \<in> set v4)" for j a
    using ok add by (cases "j = i") (auto simp: set_holds_def Set_Add_Inr divert_ok_def)
qed

text \<open>Every divert set brig can reach from its routes by adding addresses holds, for each route,
  IPv4 addresses alone and at most 4096 of them, the size the table's own set is declared with.\<close>
theorem divert_set_bounded:
  assumes "divert_reach routes s"
  shows "length (ds_addrs s) = length routes
    \<and> list_all (\<lambda>A. finite A \<and> card A \<le> MaxAddrs \<and> (\<forall>a \<in> A. Is4 a)) (ds_addrs s)"
  using divert_reach_ok[OF assms] by (auto simp: divert_ok_def list_all_iff)

theorem divert_set_bounded_witness:
  "length (ds_addrs (NewSet [\<lparr>dr_Host = ''203.0.113.9'', dr_Port = 443\<rparr>])) = 1"
  using divert_set_bounded[OF divert_reach.new[of "[\<lparr>dr_Host = ''203.0.113.9'', dr_Port = 443\<rparr>]"]] by simp

lemma Set_Match_iff:
  "Set_Match s dst \<longleftrightarrow> (\<exists>i a. ap_Addr dst = Some a \<and> set_holds s i (Unmap a) \<and> dr_Port (ds_routes s ! i) = ap_Port dst)"
  by (auto simp: Set_Match_def set_holds_def list_ex_iff split: option.splits)

text \<open>Adding the addresses of an answer makes the relay take the connections to exactly those
  addresses on the route's port, and it forgets no destination it took before: a route that has
  ever diverted an address diverts it for as long as the set lives.\<close>
theorem set_add_match:
  assumes "divert_reach routes s" and "Set_Add s i addrs = Inr (s', v4)"
  shows "Set_Match s' dst \<longleftrightarrow>
    Set_Match s dst \<or> (\<exists>a. ap_Addr dst = Some a \<and> Unmap a \<in> set v4 \<and> dr_Port (routes ! i) = ap_Port dst)"
proof -
  have ok: "divert_ok s" "ds_routes s = routes" using divert_reach_ok[OF assms(1)] by auto
  have same: "ds_routes s' = routes" using assms(2) ok by (simp add: Set_Add_Inr)
  show ?thesis
    unfolding Set_Match_iff same ok(2) divert_mem.add_holds[OF ok(1) assms(2)] by blast
qed

definition example_routes :: "divert_route list" where
  "example_routes = [\<lparr>dr_Host = ''api.example.com'', dr_Port = 443\<rparr>]"

definition example_set :: divert_set where
  "example_set = \<lparr>ds_routes = example_routes, ds_addrs = [{V4 7}]\<rparr>"

lemma example_add: "Set_Add (NewSet example_routes) 0 [V4 7, V6 1 []] = Inr (example_set, [V4 7])"
  by code_simp

theorem set_add_match_witness: "Set_Match example_set \<lparr>ap_Addr = Some (V4 7), ap_Port = 443\<rparr>"
  using set_add_match[OF divert_reach.new example_add, of "\<lparr>ap_Addr = Some (V4 7), ap_Port = 443\<rparr>"]
  by (simp add: example_routes_def)

text \<open>Adding is all or nothing. It succeeds exactly when the route would hold at most 4096
  addresses, counting each address once whatever the answer repeats, and when it fails the set is
  the one before, so that the query fails and the guest learns none of the addresses.\<close>
theorem set_add_all_or_nothing:
  assumes "divert_reach routes s" and "i < length routes"
  shows "Set_Add s i addrs =
    (if card (ds_addrs s ! i \<union> {Unmap a | a. a \<in> set addrs \<and> Is4 (Unmap a)}) \<le> MaxAddrs
     then Inr (s\<lparr>ds_addrs := (ds_addrs s)[i := ds_addrs s ! i \<union> {Unmap a | a. a \<in> set addrs \<and> Is4 (Unmap a)}]\<rparr>, v4_once addrs)
     else Inl SetFull)"
proof -
  have ok: "divert_ok s" "ds_routes s = routes" using divert_reach_ok[OF assms(1)] by auto
  have "finite (ds_addrs s ! i)" using divert_ok_nth[OF ok(1)] assms(2) ok(2) by simp
  from fresh_count[OF this distinct_v4_once[of addrs]] show ?thesis
    unfolding set_v4_once[symmetric] using assms(2) ok(2) by (simp add: Set_Add_def Let_def not_le)
qed

theorem set_add_all_or_nothing_witness:
  "Set_Add (NewSet example_routes) 0 [V4 7] = Inr (example_set, [V4 7])"
proof -
  have "{Unmap a | a. a \<in> set [V4 7] \<and> Is4 (Unmap a)} = {V4 7}" by auto
  moreover have "ds_addrs (NewSet example_routes) ! 0 = {}" "0 < length example_routes" "v4_once [V4 7] = [V4 7]" by code_simp+
  ultimately show ?thesis
    using set_add_all_or_nothing[OF divert_reach.new, of 0 example_routes "[V4 7]"]
    by (simp add: MaxAddrs_def example_set_def NewSet_def example_routes_def)
qed

subsection \<open>The preamble\<close>

lemma addr_String_V4_chars: "CHR '' '' \<notin> set (string4 w)"
  using string4_chars[of "CHR '' ''" w] by (auto simp: is_digit_def)

lemma show_nat_chars: "CHR '' '' \<notin> set (show_nat n)"
  using show_nat_digits[of "CHR '' ''" n] by (auto simp: is_digit_def)

lemma unat16_less: "unat (p :: 16 word) < 65536"
  using unsigned_less[of p] by simp

lemma addrPort_Inr:
  "addrPort a port = Inr ap \<longleftrightarrow>
     (\<exists>ip. ap_Addr ap = Some ip \<and> parse_addr a = Some ip \<and> Zone ip = [] \<and> addr_String ip = a
        \<and> ap_Port ap \<noteq> 0 \<and> port = show_nat (unat (ap_Port ap)))" (is "?L \<longleftrightarrow> ?R")
proof
  assume ?L
  then obtain ip p where ip: "parse_addr a = Some ip" "Zone ip = []" "addr_String ip = a" "parse_uint 16 port = Some p"
      "p \<noteq> 0" "show_nat p = port" "ap = \<lparr>ap_Addr = Some ip, ap_Port = of_nat p\<rparr>"
    by (auto simp: addrPort_def split: option.splits if_splits)
  have "p < 65536" using ip(4) by (auto simp: parse_uint_def split: option.splits if_splits)
  then have "unat (of_nat p :: 16 word) = p" by (simp add: unat_of_nat)
  moreover from this have "(of_nat p :: 16 word) \<noteq> 0" using ip(5) by auto
  ultimately show ?R using ip by simp
next
  assume ?R
  then obtain ip where ip: "ap_Addr ap = Some ip" "parse_addr a = Some ip" "Zone ip = []" "addr_String ip = a"
      "ap_Port ap \<noteq> 0" "port = show_nat (unat (ap_Port ap))" by blast
  have "parse_uint 16 port = Some (unat (ap_Port ap))" using parse_uint_show[of _ 16] unat16_less ip(6) by simp
  moreover have "unat (ap_Port ap) \<noteq> 0" using ip(5) by (simp add: unat_eq_0)
  ultimately show ?L using ip by (simp add: addrPort_def)
qed

lemma preamble_fields:
  assumes "CHR '' '' \<notin> set da" "CHR '' '' \<notin> set dp" "CHR '' '' \<notin> set sa" "CHR '' '' \<notin> set sp"
  shows "split_on CHR '' '' (Magic @ '' '' @ da @ '' '' @ dp @ '' '' @ sa @ '' '' @ sp) = [Magic, da, dp, sa, sp]"
proof -
  have "split_on CHR '' '' (join_with '' '' [Magic, da, dp, sa, sp]) = [Magic, da, dp, sa, sp]"
    using assms by (intro split_join) (auto simp: Magic_def)
  then show ?thesis by simp
qed

lemma split_fields: "split_on CHR '' '' t = [m, da, dp, sa, sp] \<Longrightarrow> t = m @ '' '' @ da @ '' '' @ dp @ '' '' @ sa @ '' '' @ sp"
  using join_split[of "CHR '' ''" t] by simp

lemma ParsePreamble_Inr:
  "ParsePreamble line = Inr (dst, src) \<longleftrightarrow>
     length line \<le> MaxPreamble \<and> (\<exists>t da dp sa sp. line = t @ [newline] \<and> t = Magic @ '' '' @ da @ '' '' @ dp @ '' '' @ sa @ '' '' @ sp
        \<and> split_on CHR '' '' t = [Magic, da, dp, sa, sp] \<and> addrPort da dp = Inr dst \<and> addrPort sa sp = Inr src)"
  (is "?L \<longleftrightarrow> ?R")
proof
  assume ?L
  then obtain t where t: "length line \<le> MaxPreamble" "line = t @ [newline]"
    by (auto simp: ParsePreamble_def has_suffix_iff not_less split: if_splits)
  then have "\<exists>da dp sa sp. split_on CHR '' '' t = [Magic, da, dp, sa, sp] \<and> addrPort da dp = Inr dst \<and> addrPort sa sp = Inr src"
    using \<open>?L\<close> by (auto simp: ParsePreamble_def bind_err_Inr split: list.splits if_splits)
  then show ?R using t split_fields[of t Magic] by blast
next
  assume ?R
  then obtain t da dp sa sp where t: "length line \<le> MaxPreamble" "line = t @ [newline]"
      "split_on CHR '' '' t = [Magic, da, dp, sa, sp]" "addrPort da dp = Inr dst" "addrPort sa sp = Inr src" by blast
  then show ?L by (simp add: ParsePreamble_def)
qed

lemma Preamble_Inr:
  "Preamble dst src = Inr line \<longleftrightarrow>
     (\<exists>d s. ap_Addr dst = Some d \<and> ap_Addr src = Some s \<and> ap_Port dst \<noteq> 0 \<and> ap_Port src \<noteq> 0 \<and> length line \<le> MaxPreamble
        \<and> line = preamble_text (WithoutZone (Unmap d)) (ap_Port dst) (WithoutZone (Unmap s)) (ap_Port src) @ [newline])"
  by (auto simp: Preamble_def Let_def not_less split: option.splits if_splits)

text \<open>The preamble carries both IPv4 ends of a connection and nothing else. A line reads back as
  two IPv4 ends exactly when it is the line the relay writes for them, so the relay and the injector
  cannot disagree about where a guest's connection was going or who made it.\<close>
theorem preamble_roundtrip:
  "ParsePreamble line = Inr (\<lparr>ap_Addr = Some (V4 d), ap_Port = dp\<rparr>, \<lparr>ap_Addr = Some (V4 s), ap_Port = sp\<rparr>)
   \<longleftrightarrow> Preamble \<lparr>ap_Addr = Some (V4 d), ap_Port = dp\<rparr> \<lparr>ap_Addr = Some (V4 s), ap_Port = sp\<rparr> = Inr line"
proof -
  let ?da = "string4 d" and ?dp = "show_nat (unat dp)" and ?sa = "string4 s" and ?sp = "show_nat (unat sp)"
  have "split_on CHR '' '' (Magic @ '' '' @ ?da @ '' '' @ ?dp @ '' '' @ ?sa @ '' '' @ ?sp) = [Magic, ?da, ?dp, ?sa, ?sp]"
    by (rule preamble_fields) (simp_all add: addr_String_V4_chars show_nat_chars)
  then show ?thesis
    unfolding ParsePreamble_Inr Preamble_Inr addrPort_Inr preamble_text_def by auto
qed

text \<open>A preamble that names no IPv4 address mapped into IPv6 is read back to the bytes it came
  from: the parser accepts only the one spelling the relay writes, for IPv6 ends too.\<close>
theorem preamble_canonical:
  assumes "ParsePreamble line = Inr (dst, src)"
    and "ap_Addr dst = Some d" and "\<not> Is4In6 d" and "ap_Addr src = Some s" and "\<not> Is4In6 s"
  shows "Preamble dst src = Inr line"
proof -
  have same: "WithoutZone (Unmap a) = a" if "\<not> Is4In6 a" "Zone a = []" for a
    using that by (cases a) auto
  show ?thesis
    using assms same unfolding ParsePreamble_Inr Preamble_Inr addrPort_Inr preamble_text_def by auto
qed

theorem preamble_canonical_witness:
  "Preamble \<lparr>ap_Addr = Some (V6 0x20010db8000000000000000000000001 []), ap_Port = 443\<rparr> \<lparr>ap_Addr = Some (V4 0x0a040102), ap_Port = 5\<rparr>
     = Inr (''BRIG-DIVERT/1 2001:db8::1 443 10.4.1.2 5'' @ [newline])"
proof -
  have "ParsePreamble (''BRIG-DIVERT/1 2001:db8::1 443 10.4.1.2 5'' @ [newline])
      = Inr (\<lparr>ap_Addr = Some (V6 0x20010db8000000000000000000000001 []), ap_Port = 443\<rparr>, \<lparr>ap_Addr = Some (V4 0x0a040102), ap_Port = 5\<rparr>)"
    by code_simp
  moreover have "\<not> Is4In6 (V6 0x20010db8000000000000000000000001 [])" by code_simp
  ultimately show ?thesis
    using preamble_canonical[of _ _ _ "V6 0x20010db8000000000000000000000001 []" "V4 0x0a040102"] by simp
qed

text \<open>The mapped form is the one exception: the parser accepts an IPv4 address mapped into IPv6,
  which the relay never writes, so the line is read as an end that prints as another line.\<close>
theorem preamble_accepts_mapped:
  "\<exists>line dst src. ParsePreamble line = Inr (dst, src) \<and> Preamble dst src \<noteq> Inr line"
proof (intro exI conjI)
  let ?line = "''BRIG-DIVERT/1 ::ffff:1.2.3.4 443 10.4.1.2 5'' @ [newline]"
  let ?dst = "\<lparr>ap_Addr = Some (V6 0xffff01020304 []), ap_Port = 443\<rparr>" and ?src = "\<lparr>ap_Addr = Some (V4 0x0a040102), ap_Port = 5\<rparr>"
  show "ParsePreamble ?line = Inr (?dst, ?src)" by code_simp
  show "Preamble ?dst ?src \<noteq> Inr ?line" by code_simp
qed

subsection \<open>Routes\<close>

lemma split_plain:
  assumes "set host \<inter> {CHR '':'', CHR ''['', CHR '']''} = {}" and "set port \<inter> {CHR '':'', CHR ''['', CHR '']''} = {}"
  shows "net_SplitHostPort (host @ '':'' @ port) = Some (host, port)"
proof -
  have "cut_last CHR '':'' (host @ CHR '':'' # port) = Some (host, port)" using assms by (auto simp: cut_last_Some)
  moreover have "\<not> has_prefix ''['' (host @ CHR '':'' # port)" using assms by (cases host) (auto simp: has_prefix_iff)
  ultimately show ?thesis using assms by (auto simp: net_SplitHostPort_def)
qed

lemma Hostname_chars: "Hostname name \<Longrightarrow> c \<in> set name \<Longrightarrow> hostname_char c \<or> c = CHR ''.''"
  using set_split_on[of name "CHR ''.''"] by (fastforce simp: Hostname_def list_all_iff)

lemma hostname_char_plain: "hostname_char c \<or> c = CHR ''.'' \<Longrightarrow> c \<notin> {CHR '':'', CHR ''['', CHR '']''} \<and> \<not> is_upper c"
  by (auto simp: hostname_char_def is_lower_nat is_upper_nat is_digit_nat)

lemma Hostname_canonical:
  assumes "Hostname name"
  shows "trim_suffix ''.'' (to_lower name) = name"
proof -
  have "to_lower name = name"
    unfolding to_lower_fix using Hostname_chars[OF assms] hostname_char_plain by blast
  moreover have "\<not> has_suffix ''.'' name"
  proof
    assume "has_suffix ''.'' name"
    then obtain t where "name = t @ CHR ''.'' # []" by (auto simp: has_suffix_iff)
    then have "[] \<in> set (split_on CHR ''.'' name)" using split_on_append[of "CHR ''.''" t "[]"] by simp
    then show False using assms by (auto simp: Hostname_def list_all_iff)
  qed
  ultimately show ?thesis by (simp add: trim_suffix_def)
qed

lemma parse_addr_no_colon: "parse_addr s = Some a \<Longrightarrow> CHR '':'' \<notin> set s \<Longrightarrow> \<exists>w. a = V4 w \<and> s = string4 w"
  by (auto simp: parse_addr_def parse_ipv4_iff split: option.splits if_splits dest!: find_SomeD)

lemma ParseRoute_Inr:
  "ParseRoute s = Inr r \<Longrightarrow>
     unat (dr_Port r) \<noteq> 0 \<and> unat (dr_Port r) \<noteq> 53 \<and> (Hostname (dr_Host r) \<or> (\<exists>w. dr_Host r = string4 w))"
proof -
  assume "ParseRoute s = Inr r"
  then obtain host port p where p: "parse_uint 16 port = Some p" "p \<noteq> 0" "p \<noteq> 53" "dr_Port r = of_nat p"
      "Hostname (dr_Host r) \<or> (\<exists>a. Is4 (Unmap a) \<and> dr_Host r = addr_String (Unmap a))"
    by (fastforce simp: ParseRoute_def Let_def split: option.splits if_splits)
  have "p < 65536" using p(1) by (auto simp: parse_uint_def split: option.splits if_splits)
  then have "unat (dr_Port r) = p" using p(4) by (simp add: unat_of_nat)
  moreover have "\<exists>w. addr_String (Unmap a) = string4 w" if "Is4 (Unmap a)" for a
    using that by (cases "Unmap a") auto
  ultimately show ?thesis using p(2,3,5) by metis
qed

lemma string4_plain: "set (string4 w) \<inter> {CHR '':'', CHR ''['', CHR '']''} = {}"
  by (auto simp: is_digit_nat dest!: string4_chars)

lemma show_nat_plain: "set (show_nat n) \<inter> {CHR '':'', CHR ''['', CHR '']''} = {}"
  by (auto simp: is_digit_nat dest!: show_nat_digits)

text \<open>A divert route is canonical. Whatever spelling it was read from, its host is a lower case
  host name or an IPv4 address, its port is neither 0 nor 53, and printing it gives text that reads
  back as the same route.\<close>
theorem parse_route_roundtrip:
  assumes "ParseRoute s = Inr r"
  shows "ParseRoute (divert_route_String r) = Inr r \<and> dr_Port r \<noteq> 0 \<and> dr_Port r \<noteq> 53
    \<and> (Hostname (dr_Host r) \<or> (\<exists>w. dr_Host r = string4 w))"
proof -
  let ?h = "dr_Host r" and ?p = "show_nat (unat (dr_Port r))"
  note r = ParseRoute_Inr[OF assms]
  have plain: "set ?h \<inter> {CHR '':'', CHR ''['', CHR '']''} = {}"
    using r string4_plain Hostname_chars[of ?h] hostname_char_plain by (metis disjoint_iff)
  then have "divert_route_String r = ?h @ '':'' @ ?p"
    by (auto simp: divert_route_String_def net_JoinHostPort_def)
  then have split: "net_SplitHostPort (divert_route_String r) = Some (?h, ?p)"
    using split_plain[OF plain show_nat_plain] by simp
  have port: "parse_uint 16 ?p = Some (unat (dr_Port r))" using parse_uint_show[of _ 16] unat16_less by simp
  have "ParseRoute (divert_route_String r) = Inr r"
  proof (cases "parse_addr ?h")
    case (Some a)
    then obtain w where "a = V4 w" "?h = string4 w" using parse_addr_no_colon plain by blast
    then show ?thesis using r Some by (simp add: ParseRoute_def split port)
  next
    case None
    then have "Hostname ?h" using r by (metis option.distinct(1) parse_addr_string4)
    then show ?thesis using r None Hostname_canonical by (simp add: ParseRoute_def split port)
  qed
  moreover have "dr_Port r \<noteq> 0" "dr_Port r \<noteq> 53" using r by auto
  ultimately show ?thesis using r by blast
qed

theorem parse_route_roundtrip_witness:
  "ParseRoute ''API.Example.com.:443'' = Inr \<lparr>dr_Host = ''api.example.com'', dr_Port = 443\<rparr>
   \<and> ParseRoute (divert_route_String \<lparr>dr_Host = ''api.example.com'', dr_Port = 443\<rparr>) = Inr \<lparr>dr_Host = ''api.example.com'', dr_Port = 443\<rparr>"
proof -
  have "ParseRoute ''API.Example.com.:443'' = Inr \<lparr>dr_Host = ''api.example.com'', dr_Port = 443\<rparr>" by code_simp
  from this parse_route_roundtrip[OF this] show ?thesis by blast
qed

end
