(* ===== verification/Egress_Nft_Facts.thy ===== *)
theory Egress_Nft_Facts
  imports Egress_Nft
begin

text \<open>
  What the installed table guarantees. The interval sets cover exactly the prefixes of the policy
  with no overlap, the egress chain decides a new connection the way the policy reads, a diverted
  destination is redirected or refused and never forwarded, and a pin starts a fresh lifetime
  whatever the set held. The kernel enters through \<open>holds\<close>, which says of each match whether it
  holds of the packet; the order of rules and the meaning of \<open>goto\<close> are the documented ones.
\<close>

subsection \<open>Interval sets\<close>

lemma Contains_meet:
  assumes "Is4 (pf_addr q)" and "Contains w a" and "Contains q a" and "pf_bits w \<le> pf_bits q"
  shows "Contains w (pf_addr q)"
proof -
  obtain x y where xy: "pf_addr q = V4 x" "a = V4 y"
    using assms(1,3) unfolding Contains_def by (cases "pf_addr q"; cases a) auto
  have "addr_agree (pf_bits q) a (pf_addr q)"
    using assms(3) unfolding Contains_def xy by (simp add: xor_zero_iff)
  then show ?thesis using assms(2,4) addr_agree_trans unfolding Contains_def by blast
qed

lemma keep_prefix_covers:
  assumes "\<And>w. w \<in> set wide \<Longrightarrow> pf_bits w \<le> pf_bits p"
  shows "(\<exists>q \<in> set (keep_prefix p wide). Contains q a) \<longleftrightarrow> Contains p a \<or> (\<exists>q \<in> set wide. Contains q a)"
proof (cases "list_ex (\<lambda>w. Contains w (pf_addr p)) wide")
  case True
  then obtain w where w: "w \<in> set wide" "Contains w (pf_addr p)" by (auto simp: list_ex_iff)
  then have "Contains p a \<Longrightarrow> Contains w a" using Contains_nest assms by blast
  then show ?thesis using True w(1) by (auto simp: keep_prefix_def)
qed (auto simp: keep_prefix_def)

text \<open>The prefixes kept so far are no longer than what follows, and no two of them meet.\<close>

definition disjoint_prefixes :: "net_prefix list \<Rightarrow> bool" where
  "disjoint_prefixes qs \<longleftrightarrow>
     (\<forall>i j. i < j \<and> j < length qs \<longrightarrow> \<not> (\<exists>a. Contains (qs ! i) a \<and> Contains (qs ! j) a))"

lemma disjoint_snoc:
  "disjoint_prefixes (qs @ [p]) \<longleftrightarrow> disjoint_prefixes qs \<and> (\<forall>q \<in> set qs. \<not> (\<exists>a. Contains q a \<and> Contains p a))"
  (is "?L \<longleftrightarrow> ?R")
proof
  assume L: ?L
  have "\<not> (\<exists>a. Contains (qs ! i) a \<and> Contains p a)" if "i < length qs" for i
    using L[unfolded disjoint_prefixes_def, rule_format, of i "length qs"] that by (simp add: nth_append)
  moreover have "disjoint_prefixes qs"
    unfolding disjoint_prefixes_def
  proof (intro allI impI)
    fix i j assume "i < j \<and> j < length qs"
    then show "\<not> (\<exists>a. Contains (qs ! i) a \<and> Contains (qs ! j) a)"
      using L[unfolded disjoint_prefixes_def, rule_format, of i j] by (simp add: nth_append)
  qed
  ultimately show ?R by (metis in_set_conv_nth)
next
  assume R: ?R
  show ?L
    unfolding disjoint_prefixes_def
  proof (intro allI impI)
    fix i j assume ij: "i < j \<and> j < length (qs @ [p])"
    show "\<not> (\<exists>a. Contains ((qs @ [p]) ! i) a \<and> Contains ((qs @ [p]) ! j) a)"
    proof (cases "j = length qs")
      case True
      then have i: "i < length qs" using ij by simp
      then have "\<not> (\<exists>a. Contains (qs ! i) a \<and> Contains p a)" using R nth_mem by blast
      then show ?thesis using True i by (simp add: nth_append)
    next
      case False
      then have "i < j" "j < length qs" using ij by auto
      then show ?thesis using R by (simp add: nth_append disjoint_prefixes_def)
    qed
  qed
qed

lemma fold_keep_prefix:
  assumes "sorted (map pf_bits ps)" and "\<And>p. p \<in> set ps \<Longrightarrow> Is4 (pf_addr p)"
    and "\<And>w p. w \<in> set wide \<Longrightarrow> p \<in> set ps \<Longrightarrow> pf_bits w \<le> pf_bits p" and "disjoint_prefixes wide"
  shows "(\<exists>q \<in> set (fold keep_prefix ps wide). Contains q a) \<longleftrightarrow>
           (\<exists>p \<in> set ps. Contains p a) \<or> (\<exists>q \<in> set wide. Contains q a)"
    and "disjoint_prefixes (fold keep_prefix ps wide)"
proof -
  have "((\<exists>q \<in> set (fold keep_prefix ps wide). Contains q a) \<longleftrightarrow>
           (\<exists>p \<in> set ps. Contains p a) \<or> (\<exists>q \<in> set wide. Contains q a))
        \<and> disjoint_prefixes (fold keep_prefix ps wide)"
    using assms
  proof (induction ps arbitrary: wide)
    case (Cons p ps)
    have kept: "set (keep_prefix p wide) \<subseteq> insert p (set wide)" by (auto simp: keep_prefix_def)
    have le: "pf_bits w \<le> pf_bits p" if "w \<in> set wide" for w using Cons.prems(3) that by simp
    have "disjoint_prefixes (keep_prefix p wide)"
    proof (cases "list_ex (\<lambda>w. Contains w (pf_addr p)) wide")
      case True
      then show ?thesis using Cons.prems(4) by (simp add: keep_prefix_def)
    next
      case False
      have "\<not> (\<exists>a. Contains q a \<and> Contains p a)" if "q \<in> set wide" for q
        using Contains_meet[of p q] Cons.prems(2)[of p] le[OF that] False that by (auto simp: list_ex_iff)
      then show ?thesis using False Cons.prems(4) by (simp add: keep_prefix_def disjoint_snoc)
    qed
    moreover have "pf_bits w \<le> pf_bits r" if "w \<in> set (keep_prefix p wide)" "r \<in> set ps" for w r
      using that kept Cons.prems(1,3) by auto
    moreover have "sorted (map pf_bits ps)" "\<And>r. r \<in> set ps \<Longrightarrow> Is4 (pf_addr r)" using Cons.prems(1,2) by auto
    ultimately have "((\<exists>q \<in> set (fold keep_prefix ps (keep_prefix p wide)). Contains q a) \<longleftrightarrow>
           (\<exists>p \<in> set ps. Contains p a) \<or> (\<exists>q \<in> set (keep_prefix p wide). Contains q a))
        \<and> disjoint_prefixes (fold keep_prefix ps (keep_prefix p wide))"
      by (intro Cons.IH)
    then show ?case using keep_prefix_covers[of wide p a] le by auto
  qed simp
  then show "(\<exists>q \<in> set (fold keep_prefix ps wide). Contains q a) \<longleftrightarrow>
           (\<exists>p \<in> set ps. Contains p a) \<or> (\<exists>q \<in> set wide. Contains q a)"
    and "disjoint_prefixes (fold keep_prefix ps wide)" by blast+
qed

lemma kept_prefixes_facts:
  assumes "list_all (\<lambda>p. Is4 (pf_addr p)) ps"
  shows "(\<exists>q \<in> set (kept_prefixes ps). Contains q a) \<longleftrightarrow> (\<exists>p \<in> set ps. Contains p a)"
    and "disjoint_prefixes (kept_prefixes ps)"
  using assms fold_keep_prefix(1)[of "sort_key pf_bits ps" "[]" a] fold_keep_prefix(2)[of "sort_key pf_bits ps" "[]"]
  by (simp_all add: kept_prefixes_def disjoint_prefixes_def list_all_iff)

text \<open>The elements of an interval set cover exactly the addresses of the prefixes they were
  made from, and no two of them overlap, which nft would refuse: dropping a prefix inside a wider
  one loses no address.\<close>
theorem elements_cover:
  assumes "list_all (\<lambda>p. Is4 (pf_addr p)) ps"
  shows "((\<exists>q \<in> set (kept_prefixes ps). Contains q a) \<longleftrightarrow> (\<exists>p \<in> set ps. Contains p a))
    \<and> disjoint_prefixes (kept_prefixes ps)"
  using kept_prefixes_facts(1)[of ps a] kept_prefixes_facts(2)[of ps] assms by simp

definition example_prefixes :: "net_prefix list" where
  "example_prefixes = [\<lparr>pf_addr = V4 0x0a010000, pf_bits = 16\<rparr>, \<lparr>pf_addr = V4 0x0a000000, pf_bits = 8\<rparr>]"

theorem elements_cover_witness:
  "kept_prefixes example_prefixes = [\<lparr>pf_addr = V4 0x0a000000, pf_bits = 8\<rparr>] \<and> disjoint_prefixes (kept_prefixes example_prefixes)"
proof -
  have "list_all (\<lambda>p. Is4 (pf_addr p)) example_prefixes" by code_simp
  moreover have "kept_prefixes example_prefixes = [\<lparr>pf_addr = V4 0x0a000000, pf_bits = 8\<rparr>]" by code_simp
  ultimately show ?thesis using elements_cover[of example_prefixes] by blast
qed

subsection \<open>The verdict of a chain\<close>

fun first_rule :: "(nft_match \<Rightarrow> bool) \<Rightarrow> nft_rule list \<Rightarrow> nft_verdict option" where
  "first_rule holds [] = None"
| "first_rule holds (r # rs) = (if list_all holds (fst r) then Some (snd r) else first_rule holds rs)"

text \<open>\<open>None\<close> is the end of a chain with no verdict, where the policy of the base chain accepts.\<close>

fun chain_verdict :: "nat \<Rightarrow> (nft_match \<Rightarrow> bool) \<Rightarrow> nft_table \<Rightarrow> string \<Rightarrow> nft_verdict option" where
  "chain_verdict 0 holds t name = None"
| "chain_verdict (Suc n) holds t name =
     (case find (\<lambda>c. nc_name c = name) (nt_chains t) of
        None \<Rightarrow> None
      | Some c \<Rightarrow>
          (case first_rule holds (nc_rules c) of
             Some (Goto d) \<Rightarrow> chain_verdict n holds t d
           | v \<Rightarrow> v))"

lemma first_rule_append:
  "first_rule holds (xs @ ys) = (case first_rule holds xs of None \<Rightarrow> first_rule holds ys | Some v \<Rightarrow> Some v)"
  by (induction xs) auto

lemma first_rule_same: "first_rule holds (map (\<lambda>s. (m s, v)) ss) = (if list_ex (\<lambda>s. list_all holds (m s)) ss then Some v else None)"
  by (induction ss) auto

lemma first_rule_None: "first_rule holds rs = None \<longleftrightarrow> list_all (\<lambda>r. \<not> list_all holds (fst r)) rs"
  by (induction rs) auto

lemma first_rule_in: "first_rule holds rs = Some v \<Longrightarrow> \<exists>r \<in> set rs. snd r = v \<and> list_all holds (fst r)"
  by (induction rs) (auto split: if_splits)

lemmas chain_defs = dns_chain_def divert_chains_def guest_in_chain_def egress_chain_def admit_chain_def refuse_chain_def

lemma find_append: "find P (xs @ ys) = (case find P xs of None \<Rightarrow> find P ys | Some x \<Rightarrow> Some x)"
  by (induction xs) auto

lemma sandbox_table_Inr:
  assumes "sandbox_table table n p mark = Inr t"
  obtains gw net where "network_check n p mark = Inr (gw, net)" "nt_sets t = table_sets n p"
    "nt_chains t = dns_chain n gw @ divert_chains n gw @ [guest_in_chain n gw net]
       @ egress_chain n p net mark @ [admit_chain mark, refuse_chain]"
  using assms by (auto simp: sandbox_table_def bind_err_Inr)

lemma refuse_verdict:
  assumes "sandbox_table table n p mark = Inr t"
  shows "chain_verdict (Suc k) holds t ''refuse'' = Some (if holds (L4Is ''tcp'') then RejectReset else Drop)"
    and "chain_verdict (Suc k) holds t ''admit'' = Some (SetMarkAccept mark)"
  by (rule sandbox_table_Inr[OF assms], simp add: find_append chain_defs split: if_splits)+

lemma static_sets:
  "list_all (\<lambda>q. Is4 (pf_addr q)) (linkLocal # v4CIDRs r)" "list_all (\<lambda>q. Is4 (pf_addr q)) (v4CIDRs r)"
  by (auto simp: linkLocal_def v4CIDRs_def list_all_iff)

text \<open>What the policy says of a new connection to an address: the reserved range and the denied
  prefixes and pins refuse it, then the allowed ones admit it, then the default decides.\<close>

definition policy_admits :: "egress_policy \<Rightarrow> (string \<Rightarrow> bool) \<Rightarrow> addr \<Rightarrow> bool" where
  "policy_admits p pinned a \<longleftrightarrow>
     \<not> (Contains linkLocal a \<or> (\<exists>q \<in> set (v4CIDRs (ep_deny p)). Contains q a) \<or> pinned SetDenyIP \<or> pinned SetDenyHost)
     \<and> ((\<exists>q \<in> set (v4CIDRs (ep_allow p)). Contains q a) \<or> pinned SetAllowIP \<or> pinned SetAllowHost \<or> ep_Default p = ''allow'')"

text \<open>C5: The egress chain decides a new connection of the guest the way its policy reads. With the
  resolver alive and a protocol hull carries, the connection is admitted exactly when the policy
  admits the address: deny beats allow, allow beats the default, and the link-local range is
  refused under every policy. A source outside the sandbox network is dropped, and a dead resolver
  refuses every new connection.\<close>
theorem egress_chain_refines_policy:
  assumes table: "sandbox_table table n p mark = Inr t" and filters: "Filters p"
    and bridge: "\<not> holds (Iif False (en_Bridge n))" and v4: "\<not> holds (NfProto ''ipv6'')"
    and fresh: "\<not> holds (CtMark mark)"
    and static: "\<And>s ps. IntervalSet s ps \<in> set (nt_sets t) \<Longrightarrow> holds (DAddrIn s) \<longleftrightarrow> (\<exists>q \<in> set (kept_prefixes ps). Contains q dst)"
    and "en_Subnet n = Some net"
  shows "chain_verdict 2 holds t ''egress'' =
    Some (if holds (SAddrNot (Masked net)) then Drop
          else if \<not> holds (IifNotIn setAlive) \<and> \<not> holds (L4In False [''tcp'', ''udp'', ''icmp''])
                  \<and> policy_admits p (\<lambda>s. holds (DAddrIn s)) dst then SetMarkAccept mark
          else if holds (L4Is ''tcp'') then RejectReset else Drop)"
proof (rule sandbox_table_Inr[OF table])
  fix gw net'
  assume chk: "network_check n p mark = Inr (gw, net')" and sets: "nt_sets t = table_sets n p"
    and chains: "nt_chains t = dns_chain n gw @ divert_chains n gw @ [guest_in_chain n gw net']
       @ egress_chain n p net' mark @ [admit_chain mark, refuse_chain]"
  have net: "net' = net" using chk assms(7) by (auto simp: network_check_def split: if_splits option.splits)
  have "holds (DAddrIn setAllowNet) \<longleftrightarrow> (\<exists>q \<in> set (kept_prefixes (v4CIDRs (ep_allow p))). Contains q dst)"
    "holds (DAddrIn setDenyNet) \<longleftrightarrow> (\<exists>q \<in> set (kept_prefixes (linkLocal # v4CIDRs (ep_deny p))). Contains q dst)"
    by (rule static; simp add: sets table_sets_def)+
  then have member: "holds (DAddrIn setAllowNet) \<longleftrightarrow> (\<exists>q \<in> set (v4CIDRs (ep_allow p)). Contains q dst)"
    "holds (DAddrIn setDenyNet) \<longleftrightarrow> Contains linkLocal dst \<or> (\<exists>q \<in> set (v4CIDRs (ep_deny p)). Contains q dst)"
    using kept_prefixes_facts(1)[OF static_sets(2), of "ep_allow p" dst] kept_prefixes_facts(1)[OF static_sets(1), of "ep_deny p" dst]
    by simp_all
  have "find (\<lambda>c. nc_name c = ''egress'') (nt_chains t) = find (\<lambda>c. nc_name c = ''egress'') (egress_chain n p net mark)"
    unfolding chains net by (simp add: find_append chain_defs filters)
  then have "chain_verdict (Suc (Suc 0)) holds t ''egress'' =
      (case first_rule holds (nc_rules (hd (egress_chain n p net mark))) of
         Some (Goto d) \<Rightarrow> chain_verdict (Suc 0) holds t d | v \<Rightarrow> v)"
    by (simp add: egress_chain_def filters)
  then show ?thesis
    using bridge v4 fresh member refuse_verdict[OF table, of 0 holds]
    by (simp add: numeral_2_eq_2 egress_chain_def filters policy_admits_def)
qed

text \<open>One packet, and a reading of the matches over it: what the example evaluates \<open>holds\<close> with.\<close>

record packet =
  pk_iif :: string
  pk_src :: addr
  pk_dst :: addr
  pk_l4 :: string
  pk_dport :: nat
  pk_ct :: string
  pk_mark :: "16 word"

fun packet_holds :: "nft_set list \<Rightarrow> (string \<Rightarrow> bool) \<Rightarrow> packet \<Rightarrow> nft_match \<Rightarrow> bool" where
  "packet_holds sets pinned pk (Iif eq br) \<longleftrightarrow> (pk_iif pk = br) = eq"
| "packet_holds sets pinned pk (IifNotIn s) \<longleftrightarrow> \<not> pinned s"
| "packet_holds sets pinned pk (SAddrNot p) \<longleftrightarrow> \<not> Contains p (pk_src pk)"
| "packet_holds sets pinned pk (DAddr eq a) \<longleftrightarrow> (pk_dst pk = a) = eq"
| "packet_holds sets pinned pk (DAddrIn s) \<longleftrightarrow>
     list_ex (\<lambda>d. case d of IntervalSet s' ps \<Rightarrow> s' = s \<and> list_ex (\<lambda>q. Contains q (pk_dst pk)) (kept_prefixes ps) | _ \<Rightarrow> False) sets
     \<or> pinned s"
| "packet_holds sets pinned pk (DAddrOneOf xs) \<longleftrightarrow> addr_String (pk_dst pk) \<in> set xs"
| "packet_holds sets pinned pk (L4In eq xs) \<longleftrightarrow> (pk_l4 pk \<in> set xs) = eq"
| "packet_holds sets pinned pk (L4Is p) \<longleftrightarrow> pk_l4 pk = p"
| "packet_holds sets pinned pk (ThDport p) \<longleftrightarrow> pk_dport pk = p"
| "packet_holds sets pinned pk (TcpDport p) \<longleftrightarrow> pk_l4 pk = ''tcp'' \<and> pk_dport pk = p"
| "packet_holds sets pinned pk (NfProto p) \<longleftrightarrow> (p = ''ipv6'') = Is6 (pk_dst pk)"
| "packet_holds sets pinned pk (CtState s) \<longleftrightarrow> pk_ct pk = s"
| "packet_holds sets pinned pk (CtMark m) \<longleftrightarrow> pk_mark pk = m"
| "packet_holds sets pinned pk (CtStatus s) \<longleftrightarrow> False"
| "packet_holds sets pinned pk (IcmpType ty) \<longleftrightarrow> False"

definition example_network :: egress_network where
  "example_network =
     \<lparr>en_Bridge = ''br0'', en_Gateway = Some (V4 0x0a040101), en_Subnet = Some \<lparr>pf_addr = V4 0x0a040100, pf_bits = 24\<rparr>,
      en_Redirect = [], en_Routes = [\<lparr>dr_Host = ''api.example.com'', dr_Port = 443\<rparr>], en_Port = DivertPort\<rparr>"

definition example_policy :: egress_policy where
  "example_policy = \<lparr>ep_Default = ''deny'', ep_allow = \<lparr>rs_cidrs = example_prefixes, rs_hosts = []\<rparr>, ep_deny = \<lparr>rs_cidrs = [], rs_hosts = []\<rparr>\<rparr>"

definition example_table :: nft_table where
  "example_table =
     (case sandbox_table ''t'' example_network example_policy 7 of Inr t \<Rightarrow> t | Inl _ \<Rightarrow> \<lparr>nt_name = [], nt_sets = [], nt_chains = []\<rparr>)"

definition example_packet :: packet where
  "example_packet =
     \<lparr>pk_iif = ''br0'', pk_src = V4 0x0a040105, pk_dst = V4 0x0a010203, pk_l4 = ''tcp'', pk_dport = 443, pk_ct = ''new'', pk_mark = 0\<rparr>"

definition example_holds :: "nft_match \<Rightarrow> bool" where
  "example_holds = packet_holds (table_sets example_network example_policy) (\<lambda>s. s = setAlive) example_packet"

lemma example_table: "sandbox_table ''t'' example_network example_policy 7 = Inr example_table"
  by code_simp

lemma example_sets: "nt_sets example_table = table_sets example_network example_policy"
  by (rule sandbox_table_Inr[OF example_table])

lemma interval_member:
  "list_ex (\<lambda>d. case d of IntervalSet s' ps \<Rightarrow> s' = s \<and> P ps | _ \<Rightarrow> False) sets \<longleftrightarrow> (\<exists>ps. IntervalSet s ps \<in> set sets \<and> P ps)"
  by (induction sets) (auto split: nft_set.splits)

lemma example_static:
  assumes "IntervalSet s ps \<in> set (nt_sets example_table)"
  shows "example_holds (DAddrIn s) \<longleftrightarrow> (\<exists>q \<in> set (kept_prefixes ps). Contains q (pk_dst example_packet))"
proof -
  have "s \<noteq> setAlive" "\<And>ps'. IntervalSet s ps' \<in> set (nt_sets example_table) \<longleftrightarrow> ps' = ps"
    using assms unfolding example_sets
    by (auto simp: table_sets_def setAlive_def setAllowNet_def setDenyNet_def)
  then show ?thesis
    unfolding example_holds_def packet_holds.simps example_sets interval_member by (auto simp: list_ex_iff)
qed

theorem egress_chain_refines_policy_witness:
  "chain_verdict 2 example_holds example_table ''egress'' = Some (SetMarkAccept 7)"
proof -
  have "Filters example_policy" "\<not> example_holds (Iif False (en_Bridge example_network))" "\<not> example_holds (NfProto ''ipv6'')"
    "\<not> example_holds (CtMark 7)" "en_Subnet example_network = Some \<lparr>pf_addr = V4 0x0a040100, pf_bits = 24\<rparr>"
    "\<not> example_holds (SAddrNot (Masked \<lparr>pf_addr = V4 0x0a040100, pf_bits = 24\<rparr>))" "\<not> example_holds (IifNotIn setAlive)"
    "\<not> example_holds (L4In False [''tcp'', ''udp'', ''icmp''])"
    "policy_admits example_policy (\<lambda>s. example_holds (DAddrIn s)) (pk_dst example_packet)"
    by code_simp+
  then show ?thesis
    using egress_chain_refines_policy[OF example_table, of example_holds "pk_dst example_packet"] example_static by simp
qed

subsection \<open>Diverted destinations\<close>

lemma divert_chain_found:
  assumes "sandbox_table table n p mark = Inr t" and "en_Routes n \<noteq> []"
  obtains gw where "en_Gateway n = Some gw"
    "find (\<lambda>c. nc_name c = ''divert'') (nt_chains t)
       = Some \<lparr>nc_name = ''divert'', nc_hook = nat_hook, nc_rules = map (divert_rule n gw) [0..<length (en_Routes n)]\<rparr>"
    "find (\<lambda>c. nc_name c = ''divert_fwd'') (nt_chains t)
       = Some \<lparr>nc_name = ''divert_fwd'', nc_hook = forward_hook,
               nc_rules = ([Iif False (en_Bridge n)], Return) # map (divert_fwd_rule n) [0..<length (en_Routes n)]\<rparr>"
proof (rule sandbox_table_Inr[OF assms(1)])
  fix gw net
  assume chk: "network_check n p mark = Inr (gw, net)"
    and chains: "nt_chains t = dns_chain n gw @ divert_chains n gw @ [guest_in_chain n gw net]
       @ egress_chain n p net mark @ [admit_chain mark, refuse_chain]"
  have "en_Gateway n = Some gw" using chk by (auto simp: network_check_def split: if_splits option.splits)
  then show ?thesis using that assms(2) unfolding chains by (simp add: find_append dns_chain_def divert_chains_def)
qed

text \<open>C13: A guest packet to a diverted address and port never reaches the upstream server directly.
  Whatever else holds of it, the forward chain refuses it, TCP or UDP, and a new TCP connection is
  redirected to the relay on the bridge address before it is routed.\<close>
theorem divert_never_direct:
  assumes table: "sandbox_table table n p mark = Inr t" and i: "i < length (en_Routes n)"
    and "holds (Iif True (en_Bridge n))" and "\<not> holds (Iif False (en_Bridge n))" and "holds (DAddrIn (DivertSet i))"
    and "holds tcp_udp" and "holds (ThDport (unat (dr_Port (en_Routes n ! i))))"
  shows "chain_verdict 2 holds t ''divert_fwd'' = Some (if holds (L4Is ''tcp'') then RejectReset else Drop)
    \<and> (\<exists>gw. en_Gateway n = Some gw
         \<and> (if holds (TcpDport (unat (dr_Port (en_Routes n ! i))))
            then chain_verdict 2 holds t ''divert'' = Some (DnatTo gw (unat (en_Port n))) else True))"
proof -
  have ne: "en_Routes n \<noteq> []" using i by auto
  obtain gw where gw: "en_Gateway n = Some gw"
      and d: "find (\<lambda>c. nc_name c = ''divert'') (nt_chains t)
       = Some \<lparr>nc_name = ''divert'', nc_hook = nat_hook, nc_rules = map (divert_rule n gw) [0..<length (en_Routes n)]\<rparr>"
      and f: "find (\<lambda>c. nc_name c = ''divert_fwd'') (nt_chains t)
       = Some \<lparr>nc_name = ''divert_fwd'', nc_hook = forward_hook,
               nc_rules = ([Iif False (en_Bridge n)], Return) # map (divert_fwd_rule n) [0..<length (en_Routes n)]\<rparr>"
    using divert_chain_found[OF table ne] by blast
  have "list_ex (\<lambda>j. list_all holds (fst (divert_fwd_rule n j))) [0..<length (en_Routes n)]"
    unfolding list_ex_iff using i assms(5-7) by (intro bexI[of _ i]) (simp_all add: divert_fwd_rule_def)
  moreover have "map (divert_fwd_rule n) js = map (\<lambda>j. (fst (divert_fwd_rule n j), Goto ''refuse'')) js" for js
    by (simp add: divert_fwd_rule_def)
  ultimately have "first_rule holds (map (divert_fwd_rule n) [0..<length (en_Routes n)]) = Some (Goto ''refuse'')"
    by (simp only: first_rule_same if_True)
  then have "chain_verdict 2 holds t ''divert_fwd'' = chain_verdict (Suc 0) holds t ''refuse''"
    using f assms(4) by (simp add: numeral_2_eq_2)
  moreover have "chain_verdict 2 holds t ''divert'' = Some (DnatTo gw (unat (en_Port n)))"
    if "holds (TcpDport (unat (dr_Port (en_Routes n ! i))))"
  proof -
    have "list_ex (\<lambda>j. list_all holds (fst (divert_rule n gw j))) [0..<length (en_Routes n)]"
      unfolding list_ex_iff using i assms(3,5) that by (intro bexI[of _ i]) (simp_all add: divert_rule_def)
    moreover have "map (divert_rule n gw) js = map (\<lambda>j. (fst (divert_rule n gw j), DnatTo gw (unat (en_Port n)))) js" for js
      by (simp add: divert_rule_def)
    ultimately have "first_rule holds (map (divert_rule n gw) [0..<length (en_Routes n)]) = Some (DnatTo gw (unat (en_Port n)))"
      by (simp only: first_rule_same if_True)
    then show ?thesis using d by (simp add: numeral_2_eq_2)
  qed
  ultimately show ?thesis using refuse_verdict(1)[OF table, of 0 holds] gw by simp
qed

definition diverted_holds :: "nft_match \<Rightarrow> bool" where
  "diverted_holds = packet_holds (table_sets example_network example_policy) (\<lambda>s. s = DivertSet 0) example_packet"

theorem divert_never_direct_witness:
  "chain_verdict 2 diverted_holds example_table ''divert_fwd'' = Some RejectReset
   \<and> chain_verdict 2 diverted_holds example_table ''divert'' = Some (DnatTo (V4 0x0a040101) 15443)"
proof -
  have "0 < length (en_Routes example_network)" "diverted_holds (Iif True (en_Bridge example_network))"
    "\<not> diverted_holds (Iif False (en_Bridge example_network))" "diverted_holds (DAddrIn (DivertSet 0))" "diverted_holds tcp_udp"
    "diverted_holds (ThDport (unat (dr_Port (en_Routes example_network ! 0))))"
    "diverted_holds (TcpDport (unat (dr_Port (en_Routes example_network ! 0))))"
    "diverted_holds (L4Is ''tcp'')" "en_Gateway example_network = Some (V4 0x0a040101)" "unat (en_Port example_network) = 15443"
    by code_simp+
  then show ?thesis using divert_never_direct[OF example_table, of 0 diverted_holds] by simp
qed

subsection \<open>Pinning\<close>

text \<open>The elements of a set and their timeouts, and a script run on them as one transaction: an add
  leaves an element that is there alone, and a delete of one that is not fails the script.\<close>

type_synonym set_state = "string \<Rightarrow> nat option option"

definition add_element :: "string \<times> nat option \<Rightarrow> set_state \<Rightarrow> set_state" where
  "add_element e st = (if st (fst e) = None then st(fst e \<mapsto> snd e) else st)"

fun delete_elements :: "string list \<Rightarrow> set_state \<Rightarrow> set_state option" where
  "delete_elements [] st = Some st"
| "delete_elements (e # es) st = (if st e = None then None else delete_elements es (st(e := None)))"

fun run_command :: "nft_command \<Rightarrow> set_state \<Rightarrow> set_state option" where
  "run_command (AddElements table s es) st = Some (fold add_element es st)"
| "run_command (DeleteElements table s es) st = delete_elements es st"

fun run_commands :: "nft_command list \<Rightarrow> set_state \<Rightarrow> set_state option" where
  "run_commands [] st = Some st"
| "run_commands (c # cs) st = (case run_command c st of None \<Rightarrow> None | Some st' \<Rightarrow> run_commands cs st')"

lemma fold_add_timed:
  "fold add_element (map (\<lambda>e. (e, t)) es) st = (\<lambda>e. if e \<in> set es \<and> st e = None then Some t else st e)"
proof (induction es arbitrary: st)
  case (Cons x es)
  have add: "add_element (x, t) st = (\<lambda>e. if e = x \<and> st e = None then Some t else st e)"
    by (auto simp: add_element_def fun_eq_iff)
  have "fold add_element (map (\<lambda>e. (e, t)) (x # es)) st = fold add_element (map (\<lambda>e. (e, t)) es) (add_element (x, t) st)" by simp
  then show ?case unfolding Cons.IH unfolding add by (simp only:) (auto simp: fun_eq_iff)
qed (simp add: fun_eq_iff)

lemma delete_all:
  "distinct es \<Longrightarrow> (\<And>e. e \<in> set es \<Longrightarrow> st e \<noteq> None) \<Longrightarrow> delete_elements es st = Some (\<lambda>e. if e \<in> set es then None else st e)"
proof (induction es arbitrary: st)
  case (Cons x es)
  have "delete_elements es (st(x := None)) = Some (\<lambda>e. if e \<in> set es then None else (st(x := None)) e)"
    using Cons.prems by (intro Cons.IH) auto
  then show ?case using Cons.prems(2)[of x] by (auto simp: fun_eq_iff)
qed simp

lemma run_refresh:
  assumes "distinct es"
  shows "run_commands (refresh_commands table s es secs) st = Some (\<lambda>e. if e \<in> set es then Some (Some secs) else st e)"
proof -
  let ?st = "fold add_element (map (\<lambda>e. (e, Some secs)) es) st"
  have "delete_elements es ?st = Some (\<lambda>e. if e \<in> set es then None else ?st e)"
    by (rule delete_all[OF assms]) (simp add: fold_add_timed)
  then show ?thesis by (auto simp: refresh_commands_def fold_add_timed fun_eq_iff)
qed

lemma v4_texts_fold:
  "distinct acc \<Longrightarrow>
     distinct (fold (\<lambda>a plain. if \<not> Is4 a \<or> addr_String a \<in> set plain then plain else plain @ [addr_String a]) addrs acc)
   \<and> set (fold (\<lambda>a plain. if \<not> Is4 a \<or> addr_String a \<in> set plain then plain else plain @ [addr_String a]) addrs acc)
       = set acc \<union> addr_String ` {a \<in> set addrs. Is4 a}"
proof (induction addrs arbitrary: acc)
  case (Cons x xs)
  let ?acc = "if \<not> Is4 x \<or> addr_String x \<in> set acc then acc else acc @ [addr_String x]"
  have "distinct ?acc" using Cons.prems by simp
  from Cons.IH[OF this] show ?case by auto
qed simp

lemma v4_texts: "distinct (v4_texts addrs)" "set (v4_texts addrs) = addr_String ` {a \<in> set addrs. Is4 a}"
  using v4_texts_fold[of "[]" addrs] by (simp_all add: v4_texts_def)

text \<open>A pin always succeeds as a transaction and starts a fresh lifetime. Whatever the set held
  and however often an answer repeats an address, after the script each IPv4 address has the whole
  lifetime again and every other element is as it was.\<close>
theorem pin_refreshes:
  "run_commands (pin_commands table s addrs lifetime) st =
     Some (\<lambda>e. if e \<in> addr_String ` {a \<in> set addrs. Is4 a} then Some (Some (lifetime div second)) else st e)"
proof (cases "v4_texts addrs = []")
  case True
  then have none: "addr_String ` {a \<in> set addrs. Is4 a} = {}" using v4_texts(2)[of addrs] by simp
  show ?thesis unfolding none using True by (simp add: pin_commands_def)
next
  case False
  then show ?thesis using run_refresh[OF v4_texts(1)] v4_texts(2)[of addrs] by (simp add: pin_commands_def Let_def)
qed

end
