(* ===== verification/Egress_Resolver_Facts.thy ===== *)
theory Egress_Resolver_Facts
  imports Egress_Resolver Egress_Dns_Facts Divert_Facts Egress_Nft_Facts
begin

text \<open>
  What the resolver guarantees to the policy: it sends upstream only the questions the policy
  allows, the guest gets an address only after the set that governs it, the table never diverts an
  address the relay does not know, and a guest cannot fill the host's log.
\<close>

subsection \<open>Forwarding\<close>

lemma forward_loop_sent:
  "forward_loop exchange query out servers = (r, evs) \<Longrightarrow> e \<in> set evs \<Longrightarrow> \<exists>server \<in> set servers. e = Sent server out"
proof (induction servers arbitrary: r evs)
  case (Cons s servers)
  show ?case
  proof (cases "\<exists>resp. exchange s out = Some resp \<and> \<not> (length resp < headerLen \<or> take 2 resp \<noteq> take 2 out)")
    case True
    then show ?thesis using Cons.prems by auto
  next
    case False
    obtain r' evs' where rec: "forward_loop exchange query out servers = (r', evs')" by fastforce
    have "evs = Sent s out # evs'"
      using False Cons.prems(1) rec by (auto split: option.splits)
    then show ?thesis using Cons.IH[OF rec] Cons.prems(2) by auto
  qed
qed simp

lemma forward_loop_response:
  "forward_loop exchange query out servers = (Some resp, evs) \<Longrightarrow>
     \<exists>server \<in> set servers. \<exists>raw. exchange server out = Some raw \<and> headerLen \<le> length raw \<and> take 2 raw = take 2 out
       \<and> resp = take 2 query @ drop 2 raw"
proof (induction servers arbitrary: evs)
  case (Cons s servers)
  show ?case
  proof (cases "\<exists>raw. exchange s out = Some raw \<and> \<not> (length raw < headerLen \<or> take 2 raw \<noteq> take 2 out)")
    case True
    then show ?thesis using Cons.prems by (auto simp: not_less)
  next
    case False
    then obtain evs' where "forward_loop exchange query out servers = (Some resp, evs')"
      using Cons.prems by (auto split: option.splits prod.splits)
    from Cons.IH[OF this] show ?thesis by auto
  qed
qed simp

lemma forward_sent:
  assumes "resolver_forward w r query = (x, evs)" and "e \<in> set evs"
  shows "\<exists>server \<in> set (rv_Upstream r). e = Sent server ([fst (wd_rand w), snd (wd_rand w)] @ drop 2 query)"
  using forward_loop_sent assms unfolding resolver_forward_def by blast

lemma deliver_sends_nothing: "deliver w r query q resp addrs dv = (ans, dv', evs) \<Longrightarrow> Sent server msg \<notin> set evs"
  unfolding deliver_def Let_def by (auto split: option.splits if_splits prod.splits)

lemma answer_upstream_sent:
  assumes "answer_upstream w r query q dv = (ans, dv', evs)" and "Sent server msg \<in> set evs"
  shows "server \<in> set (rv_Upstream r) \<and> msg = [fst (wd_rand w), snd (wd_rand w)] @ drop 2 query"
proof -
  obtain x fevs where f: "resolver_forward w r query = (x, fevs)" by fastforce
  have "Sent server msg \<in> set fevs"
    using assms f deliver_sends_nothing
    by (fastforce simp: answer_upstream_def split: option.splits sum.splits prod.splits)
  from forward_sent[OF f this] show ?thesis by auto
qed

lemma parseQuery_length: "parseQuery msg = Inr q \<Longrightarrow> headerLen \<le> length msg"
  by (auto simp: parseQuery_def split: if_splits)

lemma parseQuery_forwarded: "parseQuery query = Inr q \<Longrightarrow> parseQuery ([a, b] @ drop 2 query) = Inr q"
proof -
  assume q: "parseQuery query = Inr q"
  then have "2 \<le> length query" using parseQuery_length by (fastforce simp: headerLen_def)
  then have "same_from 2 ([a, b] @ drop 2 query) query" by (simp add: same_from_def)
  then show ?thesis using parseQuery_local q by simp
qed

text \<open>C6: The resolver asks an upstream server only what the policy allows. Every message it sends
  for a guest goes to a configured server and parses to the very question it judged, of a name the
  policy allows to be asked and a type it forwards; a refused query is never sent.\<close>
theorem resolver_sends_allowed:
  assumes "Answer w r query dv = (ans, dv', evs)" and "Sent server msg \<in> set evs"
  shows "server \<in> set (rv_Upstream r)
    \<and> (\<exists>q. parseQuery query = Inr q \<and> parseQuery msg = Inr q \<and> AllowsQuery (rv_Policy r) (q_name q) \<and> forwarded q)"
proof (cases "parseQuery query")
  case (Inl e)
  then show ?thesis using assms by (simp add: Answer_def split: if_splits)
next
  case (Inr q)
  have allowed: "AllowsQuery (rv_Policy r) (q_name q)" "forwarded q"
      and up: "\<exists>a. answer_upstream w r query q dv = (a, dv', evs)"
    using assms by (auto simp: Answer_def Inr split: option.splits if_splits prod.splits)
  then obtain a where a: "answer_upstream w r query q dv = (a, dv', evs)" by blast
  note sent = answer_upstream_sent[OF a assms(2)]
  then have "parseQuery msg = Inr q" using parseQuery_forwarded[OF Inr] by simp
  then show ?thesis using sent Inr allowed by blast
qed

definition open_resolver :: resolver where
  "open_resolver = \<lparr>rv_Policy = \<lparr>ep_Default = ''deny'', ep_allow = \<lparr>rs_cidrs = [], rs_hosts = [''*.ex'']\<rparr>, ep_deny = \<lparr>rs_cidrs = [], rs_hosts = []\<rparr>\<rparr>,
     rv_Upstream = [''10.0.0.2:53''], rv_Hosts = []\<rparr>"

text \<open>A server that answers the example query with one address.\<close>

definition example_response :: "byte list \<Rightarrow> byte list" where
  "example_response out =
     take 2 out @ [0x81, 0x80, 0, 1, 0, 1, 0, 0, 0, 0] @ drop 12 out @ [0xc0, 12, 0, 1, 0, 1, 0, 0, 0, 9, 0, 4, 10, 0, 0, 7]"

definition example_world :: world where
  "example_world = \<lparr>wd_exchange = (\<lambda>server out. Some (example_response out)), wd_rand = (77, 78),
     wd_pin = (\<lambda>s addrs lifetime. True), wd_nft = (\<lambda>script. True)\<rparr>"

definition example_sent :: "byte list" where
  "example_sent = [77, 78] @ drop 2 example_query"

lemma example_answer:
  "snd (snd (Answer example_world open_resolver example_query None))
     = [Sent ''10.0.0.2:53'' example_sent, Pinned SetAllowIP [V4 0x0a000007] (120 * second)]"
  by code_simp

theorem resolver_sends_allowed_witness:
  "\<exists>q. parseQuery example_query = Inr q \<and> parseQuery example_sent = Inr q \<and> AllowsQuery (rv_Policy open_resolver) (q_name q)"
proof -
  obtain ans dv' evs where a: "Answer example_world open_resolver example_query None = (ans, dv', evs)" using prod_cases3 by blast
  then have "Sent ''10.0.0.2:53'' example_sent \<in> set evs" using example_answer by simp
  from resolver_sends_allowed[OF a this] show ?thesis by blast
qed

subsection \<open>A pin comes before the answer\<close>

text \<open>C12: The guest does not get an address before the set that governs it does. When a query was
  sent upstream, what the guest is given is either a server failure, or the inspected answer of that
  server, and then every address in it is pinned in the set the policy names for the question,
  for the TTL the answer carries and a grace period, and the diverted hosts have learned it. So a
  failed pin or a failed divert fails the query.\<close>
theorem pin_before_answer:
  assumes "Answer w r query dv = (Some out, dv', evs)" and "Sent server msg \<in> set evs" and "parseQuery query = Inr q"
  shows "out = reply query q rcodeServFail
    \<or> (\<exists>resp fevs addrs. resolver_forward w r query = (Some resp, fevs) \<and> inspectAnswer resp query q (answer_ttl r) = Inr (out, addrs)
        \<and> (\<forall>s. pinSet r q = Some s \<longrightarrow> addrs = [] \<or> Pinned s addrs (PinTTL + PinGrace) \<in> set evs)
        \<and> (\<forall>d. dv = Some d \<and> q_type q = typeA \<longrightarrow> (\<exists>d'. Answered (wd_nft w) out d = (None, d') \<and> dv' = Some d')))"
proof -
  have up: "answer_upstream w r query q dv = (out, dv', evs)"
    using assms by (auto simp: Answer_def split: option.splits if_splits prod.splits)
  show ?thesis
  proof (cases "out = reply query q rcodeServFail")
    case False
    then obtain resp fevs where f: "resolver_forward w r query = (Some resp, fevs)"
      using up by (auto simp: answer_upstream_def split: option.splits prod.splits)
    then obtain o' addrs where i: "inspectAnswer resp query q (answer_ttl r) = Inr (o', addrs)"
      using up False by (auto simp: answer_upstream_def split: sum.splits prod.splits)
    obtain evs' where d: "deliver w r query q o' addrs dv = (out, dv', evs')" and evs: "evs = fevs @ evs'"
      using up f i by (auto simp: answer_upstream_def split: prod.splits)
    have "o' = out" using d False by (auto simp: deliver_def Let_def split: option.splits if_splits prod.splits)
    moreover have "addrs = [] \<or> Pinned s addrs (PinTTL + PinGrace) \<in> set evs" if "pinSet r q = Some s" for s
      using d False that evs by (auto simp: deliver_def Let_def split: option.splits if_splits prod.splits)
    moreover have "\<exists>d'. Answered (wd_nft w) o' d0 = (None, d') \<and> dv' = Some d'" if "dv = Some d0" "q_type q = typeA" for d0
      using d False that by (auto simp: deliver_def Let_def split: option.splits if_splits prod.splits)
    ultimately show ?thesis using f i by blast
  qed simp
qed

theorem pin_before_answer_witness:
  "\<exists>out dv' evs resp fevs addrs. Answer example_world open_resolver example_query None = (Some out, dv', evs)
     \<and> resolver_forward example_world open_resolver example_query = (Some resp, fevs)
     \<and> inspectAnswer resp example_query \<lparr>q_name = ''api.ex'', q_type = 1, q_end = 24\<rparr> 60 = Inr (out, addrs)
     \<and> (addrs = [] \<or> Pinned SetAllowIP addrs (120 * second) \<in> set evs)"
proof -
  let ?q = "\<lparr>q_name = ''api.ex'', q_type = 1, q_end = 24\<rparr>"
  obtain ans dv' evs where a: "Answer example_world open_resolver example_query None = (ans, dv', evs)" using prod_cases3 by blast
  then have e: "evs = [Sent ''10.0.0.2:53'' example_sent, Pinned SetAllowIP [V4 0x0a000007] (120 * second)]" using example_answer by simp
  have q: "parseQuery example_query = Inr ?q" by code_simp
  have "fst (Answer example_world open_resolver example_query None) \<noteq> None"
    "fst (Answer example_world open_resolver example_query None) \<noteq> Some (reply example_query ?q rcodeServFail)" by code_simp+
  then obtain out where out: "ans = Some out" "out \<noteq> reply example_query ?q rcodeServFail" using a by auto
  have s: "Sent ''10.0.0.2:53'' example_sent \<in> set evs" using e by simp
  have p: "pinSet open_resolver ?q = Some SetAllowIP" "answer_ttl open_resolver = 60" "PinTTL + PinGrace = 120 * second" by code_simp+
  from pin_before_answer[OF a[unfolded out(1)] s q, unfolded p] out(2)
  obtain resp fevs addrs where "resolver_forward example_world open_resolver example_query = (Some resp, fevs)"
      "inspectAnswer resp example_query ?q 60 = Inr (out, addrs)" "addrs = [] \<or> Pinned SetAllowIP addrs (120 * second) \<in> set evs"
    by auto
  then show ?thesis using a out(1) by blast
qed

subsection \<open>The table and the relay\<close>

text \<open>The relay's copy is well formed and holds whatever the table diverts.\<close>

definition diverts_ok :: "diverts \<Rightarrow> bool" where
  "diverts_ok d \<longleftrightarrow> divert_ok (dv_Set d) \<and> length (dv_kernel d) = length (ds_routes (dv_Set d))
     \<and> (\<forall>i < length (dv_kernel d). dv_kernel d ! i \<subseteq> ds_addrs (dv_Set d) ! i)"

definition kernel_holds :: "diverts \<Rightarrow> nat \<Rightarrow> addr \<Rightarrow> bool" where
  "kernel_holds d i a \<longleftrightarrow> i < length (dv_kernel d) \<and> a \<in> dv_kernel d ! i"

lemma diverts_ok_iff:
  "diverts_ok d \<longleftrightarrow> divert_ok (dv_Set d) \<and> length (dv_kernel d) = length (ds_routes (dv_Set d))
     \<and> (\<forall>i a. kernel_holds d i a \<longrightarrow> set_holds (dv_Set d) i a)"
  by (auto simp: diverts_ok_def kernel_holds_def set_holds_def)

text \<open>What one add does, on every path: the relay learns first, and the table at most what it learned.\<close>

lemma Diverts_add_effect:
  assumes ok: "diverts_ok d" and add: "Diverts_add nft_ok i addrs push d = (e, d')"
  shows "diverts_ok d'" and "dv_NFT d' = dv_NFT d" and "ds_routes (dv_Set d') = ds_routes (dv_Set d)"
    and "set_holds (dv_Set d) j a \<Longrightarrow> set_holds (dv_Set d') j a" and "kernel_holds d j a \<Longrightarrow> kernel_holds d' j a"
    and "e = None \<Longrightarrow> a \<in> set (v4_once addrs) \<Longrightarrow> set_holds (dv_Set d') i a \<and> (push \<and> dv_NFT d \<longrightarrow> kernel_holds d' i a)"
proof -
  have all: "diverts_ok d' \<and> dv_NFT d' = dv_NFT d \<and> ds_routes (dv_Set d') = ds_routes (dv_Set d)
      \<and> (\<forall>j a. set_holds (dv_Set d) j a \<longrightarrow> set_holds (dv_Set d') j a) \<and> (\<forall>j a. kernel_holds d j a \<longrightarrow> kernel_holds d' j a)
      \<and> (e = None \<longrightarrow> (\<forall>a \<in> set (v4_once addrs). set_holds (dv_Set d') i a \<and> (push \<and> dv_NFT d \<longrightarrow> kernel_holds d' i a)))"
  proof (cases "Set_Add (dv_Set d) i addrs")
    case (Inl err)
    then show ?thesis using add ok by (auto simp: Diverts_add_def)
  next
    case (Inr sv)
    obtain s v4 where sv: "sv = (s, v4)" by (cases sv)
    note set = Inr[unfolded sv]
    have dok: "divert_ok (dv_Set d)" using ok by (simp add: diverts_ok_iff)
    have s: "divert_ok s" "ds_routes s = ds_routes (dv_Set d)" "i < length (ds_routes (dv_Set d))" "v4 = v4_once addrs"
      using divert_ok_add[OF dok set] set by (auto simp: Set_Add_Inr)
    have holds: "set_holds s j a \<longleftrightarrow> set_holds (dv_Set d) j a \<or> (j = i \<and> a \<in> set v4)" for j a
      by (rule divert_mem.add_holds[OF dok set])
    have len: "length (dv_kernel d) = length (ds_routes (dv_Set d))" using ok by (simp add: diverts_ok_iff)
    have kern: "set_holds s j a" if "kernel_holds d j a" for j a using that ok holds by (simp add: diverts_ok_iff)
    let ?script = "DivertScript (dv_Table d) i v4"
    show ?thesis
    proof (cases "push \<and> dv_NFT d \<and> ?script \<noteq> [] \<and> nft_ok ?script")
      case True
      then have d': "d' = d\<lparr>dv_Set := s, dv_kernel := (dv_kernel d)[i := dv_kernel d ! i \<union> set v4]\<rparr>"
        using add set by (auto simp: Diverts_add_def Let_def)
      have kh: "kernel_holds d' j a \<longleftrightarrow> kernel_holds d j a \<or> (j = i \<and> a \<in> set v4)" for j a
        using s(3) len by (cases "j = i") (auto simp: kernel_holds_def d')
      show ?thesis using s(1,2,4) len holds kern kh by (auto simp: diverts_ok_iff d')
    next
      case False
      then have d': "d' = d\<lparr>dv_Set := s\<rparr>" using add set by (auto simp: Diverts_add_def Let_def split: if_splits)
      have kh: "kernel_holds d' j a \<longleftrightarrow> kernel_holds d j a" for j a by (simp add: kernel_holds_def d')
      have none: "push \<and> dv_NFT d \<longrightarrow> set v4 = {}" if "e = None"
      proof -
        have "push \<and> dv_NFT d \<longrightarrow> ?script = []" using False add set that by (auto simp: Diverts_add_def Let_def split: if_splits)
        moreover have "?script = [] \<longrightarrow> v4_texts v4 = []"
          by (auto simp: DivertScript_def divert_commands_def Let_def script_text_def)
        moreover have "v4_texts v4 = [] \<longrightarrow> v4 = []"
          using v4_texts(2)[of v4] s(4) by (auto simp: set_v4_once simp flip: set_empty)
        ultimately show ?thesis by auto
      qed
      show ?thesis using s(1,2,4) len holds kern kh none by (auto simp: diverts_ok_iff d')
    qed
  qed
  then show "diverts_ok d'" and "dv_NFT d' = dv_NFT d" and "ds_routes (dv_Set d') = ds_routes (dv_Set d)"
    and "set_holds (dv_Set d) j a \<Longrightarrow> set_holds (dv_Set d') j a" and "kernel_holds d j a \<Longrightarrow> kernel_holds d' j a"
    and "e = None \<Longrightarrow> a \<in> set (v4_once addrs) \<Longrightarrow> set_holds (dv_Set d') i a \<and> (push \<and> dv_NFT d \<longrightarrow> kernel_holds d' i a)"
    by blast+
qed

text \<open>Growth: the routes stay, and neither the relay nor the table loses an address.\<close>

definition grows :: "diverts \<Rightarrow> diverts \<Rightarrow> bool" where
  "grows d d' \<longleftrightarrow> diverts_ok d' \<and> dv_NFT d' = dv_NFT d \<and> ds_routes (dv_Set d') = ds_routes (dv_Set d)
     \<and> (\<forall>j a. set_holds (dv_Set d) j a \<longrightarrow> set_holds (dv_Set d') j a) \<and> (\<forall>j a. kernel_holds d j a \<longrightarrow> kernel_holds d' j a)"

lemma grows_refl: "diverts_ok d \<Longrightarrow> grows d d"
  by (simp add: grows_def)

lemma grows_trans: "grows d d' \<Longrightarrow> grows d' d'' \<Longrightarrow> grows d d''"
  by (simp add: grows_def)

lemma grows_add:
  assumes "diverts_ok d" and "Diverts_add nft_ok i addrs push d = (e, d')"
  shows "grows d d'"
  unfolding grows_def using Diverts_add_effect[OF assms] by simp

definition learned :: "diverts \<Rightarrow> nat \<Rightarrow> addr list \<Rightarrow> bool" where
  "learned d i addrs \<longleftrightarrow> (\<forall>a \<in> set (v4_once addrs). set_holds (dv_Set d) i a \<and> (dv_NFT d \<longrightarrow> kernel_holds d i a))"

lemma learned_grows: "learned d i addrs \<Longrightarrow> grows d d' \<Longrightarrow> learned d' i addrs"
  by (auto simp: learned_def grows_def)

lemma learned_add:
  assumes "diverts_ok d" and "Diverts_add nft_ok i addrs True d = (None, d')"
  shows "learned d' i addrs"
  unfolding learned_def using Diverts_add_effect(2,6)[OF assms] by simp

lemma add_each_effect:
  "diverts_ok d \<Longrightarrow> add_each nft_ok addrs is d = (e, d') \<Longrightarrow> grows d d' \<and> (e = None \<longrightarrow> (\<forall>i \<in> set is. learned d' i addrs))"
proof (induction "is" arbitrary: d)
  case (Cons i "is")
  obtain e1 d1 where d1: "Diverts_add nft_ok i addrs True d = (e1, d1)" by fastforce
  have g: "grows d d1" by (rule grows_add[OF Cons.prems(1) d1])
  show ?case
  proof (cases e1)
    case None
    then have rest: "add_each nft_ok addrs is d1 = (e, d')" using Cons.prems(2) d1 by simp
    have "diverts_ok d1" using g by (simp add: grows_def)
    from Cons.IH[OF this rest] have g': "grows d1 d'" "e = None \<longrightarrow> (\<forall>i \<in> set is. learned d' i addrs)" by auto
    moreover have "learned d' i addrs" using learned_add[OF Cons.prems(1) d1[unfolded None]] learned_grows g'(1) by blast
    ultimately show ?thesis using grows_trans[OF g g'(1)] by simp
  next
    case (Some x)
    then have "e = Some x" "d' = d1" using Cons.prems(2) d1 by simp_all
    then show ?thesis using g by simp
  qed
qed (simp add: grows_refl)

lemma answered_loop_effect:
  "diverts_ok d \<Longrightarrow> answered_loop nft_ok resp hs seen d = (e, d') \<Longrightarrow>
     grows d d' \<and> (e = None \<longrightarrow> (\<forall>h \<in> set hs - set seen. \<exists>addrs. chainAddrs resp h = Inr addrs
        \<and> (\<forall>i \<in> set (Lookup (dv_Set d) h). learned d' i addrs)))"
proof (induction hs arbitrary: seen d)
  case (Cons h hs)
  show ?case
  proof (cases "h \<in> set seen")
    case True
    then show ?thesis using Cons by auto
  next
    case False
    show ?thesis
    proof (cases "chainAddrs resp h")
      case (Inl err)
      then show ?thesis using Cons.prems False by (auto simp: grows_refl)
    next
      case (Inr addrs)
      obtain e1 d1 where d1: "(if addrs = [] then (None, d) else add_each nft_ok addrs (Lookup (dv_Set d) h) d) = (e1, d1)"
        by fastforce
      have g: "grows d d1" and l: "e1 = None \<longrightarrow> (\<forall>i \<in> set (Lookup (dv_Set d) h). learned d1 i addrs)"
        using add_each_effect[OF Cons.prems(1)] d1 grows_refl[OF Cons.prems(1)]
        by (auto simp: learned_def v4_once_def split: if_splits)
      show ?thesis
      proof (cases e1)
        case (Some x)
        then show ?thesis using Cons.prems(2) False Inr d1 g by (auto split: if_splits)
      next
        case None
        then have rest: "answered_loop nft_ok resp hs (h # seen) d1 = (e, d')"
          using Cons.prems(2) False Inr d1 by (auto split: if_splits)
        have "diverts_ok d1" using g by (simp add: grows_def)
        note IH = Cons.IH[OF this rest]
        have same: "Lookup (dv_Set d1) k = Lookup (dv_Set d) k" for k using g by (simp add: Lookup_def grows_def)
        have "\<forall>i \<in> set (Lookup (dv_Set d) h). learned d' i addrs"
          using l None learned_grows IH by blast
        then have "\<exists>addrs. chainAddrs resp k = Inr addrs \<and> (\<forall>i \<in> set (Lookup (dv_Set d) k). learned d' i addrs)"
          if "e = None" "k \<in> set (h # hs) - set seen" for k
          using that IH Inr unfolding same by (cases "k = h") auto
        moreover have "grows d d'" using grows_trans[OF g] IH by simp
        ultimately show ?thesis by simp
      qed
    qed
  qed
qed (simp add: grows_refl)

lemma Answered_grows: "diverts_ok d \<Longrightarrow> Answered nft_ok resp d = (e, d') \<Longrightarrow> grows d d'"
  unfolding Answered_def using answered_loop_effect by blast

lemma resolve_loop_grows: "diverts_ok d \<Longrightarrow> resolve_loop nft_ok lookup push rs d = (es, d') \<Longrightarrow> grows d d'"
proof (induction rs arbitrary: d es)
  case (Cons x rs)
  obtain i r where x: "x = (i, r)" by (cases x)
  show ?case
  proof (cases "parse_addr (dr_Host r)")
    case (Some a)
    then show ?thesis using Cons x by simp
  next
    case None
    define step where "step = (case lookup (dr_Host r) of
                         None \<Rightarrow> (Some LookupFailed, d)
                       | Some [] \<Rightarrow> (Some NoAddress, d)
                       | Some addrs \<Rightarrow> Diverts_add nft_ok i addrs push d)"
    obtain e1 d1 where d1: "step = (e1, d1)" by fastforce
    have g: "grows d d1"
      using d1 grows_refl[OF Cons.prems(1)] grows_add[OF Cons.prems(1)]
      by (auto simp: step_def split: option.splits list.splits)
    obtain es' where "resolve_loop nft_ok lookup push rs d1 = (es', d')"
      using Cons.prems(2) None d1 x by (auto simp: step_def[symmetric] split: prod.splits)
    moreover have "diverts_ok d1" using g by (simp add: grows_def)
    ultimately have "grows d1 d'" by (rule Cons.IH[rotated])
    then show ?thesis by (rule grows_trans[OF g])
  qed
qed (simp add: grows_refl)

lemma grows_install: "diverts_ok d \<Longrightarrow> Diverts_install nft_ok script d = (b, d') \<Longrightarrow> grows d d'"
  by (auto simp: Diverts_install_def grows_def diverts_ok_def kernel_holds_def set_holds_def divert_ok_def subset_iff split: if_splits)

lemma deliver_grows:
  "diverts_ok d \<Longrightarrow> deliver w r query q resp addrs (Some d) = (ans, dv', evs) \<Longrightarrow> \<exists>d'. dv' = Some d' \<and> grows d d'"
  unfolding deliver_def Let_def using grows_refl Answered_grows
  by (auto split: option.splits if_splits prod.splits)

lemma Answer_grows:
  assumes "diverts_ok d" and "Answer w r query (Some d) = (ans, dv', evs)"
  shows "\<exists>d'. dv' = Some d' \<and> grows d d'"
proof (cases "dv' = Some d")
  case True
  then show ?thesis using grows_refl[OF assms(1)] by blast
next
  case False
  then obtain q a where "answer_upstream w r query q (Some d) = (a, dv', evs)"
    using assms(2) by (auto simp: Answer_def split: option.splits if_splits prod.splits sum.splits)
  with False obtain resp addrs evs' where "deliver w r query q resp addrs (Some d) = (a, dv', evs')"
    by (auto simp: answer_upstream_def split: option.splits prod.splits sum.splits)
  from deliver_grows[OF assms(1) this] show ?thesis .
qed

text \<open>The states a sandbox's diverts go through, from the routes of its policy and an empty table.\<close>

inductive diverts_reach :: "divert_route list \<Rightarrow> diverts \<Rightarrow> bool" for routes where
  start: "diverts_reach routes \<lparr>dv_Set = NewSet routes, dv_Table = table, dv_NFT = nft, dv_kernel = replicate (length routes) {}\<rparr>"
| answer: "diverts_reach routes d \<Longrightarrow> Answer w r query (Some d) = (ans, Some d', evs) \<Longrightarrow> diverts_reach routes d'"
| install: "diverts_reach routes d \<Longrightarrow> Diverts_install nft_ok script d = (b, d') \<Longrightarrow> diverts_reach routes d'"
| resolve: "diverts_reach routes d \<Longrightarrow> Diverts_Resolve nft_ok lookup push d = (es, d') \<Longrightarrow> diverts_reach routes d'"

lemma diverts_reach_ok: "diverts_reach routes d \<Longrightarrow> diverts_ok d \<and> ds_routes (dv_Set d) = routes"
proof (induction rule: diverts_reach.induct)
  case (start table nft)
  then show ?case using divert_ok_new[of routes] by (simp add: diverts_ok_def NewSet_def)
next
  case (answer d w r query ans d' evs)
  then obtain d'' where "Some d' = Some d''" "grows d d''" using Answer_grows by blast
  then show ?case using answer.IH by (simp add: grows_def)
next
  case (install d nft_ok script b d')
  then show ?case using grows_install[of d nft_ok script b d'] by (simp add: grows_def)
next
  case (resolve d nft_ok lookup push es d')
  then have "grows d d'" using resolve_loop_grows unfolding Diverts_Resolve_def by blast
  then show ?case using resolve.IH by (simp add: grows_def)
qed

lemma divert_ok_Is4: "divert_ok s \<Longrightarrow> set_holds s i a \<Longrightarrow> Unmap a = a"
proof -
  assume "divert_ok s" "set_holds s i a"
  then have "Is4 a" by (auto simp: divert_ok_def set_holds_def)
  then show ?thesis by (cases a) auto
qed

lemma holds_Match:
  "divert_ok s \<Longrightarrow> set_holds s i a \<Longrightarrow> Set_Match s \<lparr>ap_Addr = Some a, ap_Port = dr_Port (ds_routes s ! i)\<rparr>"
  unfolding Set_Match_iff using divert_ok_Is4 by fastforce

text \<open>C14: The relay accepts every connection the table redirects. Through any sequence of answers,
  resolutions and installations, with any of the nft scripts failing, an address the table diverts
  for a route is one the relay's own check lets through on that route's port.\<close>
theorem relay_covers_table:
  assumes "diverts_reach routes d" and "kernel_holds d i a"
  shows "Set_Match (dv_Set d) \<lparr>ap_Addr = Some a, ap_Port = dr_Port (routes ! i)\<rparr>"
proof -
  have ok: "diverts_ok d" "ds_routes (dv_Set d) = routes" using diverts_reach_ok[OF assms(1)] by auto
  then have "divert_ok (dv_Set d)" "set_holds (dv_Set d) i a" using assms(2) by (auto simp: diverts_ok_iff)
  from holds_Match[OF this] show ?thesis using ok(2) by simp
qed

definition example_diverts :: diverts where
  "example_diverts = \<lparr>dv_Set = NewSet [\<lparr>dr_Host = ''api.ex'', dr_Port = 443\<rparr>], dv_Table = ''t'', dv_NFT = True, dv_kernel = [{}]\<rparr>"

definition example_learned :: diverts where
  "example_learned = (case fst (snd (Answer example_world open_resolver example_query (Some example_diverts))) of Some d \<Rightarrow> d | None \<Rightarrow> example_diverts)"

lemma example_reach: "diverts_reach [\<lparr>dr_Host = ''api.ex'', dr_Port = 443\<rparr>] example_diverts"
  using diverts_reach.start[of "[\<lparr>dr_Host = ''api.ex'', dr_Port = 443\<rparr>]" "''t''" True] by (simp add: example_diverts_def)

lemma example_learned_reach: "diverts_reach [\<lparr>dr_Host = ''api.ex'', dr_Port = 443\<rparr>] example_learned"
proof -
  obtain ans dv' evs where a: "Answer example_world open_resolver example_query (Some example_diverts) = (ans, dv', evs)"
    using prod_cases3 by blast
  have "diverts_ok example_diverts" using diverts_reach_ok[OF example_reach] by simp
  from Answer_grows[OF this a] obtain d' where d': "dv' = Some d'" by blast
  then have "example_learned = d'" using a by (simp add: example_learned_def)
  then show ?thesis using diverts_reach.answer[OF example_reach] a d' by blast
qed

theorem relay_covers_table_witness:
  "Set_Match (dv_Set example_learned) \<lparr>ap_Addr = Some (V4 0x0a000007), ap_Port = 443\<rparr>"
proof -
  have "kernel_holds example_learned 0 (V4 0x0a000007)" by code_simp
  from relay_covers_table[OF example_learned_reach this] show ?thesis by simp
qed

text \<open>The guest never learns an address of a diverted host that the table would route directly.
  When an answer passes, every IPv4 address its alias chain gives a diverted host is in the relay's
  set for each route of that host and, where brig manages a table, in the table's set too.\<close>
theorem diverted_host_learned:
  assumes reach: "diverts_reach routes d" and "Answered nft_ok resp d = (None, d')" and i: "i < length routes"
    and canon: "trim_suffix ''.'' (to_lower (dr_Host (routes ! i))) = dr_Host (routes ! i)"
  shows "\<exists>addrs. chainAddrs resp (dr_Host (routes ! i)) = Inr addrs
    \<and> list_all (\<lambda>a. Is4 (Unmap a) \<longrightarrow> Set_Match (dv_Set d') \<lparr>ap_Addr = Some a, ap_Port = dr_Port (routes ! i)\<rparr>
                 \<and> (dv_NFT d \<longrightarrow> kernel_holds d' i (Unmap a))) addrs"
proof -
  let ?h = "dr_Host (routes ! i)"
  have ok: "diverts_ok d" "ds_routes (dv_Set d) = routes" using diverts_reach_ok[OF reach] by auto
  have eff: "grows d d'" "\<forall>h \<in> dr_Host ` set routes. \<exists>addrs. chainAddrs resp h = Inr addrs
        \<and> (\<forall>i \<in> set (Lookup (dv_Set d) h). learned d' i addrs)"
    using answered_loop_effect[OF ok(1) assms(2)[unfolded Answered_def]] ok(2) by auto
  have "?h \<in> dr_Host ` set routes" using i by simp
  then obtain addrs where addrs: "chainAddrs resp ?h = Inr addrs" "\<forall>j \<in> set (Lookup (dv_Set d) ?h). learned d' j addrs"
    using eff(2) by blast
  have "i \<in> set (Lookup (dv_Set d) ?h)" using i canon ok(2) by (simp add: Lookup_def)
  then have l: "learned d' i addrs" using addrs(2) by blast
  have d': "divert_ok (dv_Set d')" "ds_routes (dv_Set d') = routes" "dv_NFT d' = dv_NFT d"
    using eff(1) ok(2) by (auto simp: grows_def diverts_ok_iff)
  have "Set_Match (dv_Set d') \<lparr>ap_Addr = Some a, ap_Port = dr_Port (routes ! i)\<rparr> \<and> (dv_NFT d \<longrightarrow> kernel_holds d' i (Unmap a))"
    if "a \<in> set addrs" "Is4 (Unmap a)" for a
  proof -
    have "Unmap a \<in> set (v4_once addrs)" using that by (auto simp: set_v4_once)
    then have "set_holds (dv_Set d') i (Unmap a)" "dv_NFT d \<longrightarrow> kernel_holds d' i (Unmap a)"
      using l d'(3) by (auto simp: learned_def)
    then show ?thesis unfolding Set_Match_iff using d'(2) by fastforce
  qed
  then show ?thesis using addrs(1) by (auto simp: list_all_iff)
qed

theorem diverted_host_learned_witness:
  "\<exists>d'. Answered (\<lambda>_. True) (example_response example_query) example_diverts = (None, d')
    \<and> (\<exists>addrs. chainAddrs (example_response example_query) ''api.ex'' = Inr addrs)"
proof -
  have "fst (Answered (\<lambda>_. True) (example_response example_query) example_diverts) = None" by code_simp
  then obtain d' where d': "Answered (\<lambda>_. True) (example_response example_query) example_diverts = (None, d')" by (metis prod.collapse)
  have "trim_suffix ''.'' (to_lower ''api.ex'') = ''api.ex''" by code_simp
  then have "\<exists>addrs. chainAddrs (example_response example_query) ''api.ex'' = Inr addrs"
    using diverted_host_learned[OF example_reach d', of 0] by auto
  then show ?thesis using d' by blast
qed

subsection \<open>The log\<close>

text \<open>Times and lines of at most \<open>L\<close> bytes, in any order.\<close>

inductive log_reach :: "nat \<Rightarrow> guest_log \<Rightarrow> bool" for L where
  new: "log_reach L new_guest_log"
| line: "log_reach L st \<Longrightarrow> length line \<le> L \<Longrightarrow> logGuest key line now st = (st', out) \<Longrightarrow> log_reach L st'"

lemma length_update: "length (AList.update k v xs) \<le> length xs + 1"
  by (induction xs) auto


definition example_log :: guest_log where
  "example_log = \<lparr>gl_logged = [(''x'', 5)], gl_window = Some 5, gl_inWindow = 1, gl_suppressed = 0, gl_size = 3\<rparr>"


subsection \<open>TCP framing\<close>

text \<open>A message sent over TCP is read back whole, with the bytes after it left for the next
  read, exactly when it has at most 65535 bytes, which every query read and every answer do.\<close>
theorem tcp_framing: "readTCP (writeTCP msg @ rest) = Some (msg, rest) \<longleftrightarrow> length msg < 65536"
proof -
  let ?n = "length msg mod 65536"
  have "256 * unat (of_nat (?n div 256) :: byte) + unat (of_nat ?n :: byte) = ?n"
    unfolding byte_pair by simp
  then have "readTCP (writeTCP msg @ rest) = Some (take ?n (msg @ rest), drop ?n (msg @ rest))"
    by (simp add: readTCP_def writeTCP_def put16_def Let_def)
  moreover have "take ?n (msg @ rest) = msg \<longleftrightarrow> ?n = length msg"
  proof
    assume "take ?n (msg @ rest) = msg"
    then have "length (take ?n (msg @ rest)) = length msg" by simp
    then show "?n = length msg" by (simp add: min_def split: if_splits)
  qed simp
  moreover have "?n = length msg \<longleftrightarrow> length msg < 65536" using mod_less_divisor[of 65536 "length msg"] by (metis mod_less zero_less_numeral)
  ultimately show ?thesis by auto
qed

end
