(* ===== verification/Go_Base64.thy ===== *)
theory Go_Base64
  imports Go_Prelude "HOL-Library.Code_Target_Numeral"
begin

text \<open>
  Go's \<open>encoding/base64\<close> as far as the broker uses it: encoding with the standard and the URL
  alphabet, with and without padding, and decoding. A decoder skips carriage returns and line feeds,
  in its strict form too, and the strict form refuses a last character with unused bits set.
\<close>

subsection \<open>Six-bit groups\<close>

fun b64_groups :: "nat list \<Rightarrow> nat list" where
  "b64_groups [] = []"
| "b64_groups [a] = [a div 4, a mod 4 * 16]"
| "b64_groups [a, b] = [a div 4, a mod 4 * 16 + b div 16, b mod 16 * 4]"
| "b64_groups (a # b # c # r) = [a div 4, a mod 4 * 16 + b div 16, b mod 16 * 4 + c div 64, c mod 64] @ b64_groups r"

fun b64_bytes :: "bool \<Rightarrow> nat list \<Rightarrow> nat list option" where
  "b64_bytes strict [] = Some []"
| "b64_bytes strict [p] = None"
| "b64_bytes strict [p, q] = (if strict \<and> q mod 16 \<noteq> 0 then None else Some [p * 4 + q div 16])"
| "b64_bytes strict [p, q, r] =
     (if strict \<and> r mod 4 \<noteq> 0 then None else Some [p * 4 + q div 16, q mod 16 * 16 + r div 4])"
| "b64_bytes strict (p # q # r # s # t) =
     map_option (\<lambda>bs. [p * 4 + q div 16, q mod 16 * 16 + r div 4, r mod 4 * 64 + s] @ bs) (b64_bytes strict t)"

lemma b64_round: "list_all (\<lambda>b. b < 256) bs \<Longrightarrow> b64_bytes strict (b64_groups bs) = Some bs"
proof (induction bs rule: b64_groups.induct)
  case (2 a)
  then show ?case by simp
next
  case (3 a b)
  have "b div 16 < 16" using 3 by (simp add: div_less_iff_less_mult)
  then show ?case by simp
next
  case (4 a b c r)
  have lt: "b div 16 < 16" "c div 64 < 4" using 4(2) by (simp_all add: div_less_iff_less_mult)
  have "a div 4 * 4 + (a mod 4 * 16 + b div 16) div 16 = a" using lt by simp
  moreover have "(a mod 4 * 16 + b div 16) mod 16 * 16 + (b mod 16 * 4 + c div 64) div 4 = b" using lt by simp
  moreover have "(b mod 16 * 4 + c div 64) mod 4 * 64 + c mod 64 = c" using lt by simp
  ultimately show ?case using 4 by simp
qed simp

lemma b64_groups_less: "list_all (\<lambda>b. b < 256) bs \<Longrightarrow> n \<in> set (b64_groups bs) \<Longrightarrow> n < 64"
  by (induction bs rule: b64_groups.induct) auto

subsection \<open>Alphabets\<close>

definition base64Alphabet :: string where
  "base64Alphabet = ''ABCDEFGHIJKLMNOPQRSTUVWXYZabcdefghijklmnopqrstuvwxyz0123456789+/''"

definition base64URL :: string where
  "base64URL = ''ABCDEFGHIJKLMNOPQRSTUVWXYZabcdefghijklmnopqrstuvwxyz0123456789-_''"

definition char_index :: "string \<Rightarrow> char \<Rightarrow> nat option" where
  "char_index alphabet c = (let i = length (takeWhile (\<lambda>d. d \<noteq> c) alphabet) in if i < length alphabet then Some i else None)"

fun indices :: "string \<Rightarrow> string \<Rightarrow> nat list option" where
  "indices alphabet [] = Some []"
| "indices alphabet (c # s) =
     (case char_index alphabet c of None \<Rightarrow> None | Some i \<Rightarrow> map_option ((#) i) (indices alphabet s))"

definition bytes_of :: "string \<Rightarrow> nat list" where
  "bytes_of s = map of_char s"

definition chars_of :: "nat list \<Rightarrow> string" where
  "chars_of bs = map char_of bs"

definition newline_char :: "char \<Rightarrow> bool" where
  "newline_char c \<longleftrightarrow> c = CHR 0x0A \<or> c = CHR 0x0D"

text \<open>\<open>base64.RawURLEncoding\<close>, and its decoder.\<close>

definition raw_url_encode :: "string \<Rightarrow> string" where
  "raw_url_encode s = map ((!) base64URL) (b64_groups (bytes_of s))"

definition raw_url_decode :: "bool \<Rightarrow> string \<Rightarrow> string option" where
  "raw_url_decode strict t =
     (case indices base64URL (filter (\<lambda>c. \<not> newline_char c) t) of
        None \<Rightarrow> None
      | Some gs \<Rightarrow> map_option chars_of (b64_bytes strict gs))"

text \<open>\<open>base64.StdEncoding\<close>: padded to a multiple of four, and the padding taken off again.\<close>

definition std_encode :: "string \<Rightarrow> string" where
  "std_encode s =
     (let gs = b64_groups (bytes_of s) in
      map ((!) base64Alphabet) gs @ replicate ((4 - length gs mod 4) mod 4) CHR ''='')"

definition std_decode :: "string \<Rightarrow> string option" where
  "std_decode t =
     (let u = filter (\<lambda>c. \<not> newline_char c) t;
          body = takeWhile (\<lambda>c. c \<noteq> CHR ''='') u; pad = drop (length body) u in
      if length u mod 4 \<noteq> 0 \<or> length pad > 2 \<or> \<not> list_all (\<lambda>c. c = CHR ''='') pad then None
      else case indices base64Alphabet body of
             None \<Rightarrow> None
           | Some gs \<Rightarrow> map_option chars_of (b64_bytes False gs))"

subsection \<open>Facts\<close>

lemma char_index_nth: "distinct alphabet \<Longrightarrow> i < length alphabet \<Longrightarrow> char_index alphabet (alphabet ! i) = Some i"
proof (induction alphabet arbitrary: i)
  case (Cons a as)
  show ?case
  proof (cases i)
    case (Suc j)
    then have "as ! j \<in> set as" using Cons.prems by simp
    then have "a \<noteq> as ! j" using Cons.prems(1) by auto
    then show ?thesis using Cons.IH[of j] Cons.prems Suc by (auto simp: char_index_def Let_def split: if_splits)
  qed (simp add: char_index_def)
qed simp

lemma indices_map:
  "distinct alphabet \<Longrightarrow> list_all (\<lambda>i. i < length alphabet) gs \<Longrightarrow> indices alphabet (map ((!) alphabet) gs) = Some gs"
  by (induction gs) (simp_all add: char_index_nth)

lemma alphabet_facts:
  "distinct base64URL" "length base64URL = 64" "distinct base64Alphabet" "length base64Alphabet = 64"
  "list_all (\<lambda>c. \<not> newline_char c \<and> c \<noteq> CHR ''.'') base64URL"
  by code_simp+

lemma bytes_of_less: "list_all (\<lambda>b. b < 256) (bytes_of s)"
  by (simp add: bytes_of_def list_all_iff)

lemma chars_bytes [simp]: "chars_of (bytes_of s) = s"
  by (simp add: chars_of_def bytes_of_def comp_def)

lemma groups_less: "list_all (\<lambda>i. i < 64) (b64_groups (bytes_of s))"
  using b64_groups_less[OF bytes_of_less] by (auto simp: list_all_iff)

lemma raw_url_chars: "c \<in> set (raw_url_encode s) \<Longrightarrow> \<not> newline_char c \<and> c \<noteq> CHR ''.''"
proof -
  assume "c \<in> set (raw_url_encode s)"
  then obtain i where "c = base64URL ! i" "i < length base64URL"
    using groups_less[of s] by (auto simp: raw_url_encode_def list_all_iff alphabet_facts)
  then have "c \<in> set base64URL" by simp
  then show ?thesis using alphabet_facts(5) by (simp add: list_all_iff)
qed

lemma raw_url_round: "raw_url_decode strict (raw_url_encode s) = Some s"
proof -
  have "filter (\<lambda>c. \<not> newline_char c) (raw_url_encode s) = raw_url_encode s"
    using raw_url_chars by (simp add: filter_id_conv)
  moreover have "indices base64URL (raw_url_encode s) = Some (b64_groups (bytes_of s))"
    unfolding raw_url_encode_def using groups_less[of s] by (intro indices_map) (simp_all add: alphabet_facts)
  ultimately show ?thesis by (simp add: raw_url_decode_def b64_round bytes_of_less)
qed

lemma raw_url_skip_newlines:
  "newline_char c \<Longrightarrow> raw_url_decode strict (t @ c # u) = raw_url_decode strict (t @ u)"
  by (simp add: raw_url_decode_def)

lemma raw_url_nonempty: "raw_url_encode s = [] \<longleftrightarrow> s = []"
proof -
  have "b64_groups bs = [] \<longleftrightarrow> bs = []" for bs by (cases bs rule: b64_groups.cases) auto
  then show ?thesis by (simp add: raw_url_encode_def bytes_of_def)
qed

end
