(* ===== verification/Broker_Token.thy ===== *)
theory Broker_Token
  imports Go_Base64 Policy_Types
begin

text \<open>
  Session tokens, \<open>internal/broker/token.go\<close>. A token is the base64 of its claims, a dot, and the
  base64 of their HMAC. The HMAC, the key derivation and the JSON coding of the claims are
  parameters: \<open>sign\<close>, \<open>hkdf\<close>, \<open>marshal\<close> and \<open>unmarshal\<close>, of which the last stands for the decoder
  that refuses unknown fields and anything after the document. Times are seconds for an expiry, as
  \<open>time.Unix\<close> reads it, and nanoseconds for the clock.
\<close>

record claims =
  cl_Sandbox :: string
  cl_Session :: string
  cl_Route :: string
  cl_Exp :: int
  cl_Typ :: string

definition tokenType :: string where "tokenType = ''brig-route''"
definition minHostKey :: nat where "minHostKey = 32"
definition nonceSize :: nat where "nonceSize = 16"

definition sandboxKey :: "(string \<Rightarrow> string \<Rightarrow> string) \<Rightarrow> string \<Rightarrow> string \<Rightarrow> string \<Rightarrow> string" where
  "sandboxKey hkdf hostKey sandbox nonce = hkdf hostKey (''brig-sandbox:'' @ sandbox @ '':'' @ nonce)"

definition mint_token :: "(string \<Rightarrow> string \<Rightarrow> string) \<Rightarrow> (claims \<Rightarrow> string) \<Rightarrow> string \<Rightarrow> claims \<Rightarrow> string" where
  "mint_token sign marshal key c =
     raw_url_encode (marshal c) @ ''.'' @ raw_url_encode (sign key (marshal c))"

datatype token_error = TokenMissing | TokenSignature | TokenSandbox | TokenRoute | TokenExpired

definition before_expiry :: "int \<Rightarrow> int \<Rightarrow> bool" where
  "before_expiry now exp \<longleftrightarrow> now < exp * 1000000000"

definition verify_token :: "(string \<Rightarrow> string \<Rightarrow> string) \<Rightarrow> (string \<Rightarrow> claims option) \<Rightarrow> string \<Rightarrow> string \<Rightarrow> string \<Rightarrow> string
    \<Rightarrow> int \<Rightarrow> token_error + claims" where
  "verify_token sign unmarshal key token sandbox route now =
     (case cut_char CHR ''.'' token of (body, mac, ok) \<Rightarrow>
        if \<not> ok \<or> body = [] \<or> mac = [] \<or> CHR ''.'' \<in> set mac then Inl TokenMissing
        else case raw_url_decode True body of
          None \<Rightarrow> Inl TokenMissing
        | Some blob \<Rightarrow>
            (case raw_url_decode True mac of
               None \<Rightarrow> Inl TokenMissing
             | Some got \<Rightarrow>
                 if got \<noteq> sign key blob then Inl TokenSignature
                 else case unmarshal blob of
                   None \<Rightarrow> Inl TokenSignature
                 | Some c \<Rightarrow>
                     if cl_Typ c \<noteq> tokenType then Inl TokenSignature
                     else if cl_Sandbox c \<noteq> sandbox then Inl TokenSandbox
                     else if cl_Route c \<noteq> route then Inl TokenRoute
                     else if \<not> before_expiry now (cl_Exp c) then Inl TokenExpired
                     else Inr c))"

subsection \<open>What a verified token says\<close>

lemma verify_token_iff:
  "verify_token sign unmarshal key token sandbox route now = Inr c \<longleftrightarrow>
     (\<exists>body mac blob. token = body @ ''.'' @ mac \<and> body \<noteq> [] \<and> mac \<noteq> [] \<and> CHR ''.'' \<notin> set body \<and> CHR ''.'' \<notin> set mac
        \<and> raw_url_decode True body = Some blob \<and> raw_url_decode True mac = Some (sign key blob) \<and> unmarshal blob = Some c
        \<and> cl_Typ c = tokenType \<and> cl_Sandbox c = sandbox \<and> cl_Route c = route \<and> before_expiry now (cl_Exp c))"
  (is "?L \<longleftrightarrow> ?R")
proof
  assume L: ?L
  obtain body mac ok where cut: "cut_char CHR ''.'' token = (body, mac, ok)" using prod_cases3 by blast
  have tok: "ok \<Longrightarrow> token = body @ ''.'' @ mac \<and> CHR ''.'' \<notin> set body"
    using cut_char_spec[of "CHR ''.''" token] cut by simp
  show ?R using L tok by (auto simp: verify_token_def cut split: option.splits if_splits)
next
  assume ?R
  then obtain body mac blob where tok: "token = body @ CHR ''.'' # mac" "CHR ''.'' \<notin> set body"
      and rest: "body \<noteq> []" "mac \<noteq> []" "CHR ''.'' \<notin> set mac"
        "raw_url_decode True body = Some blob" "raw_url_decode True mac = Some (sign key blob)" "unmarshal blob = Some c"
        "cl_Typ c = tokenType" "cl_Sandbox c = sandbox" "cl_Route c = route" "before_expiry now (cl_Exp c)" by auto
  then show ?L unfolding verify_token_def tok(1) cut_char_found[OF tok(2)] by simp
qed

text \<open>C15: A token opens exactly what it was minted for. With a JSON coding that reads the claims
  back, the token of some claims verifies for a sandbox, a route and a time exactly when it is a
  session token of that sandbox and that route that has not expired, and gives back its claims.\<close>
theorem minted_token_verifies:
  assumes "unmarshal (marshal c) = Some c" and "sign key (marshal c) \<noteq> []" and "marshal c \<noteq> []"
  shows "verify_token sign unmarshal key (mint_token sign marshal key c) sandbox route now = Inr c' \<longleftrightarrow>
    c' = c \<and> cl_Typ c = tokenType \<and> cl_Sandbox c = sandbox \<and> cl_Route c = route \<and> before_expiry now (cl_Exp c)"
proof -
  let ?body = "raw_url_encode (marshal c)" and ?mac = "raw_url_encode (sign key (marshal c))"
  have nodot: "CHR ''.'' \<notin> set (raw_url_encode s)" for s using raw_url_chars by blast
  have cut: "cut_char CHR ''.'' (mint_token sign marshal key c) = (?body, ?mac, True)"
    unfolding mint_token_def using cut_char_found[OF nodot, of "marshal c" ?mac] by simp
  show ?thesis
    using assms nodot[of "sign key (marshal c)"]
    by (auto simp: verify_token_def cut raw_url_round raw_url_nonempty)
qed

definition example_claims :: claims where
  "example_claims = \<lparr>cl_Sandbox = ''box'', cl_Session = [], cl_Route = ''api'', cl_Exp = 100, cl_Typ = tokenType\<rparr>"

theorem minted_token_verifies_witness:
  "verify_token (\<lambda>k s. k @ s) (\<lambda>s. if s = ''doc'' then Some example_claims else None) ''key''
     (mint_token (\<lambda>k s. k @ s) (\<lambda>c. ''doc'') ''key'' example_claims) ''box'' ''api'' 7 = Inr example_claims"
  using minted_token_verifies[of "\<lambda>s. if s = ''doc'' then Some example_claims else None" "\<lambda>c. ''doc''" example_claims
      "\<lambda>k s. k @ s" "''key''" "''box''" "''api''" 7 example_claims]
  by (simp add: example_claims_def tokenType_def before_expiry_def)

text \<open>A line feed inside the encoded MAC changes nothing: one token has more than one spelling, which
  the strict decoding was meant to rule out.\<close>
theorem token_spelling_not_unique:
  assumes "newline_char x" and "mac1 @ mac2 \<noteq> []" and "CHR ''.'' \<notin> set body"
  shows "verify_token sign unmarshal key (body @ ''.'' @ mac1 @ x # mac2) sandbox route now
    = verify_token sign unmarshal key (body @ ''.'' @ mac1 @ mac2) sandbox route now"
proof -
  let ?m = "mac1 @ x # mac2" and ?n = "mac1 @ mac2"
  have "x \<noteq> CHR ''.''" using assms(1) by (auto simp: newline_char_def)
  then have dots: "CHR ''.'' \<in> set ?m \<longleftrightarrow> CHR ''.'' \<in> set ?n" by auto
  have empty: "(?m = []) = (?n = [])" using assms(2) by simp
  have dec: "raw_url_decode True ?m = raw_url_decode True ?n" by (rule raw_url_skip_newlines[OF assms(1)])
  have cut: "cut_char CHR ''.'' (body @ ''.'' @ m) = (body, m, True)" for m using cut_char_found[OF assms(3)] by simp
  show ?thesis unfolding verify_token_def cut prod.case dots empty dec by simp
qed

end
