(* ===== verification/Broker_Request.thy ===== *)
theory Broker_Request
  imports Egress_Rules Policy_Types "HOL-Library.Code_Target_Numeral"
begin

text \<open>
  What the broker reads of a request before it touches a credential: the split of the path and its
  canonical form (\<open>internal/broker/proxy.go\<close>), the allow lists (\<open>internal/broker/allow.go\<close>) and the
  checks of a route with services. A path is its bytes; a Unicode character the code names is the
  sequence of its UTF-8 bytes, which starts with a lead byte and so is read as that character
  wherever it occurs.
\<close>

subsection \<open>Unicode characters\<close>

definition utf8 :: "nat \<Rightarrow> string" where
  "utf8 r =
     (if r < 0x80 then [char_of r]
      else if r < 0x800 then [char_of (0xC0 + r div 0x40), char_of (0x80 + r mod 0x40)]
      else [char_of (0xE0 + r div 0x1000), char_of (0x80 + r div 0x40 mod 0x40), char_of (0x80 + r mod 0x40)])"

definition lookalikes :: "string list" where
  "lookalikes = map utf8
     [0xff0f, 0xff3c, 0xfe68, 0xff05, 0xfe6a, 0x2100, 0x2101, 0x2105, 0x2106,
      0x2215, 0x2044, 0x29f8, 0x29f5, 0x29f9, 0x2216]"

definition dots :: "string list" where
  "dots = map utf8 [0x2e, 0xff0e, 0xfe52, 0x2024, 0x2025, 0xfe30, 0x2026, 0xfe19, 0x3002, 0xff61]"

definition semicolons :: "string list" where
  "semicolons = map utf8 [0x3b, 0xff1b, 0xfe54, 0xfe14, 0x37e]"

definition starts_with :: "string list \<Rightarrow> string \<Rightarrow> bool" where
  "starts_with rs s \<longleftrightarrow> list_ex (\<lambda>r. has_prefix r s) rs"

text \<open>The part of a segment before its first semicolon.\<close>

fun before_any :: "string list \<Rightarrow> string \<Rightarrow> string" where
  "before_any rs [] = []"
| "before_any rs (c # s) = (if starts_with rs (c # s) then [] else c # before_any rs s)"

text \<open>\<open>strings.Trim(seg, dots) == ""\<close>: every character of the segment is a dot.\<close>

fun only_runes :: "nat \<Rightarrow> string list \<Rightarrow> string \<Rightarrow> bool" where
  "only_runes 0 rs s \<longleftrightarrow> s = []"
| "only_runes (Suc n) rs s \<longleftrightarrow>
     s = [] \<or> (case find (\<lambda>r. has_prefix r s) rs of None \<Rightarrow> False | Some r \<Rightarrow> only_runes n rs (drop (length r) s))"

subsection \<open>Paths\<close>

record route_path =
  pa_sandbox :: string
  pa_route :: string
  pa_rest :: string
  pa_escapedRest :: string

definition splitPrefix :: "string \<Rightarrow> (string \<times> string \<times> string) option" where
  "splitPrefix p =
     (if \<not> has_prefix ''/'' p then None
      else case cut_char CHR ''/'' (tl p) of (sandbox, s, ok) \<Rightarrow>
        if \<not> ok \<or> sandbox = [] then None
        else case cut_char CHR ''/'' s of (marker, t, ok') \<Rightarrow>
          if \<not> ok' \<or> marker \<noteq> ''r'' then None
          else case cut_char CHR ''/'' t of (rt, rest, _) \<Rightarrow>
            if rt = [] then None else Some (sandbox, rt, ''/'' @ rest))"

definition splitRoutePath :: "string \<Rightarrow> string \<Rightarrow> route_path option" where
  "splitRoutePath path escaped =
     (case splitPrefix path of
        None \<Rightarrow> None
      | Some (sb, rt, rest) \<Rightarrow>
          (case splitPrefix escaped of
             None \<Rightarrow> None
           | Some (esb, ert, erest) \<Rightarrow>
               if esb \<noteq> sb \<or> ert \<noteq> rt then None
               else Some \<lparr>pa_sandbox = sb, pa_route = rt, pa_rest = rest, pa_escapedRest = erest\<rparr>))"

definition byte_ok :: "bool \<Rightarrow> char \<Rightarrow> bool" where
  "byte_ok repos c \<longleftrightarrow>
     \<not> ((of_char c :: nat) < 0x20 \<or> (of_char c :: nat) = 0x7f \<or> c = CHR 0x5C \<or> c = CHR ''%'' \<or> (repos \<and> (of_char c :: nat) \<ge> 0x80))"

text \<open>What the loop over the segments refuses: an empty one but the last, and one of dots alone.\<close>

definition segment_ok :: "bool \<Rightarrow> string \<Rightarrow> bool" where
  "segment_ok final seg \<longleftrightarrow>
     (let s = before_any semicolons seg in (s \<noteq> [] \<or> final) \<and> \<not> (s \<noteq> [] \<and> only_runes (length s) dots s))"

fun segments_ok :: "string list \<Rightarrow> bool" where
  "segments_ok [] \<longleftrightarrow> True"
| "segments_ok [s] \<longleftrightarrow> segment_ok True s"
| "segments_ok (s # ss) \<longleftrightarrow> segment_ok False s \<and> segments_ok ss"

definition canonical :: "string \<Rightarrow> string \<Rightarrow> bool \<Rightarrow> bool" where
  "canonical rest escapedRest repos \<longleftrightarrow>
     (let lower = to_lower escapedRest in
      \<not> list_ex (\<lambda>esc. contains_str esc lower) [''%2f'', ''%5c'', ''%2e'', ''%252f'', ''%255c'', ''%252e''])
     \<and> list_all (byte_ok repos) rest
     \<and> \<not> list_ex (\<lambda>r. contains_str r rest) lookalikes
     \<and> segments_ok (split_on CHR ''/'' (tl rest))"

subsection \<open>Allow lists\<close>

definition repoOf :: "string \<Rightarrow> string option" where
  "repoOf rest =
     (case cut_char CHR ''/'' (trim_prefix ''/'' rest) of (owner, s, ok) \<Rightarrow>
        if \<not> ok then None
        else let name = trim_suffix ''.git'' (fst (cut_char CHR ''/'' s)) in
          if owner = [] \<or> name = [] then None else Some (owner @ ''/'' @ name))"

definition match_glob :: "string \<Rightarrow> string \<Rightarrow> bool" where
  "match_glob glob s \<longleftrightarrow> path_Match glob s = Some True"

datatype refusal = MethodRefused | PathRefused | NoRepository | RepoRefused

definition allow_request :: "request_allow option \<Rightarrow> string \<Rightarrow> string \<Rightarrow> refusal option" where
  "allow_request a m rest =
     (case a of
        None \<Rightarrow> None
      | Some a \<Rightarrow>
          if els (ra_Methods a) \<noteq> [] \<and> m \<notin> set (els (ra_Methods a)) then Some MethodRefused
          else if els (ra_Paths a) \<noteq> [] \<and> \<not> list_ex (\<lambda>g. match_glob g rest) (els (ra_Paths a)) then Some PathRefused
          else if els (ra_Repos a) \<noteq> [] then
            (case repoOf rest of
               None \<Rightarrow> Some NoRepository
             | Some repo \<Rightarrow> if list_ex (\<lambda>g. match_glob g repo) (els (ra_Repos a)) then None else Some RepoRefused)
          else None)"

fun refusal_field :: "refusal \<Rightarrow> string" where
  "refusal_field MethodRefused = ''methods''"
| "refusal_field PathRefused = ''paths''"
| "refusal_field NoRepository = ''repos''"
| "refusal_field RepoRefused = ''repos''"

definition routeRule :: "string \<Rightarrow> string" where
  "routeRule name = ''spec.routes['' @ name @ '']''"

definition refusal_rule :: "string \<Rightarrow> refusal \<Rightarrow> string" where
  "refusal_rule owner r = owner @ ''.request.allow.'' @ refusal_field r"

subsection \<open>Queries\<close>

definition unhex :: "char \<Rightarrow> nat option" where
  "unhex c = hex_val c"

text \<open>\<open>url.QueryUnescape\<close>, with \<open>None\<close> for a malformed escape.\<close>

fun QueryUnescape :: "string \<Rightarrow> string option" where
  "QueryUnescape [] = Some []"
| "QueryUnescape (c # s) =
     (if c = CHR ''%'' then
        (case s of
           a # b # t \<Rightarrow>
             (case (unhex a, unhex b) of
                (Some h, Some l) \<Rightarrow> map_option ((#) (char_of (16 * h + l))) (QueryUnescape t)
              | _ \<Rightarrow> None)
         | _ \<Rightarrow> None)
      else map_option ((#) (if c = CHR ''+'' then CHR '' '' else c)) (QueryUnescape s))"

definition queryOverrides :: "string list" where
  "queryOverrides = [''$httpMethod'', ''httpMethod'']"

text \<open>\<open>strings.FieldsFunc\<close> on \<open>&\<close> and \<open>;\<close>.\<close>

definition query_pairs :: "string \<Rightarrow> string list" where
  "query_pairs q = filter (\<lambda>p. p \<noteq> []) (concat (map (split_on CHR '';'') (split_on CHR ''&'' q)))"

definition pair_key :: "string \<Rightarrow> string" where
  "pair_key pair = (let key = fst (cut_char CHR ''='' pair) in case QueryUnescape key of Some k \<Rightarrow> k | None \<Rightarrow> key)"

definition queryOverride :: "string \<Rightarrow> string" where
  "queryOverride rawQuery =
     (case find (\<lambda>pair. list_ex (equal_fold (pair_key pair)) queryOverrides) (query_pairs rawQuery) of
        None \<Rightarrow> []
      | Some pair \<Rightarrow> (case find (equal_fold (pair_key pair)) queryOverrides of None \<Rightarrow> [] | Some name \<Rightarrow> name))"

definition methodOverrides :: "string list" where
  "methodOverrides = [''X-HTTP-Method-Override'', ''X-HTTP-Method'', ''X-Method-Override'']"

subsection \<open>Services\<close>

definition cutService :: "string \<Rightarrow> string \<times> string" where
  "cutService path = (case cut_char CHR ''/'' (trim_prefix ''/'' path) of (s, rest, _) \<Rightarrow> (s, ''/'' @ rest))"

definition isBatch :: "string \<Rightarrow> bool" where
  "isBatch seg \<longleftrightarrow> equal_fold (before_any semicolons seg) ''batch''"

definition serviceSpec :: "route \<Rightarrow> string \<Rightarrow> service option" where
  "serviceSpec r name = find (\<lambda>s. sv_Name s = name) (els (r_Services r))"

datatype service_refusal =
    EscapedService | HeaderOverride string | QueryOverride string | NoService | BatchRefused | ServiceRefused string refusal

text \<open>\<open>serviceTarget\<close>: the service a request is for and the path it gets there. \<open>held_headers\<close> says
  which header names the request carries.\<close>

definition serviceTarget :: "string list \<Rightarrow> route \<Rightarrow> (string \<Rightarrow> bool) \<Rightarrow> string \<Rightarrow> string \<Rightarrow> route_path
    \<Rightarrow> service_refusal + (string \<times> route_path)" where
  "serviceTarget names r has_header rawQuery m p =
     (case (cutService (pa_rest p), cutService (pa_escapedRest p)) of ((name, rest), (ename, erest)) \<Rightarrow>
        if name \<noteq> ename then Inl EscapedService
        else case find has_header methodOverrides of
          Some hdr \<Rightarrow> Inl (HeaderOverride hdr)
        | None \<Rightarrow>
            if queryOverride rawQuery \<noteq> [] then Inl (QueryOverride (queryOverride rawQuery))
            else if name \<notin> set names then Inl NoService
            else if isBatch (fst (cut_char CHR ''/'' (trim_prefix ''/'' rest))) then Inl BatchRefused
            else
              let ok = Inr (name, p\<lparr>pa_rest := rest, pa_escapedRest := erest\<rparr>) in
              case serviceSpec r name of
                None \<Rightarrow> ok
              | Some svc \<Rightarrow>
                  (case sv_Request svc of
                     None \<Rightarrow> ok
                   | Some rq \<Rightarrow>
                       (case allow_request (rp_Allow rq) m rest of
                          None \<Rightarrow> ok
                        | Some ref \<Rightarrow> Inl (ServiceRefused name ref))))"

end
