(* ===== verification/Broker_Headers.thy ===== *)
theory Broker_Headers
  imports Go_Base64 Policy_Validate "HOL-Library.AList"
begin

text \<open>
  The header edits of a proxied request and the value a route injects, \<open>internal/broker/inject.go\<close>.
  A header map is an association list from the names as stored to their values; its order is the
  order in which Go happens to visit the map. The decoding of a credential document as JSON is a
  parameter whose result is a \<open>json\<close> value, an object with its keys in the order of the visit.
\<close>

subsection \<open>Header maps\<close>

type_synonym headers = "(string \<times> string list) list"

fun canon_chars :: "bool \<Rightarrow> string \<Rightarrow> string" where
  "canon_chars up [] = []"
| "canon_chars up (c # s) = (if up then upper_char c else lower_char c) # canon_chars (c = CHR ''-'') s"

definition CanonicalHeaderKey :: "string \<Rightarrow> string" where
  "CanonicalHeaderKey name = (if isToken name then canon_chars True name else name)"

definition hd_values :: "headers \<Rightarrow> string \<Rightarrow> string list" where
  "hd_values h name = (case map_of h (CanonicalHeaderKey name) of None \<Rightarrow> [] | Some vs \<Rightarrow> vs)"

definition hd_get :: "headers \<Rightarrow> string \<Rightarrow> string" where
  "hd_get h name = (case hd_values h name of [] \<Rightarrow> [] | v # _ \<Rightarrow> v)"

definition hd_set :: "string \<Rightarrow> string \<Rightarrow> headers \<Rightarrow> headers" where
  "hd_set name v h = AList.update (CanonicalHeaderKey name) [v] h"

definition hd_del :: "string \<Rightarrow> headers \<Rightarrow> headers" where
  "hd_del name h = AList.delete (CanonicalHeaderKey name) h"

subsection \<open>The credential value\<close>

datatype json = JNull | JBool bool | JNum string | JStr string | JList "json list" | JObj "(string \<times> json) list"

fun walkPath :: "json \<Rightarrow> string list \<Rightarrow> json option" where
  "walkPath node [] = Some node"
| "walkPath (JObj m) (key # path) = (case map_of m key of None \<Rightarrow> None | Some v \<Rightarrow> walkPath v path)"
| "walkPath _ (key # path) = None"

fun asString :: "json \<Rightarrow> string option" where
  "asString (JStr s) = Some s"
| "asString _ = None"

text \<open>The value of one key of an object that the search at depth takes.\<close>

definition collect_key :: "string \<Rightarrow> string \<Rightarrow> json \<Rightarrow> json list" where
  "collect_key name k v =
     (case cut_char CHR ''.'' name of (head, rest, dotted) \<Rightarrow>
        if k = name then [v]
        else if dotted \<and> k = head then (case walkPath v (split_on CHR ''.'' rest) of None \<Rightarrow> [] | Some got \<Rightarrow> [got])
        else [])"

fun collect :: "string \<Rightarrow> json \<Rightarrow> json list" where
  "collect name (JObj m) = concat (map (\<lambda>(k, v). collect_key name k v @ collect name v) m)"
| "collect name (JList vs) = concat (map (collect name) vs)"
| "collect name _ = []"

definition json_field :: "json \<Rightarrow> string \<Rightarrow> string option" where
  "json_field root name =
     (case walkPath root (split_on CHR ''.'' name) of
        Some v \<Rightarrow> asString v
      | None \<Rightarrow>
          (case (case root of JObj m \<Rightarrow> map_of m name | _ \<Rightarrow> None) of
             Some v \<Rightarrow> asString v
           | None \<Rightarrow>
               (case collect name root of
                  [] \<Rightarrow> None
                | v # vs \<Rightarrow>
                    (case asString v of
                       None \<Rightarrow> None
                     | Some s \<Rightarrow> if list_all (\<lambda>w. asString w = Some s) vs then Some s else None))))"

definition trim_newline :: "string \<Rightarrow> string" where
  "trim_newline v =
     (if has_suffix [CHR 0x0A] v then trim_suffix [CHR 0x0D] (trim_suffix [CHR 0x0A] v) else v)"

definition header_value_ok :: "string \<Rightarrow> bool" where
  "header_value_ok v \<longleftrightarrow> v \<noteq> [] \<and> list_all (\<lambda>c. \<not> ((of_char c :: nat) < 0x20 \<or> (of_char c :: nat) = 0x7f)) v"

definition credentialValue :: "(string \<Rightarrow> json option) \<Rightarrow> credential_ref \<Rightarrow> string \<Rightarrow> string option" where
  "credentialValue unmarshal c doc =
     (case (if cr_Field c = [] then Some doc
            else case unmarshal doc of None \<Rightarrow> None | Some root \<Rightarrow> json_field root (cr_Field c)) of
        None \<Rightarrow> None
      | Some v \<Rightarrow> let v = trim_newline v in if header_value_ok v then Some v else None)"

subsection \<open>The session token of a request\<close>

definition basic_auth :: "string \<Rightarrow> (string \<times> string) option" where
  "basic_auth auth =
     (if length auth < 6 \<or> \<not> equal_fold (take 6 auth) ''Basic '' then None
      else case std_decode (drop 6 auth) of
             None \<Rightarrow> None
           | Some t \<Rightarrow> (case cut_char CHR '':'' t of (user, pass, ok) \<Rightarrow> if ok then Some (user, pass) else None))"

definition set_list :: "inject \<Rightarrow> header list" where
  "set_list i = (case in_Headers i of None \<Rightarrow> [] | Some h \<Rightarrow> els (hi_Set h))"

text \<open>The token one header of \<open>inject.headers.set\<close> carries, between the prefix and the suffix of its value.\<close>

definition set_token :: "bool \<Rightarrow> string \<Rightarrow> headers \<Rightarrow> header \<Rightarrow> string option" where
  "set_token vends auth h s =
     (if equal_fold (hd_Name s) ''Authorization'' then
        (if vends \<and> hd_Value s = PlaceholderValue \<and> auth \<noteq> [] \<and> CHR '' '' \<notin> set auth then Some auth else None)
      else case cut_str PlaceholderValue (hd_Value s) of (pre, post, ok) \<Rightarrow>
        let got = hd_get h (hd_Name s) in
        if \<not> ok \<or> got = [] then None
        else if \<not> has_prefix pre got then None
        else let tok = drop (length pre) got in
          if \<not> has_suffix post tok then None
          else let t = trim_suffix post tok in if t = [] then None else Some t)"

definition sessionToken :: "route \<Rightarrow> inject \<Rightarrow> headers \<Rightarrow> string" where
  "sessionToken spec i h =
     (let auth = hd_get h ''Authorization'' in
      case cut_char CHR '' '' auth of (scheme, tok, ok) \<Rightarrow>
        if ok \<and> equal_fold scheme ''Bearer'' then trim_space tok
        else case (if in_BasicAuth i = None then None else basic_auth auth) of
          Some (_, pass) \<Rightarrow> pass
        | None \<Rightarrow>
            (case List.map_filter (set_token (Vends spec) auth h) (set_list i) of [] \<Rightarrow> [] | t # _ \<Rightarrow> t))"

subsection \<open>What upstream must not see\<close>

definition droppedNames :: "string list" where
  "droppedNames =
     [''forwarded'', ''via'', ''x-real-ip'',
      ''x-http-method-override'', ''x-http-method'', ''x-method-override'',
      ''x-original-url'', ''x-rewrite-url'', ''x-original-method'',
      ''accept-encoding'']"

definition fold_name :: "string \<Rightarrow> string" where
  "fold_name name = map (\<lambda>c. if c = CHR ''_'' then CHR ''-'' else c) (to_lower name)"

definition drop_rules :: "inject \<Rightarrow> string list" where
  "drop_rules i =
     ''authorization'' # (case in_Headers i of None \<Rightarrow> []
        | Some h \<Rightarrow> map fold_name (els (hi_Remove h)) @ map (\<lambda>s. fold_name (hd_Name s)) (els (hi_Set h)))"

definition name_dropped :: "string list \<Rightarrow> string \<Rightarrow> bool" where
  "name_dropped rules name \<longleftrightarrow>
     (let f = fold_name name in
      CHR ''_'' \<in> set name \<or> has_prefix ''x-forwarded-'' f \<or> has_prefix ''x-brig-'' f \<or> has_prefix ''proxy-'' f
      \<or> f \<in> set droppedNames \<or> f \<in> set rules)"

definition holds_token :: "string \<Rightarrow> string list \<Rightarrow> bool" where
  "holds_token token values \<longleftrightarrow> list_ex (\<lambda>v. token \<noteq> [] \<and> contains_str token v) values"

definition drop_step :: "string list \<Rightarrow> string \<Rightarrow> string \<Rightarrow> headers \<Rightarrow> headers" where
  "drop_step rules token name h =
     (case map_of h name of
        None \<Rightarrow> h
      | Some values \<Rightarrow>
          if name_dropped rules name \<or> holds_token token values then AList.delete name h
          else
            let canon = CanonicalHeaderKey name in
            if canon = name then h
            else
              let h' = AList.delete name h in
              AList.update canon ((case map_of h' canon of None \<Rightarrow> [] | Some vs \<Rightarrow> vs) @ values) h')"

text \<open>The items of comma-separated values that the allow list keeps, each once, and how many it drops.\<close>

definition keep_item :: "string list \<Rightarrow> string \<Rightarrow> string list \<times> nat \<Rightarrow> string list \<times> nat" where
  "keep_item allowed item st =
     (case st of (keep, dropped) \<Rightarrow>
        if item = [] then st
        else if item \<in> set allowed then (if item \<in> set keep then keep else keep @ [item], dropped)
        else (keep, dropped + 1))"

definition header_items :: "string list \<Rightarrow> string list" where
  "header_items values = concat (map (\<lambda>v. map trim_space (split_on CHR '','' v)) values)"

definition filterValues :: "header_allow \<Rightarrow> headers \<Rightarrow> headers \<times> nat" where
  "filterValues a h =
     (let values = hd_values h (ha_Name a) in
      if values = [] then (h, 0)
      else case fold (keep_item (els (ha_Values a))) (header_items values) ([], 0) of
        (keep, dropped) \<Rightarrow>
          (let h' = hd_del (ha_Name a) h in
           (if keep = [] then h' else hd_set (ha_Name a) (join_with '','' keep) h'), dropped))"

definition allow_list :: "inject \<Rightarrow> header_allow list" where
  "allow_list i = (case in_Headers i of None \<Rightarrow> [] | Some h \<Rightarrow> els (hi_Allow h))"

fun filter_each :: "header_allow list \<Rightarrow> headers \<Rightarrow> headers \<times> (string \<times> nat) list" where
  "filter_each [] h = (h, [])"
| "filter_each (a # as) h =
     (case filterValues a h of (h', n) \<Rightarrow>
        case filter_each as h' of (h'', dropped) \<Rightarrow>
          (h'', if n > 0 then (CanonicalHeaderKey (ha_Name a), n) # dropped else dropped))"

definition dropGuestHeaders :: "inject \<Rightarrow> headers \<Rightarrow> string \<Rightarrow> headers \<times> (string \<times> nat) list" where
  "dropGuestHeaders i h token =
     filter_each (allow_list i) (fold (drop_step (drop_rules i) token) (map fst h) h)"

subsection \<open>The credential\<close>

text \<open>\<open>strings.Replace(s, old, new, 1)\<close>.\<close>

definition replace_first :: "string \<Rightarrow> string \<Rightarrow> string \<Rightarrow> string" where
  "replace_first old new s = (case cut_str old s of (a, b, ok) \<Rightarrow> if ok then a @ new @ b else s)"

definition injectCredential :: "inject \<Rightarrow> string \<Rightarrow> headers \<Rightarrow> headers" where
  "injectCredential i v h =
     (let h' = fold (\<lambda>s h. hd_set (hd_Name s) (replace_first PlaceholderValue v (hd_Value s)) h) (set_list i) h in
      case in_BasicAuth i of
        None \<Rightarrow> h'
      | Some user \<Rightarrow> hd_set ''Authorization'' (''Basic '' @ std_encode (user @ '':'' @ v)) h')"

end
