(* ===== verification/Broker_Headers_Facts.thy ===== *)
theory Broker_Headers_Facts
  imports Broker_Headers
begin

text \<open>
  What of a guest's headers can reach an upstream: no name the route or the broker owns, no spelling
  that is not canonical and no value with the session token, whatever order Go visits the map in.
\<close>

subsection \<open>Canonical names\<close>

lemma lower_upper [simp]: "lower_char (upper_char c) = lower_char c"
  by (auto simp: lower_char_def upper_char_def is_lower_nat is_upper_nat)

lemma lower_char_special: "lower_char c = CHR ''_'' \<longleftrightarrow> c = CHR ''_''" "lower_char c = CHR ''-'' \<longleftrightarrow> c = CHR ''-''"
proof -
  have "lower_char c = d \<longleftrightarrow> c = d" if "\<not> is_lower d" "\<not> is_upper d" for d
  proof
    assume "lower_char c = d"
    moreover have "is_upper c \<Longrightarrow> is_lower (lower_char c)" by (auto simp: lower_char_def is_lower_nat is_upper_nat)
    ultimately show "c = d" using that lower_char_id[of c] by (cases "is_upper c") auto
  qed (use that in \<open>simp add: lower_char_id\<close>)
  from this[of "CHR ''_''"] this[of "CHR ''-''"]
  show "lower_char c = CHR ''_'' \<longleftrightarrow> c = CHR ''_''" "lower_char c = CHR ''-'' \<longleftrightarrow> c = CHR ''-''"
    by (simp_all add: is_lower_def is_upper_def)
qed

lemma lower_canon: "to_lower (canon_chars up s) = to_lower s"
  by (induction up s rule: canon_chars.induct) (auto simp: to_lower_def)

lemma upper_dash: "upper_char c = CHR ''-'' \<longleftrightarrow> c = CHR ''-''"
  using lower_char_special(2)[of "upper_char c"] lower_char_special(2)[of c] by simp

lemma case_idem [simp]: "upper_char (upper_char c) = upper_char c"
  by (auto simp: upper_char_def is_lower_nat)

lemma canon_idem: "canon_chars up (canon_chars up s) = canon_chars up s"
  by (induction up s rule: canon_chars.induct) (auto simp: upper_dash lower_char_special)

lemma token_char_case: "token_char (upper_char c) = token_char c" "token_char (lower_char c) = token_char c"
  by (auto simp: token_char_def upper_char_def lower_char_def is_alpha_def is_lower_nat is_upper_nat is_digit_nat)

lemma isToken_canon: "isToken (canon_chars up s) = isToken s"
proof -
  have "list_all token_char (canon_chars up s) = list_all token_char s"
    by (induction up s rule: canon_chars.induct) (auto simp: token_char_case)
  moreover have "canon_chars up s = [] \<longleftrightarrow> s = []" by (cases s) auto
  ultimately show ?thesis by (simp add: isToken_def)
qed

lemma Canonical_idem [simp]: "CanonicalHeaderKey (CanonicalHeaderKey n) = CanonicalHeaderKey n"
  by (simp add: CanonicalHeaderKey_def isToken_canon canon_idem)

lemma lower_Canonical: "to_lower (CanonicalHeaderKey n) = to_lower n"
  by (simp add: CanonicalHeaderKey_def lower_canon)

lemma underscore_lower: "CHR ''_'' \<in> set s \<longleftrightarrow> CHR ''_'' \<in> set (to_lower s)"
proof -
  have "CHR ''_'' = lower_char c \<longleftrightarrow> c = CHR ''_''" for c using lower_char_special(1)[of c] by auto
  then show ?thesis by (auto simp: to_lower_def image_iff)
qed

lemma name_dropped_canon: "name_dropped rules (CanonicalHeaderKey n) = name_dropped rules n"
  unfolding name_dropped_def fold_name_def Let_def using underscore_lower[of n] underscore_lower[of "CanonicalHeaderKey n"]
  by (simp add: lower_Canonical)

subsection \<open>The token in a value\<close>

lemma sublist_split:
  assumes "t \<noteq> []" and "c \<notin> set t" and "sublist t (a @ c # b)"
  shows "sublist t a \<or> sublist t b"
proof -
  have head: "\<not> prefix t (c # b)" using assms(1,2) by (cases t) auto
  have "xs2 = []" if "t = xs1 @ xs2" "prefix xs2 (c # b)" for xs1 xs2 using that assms(2) by (cases xs2) auto
  then show ?thesis
    using assms(3) head suffix_imp_sublist by (fastforce simp: sublist_append sublist_Cons_right)
qed

lemma sublist_join: "t \<noteq> [] \<Longrightarrow> c \<notin> set t \<Longrightarrow> sublist t (join_with [c] ps) \<Longrightarrow> \<exists>p \<in> set ps. sublist t p"
proof (induction "[c]" ps rule: join_with.induct)
  case (3 p q ps)
  then have "sublist t p \<or> sublist t (join_with [c] (q # ps))" using sublist_split[of t c p] by simp
  then show ?case using 3 by auto
qed auto

lemma part_sublist: "p \<in> set ps \<Longrightarrow> sublist p (join_with sep ps)"
proof (induction sep ps rule: join_with.induct)
  case (3 sep p' q ps)
  then show ?case using sublist_appendI[of p'] by (auto simp: sublist_append)
qed auto

lemma trim_left_sublist: "sublist (trim_left_n n s) s"
proof (induction n s rule: trim_left_n.induct)
  case (2 n s)
  then show ?case using sublist_order.order_trans[OF _ sublist_drop] by (auto split: option.splits)
qed simp

lemma trim_right_sublist: "sublist (trim_right_n n s) s"
proof (induction n s rule: trim_right_n.induct)
  case (2 n s)
  then show ?case using sublist_order.order_trans[OF _ sublist_take] by (auto split: option.splits)
qed simp

lemma trim_space_sublist: "sublist (trim_space s) s"
  unfolding trim_space_def Let_def using sublist_order.order_trans[OF trim_right_sublist trim_left_sublist] .

lemma header_item_sublist: "x \<in> set (header_items vs) \<Longrightarrow> \<exists>v \<in> set vs. sublist x v"
proof -
  assume "x \<in> set (header_items vs)"
  then obtain v p where v: "v \<in> set vs" "p \<in> set (split_on CHR '','' v)" "x = trim_space p" by (auto simp: header_items_def)
  then have "sublist p v" using part_sublist[OF v(2), of "'',''"] by simp
  then show ?thesis using v sublist_order.order_trans[OF trim_space_sublist] by blast
qed

lemma kept_items: "set (fst (fold (keep_item allowed) items st)) \<subseteq> set (fst st) \<union> set items"
proof (induction items arbitrary: st)
  case (Cons x xs)
  have "set (fst (keep_item allowed x st)) \<subseteq> set (fst st) \<union> {x}" by (cases st) (auto simp: keep_item_def)
  then show ?case using Cons[of "keep_item allowed x st"] by auto
qed simp

subsection \<open>The headers that stay\<close>

definition clean_entry :: "string list \<Rightarrow> string \<Rightarrow> string \<Rightarrow> string list \<Rightarrow> bool" where
  "clean_entry rules token n vs \<longleftrightarrow>
     \<not> name_dropped rules n \<and> CanonicalHeaderKey n = n \<and> (CHR '','' \<notin> set token \<longrightarrow> \<not> holds_token token vs)"

definition clean_but :: "string list \<Rightarrow> string \<Rightarrow> string set \<Rightarrow> headers \<Rightarrow> bool" where
  "clean_but rules token N h \<longleftrightarrow> (\<forall>n vs. map_of h n = Some vs \<longrightarrow> n \<in> N \<or> clean_entry rules token n vs)"

lemma drop_step_clean:
  assumes inv: "clean_but rules token (insert name N) h"
  shows "clean_but rules token N (drop_step rules token name h)"
proof (cases "map_of h name")
  case None
  then have other: "n \<noteq> name" if "map_of h n = Some vs" for n vs using that by auto
  have "drop_step rules token name h = h" using None by (simp add: drop_step_def)
  then show ?thesis using inv other unfolding clean_but_def by (metis insert_iff)
next
  case (Some ws)
  let ?c = "CanonicalHeaderKey name"
  show ?thesis
  proof (cases "name_dropped rules name \<or> holds_token token ws")
    case True
    then show ?thesis using inv Some by (auto simp: clean_but_def drop_step_def AList.delete_conv')
  next
    case False
    show ?thesis
    proof (cases "?c = name")
      case True
      then have "clean_entry rules token name ws" using False by (simp add: clean_entry_def)
      moreover have "drop_step rules token name h = h" using Some False True by (simp add: drop_step_def)
      ultimately show ?thesis using inv Some unfolding clean_but_def by (metis insert_iff option.inject)
    next
      case ne: False
      let ?old = "case map_of h ?c of None \<Rightarrow> [] | Some vs \<Rightarrow> vs"
      have step: "map_of (drop_step rules token name h) = ((map_of h)(name := None))(?c \<mapsto> ?old @ ws)"
        using False ne Some by (simp add: drop_step_def Let_def AList.delete_conv' AList.update_conv')
      have "?c \<in> N \<or> clean_entry rules token ?c (?old @ ws)"
      proof (cases "map_of h ?c")
        case None
        then show ?thesis using False by (simp add: clean_entry_def name_dropped_canon)
      next
        case (Some vs)
        then have "?c \<in> N \<or> clean_entry rules token ?c vs" using inv ne by (auto simp: clean_but_def)
        then show ?thesis using False Some by (auto simp: clean_entry_def name_dropped_canon holds_token_def)
      qed
      then show ?thesis using inv by (auto simp: clean_but_def step)
    qed
  qed
qed

lemma drop_fold_clean: "clean_but rules token (set names) h \<Longrightarrow> clean_but rules token {} (fold (drop_step rules token) names h)"
proof (induction names arbitrary: h)
  case (Cons n ns)
  then show ?case using drop_step_clean[of rules token n "set ns" h] by simp
qed simp

lemma filterValues_clean:
  assumes "clean_but rules token {} h"
  shows "clean_but rules token {} (fst (filterValues a h))"
proof (cases "hd_values h (ha_Name a) = []")
  case True
  then show ?thesis using assms by (simp add: filterValues_def)
next
  case False
  let ?c = "CanonicalHeaderKey (ha_Name a)" and ?items = "header_items (hd_values h (ha_Name a))"
  obtain vs where vs: "map_of h ?c = Some vs" "hd_values h (ha_Name a) = vs"
    using False by (auto simp: hd_values_def split: option.splits)
  obtain keep dropped where kd: "fold (keep_item (els (ha_Values a))) ?items ([], 0) = (keep, dropped)" by fastforce
  have entry: "clean_entry rules token ?c vs" using assms vs by (simp add: clean_but_def)
  have sub: "set keep \<subseteq> set ?items" using kept_items[of "els (ha_Values a)" ?items "([], 0)"] kd by simp
  have "\<not> holds_token token [join_with '','' keep]" if nc: "CHR '','' \<notin> set token"
  proof
    assume "holds_token token [join_with '','' keep]"
    then have t: "token \<noteq> []" "sublist token (join_with [CHR '',''] keep)" by (auto simp: holds_token_def contains_str_sublist)
    then obtain p where p: "p \<in> set keep" "sublist token p" using sublist_join[OF t(1) nc t(2)] by blast
    then obtain v where "v \<in> set vs" "sublist p v" using header_item_sublist sub vs(2) by blast
    then have "holds_token token vs" using p(2) t(1) sublist_order.order_trans
      by (fastforce simp: holds_token_def list_ex_iff contains_str_sublist)
    then show False using entry nc by (simp add: clean_entry_def)
  qed
  then have "clean_entry rules token ?c [join_with '','' keep]" using entry by (simp add: clean_entry_def)
  moreover have "map_of (fst (filterValues a h)) =
      (if keep = [] then (map_of h)(?c := None) else ((map_of h)(?c := None))(?c \<mapsto> [join_with '','' keep]))"
    using False kd by (simp add: filterValues_def hd_del_def hd_set_def AList.delete_conv' AList.update_conv')
  ultimately show ?thesis using assms by (auto simp: clean_but_def)
qed

lemma filter_each_clean: "clean_but rules token {} h \<Longrightarrow> clean_but rules token {} (fst (filter_each as h))"
proof (induction "as" arbitrary: h)
  case (Cons a "as")
  have "clean_but rules token {} (fst (filter_each as (fst (filterValues a h))))"
    by (rule Cons.IH[OF filterValues_clean[OF Cons.prems]])
  then show ?case by (cases "filterValues a h"; cases "filter_each as (fst (filterValues a h))") simp
qed simp

lemma dropGuestHeaders_clean: "clean_but (drop_rules i) token {} (fst (dropGuestHeaders i h token))"
proof -
  have "clean_but (drop_rules i) token (set (map fst h)) h"
    by (metis clean_but_def domI dom_map_of_conv_image_fst list.set_map)
  from filter_each_clean[OF drop_fold_clean[OF this], of "allow_list i"]
  show ?thesis unfolding dropGuestHeaders_def .
qed

text \<open>No guest header a route or the broker owns reaches an upstream. Whatever the guest sends and
  in whatever order the map is visited, each header left is under its canonical name, which holds
  no underscore, is none of the forwarding and override names, none the route sets or removes and
  never Authorization, and no value left holds the session token.\<close>
theorem guest_headers_stripped:
  assumes "dropGuestHeaders i h token = (h', dropped)" and "map_of h' name = Some vs"
  shows "CanonicalHeaderKey name = name \<and> \<not> name_dropped (drop_rules i) name \<and> fold_name name \<noteq> ''authorization''
    \<and> (CHR '','' \<in> set token \<or> \<not> holds_token token vs)"
proof -
  have "clean_entry (drop_rules i) token name vs"
    using dropGuestHeaders_clean[of i token h] assms by (simp add: clean_but_def)
  then show ?thesis by (auto simp: clean_entry_def name_dropped_def drop_rules_def)
qed

definition example_inject :: inject where
  "example_inject =
     \<lparr>in_Headers = Some \<lparr>hi_Set = Some [\<lparr>hd_Name = ''x-api-key'', hd_Value = ''{value}''\<rparr>], hi_Remove = None,
        hi_Allow = Some [\<lparr>ha_Name = ''anthropic-beta'', ha_Values = Some [''a'']\<rparr>]\<rparr>, in_BasicAuth = None, in_TLS = None\<rparr>"

theorem guest_headers_stripped_witness:
  "\<not> holds_token ''tok'' [''a''] \<and> \<not> name_dropped (drop_rules example_inject) ''Anthropic-Beta''"
proof -
  let ?h = "[(''X-Api-Key'', [''tok'']), (''Anthropic-Beta'', [''a, b'']), (''x_api_key'', [''y'']), (''Cookie'', [''s=tok''])]"
  have "dropGuestHeaders example_inject ?h ''tok'' = ([(''Anthropic-Beta'', [''a''])], [(''Anthropic-Beta'', 1)])" by code_simp
  from guest_headers_stripped[OF this, of "''Anthropic-Beta''" "[''a'']"] show ?thesis by simp
qed

end
