(* ===== verification/Broker_Scan.thy ===== *)
theory Broker_Scan
  imports Broker_Headers Broker_Token Broker_Request "HOL-Library.Word"
begin

text \<open>
  The search for a session token outside its carrier, \<open>internal/broker/placeholder.go\<close>: the spellings
  of a token, the matcher that finds any of them in one pass with a rolling hash, the live tokens of
  a sandbox, and the scan of a stream that drops white space and JSON escapes.
  The filter array is a function from its index to a word; sorting the anchors by hash is stable
  here, where Go's is any order that sorts, which only matters for which of two spellings with the
  same 64-bit hash is named first.
\<close>

unbundle bit_operations_syntax

subsection \<open>Spellings\<close>

definition maxLive :: nat where "maxLive = 1024"
definition anchorLen :: nat where "anchorLen = 32"
definition hashBase :: "64 word" where "hashBase = 0x100000001b3"
definition anchorBits :: nat where "anchorBits = 20"
definition scanChunk :: nat where "scanChunk = 65536"

record live_token =
  lt_token :: string
  lt_route :: string
  lt_exp :: int

datatype form = FormRaw | FormPercentUpper | FormPercentLower | FormJSONUpper | FormJSONLower | FormHexLower | FormHexUpper
  | FormBase64

definition upperHex :: string where "upperHex = ''0123456789ABCDEF''"
definition lowerHex :: string where "lowerHex = ''0123456789abcdef''"

definition base64Skip :: "nat list" where "base64Skip = [0, 2, 3]"

record spelling =
  sp_tok :: nat
  sp_form :: form
  sp_align :: nat

definition spellingsOf :: "nat \<Rightarrow> spelling list" where
  "spellingsOf tok =
     map (\<lambda>f. \<lparr>sp_tok = tok, sp_form = f, sp_align = 0\<rparr>)
       [FormRaw, FormPercentUpper, FormPercentLower, FormJSONUpper, FormJSONLower, FormHexLower, FormHexUpper]
     @ map (\<lambda>a. \<lparr>sp_tok = tok, sp_form = FormBase64, sp_align = a\<rparr>) [0, 1, 2]"

fun form_name :: "form \<Rightarrow> string" where
  "form_name FormRaw = ''raw''"
| "form_name FormPercentUpper = ''percent''"
| "form_name FormPercentLower = ''percent''"
| "form_name FormJSONUpper = ''json''"
| "form_name FormJSONLower = ''json''"
| "form_name FormHexLower = ''hex''"
| "form_name FormHexUpper = ''hex''"
| "form_name FormBase64 = ''base64''"

fun sp_length :: "form \<Rightarrow> nat \<Rightarrow> nat \<Rightarrow> nat" where
  "sp_length FormRaw al n = n"
| "sp_length FormPercentUpper al n = 3 * n"
| "sp_length FormPercentLower al n = 3 * n"
| "sp_length FormJSONUpper al n = 6 * n"
| "sp_length FormJSONLower al n = 6 * n"
| "sp_length FormHexLower al n = 2 * n"
| "sp_length FormHexUpper al n = 2 * n"
| "sp_length FormBase64 al n =
     (let l = al + n; full = (l * 8 + 5) div 6 in
      (if l mod 3 \<noteq> 0 then full - 1 else full) - base64Skip ! al)"

definition byte_at :: "string \<Rightarrow> nat \<Rightarrow> nat" where
  "byte_at tok i = of_char (tok ! i)"

definition percent_at :: "string \<Rightarrow> string \<Rightarrow> nat \<Rightarrow> char" where
  "percent_at digits tok i =
     (let c = byte_at tok (i div 3) in
      if i mod 3 = 0 then CHR ''%'' else if i mod 3 = 1 then digits ! (c div 16) else digits ! (c mod 16))"

definition json_at :: "string \<Rightarrow> string \<Rightarrow> nat \<Rightarrow> char" where
  "json_at digits tok i =
     (let c = byte_at tok (i div 6); k = i mod 6 in
      if k = 0 then CHR 0x5C else if k = 1 then CHR ''u'' else if k = 2 \<or> k = 3 then CHR ''0''
      else if k = 4 then digits ! (c div 16) else digits ! (c mod 16))"

definition hex_at :: "string \<Rightarrow> string \<Rightarrow> nat \<Rightarrow> char" where
  "hex_at digits tok i =
     (if i mod 2 = 0 then digits ! (byte_at tok (i div 2) div 16) else digits ! (byte_at tok (i div 2) mod 16))"

text \<open>The byte of the token at a position that may be before it or after it, where it is zero.\<close>

definition around :: "string \<Rightarrow> int \<Rightarrow> nat" where
  "around tok x = (if x < 0 \<or> x \<ge> int (length tok) then 0 else byte_at tok (nat x))"

definition base64_at :: "nat \<Rightarrow> string \<Rightarrow> nat \<Rightarrow> char" where
  "base64_at al tok i =
     (let j = i + base64Skip ! al; g = int (j div 4 * 3) - int al in
      base64Alphabet !
        (if j mod 4 = 0 then around tok g div 4
         else if j mod 4 = 1 then around tok g mod 4 * 16 + around tok (g + 1) div 16
         else if j mod 4 = 2 then around tok (g + 1) mod 16 * 4 + around tok (g + 2) div 64
         else around tok (g + 2) mod 64))"

fun form_at :: "form \<Rightarrow> nat \<Rightarrow> string \<Rightarrow> nat \<Rightarrow> char" where
  "form_at FormRaw al tok i = tok ! i"
| "form_at FormPercentUpper al tok i = percent_at upperHex tok i"
| "form_at FormPercentLower al tok i = percent_at lowerHex tok i"
| "form_at FormJSONUpper al tok i = json_at upperHex tok i"
| "form_at FormJSONLower al tok i = json_at lowerHex tok i"
| "form_at FormHexLower al tok i = hex_at lowerHex tok i"
| "form_at FormHexUpper al tok i = hex_at upperHex tok i"
| "form_at FormBase64 al tok i = base64_at al tok i"

definition spell_length :: "spelling \<Rightarrow> string \<Rightarrow> nat" where
  "spell_length s tok = sp_length (sp_form s) (sp_align s) (length tok)"

definition spell_at :: "spelling \<Rightarrow> string \<Rightarrow> nat \<Rightarrow> char" where
  "spell_at s tok i = form_at (sp_form s) (sp_align s) tok i"

text \<open>The bytes of a spelling, which the code never writes out.\<close>

definition spelled :: "spelling \<Rightarrow> string \<Rightarrow> string" where
  "spelled s tok = map (spell_at s tok) [0..<spell_length s tok]"

subsection \<open>The matcher\<close>

definition hash_step :: "64 word \<Rightarrow> char \<Rightarrow> 64 word" where
  "hash_step h c = h * hashBase + word_of_nat (of_char c)"

record anchored =
  an_hash :: "64 word"
  an_sp :: spelling

record matcher =
  m_tokens :: "live_token list"
  m_anchors :: "anchored list"
  m_filter :: "nat \<Rightarrow> 64 word"
  m_pow :: "64 word"
  m_longest :: nat

definition filter_bit :: "64 word \<Rightarrow> nat" where
  "filter_bit h = unat (drop_bit (64 - anchorBits) h)"

definition set_filter :: "64 word \<Rightarrow> (nat \<Rightarrow> 64 word) \<Rightarrow> nat \<Rightarrow> 64 word" where
  "set_filter h f = (let b = filter_bit h in f(b div 64 := f (b div 64) OR push_bit (b mod 64) 1))"

definition in_filter :: "(nat \<Rightarrow> 64 word) \<Rightarrow> 64 word \<Rightarrow> bool" where
  "in_filter f h \<longleftrightarrow> (let b = filter_bit h in f (b div 64) AND push_bit (b mod 64) 1 \<noteq> 0)"

definition anchor_hash :: "spelling \<Rightarrow> string \<Rightarrow> 64 word" where
  "anchor_hash s tok =
     fold (\<lambda>j h. hash_step h (spell_at s tok j)) [spell_length s tok - anchorLen..<spell_length s tok] 0"

text \<open>One spelling is added to a matcher, unless it is too short to have an anchor.\<close>

definition add_anchor :: "string \<Rightarrow> spelling \<Rightarrow> matcher \<Rightarrow> matcher" where
  "add_anchor tok s m =
     (let n = spell_length s tok in
      if n < anchorLen then m
      else let h = anchor_hash s tok in
        m\<lparr>m_anchors := m_anchors m @ [\<lparr>an_hash = h, an_sp = s\<rparr>],
          m_filter := set_filter h (m_filter m),
          m_longest := max (m_longest m) n\<rparr>)"

definition newMatcher :: "live_token list \<Rightarrow> matcher" where
  "newMatcher live =
     (let m = fold (\<lambda>(i, l). fold (add_anchor (lt_token l)) (spellingsOf i)) (enumerate 0 live)
            \<lparr>m_tokens = live, m_anchors = [], m_filter = (\<lambda>_. 0), m_pow = fold (\<lambda>_ p. p * hashBase) [0..<anchorLen - 1] 1,
             m_longest = 0\<rparr> in
      m\<lparr>m_anchors := sort_key an_hash (m_anchors m)\<rparr>)"

record hit =
  hit_route :: string
  hit_encoding :: string

definition endsWith :: "matcher \<Rightarrow> string \<Rightarrow> nat \<Rightarrow> spelling \<Rightarrow> bool" where
  "endsWith m b e s \<longleftrightarrow>
     (let tok = lt_token (m_tokens m ! sp_tok s); n = spell_length s tok in
      n \<le> e \<and> list_all (\<lambda>i. b ! (e - n + i) = spell_at s tok i) [0..<n])"

definition hit_of :: "matcher \<Rightarrow> spelling \<Rightarrow> hit" where
  "hit_of m s = \<lparr>hit_route = lt_route (m_tokens m ! sp_tok s), hit_encoding = form_name (sp_form s)\<rparr>"

text \<open>The anchors with a hash, which the binary search of the sorted anchors starts at.\<close>

definition with_hash :: "64 word \<Rightarrow> anchored list \<Rightarrow> anchored list" where
  "with_hash h as = takeWhile (\<lambda>a. an_hash a = h) (dropWhile (\<lambda>a. an_hash a < h) as)"

definition match_at :: "matcher \<Rightarrow> string \<Rightarrow> nat \<Rightarrow> 64 word \<Rightarrow> spelling option" where
  "match_at m b e h =
     (if in_filter (m_filter m) h then find (endsWith m b e) (map an_sp (with_hash h (m_anchors m))) else None)"

definition roll :: "matcher \<Rightarrow> 64 word \<Rightarrow> char \<Rightarrow> char \<Rightarrow> 64 word" where
  "roll m h old new = (h - word_of_nat (of_char old) * m_pow m) * hashBase + word_of_nat (of_char new)"

function find_from :: "matcher \<Rightarrow> string \<Rightarrow> nat \<Rightarrow> 64 word \<Rightarrow> hit option" where
  "find_from m b e h =
     (case match_at m b e h of
        Some s \<Rightarrow> Some (hit_of m s)
      | None \<Rightarrow>
          if e \<ge> length b then None
          else find_from m b (Suc e) (roll m h (b ! (e - anchorLen)) (b ! e)))"
  by pat_completeness auto
termination by (relation "measure (\<lambda>(m, b, e, h). length b - e)") auto

declare find_from.simps [simp del]

definition find_spelling :: "matcher \<Rightarrow> string \<Rightarrow> hit option" where
  "find_spelling m b =
     (if length b < anchorLen \<or> m_anchors m = [] then None
      else find_from m b anchorLen (foldl hash_step 0 (take anchorLen b)))"

subsection \<open>The live tokens\<close>

record live =
  lv_tokens :: "live_token list"
  lv_match :: "matcher option"

definition no_live :: live where
  "no_live = \<lparr>lv_tokens = [], lv_match = None\<rparr>"

definition remember :: "string \<Rightarrow> string \<Rightarrow> int \<Rightarrow> live \<Rightarrow> live" where
  "remember tok rt exp lv =
     (case find (\<lambda>l. lt_token l = tok) (lv_tokens lv) of
        Some l \<Rightarrow> lv\<lparr>lv_tokens := remove1 l (lv_tokens lv) @ [l]\<rparr>
      | None \<Rightarrow>
          let ls = lv_tokens lv @ [\<lparr>lt_token = tok, lt_route = rt, lt_exp = exp\<rparr>] in
          \<lparr>lv_tokens = drop (length ls - maxLive) ls, lv_match = None\<rparr>)"

definition live_matcher :: "int \<Rightarrow> live \<Rightarrow> matcher \<times> live" where
  "live_matcher now lv =
     (let kept = filter (\<lambda>l. before_expiry now (lt_exp l)) (lv_tokens lv);
          cached = (if length kept \<noteq> length (lv_tokens lv) then None else lv_match lv);
          m = (case cached of Some m \<Rightarrow> m | None \<Rightarrow> newMatcher kept) in
      (m, \<lparr>lv_tokens = kept, lv_match = Some m\<rparr>))"

subsection \<open>The scan of a stream\<close>

record scan =
  sc_work :: string
  sc_slashes :: nat

definition fresh_scan :: scan where
  "fresh_scan = \<lparr>sc_work = [], sc_slashes = 0\<rparr>"

definition squeeze_char :: "char \<Rightarrow> scan \<Rightarrow> scan" where
  "squeeze_char c s =
     (if c = CHR 0x5C then s\<lparr>sc_slashes := sc_slashes s + 1\<rparr>
      else if sc_slashes s > 0 \<and> c \<in> set ''nrt'' then s\<lparr>sc_slashes := 0\<rparr>
      else if sc_slashes s > 0 \<and> c = CHR ''/'' then \<lparr>sc_work = sc_work s @ ''/'', sc_slashes = 0\<rparr>
      else
        let work = sc_work s @ replicate (sc_slashes s) CHR 0x5C in
        \<lparr>sc_work = (if c \<in> set [CHR '' '', CHR 0x09, CHR 0x0D, CHR 0x0A] then work else work @ [c]), sc_slashes = 0\<rparr>)"

definition squeeze :: "string \<Rightarrow> scan \<Rightarrow> scan" where
  "squeeze p s = fold squeeze_char p s"

text \<open>What of the work buffer a later chunk still needs.\<close>

definition keep_tail :: "nat \<Rightarrow> string \<Rightarrow> string" where
  "keep_tail n w = (if length w > n then drop (length w - n) w else w)"

function scan_write :: "matcher \<Rightarrow> string \<Rightarrow> scan \<Rightarrow> hit option \<times> scan" where
  "scan_write m p s =
     (if p = [] then (None, s)
      else
        let n = min (length p) scanChunk; s' = squeeze (take n p) s in
        case find_spelling m (sc_work s') of
          Some h \<Rightarrow> (Some h, s')
        | None \<Rightarrow> scan_write m (drop n p) (s'\<lparr>sc_work := keep_tail (m_longest m - 1) (sc_work s')\<rparr>))"
  by pat_completeness auto
termination by (relation "measure (\<lambda>(m, p, s). length p)") (auto simp: scanChunk_def)

declare scan_write.simps [simp del]

definition scan_string :: "matcher \<Rightarrow> string \<Rightarrow> hit option" where
  "scan_string m s = fst (scan_write m s fresh_scan)"

fun findString :: "matcher \<Rightarrow> string list \<Rightarrow> hit option" where
  "findString m [] = None"
| "findString m (s # ss) = (case scan_string m s of Some h \<Rightarrow> Some h | None \<Rightarrow> findString m ss)"

end
