(* ===== verification/Broker_Scan_Facts.thy ===== *)
theory Broker_Scan_Facts
  imports Broker_Scan
begin

text \<open>
  The matcher finds exactly the spellings: the rolling hash of every window is the hash of that window,
  the filter and the search of the sorted anchors lose none, and the comparison from the first byte
  admits nothing else. The scan of a stream finds what one search of the whole squeezed text would.
\<close>

subsection \<open>The rolling hash\<close>

definition window_hash :: "string \<Rightarrow> 64 word" where
  "window_hash w = foldl hash_step 0 w"

lemma foldl_hash: "foldl hash_step h w = h * hashBase ^ length w + window_hash w"
proof (induction w arbitrary: h rule: rev_induct)
  case (snoc c w)
  then show ?case using snoc[of h] by (simp add: window_hash_def hash_step_def algebra_simps)
qed (simp add: window_hash_def)

lemma roll_window:
  assumes "m_pow m = hashBase ^ length w"
  shows "roll m (window_hash (x # w)) x y = window_hash (w @ [y])"
proof -
  have "window_hash (x # w) = hash_step 0 x * hashBase ^ length w + window_hash w"
    using foldl_hash[of "hash_step 0 x" w] by (simp add: window_hash_def)
  moreover have "window_hash (w @ [y]) = hash_step (window_hash w) y" by (simp add: window_hash_def)
  ultimately show ?thesis using assms by (simp add: roll_def hash_step_def)
qed

lemma pow_fold: "fold (\<lambda>_ p. p * hashBase) [0..<n] 1 = hashBase ^ n"
  by (induction n) simp_all

definition slice :: "string \<Rightarrow> nat \<Rightarrow> nat \<Rightarrow> string" where
  "slice b i e = drop i (take e b)"

lemma slice_length [simp]: "e \<le> length b \<Longrightarrow> length (slice b i e) = e - i"
  by (simp add: slice_def)

lemma slice_sublist: "sublist (slice b i e) b"
  unfolding slice_def using sublist_order.order.trans[OF sublist_drop sublist_take] .

lemma slice_of_sublist:
  assumes "sublist w b"
  obtains e where "e \<le> length b" "length w \<le> e" "slice b (e - length w) e = w"
proof -
  obtain u v where "b = u @ w @ v" using assms by (auto simp: sublist_def)
  then show ?thesis by (intro that[of "length u + length w"]) (simp_all add: slice_def)
qed

lemma roll_slice:
  assumes "m_pow m = hashBase ^ (anchorLen - 1)" and "anchorLen \<le> e" and "e < length b"
  shows "roll m (window_hash (slice b (e - anchorLen) e)) (b ! (e - anchorLen)) (b ! e)
    = window_hash (slice b (Suc e - anchorLen) (Suc e))"
proof -
  define i where "i = e - anchorLen"
  have i: "i < e" "e = i + anchorLen" "Suc e - anchorLen = Suc i" using assms(2) by (auto simp: i_def anchorLen_def)
  let ?w = "slice b (Suc i) e"
  have head: "slice b i e = b ! i # ?w"
    using i assms(3) Cons_nth_drop_Suc[of i "take e b"] by (simp add: slice_def)
  have last: "slice b (Suc i) (Suc e) = ?w @ [b ! e]"
    using i assms(3) by (simp add: slice_def take_Suc_conv_app_nth)
  have "length ?w = anchorLen - 1" using i assms(3) by simp
  then have "roll m (window_hash (b ! i # ?w)) (b ! i) (b ! e) = window_hash (?w @ [b ! e])"
    using roll_window assms(1) by presburger
  then show ?thesis unfolding i_def[symmetric] i(3) head last .
qed

subsection \<open>The spellings of a matcher\<close>

lemma spelled_length [simp]: "length (spelled s tok) = spell_length s tok"
  by (simp add: spelled_def)

lemma anchor_hash_window:
  assumes "anchorLen \<le> spell_length s tok"
  shows "anchor_hash s tok = window_hash (drop (spell_length s tok - anchorLen) (spelled s tok))"
proof -
  have "fold (\<lambda>j h. hash_step h (f j)) js h = foldl hash_step h (map f js)" for f :: "nat \<Rightarrow> char" and js h
    by (induction js arbitrary: h) simp_all
  then show ?thesis by (simp add: anchor_hash_def window_hash_def spelled_def drop_map)
qed

lemma endsWith_slice:
  assumes "e \<le> length b"
  shows "endsWith m b e s \<longleftrightarrow> spell_length s (lt_token (m_tokens m ! sp_tok s)) \<le> e
    \<and> slice b (e - spell_length s (lt_token (m_tokens m ! sp_tok s))) e = spelled s (lt_token (m_tokens m ! sp_tok s))"
proof -
  let ?t = "lt_token (m_tokens m ! sp_tok s)" and ?n = "spell_length s (lt_token (m_tokens m ! sp_tok s))"
  have "list_all (\<lambda>i. b ! (e - ?n + i) = spell_at s ?t i) [0..<?n] \<longleftrightarrow> slice b (e - ?n) e = spelled s ?t" if "?n \<le> e"
    using that assms by (auto simp: list_all_iff list_eq_iff_nth_eq slice_def spelled_def)
  then show ?thesis unfolding endsWith_def Let_def by blast
qed

definition sound_anchor :: "matcher \<Rightarrow> anchored \<Rightarrow> bool" where
  "sound_anchor m a \<longleftrightarrow>
     (let s = an_sp a; tok = lt_token (m_tokens m ! sp_tok s) in
      sp_tok s < length (m_tokens m) \<and> s \<in> set (spellingsOf (sp_tok s)) \<and> anchorLen \<le> spell_length s tok
      \<and> an_hash a = anchor_hash s tok \<and> in_filter (m_filter m) (an_hash a) \<and> spell_length s tok \<le> m_longest m)"

definition sought :: "matcher \<Rightarrow> spelling set" where
  "sought m = {s. sp_tok s < length (m_tokens m) \<and> s \<in> set (spellingsOf (sp_tok s))
     \<and> anchorLen \<le> spell_length s (lt_token (m_tokens m ! sp_tok s))}"

definition matcher_ok :: "matcher \<Rightarrow> bool" where
  "matcher_ok m \<longleftrightarrow> m_pow m = hashBase ^ (anchorLen - 1) \<and> sorted (map an_hash (m_anchors m))
     \<and> (\<forall>a \<in> set (m_anchors m). sound_anchor m a) \<and> an_sp ` set (m_anchors m) = sought m"

lemma matcher_okD:
  assumes "matcher_ok m"
  shows "m_pow m = hashBase ^ (anchorLen - 1)" and "sorted (map an_hash (m_anchors m))"
    and "a \<in> set (m_anchors m) \<Longrightarrow> sound_anchor m a" and "an_sp ` set (m_anchors m) = sought m"
  using assms by (simp_all add: matcher_ok_def)

text \<open>The strings a matcher looks for.\<close>

definition spellings_in :: "matcher \<Rightarrow> spelling \<Rightarrow> string" where
  "spellings_in m s = spelled s (lt_token (m_tokens m ! sp_tok s))"

subsection \<open>The search at one position\<close>

lemma with_hash_set: "sorted (map an_hash as) \<Longrightarrow> a \<in> set (with_hash h as) \<longleftrightarrow> a \<in> set as \<and> an_hash a = h"
proof (induction "as")
  case (Cons x xs)
  have le: "y \<in> set xs \<Longrightarrow> an_hash x \<le> an_hash y" for y using Cons.prems by auto
  consider "an_hash x < h" | "an_hash x = h" | "h < an_hash x" by fastforce
  then show ?case
  proof cases
    case 1
    then show ?thesis using Cons by (auto simp: with_hash_def)
  next
    case 2
    have "dropWhile (\<lambda>a. an_hash a < h) xs = xs" using le 2 by (cases xs) fastforce+
    then show ?thesis using Cons 2 by (auto simp: with_hash_def)
  next
    case 3
    then have "an_hash y \<noteq> h" if "y \<in> set xs" for y using le[OF that] by auto
    then show ?thesis using 3 by (auto simp: with_hash_def)
  qed
qed (simp add: with_hash_def)

lemma match_at_Some:
  assumes "matcher_ok m" and "match_at m b e h = Some s"
  shows "s \<in> sought m \<and> endsWith m b e s"
proof -
  have "find (endsWith m b e) (map an_sp (with_hash h (m_anchors m))) = Some s"
    using assms(2) by (simp add: match_at_def split: if_splits)
  then have "s \<in> an_sp ` set (with_hash h (m_anchors m))" "endsWith m b e s"
    by (auto dest: find_SomeD)
  moreover have "set (with_hash h (m_anchors m)) \<subseteq> set (m_anchors m)"
    using with_hash_set[OF matcher_okD(2)[OF assms(1)]] by blast
  ultimately show ?thesis using matcher_okD(4)[OF assms(1)] by blast
qed

lemma match_at_None:
  assumes ok: "matcher_ok m" and none: "match_at m b e h = None" and e: "anchorLen \<le> e" "e \<le> length b"
    and h: "h = window_hash (slice b (e - anchorLen) e)" and s: "s \<in> sought m"
  shows "\<not> endsWith m b e s"
proof
  assume ends: "endsWith m b e s"
  let ?t = "lt_token (m_tokens m ! sp_tok s)"
  have "s \<in> an_sp ` set (m_anchors m)" using matcher_okD(4)[OF ok] s by simp
  then obtain a where a: "a \<in> set (m_anchors m)" "an_sp a = s" by blast
  then have sound: "sound_anchor m a" using matcher_okD(3)[OF ok] by blast
  have n: "anchorLen \<le> spell_length s ?t" using s by (simp add: sought_def)
  have "slice b (e - spell_length s ?t) e = spelled s ?t" "spell_length s ?t \<le> e"
    using ends endsWith_slice[OF e(2)] by auto
  then have "drop (spell_length s ?t - anchorLen) (spelled s ?t) = slice b (e - anchorLen) e"
    using n by (simp add: slice_def flip: \<open>slice b (e - spell_length s ?t) e = spelled s ?t\<close>)
  then have hash: "an_hash a = h" using sound a(2) h anchor_hash_window[OF n] by (simp add: sound_anchor_def Let_def)
  then have "a \<in> set (with_hash h (m_anchors m))" using a with_hash_set[OF matcher_okD(2)[OF ok]] by blast
  then have "s \<in> set (map an_sp (with_hash h (m_anchors m)))" using a(2) by auto
  moreover have "in_filter (m_filter m) (an_hash a)" using sound unfolding sound_anchor_def Let_def by blast
  ultimately show False using none ends unfolding hash by (auto simp: match_at_def find_None_iff)
qed

lemma find_from_None:
  assumes "matcher_ok m" and "anchorLen \<le> e" and "e \<le> length b" and "h = window_hash (slice b (e - anchorLen) e)"
  shows "find_from m b e h = None \<longleftrightarrow> (\<forall>e' s. e \<le> e' \<and> e' \<le> length b \<and> s \<in> sought m \<longrightarrow> \<not> endsWith m b e' s)"
  using assms
proof (induction m b e h rule: find_from.induct)
  case (1 m b e h)
  show ?case
  proof (cases "match_at m b e h")
    case (Some s)
    then have "find_from m b e h = Some (hit_of m s)" by (simp add: find_from.simps)
    then show ?thesis using match_at_Some[OF 1(2) Some] 1(4) by auto
  next
    case None
    have here: "\<not> endsWith m b e s" if "s \<in> sought m" for s
      using match_at_None[OF 1(2) None 1(3) 1(4) 1(5) that] .
    show ?thesis
    proof (cases "e \<ge> length b")
      case True
      then have "e = length b" using 1(4) by simp
      then show ?thesis using None here by (subst find_from.simps) (auto simp: le_antisym)
    next
      case False
      have pow: "m_pow m = hashBase ^ (anchorLen - 1)" by (rule matcher_okD(1)[OF 1(2)])
      have "roll m h (b ! (e - anchorLen)) (b ! e) = window_hash (slice b (Suc e - anchorLen) (Suc e))"
        unfolding 1(5) using roll_slice[OF pow 1(3)] False by simp
      then have IH: "find_from m b (Suc e) (roll m h (b ! (e - anchorLen)) (b ! e)) = None
          \<longleftrightarrow> (\<forall>e' s. Suc e \<le> e' \<and> e' \<le> length b \<and> s \<in> sought m \<longrightarrow> \<not> endsWith m b e' s)"
        using 1(1)[OF None False] 1(2,3) False by simp
      have "find_from m b e h = find_from m b (Suc e) (roll m h (b ! (e - anchorLen)) (b ! e))"
        using None False by (subst find_from.simps) simp
      then show ?thesis using IH here by (metis Suc_leD not_less_eq_eq le_antisym)
    qed
  qed
qed

lemma find_from_Some:
  assumes "matcher_ok m" and "find_from m b e h = Some t" and "e \<le> length b"
  shows "\<exists>e' \<le> length b. \<exists>s \<in> sought m. endsWith m b e' s \<and> t = hit_of m s"
  using assms
proof (induction m b e h rule: find_from.induct)
  case (1 m b e h)
  show ?case
  proof (cases "match_at m b e h")
    case (Some s)
    then have "t = hit_of m s" using 1(3) by (simp add: find_from.simps)
    then show ?thesis using match_at_Some[OF 1(2) Some] 1(4) by blast
  next
    case None
    then have "\<not> e \<ge> length b" using 1(3) by (auto simp: find_from.simps[of m b e h] split: if_splits)
    then show ?thesis using 1 None by (simp add: find_from.simps[of m b e h])
  qed
qed

text \<open>The search finds a spelling exactly when the text holds one.\<close>

lemma find_spelling_None:
  assumes ok: "matcher_ok m"
  shows "find_spelling m b = None \<longleftrightarrow> (\<forall>s \<in> sought m. \<not> sublist (spellings_in m s) b)"
proof -
  have ends: "endsWith m b e s \<Longrightarrow> e \<le> length b \<Longrightarrow> sublist (spellings_in m s) b" for e s
    using endsWith_slice slice_sublist unfolding spellings_in_def by metis
  have occurs: "\<exists>e. anchorLen \<le> e \<and> e \<le> length b \<and> endsWith m b e s" if s: "s \<in> sought m" "sublist (spellings_in m s) b" for s
  proof -
    obtain e where e: "e \<le> length b" "length (spellings_in m s) \<le> e"
        "slice b (e - length (spellings_in m s)) e = spellings_in m s" using slice_of_sublist[OF s(2)] .
    then have "endsWith m b e s" using endsWith_slice[OF e(1)] by (simp add: spellings_in_def)
    moreover have "anchorLen \<le> e" using e(2) s(1) by (simp add: spellings_in_def sought_def)
    ultimately show ?thesis using e(1) by blast
  qed
  show ?thesis
  proof (cases "length b < anchorLen \<or> m_anchors m = []")
    case True
    have "sought m = {}" if "m_anchors m = []" using matcher_okD(4)[OF ok] that by simp
    then have "\<forall>s \<in> sought m. \<not> sublist (spellings_in m s) b" using True occurs by force
    then show ?thesis using True by (simp add: find_spelling_def)
  next
    case False
    have "find_spelling m b = find_from m b anchorLen (window_hash (slice b (anchorLen - anchorLen) anchorLen))"
      using False by (simp add: find_spelling_def window_hash_def slice_def)
    then have "find_spelling m b = None
        \<longleftrightarrow> (\<forall>e' s. anchorLen \<le> e' \<and> e' \<le> length b \<and> s \<in> sought m \<longrightarrow> \<not> endsWith m b e' s)"
      using find_from_None[OF ok, of anchorLen b] False by simp
    then show ?thesis using ends occurs by blast
  qed
qed

lemma find_spelling_Some:
  assumes "matcher_ok m" and "find_spelling m b = Some t"
  shows "\<exists>s \<in> sought m. sublist (spellings_in m s) b \<and> t = hit_of m s"
proof -
  have "find_from m b anchorLen (foldl hash_step 0 (take anchorLen b)) = Some t" "anchorLen \<le> length b"
    using assms(2) by (auto simp: find_spelling_def split: if_splits)
  then obtain e s where e: "e \<le> length b" "s \<in> sought m" "endsWith m b e s" "t = hit_of m s"
    using find_from_Some[OF assms(1)] by metis
  then have "sublist (spellings_in m s) b" using endsWith_slice[OF e(1)] slice_sublist unfolding spellings_in_def by metis
  then show ?thesis using e by blast
qed

subsection \<open>A new matcher\<close>

lemma push_one_bit: "(x AND push_bit k 1 \<noteq> 0) = bit x k" if "k < 64" for x :: "64 word"
proof -
  have "(x AND push_bit k 1) = (if bit x k then push_bit k 1 else 0)"
    by (rule bit_eqI) (auto simp: bit_simps)
  moreover have "push_bit k (1 :: 64 word) \<noteq> 0" using that by (simp add: bit_eq_iff) (auto simp: bit_simps)
  ultimately show ?thesis by simp
qed

lemma in_filter_bit: "in_filter f h = bit (f (filter_bit h div 64)) (filter_bit h mod 64)"
  unfolding in_filter_def Let_def by (rule push_one_bit) simp

lemma set_filter_in: "in_filter (set_filter h f) h' \<longleftrightarrow> in_filter f h' \<or> filter_bit h = filter_bit h'"
proof (cases "filter_bit h div 64 = filter_bit h' div 64")
  case True
  have "bit (push_bit (filter_bit h mod 64) (1 :: 64 word)) (filter_bit h' mod 64) \<longleftrightarrow> filter_bit h mod 64 = filter_bit h' mod 64"
    by (auto simp: bit_simps)
  moreover have "filter_bit h = filter_bit h' \<longleftrightarrow> filter_bit h mod 64 = filter_bit h' mod 64"
    using True by (metis mult_div_mod_eq)
  ultimately show ?thesis using True by (simp add: in_filter_bit set_filter_def Let_def bit_or_iff)
next
  case False
  then have "filter_bit h \<noteq> filter_bit h'" by auto
  then show ?thesis using False by (simp add: in_filter_bit set_filter_def Let_def)
qed

definition building :: "live_token list \<Rightarrow> spelling set \<Rightarrow> matcher \<Rightarrow> bool" where
  "building live S m \<longleftrightarrow> m_tokens m = live \<and> m_pow m = hashBase ^ (anchorLen - 1)
     \<and> list_all (sound_anchor m) (m_anchors m) \<and> an_sp ` set (m_anchors m) = S"

definition has_anchor :: "live_token list \<Rightarrow> spelling \<Rightarrow> bool" where
  "has_anchor live s \<longleftrightarrow> anchorLen \<le> spell_length s (lt_token (live ! sp_tok s))"

lemma sound_anchor_mono:
  assumes "sound_anchor m a" and "m_tokens m' = m_tokens m" and "\<And>h. in_filter (m_filter m) h \<Longrightarrow> in_filter (m_filter m') h"
    and "m_longest m \<le> m_longest m'"
  shows "sound_anchor m' a"
  using assms unfolding sound_anchor_def Let_def by auto

lemma add_anchor_building:
  assumes "building live S m" and "i < length live" and "s \<in> set (spellingsOf i)"
  shows "building live (S \<union> (if has_anchor live s then {s} else {})) (add_anchor (lt_token (live ! i)) s m)"
proof -
  have tok: "sp_tok s = i" using assms(3) by (auto simp: spellingsOf_def)
  show ?thesis
  proof (cases "has_anchor live s")
    case False
    then show ?thesis using assms(1) tok by (simp add: add_anchor_def has_anchor_def not_le)
  next
    case True
    let ?m = "add_anchor (lt_token (live ! i)) s m" and ?h = "anchor_hash s (lt_token (live ! i))"
    have long: "\<not> spell_length s (lt_token (live ! i)) < anchorLen" using True tok by (simp add: has_anchor_def)
    have eqs: "m_tokens ?m = live" "m_filter ?m = set_filter ?h (m_filter m)" "m_longest m \<le> m_longest ?m"
        "m_anchors ?m = m_anchors m @ [\<lparr>an_hash = ?h, an_sp = s\<rparr>]" "m_pow ?m = m_pow m"
        "spell_length s (lt_token (live ! i)) \<le> m_longest ?m"
      using assms(1) long by (simp_all add: add_anchor_def Let_def building_def)
    have "sound_anchor ?m a" if "sound_anchor m a" for a
      using sound_anchor_mono[OF that, of ?m] eqs set_filter_in assms(1) by (simp add: building_def)
    then have "list_all (sound_anchor ?m) (m_anchors m)" using assms(1) by (simp add: building_def list_all_iff)
    moreover have "sound_anchor ?m \<lparr>an_hash = ?h, an_sp = s\<rparr>"
      using eqs tok assms(2,3) long by (simp add: sound_anchor_def set_filter_in)
    ultimately show ?thesis using assms(1) eqs True by (auto simp: building_def)
  qed
qed

lemma add_anchors_building:
  assumes "building live S m" and "i < length live" and "set ss \<subseteq> set (spellingsOf i)"
  shows "building live (S \<union> {s \<in> set ss. has_anchor live s}) (fold (add_anchor (lt_token (live ! i))) ss m)"
  using assms(1,3)
proof (induction ss arbitrary: S m)
  case (Cons s ss)
  let ?S = "S \<union> (if has_anchor live s then {s} else {})"
  have "building live ?S (add_anchor (lt_token (live ! i)) s m)"
    using add_anchor_building[OF Cons.prems(1) assms(2)] Cons.prems(2) by simp
  from Cons.IH[OF this] Cons.prems(2)
  have "building live (?S \<union> {s \<in> set ss. has_anchor live s})
      (fold (add_anchor (lt_token (live ! i))) ss (add_anchor (lt_token (live ! i)) s m))" by simp
  moreover have "?S \<union> {s \<in> set ss. has_anchor live s} = S \<union> {s' \<in> set (s # ss). has_anchor live s'}" by auto
  ultimately show ?case by simp
qed simp

definition within :: "live_token list \<Rightarrow> nat \<Rightarrow> nat \<Rightarrow> spelling set" where
  "within live a b = {s. a \<le> sp_tok s \<and> sp_tok s < b \<and> s \<in> set (spellingsOf (sp_tok s)) \<and> has_anchor live s}"

lemma within_step: "a < b \<Longrightarrow> within live a b = {s \<in> set (spellingsOf a). has_anchor live s} \<union> within live (Suc a) b"
proof -
  assume ab: "a < b"
  have tok: "s \<in> set (spellingsOf a) \<Longrightarrow> sp_tok s = a" for s by (auto simp: spellingsOf_def)
  show ?thesis
  proof (intro set_eqI iffI)
    fix s assume "s \<in> within live a b"
    then show "s \<in> {s \<in> set (spellingsOf a). has_anchor live s} \<union> within live (Suc a) b"
      by (cases "sp_tok s = a") (simp_all add: within_def)
  next
    fix s assume "s \<in> {s \<in> set (spellingsOf a). has_anchor live s} \<union> within live (Suc a) b"
    then show "s \<in> within live a b" using ab tok[of s] by (auto simp: within_def)
  qed
qed

lemma tokens_building:
  assumes "building live S m" and "start + length ls \<le> length live" and "\<And>j. j < length ls \<Longrightarrow> live ! (start + j) = ls ! j"
  shows "building live (S \<union> within live start (start + length ls))
    (fold (\<lambda>(i, l). fold (add_anchor (lt_token l)) (spellingsOf i)) (enumerate start ls) m)"
  using assms
proof (induction ls arbitrary: start S m)
  case (Cons l ls)
  let ?T = "{s \<in> set (spellingsOf start). has_anchor live s}"
  have l: "live ! start = l" using Cons.prems(3)[of 0] by simp
  have "building live (S \<union> ?T) (fold (add_anchor (lt_token (live ! start))) (spellingsOf start) m)"
    using Cons.prems(2) by (intro add_anchors_building[OF Cons.prems(1)]) auto
  then have step: "building live (S \<union> ?T) (fold (add_anchor (lt_token l)) (spellingsOf start) m)" by (simp only: l)
  have rest: "live ! (Suc start + j) = ls ! j" if "j < length ls" for j using Cons.prems(3)[of "Suc j"] that by simp
  have "(S \<union> ?T) \<union> within live (Suc start) (Suc start + length ls) = S \<union> within live start (start + length (l # ls))"
    using within_step[of start "start + length (l # ls)" live] by (simp add: Un_assoc)
  then show ?case using Cons.IH[OF step _ rest] Cons.prems(2) by simp
next
  case Nil
  have "within live start start = {}" by (auto simp: within_def)
  then show ?case using Nil by simp
qed

lemma newMatcher_ok: "matcher_ok (newMatcher live)" "m_tokens (newMatcher live) = live"
proof -
  define m0 where "m0 = \<lparr>m_tokens = live, m_anchors = [], m_filter = (\<lambda>_. 0),
    m_pow = fold (\<lambda>_ p. p * hashBase) [0..<anchorLen - 1] 1, m_longest = 0\<rparr>"
  define m where "m = fold (\<lambda>(i, l). fold (add_anchor (lt_token l)) (spellingsOf i)) (enumerate 0 live) m0"
  have "building live {} m0" by (simp add: building_def pow_fold m0_def)
  then have "building live ({} \<union> within live 0 (0 + length live)) m" unfolding m_def by (rule tokens_building) simp_all
  then have built: "building live (within live 0 (length live)) m" by simp
  have new: "newMatcher live = m\<lparr>m_anchors := sort_key an_hash (m_anchors m)\<rparr>" by (simp add: newMatcher_def Let_def m_def m0_def)
  have "sound_anchor (newMatcher live) a" if "sound_anchor m a" for a
    by (rule sound_anchor_mono[OF that]) (simp_all add: new)
  then show "matcher_ok (newMatcher live)"
    using built unfolding matcher_ok_def building_def sought_def within_def has_anchor_def by (simp add: new list_all_iff)
  show "m_tokens (newMatcher live) = live" using built by (simp add: new building_def)
qed

subsection \<open>What a matcher looks for\<close>

text \<open>The spellings of a token that are long enough to be looked for.\<close>

definition token_spellings :: "string \<Rightarrow> string list" where
  "token_spellings tok = map (\<lambda>s. spelled s tok) (filter (\<lambda>s. anchorLen \<le> spell_length s tok) (spellingsOf 0))"

definition holds_spelling :: "string \<Rightarrow> string \<Rightarrow> bool" where
  "holds_spelling b tok \<longleftrightarrow> list_ex (\<lambda>w. contains_str w b) (token_spellings tok)"

definition targets :: "matcher \<Rightarrow> string set" where
  "targets m = (\<Union>l \<in> set (m_tokens m). set (token_spellings (lt_token l)))"

lemma spelled_index: "spelled (s\<lparr>sp_tok := i\<rparr>) tok = spelled s tok" "spell_length (s\<lparr>sp_tok := i\<rparr>) tok = spell_length s tok"
  by (simp_all add: spelled_def spell_length_def spell_at_def)

lemma spellingsOf_index: "spellingsOf i = map (\<lambda>s. s\<lparr>sp_tok := i\<rparr>) (spellingsOf 0)"
  by (simp add: spellingsOf_def)

lemma targets_sought: "targets m = spellings_in m ` sought m"
proof (intro set_eqI iffI)
  fix w assume "w \<in> targets m"
  then obtain l s where l: "l \<in> set (m_tokens m)" and sl: "s \<in> set (spellingsOf 0)"
      "anchorLen \<le> spell_length s (lt_token l)" "w = spelled s (lt_token l)"
    by (auto simp: targets_def token_spellings_def)
  from l obtain i where i: "i < length (m_tokens m)" "m_tokens m ! i = l" by (auto simp: in_set_conv_nth)
  have s: "s \<in> set (spellingsOf 0)"
      "anchorLen \<le> spell_length s (lt_token (m_tokens m ! i))" "w = spelled s (lt_token (m_tokens m ! i))"
    using sl by (simp_all add: i(2))
  let ?s = "s\<lparr>sp_tok := i\<rparr>"
  have "?s \<in> set (spellingsOf i)" using s(1) by (subst spellingsOf_index) simp
  then have "?s \<in> sought m" using i(1) s(2) by (simp add: sought_def spelled_index)
  moreover have "w = spellings_in m ?s" using s(3) by (simp add: spellings_in_def spelled_index)
  ultimately show "w \<in> spellings_in m ` sought m" by blast
next
  fix w assume "w \<in> spellings_in m ` sought m"
  then obtain s where s: "s \<in> sought m" "w = spellings_in m s" by blast
  let ?l = "m_tokens m ! sp_tok s"
  have "s \<in> set (spellingsOf (sp_tok s))" "?l \<in> set (m_tokens m)" "anchorLen \<le> spell_length s (lt_token ?l)"
    using s(1) by (simp_all add: sought_def)
  then obtain s0 where "s0 \<in> set (spellingsOf 0)" "s = s0\<lparr>sp_tok := sp_tok s\<rparr>"
    by (subst (asm) spellingsOf_index) auto
  then have "spelled s (lt_token ?l) \<in> set (token_spellings (lt_token ?l))"
    using \<open>anchorLen \<le> spell_length s (lt_token ?l)\<close> spelled_index[where s = s0 and i = "sp_tok s" and tok = "lt_token ?l"]
    by (force simp: token_spellings_def)
  then show "w \<in> targets m" using \<open>?l \<in> set (m_tokens m)\<close> s(2) by (auto simp: targets_def spellings_in_def)
qed

lemma find_targets: "matcher_ok m \<Longrightarrow> find_spelling m b = None \<longleftrightarrow> (\<forall>w \<in> targets m. \<not> sublist w b)"
  by (simp add: find_spelling_None targets_sought)

lemma targets_longest: "matcher_ok m \<Longrightarrow> w \<in> targets m \<Longrightarrow> length w \<le> m_longest m"
proof -
  assume ok: "matcher_ok m" and "w \<in> targets m"
  then obtain s where s: "s \<in> sought m" "w = spellings_in m s" by (auto simp: targets_sought)
  then have "s \<in> an_sp ` set (m_anchors m)" using matcher_okD(4)[OF ok] by simp
  then obtain a where "a \<in> set (m_anchors m)" "an_sp a = s" by blast
  then have "sound_anchor m a" "an_sp a = s" using matcher_okD(3)[OF ok] by auto
  then show ?thesis using s(2) by (simp add: sound_anchor_def Let_def spellings_in_def)
qed

lemma targets_nonempty: "w \<in> targets m \<Longrightarrow> w \<noteq> []"
proof -
  assume "w \<in> targets m"
  then obtain l :: live_token where "w \<in> set (token_spellings (lt_token l))" unfolding targets_def by blast
  then have "anchorLen \<le> length w" by (auto simp: token_spellings_def)
  then show ?thesis by (auto simp: anchorLen_def)
qed

lemma holds_spelling_targets: "(\<exists>l \<in> set (m_tokens m). holds_spelling b (lt_token l)) \<longleftrightarrow> (\<exists>w \<in> targets m. sublist w b)"
  by (auto simp: targets_def holds_spelling_def list_ex_iff contains_str_sublist)

end
