(* ===== verification/Broker_Live.thy ===== *)
theory Broker_Live
  imports Broker_Scan_Facts "HOL-Library.Multiset"
begin

text \<open>
  Two contracts of the placeholder scan. Any searcher that decides whether a text holds one of its
  targets may be run over a stream chunk by chunk, keeping the last bytes of each; and the cached
  matcher of a sandbox always looks for exactly its live tokens.
\<close>

subsection \<open>Searching a stream\<close>

text \<open>What the scan relies on of its matcher.\<close>

locale searcher =
  fixes search :: "string \<Rightarrow> 'h option" and target :: "string set" and longest :: nat
  assumes search_None: "search b = None \<longleftrightarrow> (\<forall>w \<in> target. \<not> sublist w b)"
    and target_short: "w \<in> target \<Longrightarrow> length w \<le> longest"
    and target_nonempty: "w \<in> target \<Longrightarrow> w \<noteq> []"
begin

definition clear :: "string \<Rightarrow> bool" where
  "clear b \<longleftrightarrow> (\<forall>w \<in> target. \<not> sublist w b)"

lemma clear_sublist: "clear b \<Longrightarrow> sublist a b \<Longrightarrow> clear a"
  unfolding clear_def using sublist_order.order.trans by blast

lemma keep_tail_suffix: "suffix (keep_tail n b) b"
  by (simp add: keep_tail_def suffix_drop)

text \<open>The last \<open>longest - 1\<close> bytes of a clear text are all a later chunk needs.\<close>

lemma clear_keep:
  assumes "clear b"
  shows "clear (keep_tail (longest - 1) b @ c) \<longleftrightarrow> clear (b @ c)"
proof
  have "suffix (keep_tail (longest - 1) b @ c) (b @ c)" using keep_tail_suffix by simp
  then show "clear (b @ c) \<Longrightarrow> clear (keep_tail (longest - 1) b @ c)"
    using clear_sublist suffix_imp_sublist by blast
next
  assume tail: "clear (keep_tail (longest - 1) b @ c)"
  show "clear (b @ c)"
    unfolding clear_def
  proof (intro ballI notI)
    fix w assume w: "w \<in> target" and "sublist w (b @ c)"
    then have cases: "sublist w b \<or> sublist w c \<or> (\<exists>w1 w2. w = w1 @ w2 \<and> suffix w1 b \<and> prefix w2 c)"
      by (simp add: sublist_append)
    have "\<not> sublist w b" using assms w by (simp add: clear_def)
    moreover have "\<not> sublist w c" using clear_sublist[OF tail] w by (auto simp: clear_def)
    ultimately obtain w1 w2 where w12: "w = w1 @ w2" "suffix w1 b" "prefix w2 c" using cases by blast
    have "w2 \<noteq> []" using w12 \<open>\<not> sublist w b\<close> by auto
    then have "length w1 \<le> longest - 1" using target_short[OF w] w12(1) by (cases w2) auto
    then have "suffix w1 (keep_tail (longest - 1) b)"
      using w12(2) by (auto simp: keep_tail_def suffix_def)
    then have "sublist w (keep_tail (longest - 1) b @ c)" unfolding w12(1) using w12(3) by (auto simp: sublist_append)
    then show False using tail w by (simp add: clear_def)
  qed
qed

end

subsection \<open>Squeezing\<close>

lemma squeeze_append: "squeeze (p @ q) s = squeeze q (squeeze p s)"
  by (simp add: squeeze_def)

text \<open>The work buffer only grows at its end, whatever it holds.\<close>

lemma squeeze_work: "squeeze p (s\<lparr>sc_work := a @ sc_work s\<rparr>) = (squeeze p s)\<lparr>sc_work := a @ sc_work (squeeze p s)\<rparr>"
proof (induction p arbitrary: s)
  case (Cons c p)
  have "squeeze_char c (s\<lparr>sc_work := a @ sc_work s\<rparr>) = (squeeze_char c s)\<lparr>sc_work := a @ sc_work (squeeze_char c s)\<rparr>"
    by (simp add: squeeze_char_def Let_def)
  then show ?case using Cons[of "squeeze_char c s"] by (simp add: squeeze_def)
qed (simp add: squeeze_def)

lemma squeeze_grows: "prefix (sc_work s) (sc_work (squeeze p s))"
proof -
  have "squeeze p ((s\<lparr>sc_work := []\<rparr>)\<lparr>sc_work := sc_work s @ sc_work (s\<lparr>sc_work := []\<rparr>)\<rparr>)
      = (squeeze p (s\<lparr>sc_work := []\<rparr>))\<lparr>sc_work := sc_work s @ sc_work (squeeze p (s\<lparr>sc_work := []\<rparr>))\<rparr>"
    by (rule squeeze_work)
  then show ?thesis by simp
qed

text \<open>Text without white space and backslashes is taken as it is.\<close>

definition plain_text :: "string \<Rightarrow> bool" where
  "plain_text t \<longleftrightarrow> list_all (\<lambda>c. c \<notin> set [CHR 0x5C, CHR '' '', CHR 0x09, CHR 0x0D, CHR 0x0A]) t"

lemma squeeze_plain: "plain_text t \<Longrightarrow> sc_slashes s = 0 \<Longrightarrow> squeeze t s = s\<lparr>sc_work := sc_work s @ t\<rparr>"
proof (induction t arbitrary: s)
  case (Cons c t)
  then have "squeeze_char c s = s\<lparr>sc_work := sc_work s @ [c]\<rparr>" by (simp add: squeeze_char_def plain_text_def Let_def)
  then show ?case using Cons by (simp add: squeeze_def plain_text_def)
qed (simp add: squeeze_def)

context searcher
begin

text \<open>The state of a scan and the state of one that kept everything.\<close>

definition tracks :: "scan \<Rightarrow> scan \<Rightarrow> bool" where
  "tracks s t \<longleftrightarrow> clear (sc_work t) \<and> sc_slashes s = sc_slashes t \<and> sc_work s = keep_tail (longest - 1) (sc_work t)"

lemma keep_tail_twice: "keep_tail n (keep_tail n b @ c) = keep_tail n (b @ c)"
  by (auto simp: keep_tail_def add.commute)

lemma tracks_squeeze:
  assumes "tracks s t"
  shows "clear (sc_work (squeeze p s)) \<longleftrightarrow> clear (sc_work (squeeze p t))"
    and "clear (sc_work (squeeze p t)) \<Longrightarrow>
      tracks ((squeeze p s)\<lparr>sc_work := keep_tail (longest - 1) (sc_work (squeeze p s))\<rparr>) (squeeze p t)"
proof -
  define z where "z = squeeze p \<lparr>sc_work = [], sc_slashes = sc_slashes t\<rparr>"
  have gen: "squeeze p u = z\<lparr>sc_work := sc_work u @ sc_work z\<rparr>" if "sc_slashes u = sc_slashes t" for u
    using squeeze_work[where p = p and s = "\<lparr>sc_work = [], sc_slashes = sc_slashes t\<rparr>" and a = "sc_work u"] that by (cases u) (simp add: z_def)
  have s: "squeeze p s = z\<lparr>sc_work := keep_tail (longest - 1) (sc_work t) @ sc_work z\<rparr>"
    using gen[of s] assms by (simp add: tracks_def)
  have t: "squeeze p t = z\<lparr>sc_work := sc_work t @ sc_work z\<rparr>" using gen[of t] by simp
  show "clear (sc_work (squeeze p s)) \<longleftrightarrow> clear (sc_work (squeeze p t))"
    using clear_keep[of "sc_work t" "sc_work z"] assms by (simp add: s t tracks_def)
  show "tracks ((squeeze p s)\<lparr>sc_work := keep_tail (longest - 1) (sc_work (squeeze p s))\<rparr>) (squeeze p t)"
    if "clear (sc_work (squeeze p t))" using that by (simp add: s t tracks_def keep_tail_twice)
qed

end

subsection \<open>The matcher as a searcher\<close>

lemma matcher_searcher: "matcher_ok m \<Longrightarrow> searcher (find_spelling m) (targets m) (m_longest m)"
  by unfold_locales (auto simp: find_targets targets_longest targets_nonempty)

interpretation new_matcher: searcher "find_spelling (newMatcher live)" "targets (newMatcher live)" "m_longest (newMatcher live)"
  for live
  by (rule matcher_searcher[OF newMatcher_ok(1)])

lemma scan_write_tracks:
  assumes ok: "matcher_ok m" and "searcher.tracks (targets m) (m_longest m) s t"
  shows "fst (scan_write m p s) = None \<longleftrightarrow> searcher.clear (targets m) (sc_work (squeeze p t))"
    and "fst (scan_write m p s) = None \<Longrightarrow> searcher.tracks (targets m) (m_longest m) (snd (scan_write m p s)) (squeeze p t)"
proof -
  note loc = matcher_searcher[OF ok]
  have find: "find_spelling m b = None \<longleftrightarrow> searcher.clear (targets m) b" for b
    unfolding searcher.clear_def[OF loc] by (rule find_targets[OF ok])
  have "(fst (scan_write m p s) = None \<longleftrightarrow> searcher.clear (targets m) (sc_work (squeeze p t)))
      \<and> (fst (scan_write m p s) = None \<longrightarrow> searcher.tracks (targets m) (m_longest m) (snd (scan_write m p s)) (squeeze p t))"
    using assms(2) loc find
  proof (induction m p s arbitrary: t rule: scan_write.induct)
    case (1 m p s)
    note loc = 1(3) and find = 1(4)
    show ?case
    proof (cases "p = []")
      case True
      then show ?thesis using 1(2) by (simp add: scan_write.simps squeeze_def searcher.tracks_def[OF loc])
    next
      case False
      define n where "n = min (length p) scanChunk"
      let ?s = "squeeze (take n p) s" and ?t = "squeeze (take n p) t"
      let ?k = "?s\<lparr>sc_work := keep_tail (m_longest m - 1) (sc_work ?s)\<rparr>"
      have step: "scan_write m p s =
          (case find_spelling m (sc_work ?s) of Some h \<Rightarrow> (Some h, ?s) | None \<Rightarrow> scan_write m (drop n p) ?k)"
        using False by (subst scan_write.simps) (simp only: n_def Let_def if_False)
      have all: "squeeze p t = squeeze (drop n p) ?t" by (simp flip: squeeze_append)
      note track = searcher.tracks_squeeze[OF loc 1(2), of "take n p"]
      show ?thesis
      proof (cases "find_spelling m (sc_work ?s)")
        case (Some h)
        then have "\<not> searcher.clear (targets m) (sc_work ?t)" using find[of "sc_work ?s"] track(1) by simp
        then have "\<not> searcher.clear (targets m) (sc_work (squeeze p t))"
          unfolding all using searcher.clear_sublist[OF loc] prefix_imp_sublist[OF squeeze_grows] by blast
        then show ?thesis by (simp add: step Some)
      next
        case None
        then have "searcher.clear (targets m) (sc_work ?t)" using find[of "sc_work ?s"] track(1) by simp
        from 1(1)[OF False n_def refl None track(2)[OF this] loc find]
        show ?thesis by (simp add: step None all)
      qed
    qed
  qed
  then show "fst (scan_write m p s) = None \<longleftrightarrow> searcher.clear (targets m) (sc_work (squeeze p t))"
    and "fst (scan_write m p s) = None \<Longrightarrow> searcher.tracks (targets m) (m_longest m) (snd (scan_write m p s)) (squeeze p t)"
    by blast+
qed

lemma scan_string_None:
  assumes "matcher_ok m"
  shows "scan_string m b = None \<longleftrightarrow> \<not> (\<exists>l \<in> set (m_tokens m). holds_spelling (sc_work (squeeze b fresh_scan)) (lt_token l))"
proof -
  note loc = matcher_searcher[OF assms]
  have "searcher.tracks (targets m) (m_longest m) fresh_scan fresh_scan"
    using targets_nonempty by (auto simp: searcher.tracks_def[OF loc] searcher.clear_def[OF loc] fresh_scan_def keep_tail_def)
  from scan_write_tracks(1)[OF assms this, of b] show ?thesis
    unfolding scan_string_def searcher.clear_def[OF loc] holds_spelling_targets by blast
qed

subsection \<open>The live tokens of a sandbox\<close>

datatype live_event = Remembered string string int | Scanned int

fun live_step :: "live_event \<Rightarrow> live \<Rightarrow> live" where
  "live_step (Remembered tok rt exp) lv = remember tok rt exp lv"
| "live_step (Scanned now) lv = snd (live_matcher now lv)"

definition live_ok :: "live \<Rightarrow> bool" where
  "live_ok lv \<longleftrightarrow> distinct (map lt_token (lv_tokens lv)) \<and> length (lv_tokens lv) \<le> maxLive
     \<and> (\<forall>m. lv_match lv = Some m \<longrightarrow> matcher_ok m \<and> set (m_tokens m) = set (lv_tokens lv))"

lemma live_okI:
  assumes "distinct (map lt_token (lv_tokens lv))" and "length (lv_tokens lv) \<le> maxLive"
    and "\<And>m. lv_match lv = Some m \<Longrightarrow> matcher_ok m \<and> set (m_tokens m) = set (lv_tokens lv)"
  shows "live_ok lv"
  using assms by (simp add: live_ok_def)

lemma live_okD:
  assumes "live_ok lv"
  shows "distinct (map lt_token (lv_tokens lv))" and "length (lv_tokens lv) \<le> maxLive"
    and "lv_match lv = Some m \<Longrightarrow> matcher_ok m" and "lv_match lv = Some m \<Longrightarrow> set (m_tokens m) = set (lv_tokens lv)"
  using assms by (simp_all add: live_ok_def)

lemma remember_ok:
  assumes ok: "live_ok lv"
  shows "live_ok (remember tok rt exp lv)"
proof (cases "find (\<lambda>l. lt_token l = tok) (lv_tokens lv)")
  case (Some l)
  then have l: "l \<in> set (lv_tokens lv)" by (auto dest: find_SomeD)
  have perm: "mset (remove1 l (lv_tokens lv) @ [l]) = mset (lv_tokens lv)" using l by simp
  then have "mset (map lt_token (remove1 l (lv_tokens lv) @ [l])) = mset (map lt_token (lv_tokens lv))"
    by (simp only: mset_map)
  then have "distinct (map lt_token (remove1 l (lv_tokens lv) @ [l]))"
    using live_okD(1)[OF ok] mset_eq_imp_distinct_iff by blast
  moreover have "set (remove1 l (lv_tokens lv) @ [l]) = set (lv_tokens lv)" using mset_eq_setD[OF perm] .
  moreover have "length (remove1 l (lv_tokens lv) @ [l]) \<le> maxLive" using mset_eq_length[OF perm] live_okD(2)[OF ok] by simp
  moreover have "remember tok rt exp lv = lv\<lparr>lv_tokens := remove1 l (lv_tokens lv) @ [l]\<rparr>" using Some by (simp add: remember_def)
  ultimately show ?thesis using live_okD(3,4)[OF ok] by (intro live_okI) simp_all
next
  case None
  let ?ls = "lv_tokens lv @ [\<lparr>lt_token = tok, lt_route = rt, lt_exp = exp\<rparr>]"
  have "tok \<notin> set (map lt_token (lv_tokens lv))" using None by (auto simp: find_None_iff)
  then have "distinct (map lt_token ?ls)" using live_okD(1)[OF ok] by simp
  then have "distinct (map lt_token (drop (length ?ls - maxLive) ?ls))" by (simp only: drop_map[symmetric] distinct_drop)
  moreover have "length (drop (length ?ls - maxLive) ?ls) \<le> maxLive" by simp
  moreover have "remember tok rt exp lv = \<lparr>lv_tokens = drop (length ?ls - maxLive) ?ls, lv_match = None\<rparr>"
    using None by (simp add: remember_def)
  ultimately show ?thesis by (intro live_okI) simp_all
qed

text \<open>The tokens the scan of a moment looks for.\<close>

definition unexpired :: "int \<Rightarrow> live \<Rightarrow> live_token set" where
  "unexpired now lv = {l \<in> set (lv_tokens lv). before_expiry now (lt_exp l)}"

lemma live_matcher_ok:
  assumes ok: "live_ok lv" and step: "live_matcher now lv = (m, lv')"
  shows "matcher_ok m" and "set (m_tokens m) = unexpired now lv" and "live_ok lv'"
proof -
  let ?P = "\<lambda>l. before_expiry now (lt_exp l)"
  define kept where "kept = filter ?P (lv_tokens lv)"
  define cached where "cached = (if length kept \<noteq> length (lv_tokens lv) then None else lv_match lv)"
  have m: "m = (case cached of Some m \<Rightarrow> m | None \<Rightarrow> newMatcher kept)" and lv': "lv' = \<lparr>lv_tokens = kept, lv_match = Some m\<rparr>"
    using step unfolding live_matcher_def Let_def kept_def[symmetric] cached_def[symmetric] by auto
  have same: "kept = lv_tokens lv" if "length kept = length (lv_tokens lv)"
    using that length_filter_less[of _ "lv_tokens lv" ?P] unfolding kept_def filter_id_conv by fastforce
  have good: "matcher_ok m \<and> set (m_tokens m) = set kept"
  proof (cases cached)
    case None
    then show ?thesis using newMatcher_ok by (simp add: m)
  next
    case (Some c)
    then have "lv_match lv = Some c" "kept = lv_tokens lv" using same by (auto simp: cached_def split: if_splits)
    then show ?thesis using live_okD(3,4)[OF ok] Some by (simp add: m)
  qed
  then show "matcher_ok m" "set (m_tokens m) = unexpired now lv" by (auto simp: kept_def unexpired_def)
  have "distinct (map lt_token kept)" unfolding kept_def using live_okD(1)[OF ok] by (rule distinct_map_filter)
  moreover have "length kept \<le> maxLive" using live_okD(2)[OF ok] le_trans[OF length_filter_le] unfolding kept_def by blast
  ultimately show "live_ok lv'" using good by (intro live_okI) (simp_all add: lv')
qed

lemma live_step_ok: "live_ok lv \<Longrightarrow> live_ok (live_step ev lv)"
proof (cases ev)
  case (Scanned now)
  obtain m lv' where "live_matcher now lv = (m, lv')" by fastforce
  then show "live_ok lv \<Longrightarrow> ?thesis" using live_matcher_ok(3) by (simp only: Scanned live_step.simps snd_conv)
qed (simp add: remember_ok)

definition live_after :: "live_event list \<Rightarrow> live" where
  "live_after evs = fold live_step evs no_live"

lemma live_after_ok: "live_ok (live_after evs)"
proof -
  have step: "live_ok lv \<Longrightarrow> live_ok (fold live_step evs lv)" for lv
  proof (induction evs arbitrary: lv)
    case (Cons ev evs)
    then show ?case using Cons.IH[OF live_step_ok[OF Cons.prems]] by (simp only: fold.simps o_apply)
  qed (simp only: fold.simps id_apply)
  have "live_ok no_live" by (simp add: live_ok_def no_live_def)
  from step[OF this] show ?thesis unfolding live_after_def .
qed


end
