(* ===== verification/Broker_Spell.thy ===== *)
theory Broker_Spell
  imports Broker_Live
begin

text \<open>
  Where a spelling of a token turns up: in the token itself, in its hex, percent and JSON escapes,
  and in the base64, with either alphabet, of any longer string with the token at any place.
\<close>

subsection \<open>Escapes\<close>

definition escaped :: "(nat \<Rightarrow> string) \<Rightarrow> string \<Rightarrow> string" where
  "escaped f s = concat (map (\<lambda>c. f (of_char c)) s)"

definition hex_bytes :: "string \<Rightarrow> nat \<Rightarrow> string" where
  "hex_bytes digits n = [digits ! (n div 16), digits ! (n mod 16)]"

lemma nth_concat_fixed:
  assumes "\<And>x. length (f x) = k" and "0 < k" and "i < k * length xs"
  shows "concat (map f xs) ! i = f (xs ! (i div k)) ! (i mod k)"
  using assms(3)
proof (induction xs arbitrary: i)
  case (Cons x xs)
  show ?case
  proof (cases "i < k")
    case False
    then have "i div k = Suc ((i - k) div k)" "i mod k = (i - k) mod k" using assms(2) by (simp_all add: le_div_geq le_mod_geq)
    moreover have "i - k < k * length xs" using Cons.prems False by simp
    ultimately show ?thesis using Cons.IH[of "i - k"] False by (simp add: nth_append assms(1))
  qed (simp add: nth_append assms(1))
qed simp

lemma length_escaped: "(\<And>n. length (f n) = k) \<Longrightarrow> length (escaped f s) = k * length s"
  by (induction s) (simp_all add: escaped_def)

lemma nth_escaped:
  "(\<And>n. length (f n) = k) \<Longrightarrow> 0 < k \<Longrightarrow> i < k * length s \<Longrightarrow> escaped f s ! i = f (byte_at s (i div k)) ! (i mod k)"
  unfolding escaped_def byte_at_def by (subst nth_concat_fixed[where k = k]) simp_all

lemma escaped_append [simp]: "escaped f (s @ t) = escaped f s @ escaped f t"
  by (simp add: escaped_def)

text \<open>The text of a string written in a form.\<close>

fun written :: "form \<Rightarrow> bool \<Rightarrow> string \<Rightarrow> string" where
  "written FormRaw url s = s"
| "written FormPercentUpper url s = escaped (\<lambda>n. ''%'' @ hex_bytes upperHex n) s"
| "written FormPercentLower url s = escaped (\<lambda>n. ''%'' @ hex_bytes lowerHex n) s"
| "written FormJSONUpper url s = escaped (\<lambda>n. [CHR 0x5C] @ ''u00'' @ hex_bytes upperHex n) s"
| "written FormJSONLower url s = escaped (\<lambda>n. [CHR 0x5C] @ ''u00'' @ hex_bytes lowerHex n) s"
| "written FormHexLower url s = escaped (hex_bytes lowerHex) s"
| "written FormHexUpper url s = escaped (hex_bytes upperHex) s"
| "written FormBase64 url s = map ((!) (if url then base64URL else base64Alphabet)) (b64_groups (bytes_of s))"

lemma spelled_eqI:
  assumes "length w = spell_length s tok" and "\<And>i. i < length w \<Longrightarrow> w ! i = spell_at s tok i"
  shows "spelled s tok = w"
  using assms by (auto simp: spelled_def list_eq_iff_nth_eq)

lemma mod_cases: "(i mod 2 = 0 \<or> i mod 2 = 1)" "(i mod 3 = 0 \<or> i mod 3 = 1 \<or> i mod 3 = 2)"
    "(i mod 6 = 0 \<or> i mod 6 = 1 \<or> i mod 6 = 2 \<or> i mod 6 = 3 \<or> i mod 6 = 4 \<or> i mod 6 = 5)" for i :: nat
  by presburger+

lemma spelled_percent:
  assumes "\<And>i. spell_at s tok i = percent_at digits tok i" and "spell_length s tok = 3 * length tok"
  shows "spelled s tok = escaped (\<lambda>n. ''%'' @ hex_bytes digits n) tok"
proof (rule spelled_eqI)
  fix i assume "i < length (escaped (\<lambda>n. ''%'' @ hex_bytes digits n) tok)"
  then have "i < 3 * length tok" by (simp add: length_escaped[where k = 3] hex_bytes_def)
  then show "escaped (\<lambda>n. ''%'' @ hex_bytes digits n) tok ! i = spell_at s tok i"
    using mod_cases(2)[of i] by (subst nth_escaped[where k = 3]) (auto simp: assms percent_at_def hex_bytes_def Let_def)
qed (simp add: length_escaped[where k = 3] hex_bytes_def assms)

lemma spelled_json:
  assumes "\<And>i. spell_at s tok i = json_at digits tok i" and "spell_length s tok = 6 * length tok"
  shows "spelled s tok = escaped (\<lambda>n. [CHR 0x5C] @ ''u00'' @ hex_bytes digits n) tok"
proof (rule spelled_eqI)
  fix i assume "i < length (escaped (\<lambda>n. [CHR 0x5C] @ ''u00'' @ hex_bytes digits n) tok)"
  then have "i < 6 * length tok" by (simp add: length_escaped[where k = 6] hex_bytes_def)
  then show "escaped (\<lambda>n. [CHR 0x5C] @ ''u00'' @ hex_bytes digits n) tok ! i = spell_at s tok i"
    using mod_cases(3)[of i] by (subst nth_escaped[where k = 6]) (auto simp: assms json_at_def hex_bytes_def Let_def)
qed (simp add: length_escaped[where k = 6] hex_bytes_def assms)

lemma spelled_hex:
  assumes "\<And>i. spell_at s tok i = hex_at digits tok i" and "spell_length s tok = 2 * length tok"
  shows "spelled s tok = escaped (hex_bytes digits) tok"
proof (rule spelled_eqI)
  fix i assume "i < length (escaped (hex_bytes digits) tok)"
  then have "i < 2 * length tok" by (simp add: length_escaped[where k = 2] hex_bytes_def)
  then show "escaped (hex_bytes digits) tok ! i = spell_at s tok i"
    using mod_cases(1)[of i] by (subst nth_escaped[where k = 2]) (auto simp: assms hex_at_def hex_bytes_def Let_def)
qed (simp add: length_escaped[where k = 2] hex_bytes_def assms)

subsection \<open>Base64\<close>

definition byte_or_0 :: "nat list \<Rightarrow> nat \<Rightarrow> nat" where
  "byte_or_0 bs i = (if i < length bs then bs ! i else 0)"

definition sextet :: "(nat \<Rightarrow> nat) \<Rightarrow> nat \<Rightarrow> nat" where
  "sextet f j =
     (let g = j div 4 * 3 in
      if j mod 4 = 0 then f g div 4
      else if j mod 4 = 1 then f g mod 4 * 16 + f (g + 1) div 16
      else if j mod 4 = 2 then f (g + 1) mod 16 * 4 + f (g + 2) div 64
      else f (g + 2) mod 64)"

lemma length_groups: "length (b64_groups bs) = (length bs * 8 + 5) div 6"
  by (induction bs rule: b64_groups.induct) simp_all

lemma byte_or_0_shift: "byte_or_0 (a # b # c # r) (Suc (Suc (Suc i))) = byte_or_0 r i"
  by (simp add: byte_or_0_def)

lemma nth_groups: "j < length (b64_groups bs) \<Longrightarrow> b64_groups bs ! j = sextet (byte_or_0 bs) j"
proof (induction bs arbitrary: j rule: b64_groups.induct)
  case (2 a)
  then have "j = 0 \<or> j = 1" by auto
  then show ?case by (auto simp: sextet_def byte_or_0_def)
next
  case (3 a b)
  then have "j = 0 \<or> j = 1 \<or> j = 2" by auto
  then show ?case by (auto simp: sextet_def byte_or_0_def)
next
  case (4 a b c r)
  show ?case
  proof (cases "j < 4")
    case True
    then have "j = 0 \<or> j = 1 \<or> j = 2 \<or> j = 3" by auto
    then show ?thesis by (auto simp: sextet_def byte_or_0_def)
  next
    case False
    then obtain k where k: "j = k + 4" by (metis le_add_diff_inverse2 not_less)
    have "(k + 4) div 4 * 3 = Suc (Suc (Suc (k div 4 * 3)))" by presburger
    then have "sextet (byte_or_0 (a # b # c # r)) j = sextet (byte_or_0 r) k"
      unfolding k sextet_def Let_def by (simp del: div_mult_self4 add: byte_or_0_shift)
    then show ?thesis using 4 k by simp
  qed
qed simp

lemma groups_append: "length xs mod 3 = 0 \<Longrightarrow> b64_groups (xs @ ys) = b64_groups xs @ b64_groups ys"
  by (induction xs rule: b64_groups.induct) simp_all

text \<open>The bytes a character of the spelling depends on are bytes of the token.\<close>

lemma base64_inside:
  assumes "al < 3" and "i < sp_length FormBase64 al n" and "j = i + base64Skip ! al" and "g = j div 4 * 3"
  shows "j mod 4 = 0 \<Longrightarrow> al \<le> g \<and> g < al + n"
    and "j mod 4 = 1 \<Longrightarrow> al \<le> g \<and> g + 1 < al + n"
    and "j mod 4 = 2 \<Longrightarrow> al \<le> g + 1 \<and> g + 2 < al + n"
    and "j mod 4 = 3 \<Longrightarrow> al \<le> g + 2 \<and> g + 2 < al + n"
    and "j < (( al + n) * 8 + 5) div 6"
proof -
  define l where "l = al + n"
  define t where "t = l div 3"
  have l: "l = 3 * t \<or> l = 3 * t + 1 \<or> l = 3 * t + 2" unfolding t_def by presburger
  define full where "full = (l * 8 + 5) div 6"
  have full: "l = 3 * t \<Longrightarrow> full = 4 * t" "l = 3 * t + 1 \<Longrightarrow> full = 4 * t + 2" "l = 3 * t + 2 \<Longrightarrow> full = 4 * t + 3"
    unfolding full_def by simp_all
  have mods: "l = 3 * t \<Longrightarrow> l mod 3 = 0" "l = 3 * t + 1 \<Longrightarrow> l mod 3 \<noteq> 0" "l = 3 * t + 2 \<Longrightarrow> l mod 3 \<noteq> 0"
    by (simp_all add: mod_Suc)
  have lim: "j < (if l mod 3 \<noteq> 0 then full - 1 else full)"
    using assms(2,3) by (simp add: l_def full_def Let_def split: if_splits)
  have lim2: "l = 3 * t \<Longrightarrow> j < 4 * t" "l = 3 * t + 1 \<Longrightarrow> j < 4 * t + 1" "l = 3 * t + 2 \<Longrightarrow> j < 4 * t + 2"
    using lim full mods by auto
  have skip: "al = 0 \<or> (al = 1 \<and> 2 \<le> j) \<or> (al = 2 \<and> 3 \<le> j)" using assms(1,3) by (auto simp: base64Skip_def less_Suc_eq numeral_eq_Suc)
  define q where "q = j div 4"
  have j: "j = 4 * q + j mod 4" "g = 3 * q" unfolding q_def assms(4) by simp_all
  show "j mod 4 = 0 \<Longrightarrow> al \<le> g \<and> g < al + n" "j mod 4 = 1 \<Longrightarrow> al \<le> g \<and> g + 1 < al + n"
       "j mod 4 = 2 \<Longrightarrow> al \<le> g + 1 \<and> g + 2 < al + n" "j mod 4 = 3 \<Longrightarrow> al \<le> g + 2 \<and> g + 2 < al + n"
    using j skip l lim2 unfolding l_def[symmetric] by (linarith | auto)+
  show "j < ((al + n) * 8 + 5) div 6" using lim unfolding full_def l_def by (auto split: if_splits)
qed

lemma length_spelled_base64:
  "al < 3 \<Longrightarrow> base64Skip ! al + sp_length FormBase64 al n \<le> ((al + n) * 8 + 5) div 6 \<or> sp_length FormBase64 al n = 0"
  by (auto simp: Let_def)

definition token_char_set :: "char \<Rightarrow> bool" where
  "token_char_set c \<longleftrightarrow> is_alpha c \<or> is_digit c \<or> c \<in> set ''-_.''"

lemma token_char_bits:
  assumes "token_char_set c"
  shows "(of_char c :: nat) div 4 < 32" and "(of_char c :: nat) div 16 < 8" and "(of_char c :: nat) div 64 < 2"
    and "(of_char c :: nat) mod 64 < 62"
proof -
  have range: "(of_char c :: nat) \<in> {45, 46, 95} \<union> {48..57} \<union> {65..90} \<union> {97..122}"
    using assms by (auto simp: token_char_set_def is_alpha_def is_lower_nat is_upper_nat is_digit_nat)
  then have less: "(of_char c :: nat) < 123" by auto
  then show "(of_char c :: nat) div 4 < 32" "(of_char c :: nat) div 16 < 8" "(of_char c :: nat) div 64 < 2"
    by (simp_all add: less_mult_imp_div_less)
  show "(of_char c :: nat) mod 64 < 62"
  proof (cases "(of_char c :: nat) < 64")
    case False
    then have "(of_char c :: nat) mod 64 = of_char c - 64" using less by (simp add: mod_if)
    then show ?thesis using less by simp
  qed (use range in auto)
qed

lemma around_inside:
  assumes "al \<le> k" and "k < al + length tok" and "length pre = al"
  shows "around tok (int k - int al) = byte_or_0 (bytes_of (pre @ tok @ post)) k"
proof -
  have "\<not> int k - int al < 0" "\<not> int k - int al \<ge> int (length tok)" "nat (int k - int al) = k - al" "k - al < length tok"
    using assms by auto
  then show ?thesis
    using assms unfolding around_def by (simp add: byte_or_0_def bytes_of_def byte_at_def nth_append)
qed

lemma base64_at_sextet:
  assumes "al < 3" and "i < sp_length FormBase64 al (length tok)" and "length pre = al" and "j = i + base64Skip ! al"
    and "list_all token_char_set tok"
  shows "base64_at al tok i = base64Alphabet ! sextet (byte_or_0 (bytes_of (pre @ tok @ post))) j"
    and "sextet (byte_or_0 (bytes_of (pre @ tok @ post))) j < 62"
proof -
  define g where "g = j div 4 * 3"
  note inside = base64_inside[OF assms(1,2,4) g_def]
  let ?f = "byte_or_0 (bytes_of (pre @ tok @ post))"
  have at: "al \<le> k \<Longrightarrow> k < al + length tok \<Longrightarrow> around tok (int k - int al) = ?f k" for k
    using around_inside[OF _ _ assms(3)] .
  have bits: "?f k div 4 < 32" "?f k div 16 < 8" "?f k div 64 < 2" "?f k mod 64 < 62" if "al \<le> k" "k < al + length tok" for k
  proof -
    have "?f k = of_char (tok ! (k - al))"
      using that assms(3) less_diff_conv2[OF that(1), of "length tok"] by (simp add: byte_or_0_def bytes_of_def nth_append add.commute)
    moreover have "token_char_set (tok ! (k - al))" using assms(5) that by (simp add: list_all_length)
    ultimately show "?f k div 4 < 32" "?f k div 16 < 8" "?f k div 64 < 2" "?f k mod 64 < 62"
      using token_char_bits by simp_all
  qed
  have shift: "int g - int al + 1 = int (g + 1) - int al" "int g - int al + 2 = int (g + 2) - int al" by simp_all
  consider "j mod 4 = 0" | "j mod 4 = 1" | "j mod 4 = 2" | "j mod 4 = 3" by linarith
  then show "base64_at al tok i = base64Alphabet ! sextet ?f j"
  proof cases
    case 1
    then show ?thesis using inside(1) at[of g]
      unfolding base64_at_def sextet_def assms(4)[symmetric] g_def[symmetric] Let_def by simp
  next
    case 2
    then show ?thesis using inside(2) at[of g] at[of "g + 1"]
      unfolding base64_at_def sextet_def assms(4)[symmetric] g_def[symmetric] Let_def shift by simp
  next
    case 3
    then show ?thesis using inside(3) at[of "g + 1"] at[of "g + 2"]
      unfolding base64_at_def sextet_def assms(4)[symmetric] g_def[symmetric] Let_def shift by simp
  next
    case 4
    then show ?thesis using inside(4) at[of "g + 2"]
      unfolding base64_at_def sextet_def assms(4)[symmetric] g_def[symmetric] Let_def shift by simp
  qed
  consider "j mod 4 = 0" | "j mod 4 = 1" | "j mod 4 = 2" | "j mod 4 = 3" by linarith
  then show "sextet ?f j < 62"
  proof cases
    case 1
    then show ?thesis using inside(1) bits(1)[of g] unfolding sextet_def g_def[symmetric] Let_def by simp
  next
    case 2
    then have "?f g mod 4 * 16 + ?f (g + 1) div 16 < 62" using inside(2) bits(2)[of "g + 1"] mod_less_divisor[of 4 "?f g"] by linarith
    then show ?thesis using 2 unfolding sextet_def g_def[symmetric] Let_def by simp
  next
    case 3
    then have "?f (g + 1) mod 16 * 4 + ?f (g + 2) div 64 < 62"
      using inside(3) bits(3)[of "g + 2"] mod_less_divisor[of 16 "?f (g + 1)"] by linarith
    then show ?thesis using 3 unfolding sextet_def g_def[symmetric] Let_def by simp
  next
    case 4
    then show ?thesis using inside(4) bits(4)[of "g + 2"] unfolding sextet_def g_def[symmetric] Let_def by simp
  qed
qed

lemma alphabets_agree: "v < 62 \<Longrightarrow> base64URL ! v = base64Alphabet ! v"
proof -
  assume v: "v < 62"
  have "take 62 base64URL = take 62 base64Alphabet" by code_simp
  then show ?thesis using v by (metis nth_take)
qed

lemma spelled_base64:
  assumes "list_all token_char_set tok" and "sp_form s = FormBase64" and "sp_align s = length pre mod 3"
  shows "sublist (spelled s tok) (written FormBase64 url (pre @ tok @ post))"
proof -
  define al where "al = length pre mod 3"
  define p0 where "p0 = take (length pre - al) pre"
  define p1 where "p1 = drop (length pre - al) pre"
  have pre: "pre = p0 @ p1" by (simp add: p0_def p1_def)
  have al: "al < 3" "length p1 = al" by (simp_all add: al_def p1_def)
  have "length p0 = length pre - length pre mod 3" by (simp add: p0_def al_def)
  then have p0: "length (bytes_of p0) mod 3 = 0" by (simp add: bytes_of_def minus_mod_eq_mult_div)
  let ?A = "if url then base64URL else base64Alphabet" and ?bs = "bytes_of (p1 @ tok @ post)" and ?k = "base64Skip ! al"
  define n where "n = sp_length FormBase64 al (length tok)"
  have n: "spell_length s tok = n" by (simp add: n_def spell_length_def assms(2,3) al_def)
  have split: "written FormBase64 url (pre @ tok @ post) = map ((!) ?A) (b64_groups (bytes_of p0)) @ map ((!) ?A) (b64_groups ?bs)"
    using groups_append[OF p0, of ?bs] by (simp add: pre bytes_of_def)
  have len: "j < length (b64_groups ?bs)" if "i < n" "j = i + ?k" for i j
  proof -
    have "j < ((al + length tok) * 8 + 5) div 6" using base64_inside(5)[OF al(1) that(1)[unfolded n_def] that(2) refl] .
    also have "\<dots> \<le> (length ?bs * 8 + 5) div 6" by (intro div_le_mono) (simp add: bytes_of_def al)
    finally show ?thesis by (simp add: length_groups)
  qed
  have char: "spell_at s tok i = map ((!) ?A) (b64_groups ?bs) ! (i + ?k)" if i: "i < n" for i
  proof -
    have "spell_at s tok i = base64Alphabet ! sextet (byte_or_0 ?bs) (i + ?k)"
      using base64_at_sextet(1)[OF al(1) i[unfolded n_def] al(2) refl assms(1)] by (simp add: spell_at_def assms(2,3) al_def)
    moreover have "b64_groups ?bs ! (i + ?k) = sextet (byte_or_0 ?bs) (i + ?k)" by (rule nth_groups[OF len[OF i refl]])
    moreover have "sextet (byte_or_0 ?bs) (i + ?k) < 62" by (rule base64_at_sextet(2)[OF al(1) i[unfolded n_def] al(2) refl assms(1)])
    ultimately show ?thesis using len[OF i refl] alphabets_agree by simp
  qed
  have room: "?k + n \<le> length (b64_groups ?bs)" if "0 < n" using len[of "n - 1" "n - 1 + ?k"] that by linarith
  have "spelled s tok = take n (drop ?k (map ((!) ?A) (b64_groups ?bs)))"
  proof (cases "0 < n")
    case True
    show ?thesis
      by (rule spelled_eqI) (use room[OF True] char in \<open>simp_all add: n add.commute\<close>)
  qed (simp add: spelled_def n)
  then have "sublist (spelled s tok) (map ((!) ?A) (b64_groups ?bs))"
    by (simp only: sublist_order.order.trans[OF sublist_take sublist_drop])
  then show ?thesis unfolding split sublist_append by blast
qed

lemma spell_length_long: "32 \<le> length tok \<Longrightarrow> sp_align s < 3 \<Longrightarrow> anchorLen \<le> spell_length s tok"
proof -
  assume tok: "32 \<le> length tok" and al: "sp_align s < 3"
  show ?thesis
  proof (cases "sp_form s")
    case FormBase64
    have "base64Skip ! sp_align s \<le> 3" using al by (auto simp: base64Skip_def less_Suc_eq numeral_eq_Suc)
    moreover have "43 \<le> ((sp_align s + length tok) * 8 + 5) div 6" using tok by simp
    ultimately have "32 \<le> ((sp_align s + length tok) * 8 + 5) div 6 - 1 - base64Skip ! sp_align s"
        "32 \<le> ((sp_align s + length tok) * 8 + 5) div 6 - base64Skip ! sp_align s" by linarith+
    then show ?thesis by (simp add: spell_length_def FormBase64 anchorLen_def Let_def)
  qed (use tok in \<open>simp_all add: spell_length_def anchorLen_def\<close>)
qed

text \<open>A token cannot hide in the encoding of something longer. Any spelling the scan knows, and the
  base64 in either alphabet of any string with the token at any offset, holds a spelling of the token
  the scan looks for, when the token is at least 32 characters of a token's alphabet.\<close>
theorem token_spelled_in_encoding:
  assumes "32 \<le> length tok" and "list_all token_char_set tok"
  shows "holds_spelling (written f url (pre @ tok @ post)) tok"
proof -
  define al where "al = (if f = FormBase64 then length pre mod 3 else 0)"
  define s where "s = \<lparr>sp_tok = 0, sp_form = f, sp_align = al\<rparr>"
  have sel: "sp_form s = f" "sp_align s = al" by (simp_all add: s_def)
  have "al \<in> set [0, 1, 2]" by (auto simp: al_def)
  then have "s \<in> set (spellingsOf 0)" by (cases f) (auto simp: spellingsOf_def s_def al_def)
  moreover have "anchorLen \<le> spell_length s tok" using spell_length_long[OF assms(1)] by (simp add: sel al_def)
  ultimately have member: "spelled s tok \<in> set (token_spellings tok)" by (auto simp: token_spellings_def)
  have mid: "sublist m (a @ m @ b)" for a m b :: string by (simp add: sublist_appendI)
  have "sublist (spelled s tok) (written f url (pre @ tok @ post))"
  proof (cases f)
    case FormRaw
    have "spelled s tok = tok" by (rule spelled_eqI) (simp_all add: spell_length_def spell_at_def sel FormRaw)
    then show ?thesis using mid by (simp add: FormRaw)
  next
    case FormBase64
    then show ?thesis using spelled_base64[OF assms(2)] by (simp add: sel al_def)
  qed (use mid in \<open>simp_all add: spelled_percent spelled_json spelled_hex spell_at_def spell_length_def sel\<close>)
  then show ?thesis using member by (auto simp: holds_spelling_def list_ex_iff contains_str_sublist)
qed

theorem token_spelled_in_encoding_witness:
  "holds_spelling (written FormBase64 True (''user:'' @ ''eyJzYiI6ImIifQ.abcdefghijklmnopqr'' @ ''!'')) ''eyJzYiI6ImIifQ.abcdefghijklmnopqr''"
  by (rule token_spelled_in_encoding) (simp_all add: token_char_set_def is_alpha_def is_lower_def is_upper_def is_digit_def)

end
