(* ===== verification/Broker_Tls.thy ===== *)
theory Broker_Tls
  imports Policy_Types
begin

text \<open>
  The transports of a route with \<open>inject.tls\<close>, \<open>internal/broker/tlsroute.go\<close>. A transport is
  identified by the digests of the CA bundle it trusts and of the certificate chain it presents; the
  configuration of its handshake is Go's and left out. \<open>tt_idle\<close> says that connections no request
  uses may be open on it: a request that ends leaves its connection so, and
  \<open>CloseIdleConnections\<close> closes them. The transports built so far are a list, and a request holds
  one by its place in it.
\<close>

subsection \<open>Transports\<close>

record tls_key =
  tk_ca :: string
  tk_cert :: string

record tls_transport =
  tt_key :: tls_key
  tt_refs :: int
  tt_retired :: bool
  tt_idle :: bool

record route_tls =
  rl_all :: "tls_transport list"
  rl_cur :: "nat option"
  rl_closed :: bool

definition fresh_tls :: route_tls where
  "fresh_tls = \<lparr>rl_all = [], rl_cur = None, rl_closed = False\<rparr>"

definition retire :: "tls_transport \<Rightarrow> tls_transport" where
  "retire t = t\<lparr>tt_retired := True, tt_idle := (if tt_refs t = 0 then False else tt_idle t)\<rparr>"

definition retire_current :: "route_tls \<Rightarrow> tls_transport list" where
  "retire_current rl = (case rl_cur rl of None \<Rightarrow> rl_all rl | Some i \<Rightarrow> (rl_all rl)[i := retire (rl_all rl ! i)])"

text \<open>\<open>routeTransport\<close>: the transport for a key, with the request counted on it, or nothing on a route
  whose sandbox went.\<close>

definition routeTransport :: "tls_key \<Rightarrow> route_tls \<Rightarrow> nat option \<times> route_tls" where
  "routeTransport key rl =
     (if rl_closed rl then (None, rl)
      else
        let new = (Some (length (rl_all rl)),
          rl\<lparr>rl_all := retire_current rl @ [\<lparr>tt_key = key, tt_refs = 1, tt_retired = False, tt_idle = False\<rparr>],
             rl_cur := Some (length (rl_all rl))\<rparr>) in
        case rl_cur rl of
          Some i \<Rightarrow>
            (if tt_key (rl_all rl ! i) = key
             then (Some i, rl\<lparr>rl_all := (rl_all rl)[i := (rl_all rl ! i)\<lparr>tt_refs := tt_refs (rl_all rl ! i) + 1\<rparr>]\<rparr>)
             else new)
        | None \<Rightarrow> new)"

definition release_transport :: "nat \<Rightarrow> route_tls \<Rightarrow> route_tls" where
  "release_transport i rl =
     (let t = rl_all rl ! i; n = tt_refs t - 1 in
      rl\<lparr>rl_all := (rl_all rl)[i := t\<lparr>tt_refs := n, tt_idle := (if tt_retired t \<and> n = 0 then False else tt_idle t)\<rparr>]\<rparr>)"

definition closeTransport :: "route_tls \<Rightarrow> route_tls" where
  "closeTransport rl = \<lparr>rl_all = retire_current rl, rl_cur = None, rl_closed = True\<rparr>"

subsection \<open>Requests on a route\<close>

text \<open>A request asks for a transport, leaves a connection on it that others may use, and lets go of it
  once; the sandbox may go at any point.\<close>

datatype tls_event = Ask nat tls_key | Leave nat | Done nat | Gone

record tls_state =
  tl_route :: route_tls
  tl_users :: "nat \<rightharpoonup> nat \<times> tls_key"

fun tls_step :: "tls_event \<Rightarrow> tls_state \<Rightarrow> tls_state" where
  "tls_step (Ask q key) s =
     (if tl_users s q \<noteq> None then s
      else case routeTransport key (tl_route s) of
        (None, rl) \<Rightarrow> s\<lparr>tl_route := rl\<rparr>
      | (Some i, rl) \<Rightarrow> \<lparr>tl_route = rl, tl_users = (tl_users s)(q \<mapsto> (i, key))\<rparr>)"
| "tls_step (Leave q) s =
     (case tl_users s q of
        None \<Rightarrow> s
      | Some (i, _) \<Rightarrow>
          s\<lparr>tl_route := (tl_route s)\<lparr>rl_all := (rl_all (tl_route s))[i := (rl_all (tl_route s) ! i)\<lparr>tt_idle := True\<rparr>]\<rparr>\<rparr>)"
| "tls_step (Done q) s =
     (case tl_users s q of
        None \<Rightarrow> s
      | Some (i, _) \<Rightarrow> \<lparr>tl_route = release_transport i (tl_route s), tl_users = (tl_users s)(q := None)\<rparr>)"
| "tls_step Gone s = s\<lparr>tl_route := closeTransport (tl_route s)\<rparr>"

definition no_tls :: tls_state where
  "no_tls = \<lparr>tl_route = fresh_tls, tl_users = Map.empty\<rparr>"

definition tls_after :: "tls_event list \<Rightarrow> tls_state" where
  "tls_after evs = fold tls_step evs no_tls"

subsection \<open>No connection outlives its certificate\<close>

definition users_of :: "(nat \<rightharpoonup> nat \<times> tls_key) \<Rightarrow> nat \<Rightarrow> nat set" where
  "users_of users i = {q. \<exists>key. users q = Some (i, key)}"

text \<open>One transport: it counts its requests, all of which asked for its key, only the current one is in
  service, and one out of service without requests has no connection open.\<close>

definition transport_ok :: "nat option \<Rightarrow> (nat \<rightharpoonup> nat \<times> tls_key) \<Rightarrow> nat \<Rightarrow> tls_transport \<Rightarrow> bool" where
  "transport_ok cur users i t \<longleftrightarrow>
     tt_refs t = int (card (users_of users i)) \<and> (\<forall>q key. users q = Some (i, key) \<longrightarrow> key = tt_key t)
     \<and> (tt_retired t \<longleftrightarrow> cur \<noteq> Some i) \<and> (tt_retired t \<and> tt_refs t = 0 \<longrightarrow> \<not> tt_idle t)"

definition tls_ok :: "tls_state \<Rightarrow> bool" where
  "tls_ok s \<longleftrightarrow> finite (dom (tl_users s))
     \<and> (\<forall>q i key. tl_users s q = Some (i, key) \<longrightarrow> i < length (rl_all (tl_route s)))
     \<and> (\<forall>i. rl_cur (tl_route s) = Some i \<longrightarrow> i < length (rl_all (tl_route s)))
     \<and> (rl_closed (tl_route s) \<longrightarrow> rl_cur (tl_route s) = None)
     \<and> (\<forall>i < length (rl_all (tl_route s)). transport_ok (rl_cur (tl_route s)) (tl_users s) i (rl_all (tl_route s) ! i))"

lemma tls_okD:
  assumes "tls_ok s"
  shows "finite (dom (tl_users s))" and "tl_users s q = Some (i, key) \<Longrightarrow> i < length (rl_all (tl_route s))"
    and "rl_cur (tl_route s) = Some i \<Longrightarrow> i < length (rl_all (tl_route s))"
    and "rl_closed (tl_route s) \<Longrightarrow> rl_cur (tl_route s) = None"
    and "i < length (rl_all (tl_route s)) \<Longrightarrow> transport_ok (rl_cur (tl_route s)) (tl_users s) i (rl_all (tl_route s) ! i)"
  using assms unfolding tls_ok_def by blast+

lemma tls_okI:
  assumes "finite (dom (tl_users s))" and "\<And>q i key. tl_users s q = Some (i, key) \<Longrightarrow> i < length (rl_all (tl_route s))"
    and "\<And>i. rl_cur (tl_route s) = Some i \<Longrightarrow> i < length (rl_all (tl_route s))"
    and "rl_closed (tl_route s) \<Longrightarrow> rl_cur (tl_route s) = None"
    and "\<And>i. i < length (rl_all (tl_route s)) \<Longrightarrow> transport_ok (rl_cur (tl_route s)) (tl_users s) i (rl_all (tl_route s) ! i)"
  shows "tls_ok s"
  using assms unfolding tls_ok_def by blast

lemma users_of_finite: "finite (dom users) \<Longrightarrow> finite (users_of users i)"
  by (rule finite_subset[of _ "dom users"]) (auto simp: users_of_def)

lemma users_of_add: "users q = None \<Longrightarrow> users_of (users(q \<mapsto> (i, key))) j = (if j = i then insert q (users_of users j) else users_of users j)"
  by (auto simp: users_of_def)

lemma users_of_del: "users q = Some (i, key) \<Longrightarrow> users_of (users(q := None)) j = (if j = i then users_of users j - {q} else users_of users j)"
  by (auto simp: users_of_def)

lemma card_add: "finite (dom users) \<Longrightarrow> users q = None \<Longrightarrow> card (insert q (users_of users i)) = Suc (card (users_of users i))"
  by (rule card_insert_disjoint[OF users_of_finite]) (auto simp: users_of_def)

lemma card_del: "finite (dom users) \<Longrightarrow> users q = Some (i, key) \<Longrightarrow> int (card (users_of users i - {q})) = int (card (users_of users i)) - 1"
proof -
  assume fin: "finite (dom users)" and q: "users q = Some (i, key)"
  then have "q \<in> users_of users i" by (auto simp: users_of_def)
  then show ?thesis using card_Suc_Diff1[OF users_of_finite[OF fin]] by fastforce
qed

lemma retire_current_nth:
  "length (retire_current rl) = length (rl_all rl)"
  "j < length (rl_all rl) \<Longrightarrow> retire_current rl ! j = (if rl_cur rl = Some j then retire (rl_all rl ! j) else rl_all rl ! j)"
  by (auto simp: retire_current_def split: option.splits)

text \<open>A transport that goes out of service is sound again, whatever comes after it.\<close>

lemma retired_ok:
  assumes "transport_ok cur users j t" and "cur' \<noteq> Some j" and "users_of users' j = users_of users j"
    and "\<And>q key. users' q = Some (j, key) \<Longrightarrow> users q = Some (j, key)"
  shows "transport_ok cur' users' j (if cur = Some j then retire t else t)"
proof -
  have keys: "key = tt_key t" if "users' q = Some (j, key)" for q key
    using assms(1) assms(4)[OF that] unfolding transport_ok_def by blast
  show ?thesis using assms(1,2,3) keys unfolding transport_ok_def by (simp add: retire_def)
qed

lemma tls_ask:
  assumes ok: "tls_ok s" and free: "tl_users s q = None" and rt: "routeTransport key (tl_route s) = (Some i, rl)"
  shows "tls_ok \<lparr>tl_route = rl, tl_users = (tl_users s)(q \<mapsto> (i, key))\<rparr>"
proof -
  let ?rl = "tl_route s" and ?us = "tl_users s" and ?us' = "(tl_users s)(q \<mapsto> (i, key))"
  note okD = tls_okD[OF ok]
  have open_: "\<not> rl_closed ?rl" using rt by (auto simp: routeTransport_def)
  show ?thesis
  proof (cases "\<exists>c. rl_cur ?rl = Some c \<and> tt_key (rl_all ?rl ! c) = key")
    case True
    then have i: "rl_cur ?rl = Some i" "tt_key (rl_all ?rl ! i) = key"
      and rl: "rl = ?rl\<lparr>rl_all := (rl_all ?rl)[i := (rl_all ?rl ! i)\<lparr>tt_refs := tt_refs (rl_all ?rl ! i) + 1\<rparr>]\<rparr>"
      using rt open_ by (auto simp: routeTransport_def)
    have lt: "i < length (rl_all ?rl)" by (rule okD(3)[OF i(1)])
    show ?thesis
    proof (rule tls_okI, goal_cases)
      case (5 j)
      then have "transport_ok (Some i) ?us j (rl_all ?rl ! j)" using okD(5)[of j] i(1) rl by simp
      then have "transport_ok (Some i) ?us' j (if j = i then (rl_all ?rl ! i)\<lparr>tt_refs := tt_refs (rl_all ?rl ! i) + 1\<rparr> else rl_all ?rl ! j)"
        using users_of_add[of ?us q i key j, OF free] card_add[OF okD(1) free, of i] i(2) free by (auto simp: transport_ok_def)
      then show ?case using i(1) lt 5 by (cases "j = i") (simp_all add: rl)
    qed (use okD lt i open_ in \<open>auto simp: rl split: if_splits\<close>)
  next
    case False
    then have i: "i = length (rl_all ?rl)"
      and rl: "rl = ?rl\<lparr>rl_all := retire_current ?rl @ [\<lparr>tt_key = key, tt_refs = 1, tt_retired = False, tt_idle = False\<rparr>], rl_cur := Some i\<rparr>"
      using rt open_ by (auto simp: routeTransport_def Let_def split: option.splits)
    have none: "users_of ?us i = {}" using okD(2) by (fastforce simp: users_of_def i)
    show ?thesis
    proof (rule tls_okI, goal_cases)
      case (5 j)
      show ?case
      proof (cases "j = i")
        case True
        then show ?thesis
          using users_of_add[of ?us q i key i, OF free] none okD(2)[of _ i] by (auto simp: rl transport_ok_def nth_append retire_current_nth i)
      next
        case ne: False
        then have lt: "j < length (rl_all ?rl)" using 5 by (simp add: rl retire_current_nth i)
        have "transport_ok (Some i) ?us' j (if rl_cur ?rl = Some j then retire (rl_all ?rl ! j) else rl_all ?rl ! j)"
          by (rule retired_ok[OF okD(5)[OF lt]]) (use ne users_of_add[of ?us q i key j, OF free] in \<open>auto split: if_splits\<close>)
        then show ?thesis using lt by (simp add: rl nth_append retire_current_nth)
      qed
    next
      case (2 r k key')
      then show ?case using okD(2)[of r k key'] by (auto simp: rl retire_current_nth i less_SucI split: if_splits)
    qed (use okD open_ in \<open>auto simp: rl retire_current_nth i\<close>)
  qed
qed

lemma tls_done:
  assumes ok: "tls_ok s" and q: "tl_users s q = Some (i, key)"
  shows "tls_ok \<lparr>tl_route = release_transport i (tl_route s), tl_users = (tl_users s)(q := None)\<rparr>"
proof -
  let ?rl = "tl_route s" and ?us = "tl_users s"
  note okD = tls_okD[OF ok]
  show ?thesis
  proof (rule tls_okI, goal_cases)
    case (5 j)
    then have lt: "j < length (rl_all ?rl)" by (simp add: release_transport_def Let_def)
    let ?t = "rl_all ?rl ! j" and ?n = "tt_refs (rl_all ?rl ! i) - 1"
    have "transport_ok (rl_cur ?rl) (?us(q := None)) j
        (if j = i then ?t\<lparr>tt_refs := ?n, tt_idle := (if tt_retired ?t \<and> ?n = 0 then False else tt_idle ?t)\<rparr> else ?t)"
      using okD(5)[OF lt] users_of_del[of ?us q i key j, OF q] card_del[OF okD(1) q] by (auto simp: transport_ok_def)
    then show ?case using lt by (cases "j = i"; cases "tt_retired ?t \<and> ?n = 0") (auto simp: release_transport_def Let_def)
  qed (use okD in \<open>auto simp: release_transport_def Let_def split: if_splits\<close>)
qed

lemma tls_leave:
  assumes ok: "tls_ok s" and q: "tl_users s q = Some (i, key)"
  shows "tls_ok (s\<lparr>tl_route := (tl_route s)\<lparr>rl_all := (rl_all (tl_route s))[i := (rl_all (tl_route s) ! i)\<lparr>tt_idle := True\<rparr>]\<rparr>\<rparr>)"
proof -
  let ?rl = "tl_route s" and ?us = "tl_users s"
  note okD = tls_okD[OF ok]
  have "q \<in> users_of ?us i" using q by (auto simp: users_of_def)
  then have pos: "0 < card (users_of ?us i)" using users_of_finite[OF okD(1), of i] card_gt_0_iff by blast
  show ?thesis
  proof (rule tls_okI, goal_cases)
    case (5 j)
    then have lt: "j < length (rl_all ?rl)" by simp
    have "transport_ok (rl_cur ?rl) ?us j (if j = i then (rl_all ?rl ! i)\<lparr>tt_idle := True\<rparr> else rl_all ?rl ! j)"
      using okD(5)[OF lt] pos by (auto simp: transport_ok_def)
    then show ?case using lt by (cases "j = i") simp_all
  qed (use okD in auto)
qed

lemma tls_gone:
  assumes ok: "tls_ok s"
  shows "tls_ok (s\<lparr>tl_route := closeTransport (tl_route s)\<rparr>)"
proof -
  note okD = tls_okD[OF ok]
  show ?thesis
  proof (rule tls_okI, goal_cases)
    case (5 j)
    then have lt: "j < length (rl_all (tl_route s))" by (simp add: closeTransport_def retire_current_nth)
    have "transport_ok None (tl_users s) j (if rl_cur (tl_route s) = Some j then retire (rl_all (tl_route s) ! j) else rl_all (tl_route s) ! j)"
      by (rule retired_ok[OF okD(5)[OF lt]]) simp_all
    then show ?case using lt by (simp add: closeTransport_def retire_current_nth)
  qed (use okD in \<open>auto simp: closeTransport_def retire_current_nth\<close>)
qed

lemma tls_step_ok: "tls_ok s \<Longrightarrow> tls_ok (tls_step ev s)"
proof (cases ev)
  case (Ask q key)
  assume ok: "tls_ok s"
  obtain oi rl where rt: "routeTransport key (tl_route s) = (oi, rl)" by fastforce
  show ?thesis
  proof (cases "tl_users s q = None")
    case True
    show ?thesis
    proof (cases oi)
      case None
      then have "rl = tl_route s" using rt by (auto simp: routeTransport_def Let_def split: if_splits option.splits)
      then show ?thesis using ok rt None True by (simp add: Ask)
    next
      case (Some i)
      then show ?thesis using tls_ask[OF ok True] rt True by (simp add: Ask)
    qed
  qed (use ok in \<open>simp add: Ask\<close>)
next
  case (Leave q)
  assume ok: "tls_ok s"
  show ?thesis using tls_leave[OF ok] ok by (cases "tl_users s q") (auto simp: Leave)
next
  case (Done q)
  assume ok: "tls_ok s"
  show ?thesis using tls_done[OF ok] ok by (cases "tl_users s q") (auto simp: Done)
qed (simp add: tls_gone)

lemma tls_after_ok: "tls_ok (tls_after evs)"
proof -
  have step: "tls_ok t \<Longrightarrow> tls_ok (fold tls_step evs t)" for t
  proof (induction evs arbitrary: t)
    case (Cons ev evs)
    then show ?case using Cons.IH[OF tls_step_ok[OF Cons.prems]] by (simp only: fold.simps o_apply)
  qed (simp only: fold.simps id_apply)
  have "tls_ok no_tls" by (simp add: tls_ok_def no_tls_def fresh_tls_def)
  from step[OF this] show ?thesis unfolding tls_after_def .
qed

text \<open>C33: A connection never outlives the certificate it was opened with. Through any order of requests,
  rotations and the end of the sandbox, a request rides a transport of exactly the CA and certificate
  it resolved, only the current transport is in service, none is once the sandbox went, and a
  transport out of service that no request uses has no open connection.\<close>
theorem transports_isolated:
  assumes "i < length (rl_all (tl_route (tls_after evs)))" and "t = rl_all (tl_route (tls_after evs)) ! i"
  shows "(tl_users (tls_after evs) q = Some (i, key) \<longrightarrow> key = tt_key t)
    \<and> (tt_retired t = (rl_cur (tl_route (tls_after evs)) \<noteq> Some i))
    \<and> (rl_closed (tl_route (tls_after evs)) \<longrightarrow> tt_retired t)
    \<and> (tt_retired t \<and> users_of (tl_users (tls_after evs)) i = {} \<longrightarrow> \<not> tt_idle t)"
  using tls_okD(4)[OF tls_after_ok] tls_okD(5)[OF tls_after_ok assms(1)] unfolding assms(2)[symmetric] transport_ok_def
  by auto

definition example_key :: "string \<Rightarrow> tls_key" where
  "example_key c = \<lparr>tk_ca = ''ca'', tk_cert = c\<rparr>"

theorem transports_isolated_witness:
  "users_of (tl_users (tls_after [Ask 5 (example_key ''a''), Leave 5, Ask 6 (example_key ''b''), Done 5])) 0 = {}
   \<and> \<not> tt_idle (rl_all (tl_route (tls_after [Ask 5 (example_key ''a''), Leave 5, Ask 6 (example_key ''b''), Done 5])) ! 0)"
proof -
  let ?s = "tls_after [Ask 5 (example_key ''a''), Leave 5, Ask 6 (example_key ''b''), Done 5]"
  have s: "?s = \<lparr>tl_route = \<lparr>rl_all = [\<lparr>tt_key = example_key ''a'', tt_refs = 0, tt_retired = True, tt_idle = False\<rparr>,
      \<lparr>tt_key = example_key ''b'', tt_refs = 1, tt_retired = False, tt_idle = False\<rparr>], rl_cur = Some 1, rl_closed = False\<rparr>,
      tl_users = Map.empty(6 \<mapsto> (1, example_key ''b''))\<rparr>"
    by (simp add: tls_after_def no_tls_def fresh_tls_def routeTransport_def retire_current_def retire_def release_transport_def
        example_key_def Let_def fun_eq_iff)
  have free: "users_of (tl_users ?s) 0 = {}" unfolding s users_of_def by (auto split: if_splits)
  have "0 < length (rl_all (tl_route ?s))" by (simp add: s)
  from transports_isolated[OF this refl] free show ?thesis by (simp add: s)
qed

end
