(* ===== verification/Broker_Find.thy ===== *)
theory Broker_Find
  imports Broker_Live
begin

text \<open>
  Where the broker looks for a session token outside its carrier, \<open>findPlaceholder\<close> and its helpers in
  \<open>internal/broker/placeholder.go\<close>. What \<open>compress/gzip\<close>, \<open>zlib\<close> and \<open>flate\<close> make of the held body is a
  parameter: whether a reader opens, the text fields of a gzip header, the reads until the last one,
  and how that one ends, with what the decoder rest unread.
\<close>

subsection \<open>Requests and held bodies\<close>

record http_request =
  rq_method :: string
  rq_host :: string
  rq_path :: string
  rq_escaped :: string
  rq_query :: string
  rq_header :: headers
  rq_trailer :: headers
  rq_remote :: string

record held_body =
  hb_buf :: string
  hb_whole :: bool
  hb_taken :: nat

definition maxReplay :: nat where "maxReplay = 8388608"
definition maxHeld :: nat where "maxHeld = maxReplay + 1"
definition maxWhere :: nat where "maxWhere = 64"

record placeholder =
  ph_route :: string
  ph_where :: string
  ph_encoding :: string

definition clip :: "string \<Rightarrow> nat \<Rightarrow> string" where
  "clip s n = (if length s \<le> n then s else take n s @ ''...'')"

subsection \<open>Queries and carriers\<close>

definition unhex_byte :: "char \<Rightarrow> nat option" where
  "unhex_byte c = hex_val c"

fun unescape_loose :: "string \<Rightarrow> string" where
  "unescape_loose [] = []"
| "unescape_loose (c # s) =
     (if c = CHR ''+'' then CHR '' '' # unescape_loose s
      else if c = CHR ''%'' then
        (case s of
           a # b # t \<Rightarrow>
             (case (unhex_byte a, unhex_byte b) of
                (Some hi, Some lo) \<Rightarrow> char_of (16 * hi + lo) # unescape_loose t
              | _ \<Rightarrow> c # unescape_loose s)
         | _ \<Rightarrow> c # unescape_loose s)
      else c # unescape_loose s)"

definition bearer_rest :: "string \<Rightarrow> string \<Rightarrow> string option" where
  "bearer_rest auth tok =
     (case cut_char CHR '' '' auth of (scheme, t, ok) \<Rightarrow>
        if ok \<and> equal_fold scheme ''Bearer'' \<and> trim_space t = tok then Some (replace_first tok [] auth) else None)"

definition basic_rest :: "inject \<Rightarrow> string \<Rightarrow> string \<Rightarrow> string option" where
  "basic_rest i auth tok =
     (if in_BasicAuth i = None then None
      else case basic_auth auth of None \<Rightarrow> None | Some (user, pass) \<Rightarrow> if pass = tok then Some user else None)"

text \<open>What one header of \<open>inject.headers.set\<close> adds to the carriers.\<close>

definition set_rest :: "bool \<Rightarrow> headers \<Rightarrow> string \<Rightarrow> header \<Rightarrow> (string \<times> string) list \<Rightarrow> (string \<times> string) list" where
  "set_rest vends h tok s rests =
     (let name = CanonicalHeaderKey (hd_Name s) in
      case cut_str PlaceholderValue (hd_Value s) of (pre, post, ok) \<Rightarrow>
        if \<not> ok then rests
        else if name = ''Authorization'' then
          (if vends \<and> hd_Value s = PlaceholderValue \<and> hd_get h ''Authorization'' = tok then AList.update name [] rests else rests)
        else if hd_get h name = pre @ tok @ post then AList.update name (pre @ post) rests
        else rests)"

definition carrierRests :: "route \<Rightarrow> inject \<Rightarrow> headers \<Rightarrow> string \<Rightarrow> (string \<times> string) list" where
  "carrierRests spec i h tok =
     (let auth = hd_get h ''Authorization'';
          first = (case bearer_rest auth tok of
                     Some r \<Rightarrow> [(''Authorization'', r)]
                   | None \<Rightarrow> (case basic_rest i auth tok of Some u \<Rightarrow> [(''Authorization'', u)] | None \<Rightarrow> [])) in
      fold (set_rest (Vends spec) h tok) (set_list i) first)"

subsection \<open>Headers\<close>

definition carried :: "(string \<times> string) list \<Rightarrow> string \<Rightarrow> string list \<Rightarrow> string list" where
  "carried rests name vs =
     (case (map_of rests name, vs) of (Some rest, _ # others) \<Rightarrow> rest # others | _ \<Rightarrow> vs)"

fun scan_values :: "matcher \<Rightarrow> string \<Rightarrow> (string \<times> string) list \<Rightarrow> headers \<Rightarrow> string list \<Rightarrow> placeholder option" where
  "scan_values m kind rests h [] = None"
| "scan_values m kind rests h (name # names) =
     (case findString m (carried rests name (case map_of h name of None \<Rightarrow> [] | Some vs \<Rightarrow> vs)) of
        Some t \<Rightarrow> Some \<lparr>ph_route = hit_route t, ph_where = kind @ '' '' @ clip name maxWhere, ph_encoding = hit_encoding t\<rparr>
      | None \<Rightarrow> scan_values m kind rests h names)"

definition findInHeader :: "matcher \<Rightarrow> headers \<Rightarrow> string \<Rightarrow> (string \<times> string) list \<Rightarrow> placeholder option" where
  "findInHeader m h kind rests =
     (let names = sort (map fst h) in
      case findString m names of
        Some t \<Rightarrow> Some \<lparr>ph_route = hit_route t, ph_where = kind @ '' name'', ph_encoding = hit_encoding t\<rparr>
      | None \<Rightarrow> scan_values m kind rests h names)"

subsection \<open>The body\<close>

datatype body_error = ErrInflated | ErrContentEncoding

text \<open>How the last read of a decompressed body ends: at the end of the stream with so many bytes after it,
  or with an error, which may be that the input ran out.\<close>

datatype last_read = ReadEOF nat | ReadError bool

datatype opened = OpenError bool | Opened "string list" "string list" string last_read

record codec =
  cd_gzip :: "string \<Rightarrow> opened"
  cd_deflate :: "string \<Rightarrow> opened"

definition codings :: "headers \<Rightarrow> string list" where
  "codings h =
     filter (\<lambda>c. c \<noteq> [] \<and> c \<noteq> ''identity'')
       (concat (map (\<lambda>v. map (\<lambda>c. to_lower (trim_space c)) (split_on CHR '','' v)) (hd_values h ''Content-Encoding'')))"

definition compressed :: "string \<Rightarrow> hit \<Rightarrow> hit" where
  "compressed coding t = t\<lparr>hit_encoding := coding @ ''+'' @ hit_encoding t\<rparr>"

type_synonym body_result = "(body_error + hit option) \<times> bool"

text \<open>A body cut at the cap ends early there; any other failure is one of the coding.\<close>

definition bad_body :: "bool \<Rightarrow> bool \<Rightarrow> body_result" where
  "bad_body part early = (if part \<and> early then (Inr None, part) else (Inl ErrContentEncoding, part))"

fun decompressed_loop :: "matcher \<Rightarrow> string \<Rightarrow> bool \<Rightarrow> scan \<Rightarrow> nat \<Rightarrow> string list \<Rightarrow> string \<Rightarrow> last_read \<Rightarrow> body_result" where
  "decompressed_loop m coding part sc sofar [] rd fin =
     (let over = sofar + length rd > maxReplay; n = (if over then maxReplay - sofar else length rd) in
      case scan_write m (take n rd) sc of
        (Some t, _) \<Rightarrow> (Inr (Some (compressed coding t)), part \<or> over)
      | (None, _) \<Rightarrow>
          if over \<and> \<not> part then (Inl ErrInflated, part)
          else if over then (Inr None, True)
          else (case fin of
            ReadEOF rest \<Rightarrow> if part \<or> rest > 0 then (Inl ErrContentEncoding, part) else (Inr None, part)
          | ReadError early \<Rightarrow> bad_body part early))"
| "decompressed_loop m coding part sc sofar (r # reads) rd fin =
     (let over = sofar + length r > maxReplay; n = (if over then maxReplay - sofar else length r) in
      case scan_write m (take n r) sc of
        (Some t, _) \<Rightarrow> (Inr (Some (compressed coding t)), part \<or> over)
      | (None, sc') \<Rightarrow>
          if over \<and> \<not> part then (Inl ErrInflated, part)
          else if over then (Inr None, True)
          else decompressed_loop m coding part sc' (sofar + n) reads rd fin)"

definition findDecompressed :: "codec \<Rightarrow> matcher \<Rightarrow> string list \<Rightarrow> held_body \<Rightarrow> body_result" where
  "findDecompressed cd m cs held =
     (let part = \<not> hb_whole held in
      case cs of
        [c] \<Rightarrow>
          (let coding = trim_prefix ''x-'' c in
           if coding \<noteq> ''gzip'' \<and> coding \<noteq> ''deflate'' then (Inl ErrContentEncoding, part)
           else case (if coding = ''gzip'' then cd_gzip cd (hb_buf held) else cd_deflate cd (hb_buf held)) of
             OpenError early \<Rightarrow> bad_body part early
           | Opened texts reads rd fin \<Rightarrow>
               (case (if coding = ''gzip'' then findString m texts else None) of
                  Some t \<Rightarrow> (Inr (Some (compressed coding t)), part)
                | None \<Rightarrow> decompressed_loop m coding part fresh_scan 0 reads rd fin))
      | _ \<Rightarrow> (Inl ErrContentEncoding, part))"

definition findInBody :: "codec \<Rightarrow> matcher \<Rightarrow> headers \<Rightarrow> held_body \<Rightarrow> body_result" where
  "findInBody cd m h held =
     (if codings h = [] then (Inr (scan_string m (hb_buf held)), \<not> hb_whole held)
      else case findDecompressed cd m (codings h) held of (r, part) \<Rightarrow>
        (case r of
           Inr (Some t) \<Rightarrow> (r, part)
         | _ \<Rightarrow> (case scan_string m (hb_buf held) of Some t \<Rightarrow> (Inr (Some t), \<not> hb_whole held) | None \<Rightarrow> (r, part))))"

subsection \<open>The whole request\<close>

definition placed :: "string \<Rightarrow> hit \<Rightarrow> placeholder" where
  "placed w t = \<lparr>ph_route = hit_route t, ph_where = w, ph_encoding = hit_encoding t\<rparr>"

definition findPlaceholder :: "codec \<Rightarrow> matcher \<Rightarrow> http_request \<Rightarrow> route_path \<Rightarrow> route \<Rightarrow> inject \<Rightarrow> string \<Rightarrow> held_body option
    \<Rightarrow> (body_error + placeholder option) \<times> bool" where
  "findPlaceholder cd m r p spec i tok held =
     (case findString m [rq_method r] of
        Some t \<Rightarrow> (Inr (Some (placed ''method'' t)), False)
      | None \<Rightarrow>
     (case findString m [pa_rest p, pa_escapedRest p] of
        Some t \<Rightarrow> (Inr (Some (placed ''path'' t)), False)
      | None \<Rightarrow>
     (case findString m [rq_query r, unescape_loose (rq_query r)] of
        Some t \<Rightarrow> (Inr (Some (placed ''query'' t)), False)
      | None \<Rightarrow>
     (case findString m [rq_host r] of
        Some t \<Rightarrow> (Inr (Some (placed ''header Host'' t)), False)
      | None \<Rightarrow>
     (case findInHeader m (rq_header r) ''header'' (carrierRests spec i (rq_header r) tok) of
        Some ph \<Rightarrow> (Inr (Some ph), False)
      | None \<Rightarrow>
     (case held of
        None \<Rightarrow> (Inr None, False)
      | Some hb \<Rightarrow>
          (case findInBody cd m (rq_header r) hb of
             (Inr (Some t), part) \<Rightarrow> (Inr (Some (placed ''body'' t)), part)
           | (Inl e, part) \<Rightarrow> (Inl e, part)
           | (Inr None, part) \<Rightarrow>
               (if hb_whole hb then (Inr (findInHeader m (rq_trailer r) ''trailer'' []), part) else (Inr None, part)))))))))"

subsection \<open>What a request that passes does not hold\<close>

text \<open>A text that holds no spelling of a token the matcher looks for.\<close>

definition token_free :: "matcher \<Rightarrow> string \<Rightarrow> bool" where
  "token_free m s \<longleftrightarrow> \<not> list_ex (\<lambda>l. holds_spelling (sc_work (squeeze s fresh_scan)) (lt_token l)) (m_tokens m)"

lemma scan_free: "matcher_ok m \<Longrightarrow> scan_string m s = None \<longleftrightarrow> token_free m s"
  by (simp add: scan_string_None token_free_def list_ex_iff)

lemma findString_free: "matcher_ok m \<Longrightarrow> findString m ss = None \<longleftrightarrow> list_all (token_free m) ss"
proof (induction ss)
  case (Cons a ss)
  then show ?case using scan_free[OF Cons.prems, of a] by (cases "scan_string m a") simp_all
qed simp

lemma scan_values_free:
  assumes ok: "matcher_ok m" and "scan_values m kind rests h names = None" and "name \<in> set names"
  shows "list_all (token_free m) (carried rests name (case map_of h name of None \<Rightarrow> [] | Some vs \<Rightarrow> vs))"
  using assms(2,3)
proof (induction names)
  case (Cons n names)
  have "findString m (carried rests n (case map_of h n of None \<Rightarrow> [] | Some vs \<Rightarrow> vs)) = None"
    using Cons.prems(1) by (simp split: option.splits)
  then show ?case using Cons findString_free[OF ok] by (cases "name = n") (auto split: option.splits)
qed simp

lemma findInHeader_free:
  assumes ok: "matcher_ok m" and none: "findInHeader m h kind rests = None" and "map_of h name = Some vs"
  shows "token_free m name \<and> list_all (token_free m) (carried rests name vs)"
proof -
  have names: "findString m (sort (map fst h)) = None" "scan_values m kind rests h (sort (map fst h)) = None"
    using none by (auto simp: findInHeader_def Let_def split: option.splits)
  have "name \<in> set (sort (map fst h))" using assms(3) by (simp add: map_of_SomeD image_iff) (metis fst_conv map_of_SomeD)
  then show ?thesis
    using names(1) findString_free[OF ok] scan_values_free[OF ok names(2), of name] assms(3) by (auto simp: list_all_iff)
qed

lemma findPlaceholder_None:
  assumes "findPlaceholder cd m r p spec i tok held = (Inr None, part)"
  shows "findString m [rq_method r] = None" and "findString m [pa_rest p, pa_escapedRest p] = None"
    and "findString m [rq_query r, unescape_loose (rq_query r)] = None" and "findString m [rq_host r] = None"
    and "findInHeader m (rq_header r) ''header'' (carrierRests spec i (rq_header r) tok) = None"
    and "held = Some hb \<Longrightarrow> fst (findInBody cd m (rq_header r) hb) = Inr None"
    and "held = Some hb \<Longrightarrow> hb_whole hb \<Longrightarrow> findInHeader m (rq_trailer r) ''trailer'' [] = None"
  using assms unfolding findPlaceholder_def by (auto split: option.splits prod.splits sum.splits if_splits)

lemma findInBody_free:
  assumes ok: "matcher_ok m" and none: "fst (findInBody cd m h hb) = Inr None"
  shows "token_free m (hb_buf hb)"
proof -
  have "scan_string m (hb_buf hb) = None"
    using none unfolding findInBody_def by (auto split: option.splits prod.splits sum.splits if_splits)
  then show ?thesis using scan_free[OF ok] by simp
qed


definition example_token :: string where
  "example_token = ''e.mac''"

definition example_request :: http_request where
  "example_request = \<lparr>rq_method = ''POST'', rq_host = ''brig.internal'', rq_path = ''/box/r/api/v1'', rq_escaped = ''/box/r/api/v1'', rq_query = ''a=1'',
     rq_header = [(''Authorization'', [''Bearer '' @ example_token])], rq_trailer = [], rq_remote = ''10.0.0.2:5''\<rparr>"

definition example_path :: route_path where
  "example_path = \<lparr>pa_sandbox = ''box'', pa_route = ''api'', pa_rest = ''/v1'', pa_escapedRest = ''/v1''\<rparr>"

definition bearer_inject :: inject where
  "bearer_inject = \<lparr>in_Headers = Some \<lparr>hi_Set = Some [\<lparr>hd_Name = ''x-api-key'', hd_Value = PlaceholderValue\<rparr>], hi_Remove = None, hi_Allow = None\<rparr>,
     in_BasicAuth = None, in_TLS = None\<rparr>"

definition bearer_route :: route where
  "bearer_route = \<lparr>r_Name = ''api'', r_Preset = [], r_Mode = ''endpoint'', r_Upstream = ''https://api.example.com'',
     r_Credential = Some \<lparr>cr_SecretRef = ''key'', cr_Field = [], cr_Lifecycle = []\<rparr>, r_Inject = Some bearer_inject,
     r_Guest = None, r_Request = None, r_Services = None, lifecycleFromPreset = False\<rparr>"

definition no_codec :: codec where
  "no_codec = \<lparr>cd_gzip = (\<lambda>_. OpenError False), cd_deflate = (\<lambda>_. OpenError False)\<rparr>"

definition example_held :: held_body where
  "example_held = \<lparr>hb_buf = ''model: small, prompt: hello world'', hb_whole = True, hb_taken = 33\<rparr>"

definition example_live :: "live_event list" where
  "example_live = [Remembered example_token ''api'' 100, Remembered ''old'' ''api'' 1]"


end
