(* ===== verification/Broker_Hold.thy ===== *)
theory Broker_Hold
  imports Broker_Find
begin

text \<open>
  The replay budget (\<open>internal/broker/broker.go\<close>) and the hold of a request body
  (\<open>internal/broker/placeholder.go\<close>). Waiting for the budget is the caller's: a step of a hold takes the
  answer of the wait, granted or not, as an input, and likewise how much the guest has sent by each
  read and whether the read failed.
\<close>

subsection \<open>The budget\<close>

record budget =
  bg_left :: int
  bg_total :: int
  bg_held :: "string \<rightharpoonup> int"

definition newBudget :: "int \<Rightarrow> budget" where
  "newBudget n = \<lparr>bg_left = n, bg_total = n, bg_held = Map.empty\<rparr>"

definition held_by :: "budget \<Rightarrow> string \<Rightarrow> int" where
  "held_by b sandbox = (case bg_held b sandbox of None \<Rightarrow> 0 | Some n \<Rightarrow> n)"

definition budget_take :: "string \<Rightarrow> int \<Rightarrow> int \<Rightarrow> budget \<Rightarrow> bool \<times> budget" where
  "budget_take sandbox n share b =
     (if n > bg_left b \<or> held_by b sandbox + n > share then (False, b)
      else (True, b\<lparr>bg_left := bg_left b - n, bg_held := (bg_held b)(sandbox \<mapsto> held_by b sandbox + n)\<rparr>))"

definition budget_give :: "string \<Rightarrow> int \<Rightarrow> budget \<Rightarrow> budget" where
  "budget_give sandbox n b =
     (if n = 0 then b
      else let h = held_by b sandbox - n in
        b\<lparr>bg_left := bg_left b + n, bg_held := (if h \<le> 0 then (bg_held b)(sandbox := None) else (bg_held b)(sandbox \<mapsto> h))\<rparr>)"

definition body_share :: "int \<Rightarrow> nat \<Rightarrow> int" where
  "body_share all_bytes sandboxes = max (all_bytes div int (max sandboxes 1)) (int maxHeld)"

subsection \<open>Bodies that hold budget\<close>

text \<open>What each request's body has taken, by the request, with its sandbox. A request takes as its
  body arrives and gives everything back when it is done.\<close>

record holders =
  ho_budget :: budget
  ho_bodies :: "nat \<rightharpoonup> string \<times> nat"

datatype hold_event = TakeStep nat string nat int | Release nat

fun holders_step :: "hold_event \<Rightarrow> holders \<Rightarrow> holders" where
  "holders_step (TakeStep q sandbox n share) s =
     (case ho_bodies s q of
        Some (sb, taken) \<Rightarrow>
          (case budget_take sb (int n) share (ho_budget s) of
             (ok, b) \<Rightarrow> if ok then \<lparr>ho_budget = b, ho_bodies = (ho_bodies s)(q \<mapsto> (sb, taken + n))\<rparr> else s)
      | None \<Rightarrow>
          (case budget_take sandbox (int n) share (ho_budget s) of
             (ok, b) \<Rightarrow> if ok then \<lparr>ho_budget = b, ho_bodies = (ho_bodies s)(q \<mapsto> (sandbox, n))\<rparr> else s))"
| "holders_step (Release q) s =
     (case ho_bodies s q of
        None \<Rightarrow> s
      | Some (sb, taken) \<Rightarrow> \<lparr>ho_budget = budget_give sb (int taken) (ho_budget s), ho_bodies = (ho_bodies s)(q := None)\<rparr>)"

subsection \<open>Holding one body\<close>

definition holdStep :: nat where "holdStep = 32768"
definition maxStep :: nat where "maxStep = 1048576"

datatype hold_error = HoldBudget | HoldRead

text \<open>One turn of the loop: whether the budget gives the step it may ask for, how many bytes have
  arrived, whether the read reports the end when nothing is left, and whether it fails.\<close>

record hold_turn =
  ht_granted :: bool
  ht_arrived :: nat
  ht_eof :: bool
  ht_failed :: bool

record holding =
  hd_buf :: string
  hd_cap :: nat
  hd_rest :: string

definition grow_step :: "nat \<Rightarrow> int \<Rightarrow> nat" where
  "grow_step len content_length =
     (let grow = min (min (max (len div 2) holdStep) maxStep) (maxHeld - len) in
      if len = 0 \<and> content_length \<ge> 0 \<and> content_length < int grow then nat content_length + 1 else grow)"

text \<open>The bytes a read may put in the buffer, and what is left of the body after it.\<close>

definition read_into :: "hold_turn \<Rightarrow> holding \<Rightarrow> holding" where
  "read_into t s =
     (let n = min (ht_arrived t) (hd_cap s - length (hd_buf s)) in
      s\<lparr>hd_buf := hd_buf s @ take n (hd_rest s), hd_rest := drop n (hd_rest s)\<rparr>)"

fun hold_loop :: "int \<Rightarrow> hold_turn list \<Rightarrow> holding \<Rightarrow> ((hold_error + bool) \<times> holding) option" where
  "hold_loop len [] s = None"
| "hold_loop len (t # ts) s =
     (if length (hd_buf s) \<ge> maxHeld then Some (Inr False, s)
      else
        let grow = grow_step (length (hd_buf s)) len; full = length (hd_buf s) = hd_cap s in
        if full \<and> \<not> ht_granted t then Some (Inl HoldBudget, s)
        else
          let s1 = (if full then s\<lparr>hd_cap := hd_cap s + grow\<rparr> else s); s2 = read_into t s1 in
          if ht_failed t then Some (Inl HoldRead, s2)
          else if hd_rest s2 = [] \<and> ht_eof t then Some (Inr True, s2)
          else hold_loop len ts s2)"

definition holdBody :: "int \<Rightarrow> string \<Rightarrow> hold_turn list \<Rightarrow> ((hold_error + held_body) \<times> nat) option" where
  "holdBody content_length body turns =
     (case hold_loop content_length turns \<lparr>hd_buf = [], hd_cap = 0, hd_rest = body\<rparr> of
        None \<Rightarrow> None
      | Some (Inl e, s) \<Rightarrow> Some (Inl e, hd_cap s)
      | Some (Inr whole, s) \<Rightarrow> Some (Inr \<lparr>hb_buf = hd_buf s, hb_whole = whole, hb_taken = hd_cap s\<rparr>, hd_cap s))"

text \<open>The body the upstream gets: what was held, then what was never read.\<close>

definition forwarded_body :: "string \<Rightarrow> held_body \<Rightarrow> string" where
  "forwarded_body body hb = (if hb_whole hb then hb_buf hb else hb_buf hb @ drop (length (hb_buf hb)) body)"

definition complete_body :: "held_body \<Rightarrow> string option" where
  "complete_body hb = (if \<not> hb_whole hb \<or> length (hb_buf hb) > maxReplay then None else Some (hb_buf hb))"

subsection \<open>The budget adds up\<close>

definition weight :: "('v \<Rightarrow> int) \<Rightarrow> ('k \<rightharpoonup> 'v) \<Rightarrow> int" where
  "weight f m = (\<Sum>k \<in> dom m. f (the (m k)))"

definition weight_at :: "('v \<Rightarrow> int) \<Rightarrow> 'v option \<Rightarrow> int" where
  "weight_at f v = (case v of None \<Rightarrow> 0 | Some x \<Rightarrow> f x)"

lemma weight_remove: "finite (dom m) \<Longrightarrow> weight f (m(k := None)) = weight f m - weight_at f (m k)"
proof -
  assume fin: "finite (dom m)"
  show ?thesis
  proof (cases "m k")
    case None
    then have "m(k := None) = m" by auto
    then show ?thesis using None by (simp add: weight_at_def)
  next
    case (Some v)
    then have "weight f m = f v + (\<Sum>j \<in> dom m - {k}. f (the (m j)))"
      using sum.remove[OF fin, of k "\<lambda>j. f (the (m j))"] by (auto simp: weight_def)
    moreover have "weight f (m(k := None)) = (\<Sum>j \<in> dom m - {k}. f (the (m j)))"
      unfolding weight_def by (rule sum.cong) auto
    ultimately show ?thesis using Some by (simp add: weight_at_def)
  qed
qed

lemma weight_put: "finite (dom m) \<Longrightarrow> weight f (m(k \<mapsto> v)) = weight f m - weight_at f (m k) + f v"
proof -
  assume fin: "finite (dom m)"
  have doms: "dom (m(k \<mapsto> v)) = insert k (dom m - {k})" "dom (m(k := None)) = dom m - {k}" by auto
  have "weight f (m(k \<mapsto> v)) = f v + weight f (m(k := None))"
    unfolding weight_def doms by (subst sum.insert) (use fin in \<open>auto intro!: sum.cong\<close>)
  then show ?thesis using weight_remove[OF fin, of f k] by simp
qed

lemma weight_nonneg: "(\<And>v. 0 \<le> f v) \<Longrightarrow> 0 \<le> weight f m"
  by (simp add: weight_def sum_nonneg)

definition body_bytes :: "string \<times> nat \<Rightarrow> int" where
  "body_bytes v = int (snd v)"

definition bytes_for :: "string \<Rightarrow> string \<times> nat \<Rightarrow> int" where
  "bytes_for sandbox v = (if fst v = sandbox then int (snd v) else 0)"

definition holders_ok :: "nat \<Rightarrow> holders \<Rightarrow> bool" where
  "holders_ok n s \<longleftrightarrow> finite (dom (ho_bodies s)) \<and> bg_total (ho_budget s) = int n \<and> 0 \<le> bg_left (ho_budget s)
     \<and> bg_left (ho_budget s) + weight body_bytes (ho_bodies s) = int n
     \<and> (\<forall>sandbox. held_by (ho_budget s) sandbox = weight (bytes_for sandbox) (ho_bodies s))"

definition no_holders :: "nat \<Rightarrow> holders" where
  "no_holders n = \<lparr>ho_budget = newBudget (int n), ho_bodies = Map.empty\<rparr>"

lemma held_by_simps:
  "held_by (b\<lparr>bg_held := (bg_held b)(sb \<mapsto> n), bg_left := l\<rparr>) sb' = (if sb' = sb then n else held_by b sb')"
  "held_by (b\<lparr>bg_held := (bg_held b)(sb := None), bg_left := l\<rparr>) sb' = (if sb' = sb then 0 else held_by b sb')"
  by (simp_all add: held_by_def)

lemma budget_take_effect:
  assumes "budget_take sb n share b = (True, b')"
  shows "bg_left b' = bg_left b - n" and "n \<le> bg_left b" and "bg_total b' = bg_total b"
    and "held_by b' sb' = held_by b sb' + (if sb' = sb then n else 0)" and "held_by b' sb \<le> share"
  using assms by (auto simp: budget_take_def held_by_def split: if_splits)

lemma budget_give_effect:
  assumes "n \<le> held_by b sb"
  shows "bg_left (budget_give sb n b) = bg_left b + n" and "bg_total (budget_give sb n b) = bg_total b"
    and "held_by (budget_give sb n b) sb' = held_by b sb' - (if sb' = sb then n else 0)"
  using assms by (auto simp: budget_give_def held_by_def Let_def)

lemma holders_take:
  assumes ok: "holders_ok all_bytes s" and take: "budget_take sb (int n) share (ho_budget s) = (True, b)"
    and old: "ho_bodies s q = None \<and> m = n \<or> ho_bodies s q = Some (sb, m - n) \<and> n \<le> m"
  shows "holders_ok all_bytes \<lparr>ho_budget = b, ho_bodies = (ho_bodies s)(q \<mapsto> (sb, m))\<rparr>"
proof -
  have fin: "finite (dom (ho_bodies s))" using ok by (simp add: holders_ok_def)
  note eff = budget_take_effect[OF take]
  have grown: "int m - weight_at body_bytes (ho_bodies s q) = int n" using old by (auto simp: weight_at_def body_bytes_def)
  have own: "bytes_for x (sb, m) - weight_at (bytes_for x) (ho_bodies s q) = (if x = sb then int n else 0)" for x
    using old by (auto simp: weight_at_def bytes_for_def)
  show ?thesis
    unfolding holders_ok_def
  proof (intro conjI allI)
    show "bg_left (ho_budget \<lparr>ho_budget = b, ho_bodies = (ho_bodies s)(q \<mapsto> (sb, m))\<rparr>)
        + weight body_bytes (ho_bodies \<lparr>ho_budget = b, ho_bodies = (ho_bodies s)(q \<mapsto> (sb, m))\<rparr>) = int all_bytes"
      using ok grown eff(1) weight_put[OF fin, of body_bytes q "(sb, m)"] by (simp add: holders_ok_def body_bytes_def)
    show "held_by (ho_budget \<lparr>ho_budget = b, ho_bodies = (ho_bodies s)(q \<mapsto> (sb, m))\<rparr>) x
        = weight (bytes_for x) (ho_bodies \<lparr>ho_budget = b, ho_bodies = (ho_bodies s)(q \<mapsto> (sb, m))\<rparr>)" for x
      using ok own[of x] eff(4)[of x] weight_put[OF fin, of "bytes_for x" q "(sb, m)"] by (simp add: holders_ok_def)
  qed (use ok eff in \<open>simp_all add: holders_ok_def\<close>)
qed

lemma holders_release:
  assumes ok: "holders_ok all_bytes s" and q: "ho_bodies s q = Some (sb, n)"
  shows "holders_ok all_bytes \<lparr>ho_budget = budget_give sb (int n) (ho_budget s), ho_bodies = (ho_bodies s)(q := None)\<rparr>"
proof -
  have fin: "finite (dom (ho_bodies s))" using ok by (simp add: holders_ok_def)
  have gone: "weight f ((ho_bodies s)(q := None)) = weight f (ho_bodies s) - f (sb, n)" for f
    using weight_remove[OF fin, of f q] q by (simp add: weight_at_def)
  have nonneg: "0 \<le> bytes_for sb v" for v by (simp add: bytes_for_def)
  have "0 \<le> weight (bytes_for sb) ((ho_bodies s)(q := None))" by (rule weight_nonneg[OF nonneg])
  then have "int n \<le> held_by (ho_budget s) sb" using ok gone[of "bytes_for sb"] by (simp add: holders_ok_def bytes_for_def)
  note eff = budget_give_effect[OF this]
  show ?thesis using ok gone eff by (simp add: holders_ok_def body_bytes_def bytes_for_def)
qed

lemma holders_step_ok: "holders_ok all_bytes s \<Longrightarrow> holders_ok all_bytes (holders_step ev s)"
proof (cases ev)
  case (TakeStep q sandbox n share)
  assume ok: "holders_ok all_bytes s"
  show ?thesis
  proof (cases "ho_bodies s q")
    case None
    obtain g b where gb: "budget_take sandbox (int n) share (ho_budget s) = (g, b)" by fastforce
    then show ?thesis using holders_take[OF ok, of sandbox n share b q n] None ok by (cases g) (simp_all add: TakeStep)
  next
    case (Some v)
    then obtain sb m where v: "ho_bodies s q = Some (sb, m)" by (cases v) auto
    obtain g b where gb: "budget_take sb (int n) share (ho_budget s) = (g, b)" by fastforce
    then show ?thesis using holders_take[OF ok, of sb n share b q "m + n"] v ok by (cases g) (simp_all add: TakeStep)
  qed
next
  case (Release q)
  assume ok: "holders_ok all_bytes s"
  show ?thesis using holders_release[OF ok, of q] ok by (simp add: Release split: option.splits prod.splits)
qed

definition holders_after :: "nat \<Rightarrow> hold_event list \<Rightarrow> holders" where
  "holders_after n evs = fold holders_step evs (no_holders n)"

lemma holders_after_ok: "holders_ok n (holders_after n evs)"
proof -
  have step: "holders_ok n t \<Longrightarrow> holders_ok n (fold holders_step evs t)" for t
  proof (induction evs arbitrary: t)
    case (Cons ev evs)
    then show ?case using Cons.IH[OF holders_step_ok[OF Cons.prems]] by (simp only: fold.simps o_apply)
  qed (simp only: fold.simps id_apply)
  have "holders_ok n (no_holders n)"
    by (simp add: holders_ok_def no_holders_def newBudget_def held_by_def weight_def)
  from step[OF this] show ?thesis unfolding holders_after_def .
qed

text \<open>C36: The replay budget is never overdrawn and never leaks. Through any order of steps and releases of
  any number of requests, the bytes left and the bytes the open bodies hold add up to the budget, so
  it is whole again when none is open, what is left is never negative, and each sandbox's count is
  what its own open bodies hold.\<close>
theorem budget_conserved:
  "bg_left (ho_budget (holders_after n evs)) + weight body_bytes (ho_bodies (holders_after n evs)) = int n
   \<and> 0 \<le> bg_left (ho_budget (holders_after n evs))
   \<and> held_by (ho_budget (holders_after n evs)) sandbox = weight (bytes_for sandbox) (ho_bodies (holders_after n evs))"
  using holders_after_ok[of n evs] by (simp add: holders_ok_def)

subsection \<open>The hold is faithful\<close>

lemma grow_step_bounds:
  assumes "len < maxHeld"
  shows "0 < grow_step len cl" and "len + grow_step len cl \<le> maxHeld"
proof -
  define g where "g = min (min (max (len div 2) holdStep) maxStep) (maxHeld - len)"
  have g: "0 < g" "g \<le> maxHeld - len" using assms by (simp_all add: g_def holdStep_def maxStep_def)
  have "grow_step len cl = (if len = 0 \<and> cl \<ge> 0 \<and> cl < int g then nat cl + 1 else g)"
    unfolding grow_step_def g_def Let_def by (rule refl)
  then show "0 < grow_step len cl" "len + grow_step len cl \<le> maxHeld" using g assms by auto
qed

definition holding_ok :: "string \<Rightarrow> holding \<Rightarrow> bool" where
  "holding_ok body s \<longleftrightarrow> hd_buf s @ hd_rest s = body \<and> length (hd_buf s) \<le> hd_cap s \<and> hd_cap s \<le> maxHeld"

lemma read_into_ok: "holding_ok body s \<Longrightarrow> holding_ok body (read_into t s)"
  by (auto simp: holding_ok_def read_into_def Let_def)

lemma hold_loop_ok:
  "holding_ok body s \<Longrightarrow> hold_loop len ts s = Some (r, s') \<Longrightarrow>
   holding_ok body s' \<and> (r = Inr True \<longrightarrow> hd_rest s' = []) \<and> (r = Inr False \<longrightarrow> length (hd_buf s') = maxHeld)"
proof (induction len ts s rule: hold_loop.induct)
  case (2 len t ts s)
  define s1 where "s1 = (if length (hd_buf s) = hd_cap s then s\<lparr>hd_cap := hd_cap s + grow_step (length (hd_buf s)) len\<rparr> else s)"
  define s2 where "s2 = read_into t s1"
  show ?case
  proof (cases "length (hd_buf s) \<ge> maxHeld")
    case True
    then have "r = Inr False" "s' = s" using 2(3) by simp_all
    moreover have "length (hd_buf s) = maxHeld" using True 2(2) by (simp add: holding_ok_def)
    ultimately show ?thesis using 2(2) by simp
  next
    case False
    have "holding_ok body s1"
      using 2(2) grow_step_bounds[of "length (hd_buf s)" len] False by (auto simp: s1_def holding_ok_def)
    then have s2: "holding_ok body s2" unfolding s2_def by (rule read_into_ok)
    have step: "hold_loop len (t # ts) s =
        (if length (hd_buf s) = hd_cap s \<and> \<not> ht_granted t then Some (Inl HoldBudget, s)
         else if ht_failed t then Some (Inl HoldRead, s2)
         else if hd_rest s2 = [] \<and> ht_eof t then Some (Inr True, s2) else hold_loop len ts s2)"
      using False by (simp add: s1_def s2_def Let_def)
    note run = 2(3)[unfolded step]
    show ?thesis
    proof (cases "length (hd_buf s) = hd_cap s \<and> \<not> ht_granted t")
      case True
      then have "r = Inl HoldBudget" "s' = s" using run by simp_all
      then show ?thesis using 2(2) by simp
    next
      case go: False
      show ?thesis
      proof (cases "ht_failed t \<or> (hd_rest s2 = [] \<and> ht_eof t)")
        case True
        then show ?thesis using run go s2 by (auto split: if_splits)
      next
        case loop: False
        then have "hold_loop len ts s2 = Some (r, s')" using run go by (simp split: if_splits)
        then show ?thesis using 2(1)[OF False refl refl go s1_def s2_def _ _ s2] loop by blast
      qed
    qed
  qed
qed simp

text \<open>C35: A held body is the body. However it arrives, a body that is held goes upstream as the guest sent it,
  at most 8 MiB and one byte of it are held, no more than was taken from the budget, and a body not
  held whole is one that is longer than the cap.\<close>
theorem held_body_faithful:
  assumes "holdBody len body turns = Some (Inr hb, taken)"
  shows "forwarded_body body hb = body \<and> length (hb_buf hb) \<le> hb_taken hb \<and> hb_taken hb \<le> maxHeld
    \<and> (hb_whole hb \<or> maxHeld \<le> length body)"
proof -
  obtain w s where s: "hold_loop len turns \<lparr>hd_buf = [], hd_cap = 0, hd_rest = body\<rparr> = Some (Inr w, s)"
      and hb: "hb = \<lparr>hb_buf = hd_buf s, hb_whole = w, hb_taken = hd_cap s\<rparr>"
    using assms by (auto simp: holdBody_def split: option.splits prod.splits sum.splits)
  have "holding_ok body \<lparr>hd_buf = [], hd_cap = 0, hd_rest = body\<rparr>" by (simp add: holding_ok_def)
  from hold_loop_ok[OF this s]
  have ok: "holding_ok body s" "w \<Longrightarrow> hd_rest s = []" "\<not> w \<Longrightarrow> length (hd_buf s) = maxHeld" by (cases w; simp)+
  have body: "body = hd_buf s @ hd_rest s" using ok(1) by (simp add: holding_ok_def)
  then have "drop (length (hd_buf s)) body = hd_rest s" by simp
  then have "forwarded_body body hb = body" using body ok(2) by (simp add: forwarded_body_def hb)
  moreover have "maxHeld \<le> length body" if "\<not> w" using ok(3)[OF that] body by simp
  ultimately show ?thesis using ok(1) by (auto simp: holding_ok_def hb)
qed

theorem held_body_faithful_witness:
  "forwarded_body ''hello'' \<lparr>hb_buf = ''hello'', hb_whole = True, hb_taken = 6\<rparr> = ''hello''"
proof -
  have "holdBody 5 ''hello'' [\<lparr>ht_granted = True, ht_arrived = 3, ht_eof = False, ht_failed = False\<rparr>,
      \<lparr>ht_granted = False, ht_arrived = 9, ht_eof = True, ht_failed = False\<rparr>]
      = Some (Inr \<lparr>hb_buf = ''hello'', hb_whole = True, hb_taken = 6\<rparr>, 6)" by code_simp
  from held_body_faithful[OF this] show ?thesis by simp
qed

end
