(* ===== verification/Broker_Register.thy ===== *)
theory Broker_Register
  imports Broker_Tls Broker_Hold Policy_Contract Divert
begin

text \<open>
  The sandboxes a broker serves (\<open>internal/broker/broker.go\<close>, \<open>divert.go\<close>) and the parsed
  certificates it keeps for them (\<open>tlsroute.go\<close>). A handler's maps are maps; a registered sandbox's
  routes are an association list by name. The nonce of a registration, the key derivation and the
  parsers of certificates are parameters.
\<close>

subsection \<open>State\<close>

record broker_route =
  br_policy :: string
  br_spec :: route
  br_upstream :: "url option"
  br_services :: "(string \<times> url) list option"
  br_serviceNames :: "string list"
  br_tls :: route_tls

record sandbox =
  sb_id :: string
  sb_profile :: string
  sb_key :: string
  sb_routes :: "(string \<times> broker_route) list"
  sb_placeholders :: nat
  sb_live :: live

record parsed =
  pd_sum :: string
  pd_value :: string

record handler =
  hn_sandboxes :: "string \<rightharpoonup> sandbox"
  hn_forced :: "string \<rightharpoonup> int"
  hn_certs :: "string \<rightharpoonup> parsed"
  hn_cas :: "string \<rightharpoonup> parsed"

definition empty_handler :: handler where
  "empty_handler = \<lparr>hn_sandboxes = Map.empty, hn_forced = Map.empty, hn_certs = Map.empty, hn_cas = Map.empty\<rparr>"

record sandbox_spec =
  ss_ID :: string
  ss_Profile :: string
  ss_Routes :: "(string \<times> route) list"
  ss_Modes :: "string list"

datatype register_error = BadID string | RegisteredTwice string | NotExpanded string | UnservedMode string string
  | VendsInMode string | ServicesInMode string | ServicesWithUpstream string | UnknownService string string
  | ServiceTwice string string | ServiceOrigin string string | BadUpstream string | BothDiverted string string string

subsection \<open>One route\<close>

definition maxID :: nat where "maxID = 255"

definition id_char :: "char \<Rightarrow> bool" where
  "id_char c \<longleftrightarrow> is_alpha c \<or> is_digit c \<or> c \<in> set ''-_.''"

definition ValidID :: "string \<Rightarrow> bool" where
  "ValidID i \<longleftrightarrow> i \<noteq> [] \<and> i \<noteq> ''.'' \<and> i \<noteq> ''..'' \<and> length i \<le> maxID \<and> list_all id_char i"

text \<open>\<open>url.Parse\<close> of an upstream, when the result has the https scheme and a host.\<close>

definition parse_upstream :: "string \<Rightarrow> url option" where
  "parse_upstream raw =
     (if to_lower (take 8 raw) \<noteq> ''https://'' then None
      else case parse_https (drop 8 raw) of None \<Rightarrow> None | Some u \<Rightarrow> if u_Host u = [] then None else Some u)"

definition other_mode :: "string \<Rightarrow> bool" where
  "other_mode m \<longleftrightarrow> m \<noteq> [] \<and> m \<noteq> ModeEndpoint"

definition serviceUpstream :: "string \<Rightarrow> string" where
  "serviceUpstream name = ''https://'' @ name @ ''.googleapis.com''"

definition add_service :: "string \<Rightarrow> service \<Rightarrow> (string \<times> url) list \<Rightarrow> register_error + (string \<times> url) list" where
  "add_service route svc done =
     (if GCPServicePath (sv_Name svc) = None then Inl (UnknownService route (sv_Name svc))
      else if sv_Name svc \<in> set (map fst done) then Inl (ServiceTwice route (sv_Name svc))
      else case parse_upstream (serviceUpstream (sv_Name svc)) of
        None \<Rightarrow> Inl (ServiceOrigin route (sv_Name svc))
      | Some u \<Rightarrow> Inr (done @ [(sv_Name svc, u)]))"

definition serviceUpstreams :: "route \<Rightarrow> register_error + ((string \<times> url) list \<times> string list)" where
  "serviceUpstreams r =
     (if other_mode (r_Mode r) then Inl (ServicesInMode (r_Name r))
      else if r_Upstream r \<noteq> [] then Inl (ServicesWithUpstream (r_Name r))
      else bind_err (fold_err (add_service (r_Name r)) (els (r_Services r)) [])
        (\<lambda>services. Inr (services, sort (map fst services))))"

definition plain_route :: "string \<Rightarrow> route \<Rightarrow> url option \<Rightarrow> broker_route" where
  "plain_route pol r u = \<lparr>br_policy = pol, br_spec = r, br_upstream = u, br_services = None, br_serviceNames = [], br_tls = fresh_tls\<rparr>"

definition register_route :: "string list \<Rightarrow> string \<times> route \<Rightarrow> (string \<times> broker_route) list \<Rightarrow> register_error + (string \<times> broker_route) list" where
  "register_route modes pr done =
     (case pr of (pol, r) \<Rightarrow>
        let name = r_Name r in
        if name \<in> set (map fst done) then Inl (RegisteredTwice name)
        else if r_Inject r = None \<or> (r_Credential r = None \<and> \<not> CertificateOnly (r_Inject r)) then Inl (NotExpanded name)
        else if other_mode (r_Mode r) \<and> r_Mode r \<notin> set modes then Inl (UnservedMode name (r_Mode r))
        else
          bind_err
            (if els (r_Services r) \<noteq> [] then
               bind_err (serviceUpstreams r) (\<lambda>(services, names).
                 Inr ((plain_route pol r None)\<lparr>br_services := Some services, br_serviceNames := names\<rparr>))
             else if Vends r then
               (if other_mode (r_Mode r) then Inl (VendsInMode name) else Inr (plain_route pol r None))
             else case parse_upstream (r_Upstream r) of
               None \<Rightarrow> Inl (BadUpstream name)
             | Some u \<Rightarrow> Inr (plain_route pol r (Some u)))
            (\<lambda>br. Inr (done @ [(name, br)])))"

subsection \<open>Diverted routes\<close>

definition upstreamPort :: "url \<Rightarrow> nat" where
  "upstreamPort u = (case parse_uint 63 (u_Port u) of Some p \<Rightarrow> p | None \<Rightarrow> 443)"

definition divert_address :: "url \<Rightarrow> string" where
  "divert_address u = net_JoinHostPort (to_lower (u_Hostname u)) (show_nat (upstreamPort u))"

definition claim_address :: "(string \<times> broker_route) list \<Rightarrow> string \<Rightarrow> (string \<times> string) list \<Rightarrow> register_error + (string \<times> string) list" where
  "claim_address routes name seen =
     (case map_of routes name of
        None \<Rightarrow> Inr seen
      | Some br \<Rightarrow>
          (case br_upstream br of
             None \<Rightarrow> Inr seen
           | Some u \<Rightarrow>
               (case map_of seen (divert_address u) of
                  Some other \<Rightarrow> Inl (BothDiverted other name (divert_address u))
                | None \<Rightarrow> Inr ((divert_address u, name) # seen))))"

definition checkDivertedRoutes :: "(string \<times> broker_route) list \<Rightarrow> register_error + unit" where
  "checkDivertedRoutes routes =
     (let names = sort (map fst (filter (\<lambda>(name, br). other_mode (r_Mode (br_spec br))) routes)) in
      bind_err (fold_err (claim_address routes) names []) (\<lambda>_. Inr ()))"

subsection \<open>Sandboxes\<close>

definition build_sandbox :: "string \<Rightarrow> sandbox_spec \<Rightarrow> register_error + sandbox" where
  "build_sandbox key s =
     (if \<not> ValidID (ss_ID s) then Inl (BadID (ss_ID s))
      else bind_err (fold_err (register_route (ss_Modes s)) (ss_Routes s) [])
        (\<lambda>routes. bind_err (checkDivertedRoutes routes)
          (\<lambda>_. Inr \<lparr>sb_id = ss_ID s, sb_profile = ss_Profile s, sb_key = key, sb_routes = routes, sb_placeholders = 0,
                    sb_live = no_live\<rparr>)))"

definition named_cert :: "route \<Rightarrow> string option" where
  "named_cert r = (case r_Inject r of None \<Rightarrow> None | Some i \<Rightarrow> (case in_TLS i of None \<Rightarrow> None | Some t \<Rightarrow> ti_ClientCertificate t))"

definition named_ca :: "route \<Rightarrow> string option" where
  "named_ca r = (case r_Inject r of None \<Rightarrow> None | Some i \<Rightarrow> (case in_TLS i of None \<Rightarrow> None | Some t \<Rightarrow> ti_CA t))"

text \<open>Whether a registered route names a secret as its certificate or its CA.\<close>

definition names_secret :: "(route \<Rightarrow> string option) \<Rightarrow> (string \<rightharpoonup> sandbox) \<Rightarrow> string \<Rightarrow> bool" where
  "names_secret f sandboxes name \<longleftrightarrow>
     (\<exists>sb \<in> ran sandboxes. list_ex (\<lambda>(_, br). f (br_spec br) = Some name) (sb_routes sb))"

definition pruneCerts :: "handler \<Rightarrow> handler" where
  "pruneCerts h =
     h\<lparr>hn_certs := (\<lambda>n. if names_secret named_cert (hn_sandboxes h) n then hn_certs h n else None),
       hn_cas := (\<lambda>n. if names_secret named_ca (hn_sandboxes h) n then hn_cas h n else None)\<rparr>"

text \<open>\<open>closeTransports\<close>, on the sandbox as the requests still under way hold it.\<close>

definition closeTransports :: "sandbox \<Rightarrow> sandbox" where
  "closeTransports sb = sb\<lparr>sb_routes := map (\<lambda>(name, br). (name, br\<lparr>br_tls := closeTransport (br_tls br)\<rparr>)) (sb_routes sb)\<rparr>"

text \<open>Both return the handler and the sandbox that went, closed.\<close>

definition AddSandbox :: "(string \<Rightarrow> string \<Rightarrow> string) \<Rightarrow> string \<Rightarrow> string \<Rightarrow> sandbox_spec \<Rightarrow> handler
    \<Rightarrow> register_error + (handler \<times> sandbox option)" where
  "AddSandbox hkdf hostKey nonce s h =
     bind_err (build_sandbox (sandboxKey hkdf hostKey (ss_ID s) nonce) s)
       (\<lambda>sb. let h' = h\<lparr>hn_sandboxes := (hn_sandboxes h)(ss_ID s \<mapsto> sb)\<rparr> in
          Inr (case hn_sandboxes h (ss_ID s) of None \<Rightarrow> (h', None) | Some old \<Rightarrow> (pruneCerts h', Some (closeTransports old))))"

definition RemoveSandbox :: "string \<Rightarrow> handler \<Rightarrow> handler \<times> sandbox option" where
  "RemoveSandbox i h =
     (let h' = h\<lparr>hn_sandboxes := (hn_sandboxes h)(i := None)\<rparr> in
      case hn_sandboxes h i of None \<Rightarrow> (h', None) | Some old \<Rightarrow> (pruneCerts h', Some (closeTransports old)))"

text \<open>A parsed certificate is kept while a registered route names its secret.\<close>

definition cacheCert :: "string \<Rightarrow> parsed \<Rightarrow> handler \<Rightarrow> handler" where
  "cacheCert name e h = (if names_secret named_cert (hn_sandboxes h) name then h\<lparr>hn_certs := (hn_certs h)(name \<mapsto> e)\<rparr> else h)"

definition cacheCA :: "string \<Rightarrow> parsed \<Rightarrow> handler \<Rightarrow> handler" where
  "cacheCA name e h = (if names_secret named_ca (hn_sandboxes h) name then h\<lparr>hn_cas := (hn_cas h)(name \<mapsto> e)\<rparr> else h)"

datatype cert_error = CertUnreadable | CertExpired | CertBad

text \<open>\<open>clientCertificate\<close>: the secret is read for every request and parsed when its bytes are new;
  \<open>expired\<close> says whether a parsed certificate has expired by a time.\<close>

definition clientCertificate :: "(string \<Rightarrow> string) \<Rightarrow> (string \<Rightarrow> int \<Rightarrow> cert_error + string) \<Rightarrow> (string \<Rightarrow> int \<Rightarrow> bool)
    \<Rightarrow> string option \<Rightarrow> string \<Rightarrow> int \<Rightarrow> handler \<Rightarrow> (cert_error + string) \<times> handler" where
  "clientCertificate sha parse expired data name now h =
     (case data of
        None \<Rightarrow> (Inl CertUnreadable, h)
      | Some d \<Rightarrow>
          (case (case hn_certs h name of None \<Rightarrow> None | Some e \<Rightarrow> if pd_sum e = sha d then Some (pd_value e) else None) of
             Some v \<Rightarrow> (if expired v now then Inl CertExpired else Inr v, h)
           | None \<Rightarrow>
               (case parse d now of
                  Inl e \<Rightarrow> (Inl e, h)
                | Inr v \<Rightarrow> (Inr v, cacheCert name \<lparr>pd_sum = sha d, pd_value = v\<rparr> h))))"

definition caPool :: "(string \<Rightarrow> string) \<Rightarrow> (string \<Rightarrow> string option) \<Rightarrow> string option \<Rightarrow> string \<Rightarrow> handler \<Rightarrow> (string \<times> string) option \<times> handler" where
  "caPool sha parse data name h =
     (case data of
        None \<Rightarrow> (None, h)
      | Some d \<Rightarrow>
          (case (case hn_cas h name of None \<Rightarrow> None | Some e \<Rightarrow> if pd_sum e = sha d then Some (pd_value e) else None) of
             Some v \<Rightarrow> (Some (v, sha d), h)
           | None \<Rightarrow> (case parse d of None \<Rightarrow> (None, h) | Some v \<Rightarrow> (Some (v, sha d), cacheCA name \<lparr>pd_sum = sha d, pd_value = v\<rparr> h))))"

subsection \<open>No private key of a secret no route names\<close>

datatype handler_event =
    Registered string string sandbox_spec
  | Removed string
  | UsedCert "string option" string int
  | UsedCA "string option" string

fun handler_step :: "(string \<Rightarrow> string \<Rightarrow> string) \<Rightarrow> (string \<Rightarrow> string) \<Rightarrow> (string \<Rightarrow> int \<Rightarrow> cert_error + string) \<Rightarrow> (string \<Rightarrow> int \<Rightarrow> bool)
    \<Rightarrow> (string \<Rightarrow> string option) \<Rightarrow> handler_event \<Rightarrow> handler \<Rightarrow> handler" where
  "handler_step hkdf sha parse expired parse_ca (Registered hostKey nonce s) h =
     (case AddSandbox hkdf hostKey nonce s h of Inl e \<Rightarrow> h | Inr (h', _) \<Rightarrow> h')"
| "handler_step hkdf sha parse expired parse_ca (Removed i) h = fst (RemoveSandbox i h)"
| "handler_step hkdf sha parse expired parse_ca (UsedCert data name now) h = snd (clientCertificate sha parse expired data name now h)"
| "handler_step hkdf sha parse expired parse_ca (UsedCA data name) h = snd (caPool sha parse_ca data name h)"

definition certs_named :: "handler \<Rightarrow> bool" where
  "certs_named h \<longleftrightarrow> (\<forall>n. (hn_certs h n = None \<or> names_secret named_cert (hn_sandboxes h) n)
     \<and> (hn_cas h n = None \<or> names_secret named_ca (hn_sandboxes h) n))"

lemma names_secret_add: "sandboxes i = None \<Longrightarrow> names_secret f sandboxes n \<Longrightarrow> names_secret f (sandboxes(i \<mapsto> sb)) n"
  by (auto simp: names_secret_def)

lemma certs_named_prune: "certs_named (pruneCerts h)"
  by (simp add: certs_named_def pruneCerts_def)

lemma certs_named_add: "certs_named h \<Longrightarrow> AddSandbox hkdf hostKey nonce s h = Inr (h', old) \<Longrightarrow> certs_named h'"
proof (cases "build_sandbox (sandboxKey hkdf hostKey (ss_ID s) nonce) s")
  case (Inr sb)
  assume named: "certs_named h" and add: "AddSandbox hkdf hostKey nonce s h = Inr (h', old)"
  show ?thesis
  proof (cases "hn_sandboxes h (ss_ID s)")
    case None
    then have "h' = h\<lparr>hn_sandboxes := (hn_sandboxes h)(ss_ID s \<mapsto> sb)\<rparr>" using add Inr by (simp add: AddSandbox_def Let_def)
    then show ?thesis using named names_secret_add[of "hn_sandboxes h" "ss_ID s", OF None] by (simp add: certs_named_def) blast
  next
    case (Some prev)
    then have "h' = pruneCerts (h\<lparr>hn_sandboxes := (hn_sandboxes h)(ss_ID s \<mapsto> sb)\<rparr>)" using add Inr by (simp add: AddSandbox_def Let_def)
    then show ?thesis using certs_named_prune by simp
  qed
qed (simp add: AddSandbox_def)

lemma certs_named_remove: "certs_named h \<Longrightarrow> certs_named (fst (RemoveSandbox i h))"
proof (cases "hn_sandboxes h i")
  case None
  then have "(hn_sandboxes h)(i := None) = hn_sandboxes h" by auto
  then show "certs_named h \<Longrightarrow> ?thesis" using None by (simp add: RemoveSandbox_def)
qed (simp add: RemoveSandbox_def certs_named_prune)

lemma certs_named_cache: "certs_named h \<Longrightarrow> certs_named (cacheCert name e h)" "certs_named h \<Longrightarrow> certs_named (cacheCA name e h)"
  by (simp_all add: certs_named_def cacheCert_def cacheCA_def)

lemma handler_step_named: "certs_named h \<Longrightarrow> certs_named (handler_step hkdf sha parse expired parse_ca ev h)"
proof (cases ev)
  case (Registered hostKey nonce s)
  then show "certs_named h \<Longrightarrow> ?thesis"
    using certs_named_add by (cases "AddSandbox hkdf hostKey nonce s h") (auto split: prod.splits)
next
  case (UsedCert data name now)
  then show "certs_named h \<Longrightarrow> ?thesis"
    by (simp add: clientCertificate_def certs_named_cache split: option.splits sum.splits)
next
  case (UsedCA data name)
  then show "certs_named h \<Longrightarrow> ?thesis" by (simp add: caPool_def certs_named_cache split: option.splits)
qed (simp add: certs_named_remove)

definition handler_after :: "(string \<Rightarrow> string \<Rightarrow> string) \<Rightarrow> (string \<Rightarrow> string) \<Rightarrow> (string \<Rightarrow> int \<Rightarrow> cert_error + string) \<Rightarrow> (string \<Rightarrow> int \<Rightarrow> bool)
    \<Rightarrow> (string \<Rightarrow> string option) \<Rightarrow> handler_event list \<Rightarrow> handler" where
  "handler_after hkdf sha parse expired parse_ca evs = fold (handler_step hkdf sha parse expired parse_ca) evs empty_handler"

text \<open>The broker keeps a parsed private key only while a registered route names its secret. Through
  any order of registrations, replacements, removals and requests, each cached certificate and CA is
  one that a route of a sandbox served at that time names.\<close>
theorem cached_keys_named:
  "(hn_certs (handler_after hkdf sha parse expired parse_ca evs) n = None
      \<or> names_secret named_cert (hn_sandboxes (handler_after hkdf sha parse expired parse_ca evs)) n)
   \<and> (hn_cas (handler_after hkdf sha parse expired parse_ca evs) n = None
      \<or> names_secret named_ca (hn_sandboxes (handler_after hkdf sha parse expired parse_ca evs)) n)"
proof -
  have step: "certs_named h \<Longrightarrow> certs_named (fold (handler_step hkdf sha parse expired parse_ca) evs h)" for h
  proof (induction evs arbitrary: h)
    case (Cons ev evs)
    then show ?case using Cons.IH[OF handler_step_named[OF Cons.prems]] by (simp only: fold.simps o_apply)
  qed (simp only: fold.simps id_apply)
  have "certs_named empty_handler" by (simp add: certs_named_def empty_handler_def)
  from step[OF this] show ?thesis unfolding handler_after_def certs_named_def by blast
qed

subsection \<open>What policy validates, the broker accepts\<close>

text \<open>What registration relies on of a route it does not check again.\<close>

locale route_contract =
  fixes valid :: "route \<Rightarrow> bool"
  assumes injects: "valid r \<Longrightarrow> r_Inject r \<noteq> None"
    and identified: "valid r \<Longrightarrow> r_Credential r = None \<Longrightarrow> CertificateOnly (r_Inject r)"
    and upstream: "valid r \<Longrightarrow> els (r_Services r) = [] \<Longrightarrow> \<not> Vends r \<Longrightarrow> parse_upstream (r_Upstream r) \<noteq> None"
    and services: "valid r \<Longrightarrow> els (r_Services r) \<noteq> [] \<Longrightarrow> r_Upstream r = [] \<and> distinct (map sv_Name (els (r_Services r)))
      \<and> list_all (\<lambda>s. GCPServicePath (sv_Name s) \<noteq> None) (els (r_Services r))"
begin

lemma service_parses: "GCPServicePath name \<noteq> None \<Longrightarrow> parse_upstream (serviceUpstream name) \<noteq> None"
proof -
  assume "GCPServicePath name \<noteq> None"
  then have "name \<in> set (map fst gcpServicePaths)" by (auto simp: GCPServicePath_def map_of_eq_None_iff)
  moreover have "list_all (\<lambda>n. parse_upstream (serviceUpstream n) \<noteq> None) (map fst gcpServicePaths)" by code_simp
  ultimately show ?thesis unfolding list_all_iff by blast
qed

lemma add_services_ok:
  "list_all (\<lambda>s. GCPServicePath (sv_Name s) \<noteq> None) ss \<Longrightarrow> distinct (map sv_Name ss) \<Longrightarrow> set (map sv_Name ss) \<inter> set (map fst done) = {}
    \<Longrightarrow> \<exists>services. fold_err (add_service route) ss done = Inr services"
proof (induction ss arbitrary: "done")
  case (Cons s ss)
  obtain u where u: "parse_upstream (serviceUpstream (sv_Name s)) = Some u" using service_parses Cons.prems(1) by auto
  have "add_service route s done = Inr (done @ [(sv_Name s, u)])" using Cons.prems u by (auto simp: add_service_def)
  then show ?case using Cons.IH[of "done @ [(sv_Name s, u)]"] Cons.prems by auto
qed simp

lemma route_registers:
  assumes "valid r" and "\<not> other_mode (r_Mode r)" and "r_Name r \<notin> set (map fst done)"
  shows "\<exists>br. register_route modes (pol, r) done = Inr (done @ [(r_Name r, br)]) \<and> br_spec br = r"
proof (cases "els (r_Services r) = []")
  case True
  then show ?thesis
    using assms injects[OF assms(1)] identified[OF assms(1)] upstream[OF assms(1) True]
    by (cases "Vends r") (auto simp: register_route_def plain_route_def Let_def)
next
  case False
  then obtain svcs where "fold_err (add_service (r_Name r)) (els (r_Services r)) [] = Inr svcs"
    using add_services_ok[of "els (r_Services r)" "[]"] services[OF assms(1)] by auto
  then have "serviceUpstreams r = Inr (svcs, sort (map fst svcs))"
    using services[OF assms(1) False] assms(2) by (simp add: serviceUpstreams_def)
  then show ?thesis
    using assms injects[OF assms(1)] identified[OF assms(1)] False by (auto simp: register_route_def plain_route_def Let_def)
qed

lemma routes_register:
  "list_all (\<lambda>(_, r). valid r \<and> \<not> other_mode (r_Mode r)) prs \<Longrightarrow> distinct (map (\<lambda>p. r_Name (snd p)) prs)
    \<Longrightarrow> set (map (\<lambda>p. r_Name (snd p)) prs) \<inter> set (map fst done) = {}
    \<Longrightarrow> \<exists>brs. fold_err (register_route modes) prs done = Inr (done @ brs) \<and> map fst brs = map (\<lambda>p. r_Name (snd p)) prs
      \<and> map (\<lambda>p. br_spec (snd p)) brs = map snd prs"
proof (induction prs arbitrary: "done")
  case (Cons pr prs)
  obtain pol r where pr: "pr = (pol, r)" by fastforce
  obtain br where br: "register_route modes (pol, r) done = Inr (done @ [(r_Name r, br)])" "br_spec br = r"
    using route_registers[of r "done" modes pol] Cons.prems by (auto simp: pr)
  obtain brs where "fold_err (register_route modes) prs (done @ [(r_Name r, br)]) = Inr ((done @ [(r_Name r, br)]) @ brs)"
      "map fst brs = map (\<lambda>p. r_Name (snd p)) prs" "map (\<lambda>p. br_spec (snd p)) brs = map snd prs"
    using Cons.IH[of "done @ [(r_Name r, br)]"] Cons.prems by (auto simp: pr)
  then show ?case using br by (intro exI[of _ "(r_Name r, br) # brs"]) (simp add: pr)
qed simp

end

subsection \<open>The contract holds for validated routes\<close>

lemma checked_origin_parses: "checkOrigin raw = None \<Longrightarrow> parse_upstream raw \<noteq> None"
proof -
  assume ok: "checkOrigin raw = None"
  then have pre: "has_prefix ''https://'' raw" by (simp add: checkOrigin_def split: if_splits)
  then obtain u where u: "parse_https (drop 8 raw) = Some u" "u_Hostname u \<noteq> []"
    using ok by (auto simp: checkOrigin_def Let_def simp del: first_err.simps split: option.splits)
  have "u_Host u \<noteq> []"
  proof
    assume "u_Host u = []"
    moreover have "cut_last CHR '':'' [] = None" by code_simp
    ultimately have "u_Hostname u = []" by (simp add: u_Hostname_def splitHostPort_def has_prefix_iff)
    then show False using u(2) by simp
  qed
  moreover have "to_lower (take 8 raw) = ''https://''" using pre by (auto simp: has_prefix_iff to_lower_def lower_char_def is_upper_def)
  ultimately show ?thesis using u(1) by (simp add: parse_upstream_def)
qed

interpretation validated: route_contract "\<lambda>r. route_Validate yread r = None" for yread
proof (unfold_locales, goal_cases)
  case (1 r)
  then show ?case using route_Validate_parts(6) by blast
next
  case (2 r)
  then show ?case
    using route_Validate_parts(2)[OF 2(1)] route_Validate_parts(6)[OF 2(1)]
    by (auto simp: route_credential_validate_def simp del: first_err.simps split: option.splits)
next
  case (3 r)
  then have "checkOrigin (r_Upstream r) = None"
    using route_Validate_parts(1)[OF 3(1)] unfolding upstream_validate_def Let_def validateServices_def
    by (auto simp del: first_err.simps split: if_splits)
  then show ?case by (rule checked_origin_parses)
next
  case (4 r)
  then have "r_Preset r = PresetGCP" using route_Validate_parts(5)[OF 4(1)] by blast
  then show ?case
    using route_Validate_parts(1)[OF 4(1)] unfolding upstream_validate_def Let_def validateServices_def
    by (auto simp: services_loop_None list_all_iff Vends_def PresetAWS_def PresetGCP_def simp del: first_err.simps split: if_splits)
qed

lemma no_diverts: "list_all (\<lambda>(_, br). \<not> other_mode (r_Mode (br_spec br))) routes \<Longrightarrow> checkDivertedRoutes routes = Inr ()"
proof -
  assume "list_all (\<lambda>(_, br). \<not> other_mode (r_Mode (br_spec br))) routes"
  then have "filter (\<lambda>(name, br). other_mode (r_Mode (br_spec br))) routes = []" by (auto simp: filter_empty_conv list_all_iff)
  then show ?thesis by (simp add: checkDivertedRoutes_def)
qed



end
