(* ===== verification/Broker_Redact.thy ===== *)
theory Broker_Redact
  imports Broker_Headers_Facts
begin

text \<open>
  The redaction of a response, \<open>internal/broker/redact.go\<close>: the headers and trailers that hold a
  credential are dropped, and the body is rewritten as it streams. A body is the list of the reads of
  the upstream's, each with its bytes and whether it ended the stream, with or without an error. What
  the guest reads is the concatenation of what the redactor has ready, so the sizes of the guest's own
  reads do not appear.
\<close>

subsection \<open>The response\<close>

definition redacted :: string where "redacted = ''[redacted]''"

record response =
  rs_header :: headers
  rs_has_body :: bool
  rs_length :: int
  rs_reads :: "(string \<times> bool) list"
  rs_trailer :: headers

definition encoded_response :: "response \<Rightarrow> bool" where
  "encoded_response resp \<longleftrightarrow> rs_has_body resp
     \<and> list_ex (\<lambda>v. list_ex (\<lambda>coding. trim_space coding \<noteq> [] \<and> \<not> equal_fold (trim_space coding) ''identity'') (split_on CHR '','' v))
         (hd_values (rs_header resp) ''Content-Encoding'')"

definition holdsAny :: "string \<Rightarrow> string list \<Rightarrow> bool" where
  "holdsAny s secrets \<longleftrightarrow> list_ex (\<lambda>x. contains_str x s) secrets"

definition drop_holding :: "string list \<Rightarrow> headers \<Rightarrow> headers" where
  "drop_holding secrets h = filter (\<lambda>(name, vs). \<not> list_ex (\<lambda>v. holdsAny v secrets) vs) h"

subsection \<open>The body\<close>

text \<open>\<open>bytes.ReplaceAll\<close>, for a string that is not empty. The counter skips the rest of a match.\<close>

fun replace_from :: "string \<Rightarrow> string \<Rightarrow> nat \<Rightarrow> string \<Rightarrow> string" where
  "replace_from old new k [] = []"
| "replace_from old new (Suc k) (c # s) = replace_from old new k s"
| "replace_from old new 0 (c # s) =
     (if has_prefix old (c # s) then new @ replace_from old new (length old - 1) s else c # replace_from old new 0 s)"

definition ReplaceAll :: "string \<Rightarrow> string \<Rightarrow> string \<Rightarrow> string" where
  "ReplaceAll s old new = replace_from old new 0 s"

definition sorted_secrets :: "string list \<Rightarrow> string list" where
  "sorted_secrets secrets = sort_key (\<lambda>s. - int (length s)) (filter (\<lambda>s. s \<noteq> []) secrets)"

definition redact_data :: "string list \<Rightarrow> string \<Rightarrow> string" where
  "redact_data secrets data = fold (\<lambda>s d. ReplaceAll d s redacted) secrets data"

fun longest_start :: "string \<Rightarrow> string \<Rightarrow> nat \<Rightarrow> nat \<Rightarrow> nat" where
  "longest_start s data longest 0 = longest"
| "longest_start s data longest (Suc k) =
     (if Suc k \<le> longest then longest
      else if has_prefix (drop (length data - Suc k) data) s then Suc k
      else longest_start s data longest k)"

definition startOfSecret :: "string list \<Rightarrow> string \<Rightarrow> nat" where
  "startOfSecret secrets data =
     fold (\<lambda>s longest. longest_start s data longest (min (length s - 1) (length data))) secrets 0"

fun redact_reads :: "string list \<Rightarrow> string \<Rightarrow> (string \<times> bool) list \<Rightarrow> string" where
  "redact_reads secrets held [] = []"
| "redact_reads secrets held ((chunk, ended) # reads) =
     (let data = redact_data secrets (held @ chunk) in
      if ended then data
      else let cut = length data - startOfSecret secrets data in
        take cut data @ redact_reads secrets (drop cut data) reads)"

record guest_response =
  gr_header :: headers
  gr_length :: int
  gr_body :: string
  gr_trailer :: headers

definition redactResponse :: "string list \<Rightarrow> response \<Rightarrow> guest_response option" where
  "redactResponse secrets resp =
     (if encoded_response resp then None
      else Some
        \<lparr>gr_header = hd_del ''Content-Length'' (drop_holding secrets (hd_del ''Set-Cookie'' (rs_header resp))),
         gr_length = - 1,
         gr_body = redact_reads (sorted_secrets secrets) [] (rs_reads resp),
         gr_trailer = drop_holding (sorted_secrets secrets) (rs_trailer resp)\<rparr>)"

subsection \<open>Replacing\<close>

text \<open>A string the replacement cannot bring about: with no bracket, and no part of the word between.\<close>

definition apart :: "string \<Rightarrow> bool" where
  "apart t \<longleftrightarrow> t \<noteq> [] \<and> CHR ''['' \<notin> set t \<and> CHR '']'' \<notin> set t \<and> \<not> contains_str t ''redacted''"

lemma apart_marker:
  assumes "apart t" and "sublist t (a @ redacted @ b)"
  shows "sublist t a \<or> sublist t b"
proof -
  have t: "t \<noteq> []" "CHR ''['' \<notin> set t" "CHR '']'' \<notin> set t" "\<not> sublist t ''redacted''"
    using assms(1) by (simp_all add: apart_def contains_str_sublist)
  have eq: "a @ redacted @ b = a @ CHR ''['' # (''redacted'' @ CHR '']'' # b)" by (simp add: redacted_def)
  then show ?thesis using sublist_split[OF t(1,2), of a] sublist_split[OF t(1,3), of "''redacted''" b] assms(2) t(4) by metis
qed

text \<open>A text is unchanged up to its first match, and replacing goes on after it.\<close>

lemma replace_skip: "replace_from old new k s = replace_from old new 0 (drop k s)"
  by (induction old new k s rule: replace_from.induct) simp_all

lemma replace_cases:
  assumes "old \<noteq> []"
  obtains "\<not> sublist old s" and "replace_from old new 0 s = s"
  | a b where "s = a @ old @ b" and "\<not> sublist old a" and "replace_from old new 0 s = a @ new @ replace_from old new 0 b"
proof -
  have "(\<not> sublist old s \<and> replace_from old new 0 s = s)
      \<or> (\<exists>a b. s = a @ old @ b \<and> \<not> sublist old a \<and> replace_from old new 0 s = a @ new @ replace_from old new 0 b)"
  proof (induction s)
    case (Cons c s)
    show ?case
    proof (cases "has_prefix old (c # s)")
      case True
      then obtain r where r: "c # s = old @ r" by (auto simp: has_prefix_iff)
      have "drop (length old - 1) s = r" using r assms by (cases old) auto
      then have "replace_from old new 0 (c # s) = [] @ new @ replace_from old new 0 r"
        using True replace_skip[of old new "length old - 1" s] by simp
      then show ?thesis using r assms by (metis append_Nil sublist_Nil_right)
    next
      case False
      then have eq: "replace_from old new 0 (c # s) = c # replace_from old new 0 s" by simp
      have np: "\<not> prefix old (c # a)" if "prefix a s" for a
        using False that prefix_order.trans[of old "c # a" "c # s"] by (auto simp: has_prefix_prefix)
      from Cons show ?thesis
      proof (elim disjE exE conjE)
        assume "\<not> sublist old s" "replace_from old new 0 s = s"
        then show ?thesis using eq np[of s] by (simp add: sublist_Cons_right)
      next
        fix a b assume ab: "s = a @ old @ b" "\<not> sublist old a" "replace_from old new 0 s = a @ new @ replace_from old new 0 b"
        then have "\<not> sublist old (c # a)" using np[of a] by (simp add: sublist_Cons_right)
        moreover have "c # s = (c # a) @ old @ b" "replace_from old new 0 (c # s) = (c # a) @ new @ replace_from old new 0 b"
          using ab eq by simp_all
        ultimately show ?thesis by blast
      qed
    qed
  qed (use assms in simp)
  then show thesis using that by blast
qed

lemma ReplaceAll_measure: "old \<noteq> [] \<Longrightarrow> s = a @ old @ b \<Longrightarrow> length b < length s"
  by (cases old) auto

lemma ReplaceAll_keeps:
  assumes "old \<noteq> []" and "apart t" and "sublist t (ReplaceAll s old redacted)"
  shows "sublist t s"
  using assms(3) unfolding ReplaceAll_def
proof (induction s rule: length_induct)
  case (1 s)
  show ?case
  proof (rule replace_cases[OF assms(1), of s redacted])
    assume "replace_from old redacted 0 s = s"
    then show ?thesis using 1 by simp
  next
    fix a b assume s: "s = a @ old @ b" and eq: "replace_from old redacted 0 s = a @ redacted @ replace_from old redacted 0 b"
    have "sublist t a \<or> sublist t (replace_from old redacted 0 b)" using apart_marker[OF assms(2)] 1(2) eq by simp
    then have "sublist t a \<or> sublist t b" using 1(1) ReplaceAll_measure[OF assms(1) s] by blast
    then show ?thesis unfolding s by (auto simp: sublist_append)
  qed
qed

lemma ReplaceAll_removes:
  assumes "apart old"
  shows "\<not> sublist old (ReplaceAll s old redacted)"
  unfolding ReplaceAll_def
proof (induction s rule: length_induct)
  case (1 s)
  have ne: "old \<noteq> []" using assms by (simp add: apart_def)
  show ?case
  proof (rule replace_cases[OF ne, of s redacted])
    assume "replace_from old redacted 0 s = s" "\<not> sublist old s"
    then show ?thesis by simp
  next
    fix a b assume s: "s = a @ old @ b" and na: "\<not> sublist old a"
      and eq: "replace_from old redacted 0 s = a @ redacted @ replace_from old redacted 0 b"
    have "\<not> sublist old (replace_from old redacted 0 b)" using 1 ReplaceAll_measure[OF ne s] by blast
    then show ?thesis using apart_marker[OF assms] na eq by auto
  qed
qed

text \<open>What of the rewritten text stands before any replacement.\<close>

lemma ReplaceAll_start:
  assumes "old \<noteq> []" and "CHR ''['' \<notin> set p" and "prefix p (ReplaceAll s old redacted)"
  shows "prefix p s \<and> (p = ReplaceAll s old redacted \<longrightarrow> p = s)"
  unfolding ReplaceAll_def
proof (rule replace_cases[OF assms(1), of s redacted])
  assume "replace_from old redacted 0 s = s"
  then show "prefix p s \<and> (p = replace_from old redacted 0 s \<longrightarrow> p = s)" using assms(3) by (simp add: ReplaceAll_def)
next
  fix a b assume s: "s = a @ old @ b" and eq: "replace_from old redacted 0 s = a @ redacted @ replace_from old redacted 0 b"
  have pre: "prefix p (a @ CHR ''['' # (''redacted]'' @ replace_from old redacted 0 b))"
    using assms(3) eq by (simp add: ReplaceAll_def redacted_def)
  have "prefix p a"
  proof (rule ccontr)
    assume "\<not> prefix p a"
    then obtain r where "p = a @ r" "prefix r (CHR ''['' # (''redacted]'' @ replace_from old redacted 0 b))" "r \<noteq> []"
      using pre by (auto simp: prefix_append)
    then show False using assms(2) by (cases r) auto
  qed
  moreover have "p \<noteq> replace_from old redacted 0 s" using assms(2) eq by (auto simp: redacted_def)
  ultimately show "prefix p s \<and> (p = replace_from old redacted 0 s \<longrightarrow> p = s)" unfolding s by auto
qed

lemma redact_data_Cons: "redact_data (s # ss) d = redact_data ss (ReplaceAll d s redacted)"
  by (simp add: redact_data_def)

lemma apart_nonempty: "apart t \<Longrightarrow> t \<noteq> []"
  by (simp add: apart_def)

lemma redact_data_keeps: "list_all apart ss \<Longrightarrow> apart t \<Longrightarrow> sublist t (redact_data ss d) \<Longrightarrow> sublist t d"
proof (induction ss arbitrary: d)
  case (Cons s ss)
  then have "sublist t (ReplaceAll d s redacted)" by (simp add: redact_data_Cons)
  then show ?case using ReplaceAll_keeps[of s t d] Cons.prems apart_nonempty by simp
qed (simp add: redact_data_def)

lemma redact_data_clear: "list_all apart ss \<Longrightarrow> t \<in> set ss \<Longrightarrow> \<not> sublist t (redact_data ss d)"
proof (induction ss arbitrary: d)
  case (Cons s ss)
  show ?case
  proof (cases "t \<in> set ss")
    case False
    then have "t = s" "apart s" using Cons.prems by simp_all
    then show ?thesis
      using ReplaceAll_removes[of s d] redact_data_keeps[of ss s "ReplaceAll d s redacted"] Cons.prems(1)
      by (auto simp: redact_data_Cons)
  qed (use Cons in \<open>simp add: redact_data_Cons\<close>)
qed simp

lemma redact_data_start:
  "list_all apart ss \<Longrightarrow> CHR ''['' \<notin> set p \<Longrightarrow> prefix p (redact_data ss d) \<Longrightarrow> prefix p d \<and> (p = redact_data ss d \<longrightarrow> p = d)"
proof (induction ss arbitrary: d)
  case (Cons s ss)
  have "s \<noteq> []" using Cons.prems(1) apart_nonempty by simp
  then have first: "prefix q (ReplaceAll d s redacted) \<Longrightarrow> CHR ''['' \<notin> set q \<Longrightarrow> prefix q d \<and> (q = ReplaceAll d s redacted \<longrightarrow> q = d)" for q
    using ReplaceAll_start by blast
  have rest: "prefix p (ReplaceAll d s redacted) \<and> (p = redact_data (s # ss) d \<longrightarrow> p = ReplaceAll d s redacted)"
    using Cons.IH[of "ReplaceAll d s redacted"] Cons.prems by (simp add: redact_data_Cons)
  then show ?case using first[of p] Cons.prems(2) by blast
qed (simp add: redact_data_def)

lemma redact_data_same: "list_all (\<lambda>s. s \<noteq> []) ss \<Longrightarrow> list_all (\<lambda>s. \<not> sublist s d) ss \<Longrightarrow> redact_data ss d = d"
proof (induction ss)
  case (Cons s ss)
  have "ReplaceAll d s redacted = d"
    unfolding ReplaceAll_def by (rule replace_cases[of s d redacted]) (use Cons.prems in \<open>auto simp: sublist_appendI\<close>)
  then show ?case using Cons by (simp add: redact_data_Cons)
qed (simp add: redact_data_def)

subsection \<open>What is held back\<close>

text \<open>A proper start of a secret.\<close>

definition opens :: "string list \<Rightarrow> string \<Rightarrow> bool" where
  "opens ss x \<longleftrightarrow> (\<exists>s \<in> set ss. strict_prefix x s)"

lemma longest_start_spec:
  assumes "k < length s" and "k \<le> length data"
  shows "longest \<le> longest_start s data longest k"
    and "longest_start s data longest k = longest \<or> longest_start s data longest k \<le> k"
    and "x \<noteq> [] \<Longrightarrow> length x \<le> k \<Longrightarrow> suffix x data \<Longrightarrow> prefix x s \<Longrightarrow> length x \<le> longest_start s data longest k"
  using assms
proof (induction k)
  case (Suc k)
  { case 1 show ?case using Suc 1 by simp }
  { case 2 show ?case using Suc 2 by auto }
  { case 3
    have "has_prefix (drop (length data - Suc k) data) s" if "length x = Suc k"
    proof -
      have "drop (length data - Suc k) data = x" using 3(3) that by (auto simp: suffix_def)
      then show ?thesis using 3(4) by (simp add: has_prefix_prefix)
    qed
    then show ?case using Suc 3 by (cases "length x = Suc k") (auto simp: le_Suc_eq) }
qed auto

lemma startOfSecret_spec:
  assumes "list_all (\<lambda>s. s \<noteq> []) ss" and "opens ss x" and "suffix x data"
  shows "length x \<le> startOfSecret ss data"
proof (cases "x = []")
  case False
  let ?f = "\<lambda>s longest. longest_start s data longest (min (length s - 1) (length data))"
  have lim: "min (length s - 1) (length data) < length s" "min (length s - 1) (length data) \<le> length data" if "s \<noteq> []" for s :: string
    using that by (simp_all add: min_less_iff_disj)
  have mono: "longest \<le> fold ?f ss longest" if "list_all (\<lambda>s. s \<noteq> []) ss" for ss longest
    using that
  proof (induction ss arbitrary: longest)
    case (Cons s ss)
    then have "longest \<le> ?f s longest" using longest_start_spec(1)[OF lim] by simp
    also have "\<dots> \<le> fold ?f ss (?f s longest)" using Cons by simp
    finally show ?case by simp
  qed simp
  obtain s where s: "s \<in> set ss" "strict_prefix x s" using assms(2) by (auto simp: opens_def)
  then obtain a b where ss: "ss = a @ s # b" by (meson split_list)
  have ne: "s \<noteq> []" using s(2) by auto
  have short: "length x < length s" "prefix x s" using s(2) prefix_length_less by auto
  then have "length x \<le> min (length s - 1) (length data)" using assms(3) suffix_length_le by fastforce
  then have "length x \<le> ?f s (fold ?f a 0)" using longest_start_spec(3)[OF lim[OF ne] False _ assms(3) short(2)] by blast
  also have "\<dots> \<le> fold ?f b (?f s (fold ?f a 0))" using mono assms(1) ss by simp
  finally show ?thesis by (simp add: startOfSecret_def ss)
qed simp

subsection \<open>No secret in what the guest reads\<close>

definition holds_none :: "string list \<Rightarrow> string \<Rightarrow> bool" where
  "holds_none ss b \<longleftrightarrow> list_all (\<lambda>s. \<not> sublist s b) ss"

text \<open>What was sent and what is held: no secret is in it, and none has started before what is held.\<close>

definition safe_so_far :: "string list \<Rightarrow> string \<Rightarrow> string \<Rightarrow> bool" where
  "safe_so_far ss sent held \<longleftrightarrow> holds_none ss (sent @ held) \<and> (\<forall>x. opens ss x \<and> suffix x (sent @ held) \<longrightarrow> length x \<le> length held)"

lemma apart_opens: "list_all apart ss \<Longrightarrow> opens ss x \<Longrightarrow> CHR ''['' \<notin> set x"
  using set_mono_prefix by (fastforce simp: opens_def list_all_iff apart_def strict_prefix_def)

lemma safe_append:
  assumes ap: "list_all apart ss" and safe: "safe_so_far ss sent held"
  shows "holds_none ss (sent @ redact_data ss (held @ chunk))"
    and "opens ss x \<Longrightarrow> suffix x (sent @ redact_data ss (held @ chunk)) \<Longrightarrow> suffix x (redact_data ss (held @ chunk))"
proof -
  let ?R = "redact_data ss (held @ chunk)"
  have ends: "length x \<le> length held" if "opens ss x" "suffix x (sent @ held)" for x
    using safe that by (simp add: safe_so_far_def)
  have over: "x1 = []" if x1: "suffix x1 sent" and op: "opens ss (x1 @ held)" for x1
    using ends[OF op] x1 by (auto simp: suffix_def)
  have "\<not> sublist t (sent @ ?R)" if t: "t \<in> set ss" for t
  proof
    assume "sublist t (sent @ ?R)"
    moreover have "\<not> sublist t ?R" by (rule redact_data_clear[OF ap t])
    moreover have old: "\<not> sublist t (sent @ held)" using safe t by (simp add: safe_so_far_def holds_none_def list_all_iff)
    moreover have "\<not> sublist t sent" using old unfolding sublist_append by blast
    ultimately obtain t1 t2 where t12: "t = t1 @ t2" "suffix t1 sent" "prefix t2 ?R"
      unfolding sublist_append by blast
    have "apart t" using ap t by (simp add: list_all_iff)
    then have "CHR ''['' \<notin> set t2" by (simp add: apart_def t12(1))
    then have "prefix t2 (held @ chunk)" by (rule conjunct1[OF redact_data_start[OF ap _ t12(3)]])
    then consider "prefix t2 held" | r where "t2 = held @ r" "r \<noteq> []" by (metis append_Nil2 prefix_append prefix_order.refl)
    then show False
    proof cases
      case 1
      then have "sublist t (sent @ held)" unfolding sublist_append using t12(1,2) by blast
      then show False using old by simp
    next
      case 2
      then have "strict_prefix (t1 @ held) t" using t12(1) by (auto simp: strict_prefix_def)
      then have "t1 = []" using over[OF t12(2)] t by (auto simp: opens_def)
      then show False using \<open>\<not> sublist t ?R\<close> t12 by (simp add: prefix_imp_sublist)
    qed
  qed
  then show "holds_none ss (sent @ ?R)" by (simp add: holds_none_def list_all_iff)
  show "suffix x ?R" if x: "opens ss x" "suffix x (sent @ ?R)"
  proof (rule ccontr)
    assume "\<not> suffix x ?R"
    then obtain x1 where x1: "x = x1 @ ?R" "suffix x1 sent" "x1 \<noteq> []"
      using x(2) unfolding suffix_append by (metis append_Nil suffix_order.refl)
    then have "CHR ''['' \<notin> set ?R" using apart_opens[OF ap x(1)] by simp
    then have same: "?R = held @ chunk" using redact_data_start[OF ap, of ?R] by blast
    obtain s where s: "s \<in> set ss" "strict_prefix x s" using x(1) by (auto simp: opens_def)
    have "prefix (x1 @ held) x" unfolding x1(1) same by simp
    then have "strict_prefix (x1 @ held) s" using s(2) by (rule prefix_order.le_less_trans)
    then have "x1 = []" using over[OF x1(2)] s(1) by (auto simp: opens_def)
    then show False using x1(3) by simp
  qed
qed

lemma redact_reads_safe:
  "list_all apart ss \<Longrightarrow> safe_so_far ss sent held \<Longrightarrow> holds_none ss (sent @ redact_reads ss held reads)"
proof (induction reads arbitrary: sent held)
  case Nil
  then show ?case
    using sublist_order.order.trans[of _ sent "sent @ held"] by (auto simp: safe_so_far_def holds_none_def list_all_iff)
next
  case (Cons rd reads)
  obtain chunk ended where rd: "rd = (chunk, ended)" by fastforce
  define R where "R = redact_data ss (held @ chunk)"
  note step = safe_append[OF Cons.prems, where chunk = chunk, folded R_def]
  show ?case
  proof (cases ended)
    case False
    define n where "n = length R - startOfSecret ss R"
    have ne: "list_all (\<lambda>s. s \<noteq> []) ss" using Cons.prems(1) apart_nonempty by (simp add: list_all_iff)
    have split: "(sent @ take n R) @ drop n R = sent @ R" by simp
    have "length x \<le> length (drop n R)" if "opens ss x" "suffix x (sent @ R)" for x
      using startOfSecret_spec[OF ne that(1) step(2)[OF that]] suffix_length_le[OF step(2)[OF that]] by (simp add: n_def)
    then have "safe_so_far ss (sent @ take n R) (drop n R)" using step(1) unfolding safe_so_far_def split by blast
    then have "holds_none ss ((sent @ take n R) @ redact_reads ss (drop n R) reads)" by (rule Cons.IH[OF Cons.prems(1)])
    moreover have "redact_reads ss held (rd # reads) = take n R @ redact_reads ss (drop n R) reads"
      using False by (simp add: rd R_def[symmetric] n_def Let_def)
    ultimately show ?thesis by simp
  qed (use step(1) in \<open>simp add: rd R_def\<close>)
qed

lemma redact_reads_same:
  "list_all (\<lambda>s. s \<noteq> []) ss \<Longrightarrow> holds_none ss (held @ concat (map fst reads)) \<Longrightarrow> reads \<noteq> [] \<Longrightarrow>
   list_all (\<lambda>r. \<not> snd r) (butlast reads) \<Longrightarrow> snd (List.last reads) \<Longrightarrow>
   redact_reads ss held reads = held @ concat (map fst reads)"
proof (induction reads arbitrary: held)
  case (Cons rd reads)
  obtain chunk ended where rd: "rd = (chunk, ended)" by fastforce
  have "holds_none ss (held @ chunk)"
    using Cons.prems(2) sublist_order.order.trans[of _ "held @ chunk" "held @ chunk @ concat (map fst reads)"]
    by (auto simp: holds_none_def list_all_iff rd)
  then have R: "redact_data ss (held @ chunk) = held @ chunk"
    using redact_data_same[OF Cons.prems(1)] by (simp add: holds_none_def)
  show ?case
  proof (cases "reads = []")
    case True
    then show ?thesis using Cons.prems(5) R by (simp add: rd)
  next
    case False
    define n where "n = length (held @ chunk) - startOfSecret ss (held @ chunk)"
    have "\<not> ended" using Cons.prems(4) False by (simp add: rd)
    then have eq: "redact_reads ss held (rd # reads) = take n (held @ chunk) @ redact_reads ss (drop n (held @ chunk)) reads"
      by (simp add: rd R n_def Let_def)
    have "sublist (drop n (held @ chunk) @ concat (map fst reads)) ((held @ chunk) @ concat (map fst reads))"
      by (metis append_assoc append_take_drop_id sublist_append_leftI)
    then have "holds_none ss (drop n (held @ chunk) @ concat (map fst reads))"
      using Cons.prems(2) sublist_order.order.trans by (auto simp: holds_none_def list_all_iff rd)
    then have rest: "redact_reads ss (drop n (held @ chunk)) reads = drop n (held @ chunk) @ concat (map fst reads)"
      using Cons.IH Cons.prems False by simp
    show ?thesis by (simp only: eq rest append_assoc[symmetric] append_take_drop_id) (simp add: rd)
  qed
qed simp

lemma sorted_secrets_set: "set (sorted_secrets secrets) = {s \<in> set secrets. s \<noteq> []}"
  by (auto simp: sorted_secrets_def)

lemma drop_holding_clear: "(name, vs) \<in> set (drop_holding secrets h) \<Longrightarrow> v \<in> set vs \<Longrightarrow> s \<in> set secrets \<Longrightarrow> \<not> contains_str s v"
  by (auto simp: drop_holding_def holdsAny_def list_ex_iff)

definition header_values :: "headers \<Rightarrow> string set" where
  "header_values h = (\<Union>(name, vs) \<in> set h. set vs)"


definition example_response :: response where
  "example_response = \<lparr>rs_header = [(''Set-Cookie'', [''a=1'']), (''X-Echo'', [''sk-1'']), (''Date'', [''now''])], rs_has_body = True,
     rs_length = 9, rs_reads = [(''a sk'', False), (''-1 b'', True)], rs_trailer = [(''X-Sum'', [''0''])]\<rparr>"


text \<open>A body without a credential passes unchanged. However the upstream cuts a body into reads, the
  guest reads it byte for byte when no secret is in it, so nothing held back is lost.\<close>
theorem clean_body_unchanged:
  assumes "list_all (\<lambda>s. \<not> contains_str s (concat chunks @ final)) (sorted_secrets secrets)"
  shows "redact_reads (sorted_secrets secrets) [] (map (\<lambda>c. (c, False)) chunks @ [(final, True)]) = concat chunks @ final"
proof -
  have ne: "list_all (\<lambda>s. s \<noteq> []) (sorted_secrets secrets)" by (simp add: list_all_iff sorted_secrets_set)
  have "concat (map fst (map (\<lambda>c. (c, False)) chunks @ [(final, True)])) = concat chunks @ final" by (simp add: comp_def)
  then show ?thesis
    using redact_reads_same[OF ne, of "[]" "map (\<lambda>c. (c, False)) chunks @ [(final, True)]"] assms
    by (simp add: holds_none_def contains_str_sublist list_all_iff)
qed

theorem clean_body_unchanged_witness:
  "redact_reads (sorted_secrets [''sk-1'']) [] [(''a s'', False), (''k-2'', True)] = ''a sk-2''"
  using clean_body_unchanged[of "[''a s'']" "''k-2''" "[''sk-1'']"] by code_simp

end
