(* ===== verification/Broker_Serve.thy ===== *)
theory Broker_Serve
  imports Broker_Register Broker_Redact
begin

text \<open>
  The request pipeline of the broker (\<open>internal/broker/proxy.go\<close>, \<open>vend.go\<close>, \<open>mint.go\<close> and
  \<open>Handler.Mint\<close>), up to the request the reverse proxy sends and the retry after a 401. The process
  that hosts the handler, the secret store, the vendor, the minter, the codecs and the work of
  \<open>httputil.ReverseProxy\<close> on the outgoing headers are parameters. A refusal is its status and the
  name of the check on the audit line; the texts of the answers are left out.
\<close>

subsection \<open>The host\<close>

record workload =
  wl_Sandbox :: string
  wl_Profile :: string
  wl_Session :: string

record vended =
  vd_AccessKeyID :: string
  vd_SecretAccessKey :: string
  vd_Token :: string
  vd_Expiration :: int

record host =
  hs_sign :: "string \<Rightarrow> string \<Rightarrow> string"
  hs_claims :: "string \<Rightarrow> claims option"
  hs_json :: "string \<Rightarrow> json option"
  hs_codec :: codec
  hs_arrival :: "string \<Rightarrow> string \<Rightarrow> string \<times> bool"
  hs_vendOnly :: "(http_request \<Rightarrow> bool) option"
  hs_vendDoc :: "(string \<Rightarrow> bool) option"
  hs_mintDoc :: "(string \<Rightarrow> bool) option"
  hs_mint :: "string \<Rightarrow> string \<Rightarrow> string \<Rightarrow> string option"
  hs_vendor :: "(string \<Rightarrow> string \<Rightarrow> string \<Rightarrow> vended option) option"
  hs_resolve :: "string \<Rightarrow> workload \<Rightarrow> string option"
  hs_proxied :: "headers \<Rightarrow> headers"

type_synonym refused = "nat \<times> string"

subsection \<open>Finding the route\<close>

definition upgrade :: "headers \<Rightarrow> bool" where
  "upgrade h \<longleftrightarrow> hd_values h ''Upgrade'' \<noteq> []
     \<or> list_ex (\<lambda>v. list_ex (\<lambda>tok. equal_fold (trim_space tok) ''upgrade'') (split_on CHR '','' v)) (hd_values h ''Connection'')"

definition find_route :: "host \<Rightarrow> handler \<Rightarrow> http_request \<Rightarrow> refused + (route_path \<times> sandbox \<times> broker_route)" where
  "find_route w h r =
     (if rq_method r = ''CONNECT'' \<or> upgrade (rq_header r) then Inl (400, ''upgrade'')
      else case splitRoutePath (rq_path r) (rq_escaped r) of
        None \<Rightarrow> Inl (404, ''path'')
      | Some p \<Rightarrow>
          if \<not> snd (hs_arrival w (pa_sandbox p) (rq_remote r)) then Inl (404, ''arrival'')
          else case hn_sandboxes h (pa_sandbox p) of
            None \<Rightarrow> Inl (404, ''sandbox'')
          | Some sb \<Rightarrow>
              (case map_of (sb_routes sb) (pa_route p) of
                 None \<Rightarrow> Inl (404, ''route'')
               | Some br \<Rightarrow>
                   if \<not> Vends (br_spec br) \<and> (case hs_vendOnly w of None \<Rightarrow> False | Some f \<Rightarrow> f r) then Inl (404, ''route.cleartext'')
                   else if other_mode (r_Mode (br_spec br)) then Inl (404, ''route.mode'')
                   else Inr (p, sb, br)))"

fun token_check :: "token_error \<Rightarrow> string" where
  "token_check TokenMissing = ''token''"
| "token_check TokenSignature = ''signature''"
| "token_check TokenSandbox = ''token.sandbox''"
| "token_check TokenRoute = ''token.route''"
| "token_check TokenExpired = ''expired''"

definition route_inject :: "broker_route \<Rightarrow> inject" where
  "route_inject br = (case r_Inject (br_spec br) of None \<Rightarrow> \<lparr>in_Headers = None, in_BasicAuth = None, in_TLS = None\<rparr> | Some i \<Rightarrow> i)"

definition check_token :: "host \<Rightarrow> int \<Rightarrow> http_request \<Rightarrow> route_path \<Rightarrow> sandbox \<Rightarrow> broker_route \<Rightarrow> refused + (string \<times> claims)" where
  "check_token w now r p sb br =
     (let tok = sessionToken (br_spec br) (route_inject br) (rq_header r) in
      if tok = [] then Inl (401, token_check TokenMissing)
      else case verify_token (hs_sign w) (hs_claims w) (sb_key sb) tok (pa_sandbox p) (pa_route p) now of
        Inl e \<Rightarrow> Inl (401, token_check e)
      | Inr c \<Rightarrow> Inr (tok, c))"

definition workload_of :: "sandbox \<Rightarrow> string \<Rightarrow> workload" where
  "workload_of sb session = \<lparr>wl_Sandbox = sb_id sb, wl_Profile = sb_profile sb, wl_Session = session\<rparr>"

subsection \<open>The body and the scan\<close>

datatype hold_outcome = NoBody | Held held_body | BudgetSpent | BodyTimedOut | BodyUnreadable

definition check_hold :: "hold_outcome \<Rightarrow> refused + held_body option" where
  "check_hold ho =
     (case ho of
        NoBody \<Rightarrow> Inr None
      | Held hb \<Rightarrow> Inr (Some hb)
      | BudgetSpent \<Rightarrow> Inl (503, ''budget'')
      | BodyTimedOut \<Rightarrow> Inl (408, ''body'')
      | BodyUnreadable \<Rightarrow> Inl (400, ''body''))"

definition check_placeholder :: "(body_error + placeholder option) \<times> bool \<Rightarrow> refused + unit" where
  "check_placeholder found =
     (case fst found of
        Inl ErrInflated \<Rightarrow> Inl (413, ''body'')
      | Inl ErrContentEncoding \<Rightarrow> Inl (415, ''content-encoding'')
      | Inr (Some ph) \<Rightarrow> Inl (403, ''placeholder'')
      | Inr None \<Rightarrow> Inr ())"

subsection \<open>What the route lets through\<close>

definition allow_repos :: "request_policy option \<Rightarrow> bool" where
  "allow_repos rp = (case rp of None \<Rightarrow> False | Some q \<Rightarrow> (case rp_Allow q of None \<Rightarrow> False | Some a \<Rightarrow> els (ra_Repos a) \<noteq> []))"

definition service_check :: "service_refusal \<Rightarrow> refused" where
  "service_check f =
     (case f of
        EscapedService \<Rightarrow> (400, ''path'')
      | HeaderOverride _ \<Rightarrow> (403, ''request.method-override'')
      | QueryOverride _ \<Rightarrow> (403, ''request.method-override'')
      | NoService \<Rightarrow> (403, ''request.services'')
      | BatchRefused \<Rightarrow> (403, ''request.batch'')
      | ServiceRefused _ f \<Rightarrow> (403, ''request.allow.'' @ refusal_field f))"

text \<open>The checks of the path and the method, and where the request goes: its upstream and its path there.\<close>

definition check_request :: "http_request \<Rightarrow> route_path \<Rightarrow> broker_route \<Rightarrow> refused + (url option \<times> route_path)" where
  "check_request r p br =
     (let spec = br_spec br in
      if Vends spec \<and> pa_rest p \<noteq> ''/'' then Inl (404, ''path'')
      else if \<not> Vends spec \<and> \<not> canonical (pa_rest p) (pa_escapedRest p) (allow_repos (r_Request spec)) then Inl (400, ''path'')
      else case (case r_Request spec of None \<Rightarrow> None | Some rp \<Rightarrow> allow_request (rp_Allow rp) (rq_method r) (pa_rest p)) of
        Some f \<Rightarrow> Inl (403, ''request.allow.'' @ refusal_field f)
      | None \<Rightarrow>
          (case br_services br of
             None \<Rightarrow> Inr (br_upstream br, p)
           | Some services \<Rightarrow>
               (case serviceTarget (map fst services) spec (\<lambda>hdr. hd_values (rq_header r) hdr \<noteq> []) (rq_query r) (rq_method r) p of
                  Inl f \<Rightarrow> Inl (service_check f)
                | Inr (name, out) \<Rightarrow> Inr (map_of services name, out))))"

subsection \<open>The credential and the answer\<close>

record forward =
  fw_upstream :: "url option"
  fw_path :: string
  fw_rawPath :: string
  fw_query :: string
  fw_method :: string
  fw_header :: headers
  fw_body :: "held_body option"
  fw_doc :: string
  fw_value :: string
  fw_secrets :: "string list"

datatype answer = Refuse refused | VendKeys vended | Forward forward

definition mints :: "host \<Rightarrow> string \<Rightarrow> bool" where
  "mints w doc = (case hs_mintDoc w of None \<Rightarrow> False | Some f \<Rightarrow> f doc)"

definition route_credential :: "host \<Rightarrow> route_path \<Rightarrow> broker_route \<Rightarrow> credential_ref \<Rightarrow> string \<Rightarrow> refused + string" where
  "route_credential w p br cred doc =
     (if \<not> mints w doc then
        (case credentialValue (hs_json w) cred doc of None \<Rightarrow> Inl (502, ''credential'') | Some v \<Rightarrow> Inr v)
      else if br_services br = None then Inl (502, ''credential.gcponly'')
      else case hs_mint w (pa_sandbox p) (pa_route p) doc of None \<Rightarrow> Inl (502, ''credential'') | Some v \<Rightarrow> Inr v)"

definition vend :: "host \<Rightarrow> route_path \<Rightarrow> string \<Rightarrow> answer" where
  "vend w p doc =
     (case hs_vendor w of
        None \<Rightarrow> Refuse (502, ''vend'')
      | Some f \<Rightarrow> (case f (pa_sandbox p) (pa_route p) doc of None \<Rightarrow> Refuse (502, ''vend'') | Some v \<Rightarrow> VendKeys v))"

text \<open>\<open>addSecret\<close>: the strings a value puts on the request.\<close>

definition secrets_of :: "inject \<Rightarrow> string \<Rightarrow> string list" where
  "secrets_of i v =
     (if v = [] then []
      else v # (case in_BasicAuth i of None \<Rightarrow> [] | Some user \<Rightarrow> [std_encode (user @ '':'' @ v)]))"

text \<open>The headers of the upstream request: the guest's without what it must not send, the encoding asked
  for, and the credential.\<close>

definition outgoing :: "host \<Rightarrow> inject \<Rightarrow> http_request \<Rightarrow> string \<Rightarrow> string \<Rightarrow> headers" where
  "outgoing w i r tok v =
     (let kept = fst (dropGuestHeaders i (hs_proxied w (rq_header r)) tok);
          asked = (if hd_get kept ''Range'' \<noteq> [] \<or> rq_method r = ''HEAD'' then hd_set ''Accept-Encoding'' ''identity'' kept else kept) in
      injectCredential i v asked)"

definition forward_request :: "host \<Rightarrow> http_request \<Rightarrow> broker_route \<Rightarrow> url option \<Rightarrow> route_path \<Rightarrow> string \<Rightarrow> held_body option
    \<Rightarrow> string \<Rightarrow> string \<Rightarrow> forward" where
  "forward_request w r br up out tok held doc v =
     \<lparr>fw_upstream = up, fw_path = pa_rest out, fw_rawPath = pa_escapedRest out, fw_query = rq_query r, fw_method = rq_method r,
      fw_header = outgoing w (route_inject br) r tok v, fw_body = held, fw_doc = doc, fw_value = v,
      fw_secrets = secrets_of (route_inject br) v\<rparr>"

text \<open>The answer, and the names of the secrets that were resolved for it.\<close>

definition answer_request :: "host \<Rightarrow> http_request \<Rightarrow> route_path \<Rightarrow> sandbox \<Rightarrow> broker_route \<Rightarrow> url option \<Rightarrow> route_path
    \<Rightarrow> string \<Rightarrow> claims \<Rightarrow> held_body option \<Rightarrow> answer \<times> string list" where
  "answer_request w r p sb br up out tok c held =
     (case r_Credential (br_spec br) of
        None \<Rightarrow> (Forward (forward_request w r br up out tok held [] []), [])
      | Some cred \<Rightarrow>
          (let name = cr_SecretRef cred in
           (case hs_resolve w name (workload_of sb (cl_Session c)) of
              None \<Rightarrow> Refuse (502, ''credential'')
            | Some doc \<Rightarrow>
                if Vends (br_spec br) then vend w p doc
                else if (case hs_vendDoc w of None \<Rightarrow> False | Some f \<Rightarrow> f doc) then Refuse (502, ''credential.vendonly'')
                else case route_credential w p br cred doc of
                  Inl f \<Rightarrow> Refuse f
                | Inr v \<Rightarrow> Forward (forward_request w r br up out tok held doc v),
            [name])))"

record served =
  se_answer :: answer
  se_resolved :: "string list"
  se_sandbox :: "sandbox option"

definition refuse_as :: "sandbox option \<Rightarrow> refused \<Rightarrow> served" where
  "refuse_as sb f = \<lparr>se_answer = Refuse f, se_resolved = [], se_sandbox = sb\<rparr>"

text \<open>\<open>ServeHTTP\<close>: \<open>arrived\<close> and \<open>scanned\<close> are the times the token is checked at, when it arrives and
  after the hold. The sandbox comes back with its live tokens and its count.\<close>

definition ServeHTTP :: "host \<Rightarrow> handler \<Rightarrow> http_request \<Rightarrow> hold_outcome \<Rightarrow> int \<Rightarrow> int \<Rightarrow> served" where
  "ServeHTTP w h r ho arrived scanned =
     (case find_route w h r of
        Inl f \<Rightarrow> refuse_as None f
      | Inr (p, sb, br) \<Rightarrow>
          (case check_token w arrived r p sb br of
             Inl f \<Rightarrow> refuse_as (Some sb) f
           | Inr (tok, c) \<Rightarrow>
               let sb1 = sb\<lparr>sb_live := remember tok (cl_Route c) (cl_Exp c) (sb_live sb)\<rparr> in
               (case check_hold ho of
                  Inl f \<Rightarrow> refuse_as (Some sb1) f
                | Inr held \<Rightarrow>
                    if \<not> before_expiry scanned (cl_Exp c) then refuse_as (Some sb1) (401, token_check TokenExpired)
                    else case live_matcher scanned (sb_live sb1) of
                      (m, live) \<Rightarrow>
                        let sb2 = sb1\<lparr>sb_live := live\<rparr>;
                            found = findPlaceholder (hs_codec w) m r p (br_spec br) (route_inject br) tok held in
                        (case check_placeholder found of
                           Inl f \<Rightarrow>
                             refuse_as (Some (if fst f = 403 then sb2\<lparr>sb_placeholders := sb_placeholders sb2 + 1\<rparr> else sb2)) f
                         | Inr _ \<Rightarrow>
                             (case check_request r p br of
                                Inl f \<Rightarrow> refuse_as (Some sb2) f
                              | Inr (up, out) \<Rightarrow>
                                  (case answer_request w r p sb br up out tok c held of
                                     (a, names) \<Rightarrow> \<lparr>se_answer = a, se_resolved = names, se_sandbox = Some sb2\<rparr>))))))"

subsection \<open>Minting\<close>

datatype mint_error = TTLNotPositive | SandboxUnknown | RouteUnknown

text \<open>\<open>Handler.Mint\<close>: a token for a route of a registered sandbox, which the sandbox remembers. Times are
  nanoseconds, and the expiry is the second it falls in.\<close>

definition Mint :: "(string \<Rightarrow> string \<Rightarrow> string) \<Rightarrow> (claims \<Rightarrow> string) \<Rightarrow> string \<Rightarrow> string \<Rightarrow> string \<Rightarrow> int \<Rightarrow> int \<Rightarrow> handler
    \<Rightarrow> mint_error + (string \<times> handler)" where
  "Mint sign marshal sandbox session route ttl now h =
     (if ttl \<le> 0 then Inl TTLNotPositive
      else case hn_sandboxes h sandbox of
        None \<Rightarrow> Inl SandboxUnknown
      | Some sb \<Rightarrow>
          if map_of (sb_routes sb) route = None then Inl RouteUnknown
          else
            let exp = (now + ttl) div 1000000000;
                tok = mint_token sign marshal (sb_key sb)
                  \<lparr>cl_Sandbox = sandbox, cl_Session = session, cl_Route = route, cl_Exp = exp, cl_Typ = tokenType\<rparr> in
            Inr (tok, h\<lparr>hn_sandboxes := (hn_sandboxes h)(sandbox \<mapsto> sb\<lparr>sb_live := remember tok route exp (sb_live sb)\<rparr>)\<rparr>))"

subsection \<open>Every check comes first\<close>

lemma find_route_Inr:
  assumes "find_route w h r = Inr (p, sb, br)"
  shows "rq_method r \<noteq> ''CONNECT''" and "\<not> upgrade (rq_header r)" and "splitRoutePath (rq_path r) (rq_escaped r) = Some p"
    and "snd (hs_arrival w (pa_sandbox p) (rq_remote r))" and "hn_sandboxes h (pa_sandbox p) = Some sb"
    and "map_of (sb_routes sb) (pa_route p) = Some br" and "\<not> other_mode (r_Mode (br_spec br))"
  using assms by (auto simp: find_route_def split: if_splits option.splits)

lemma check_token_Inr:
  assumes "check_token w now r p sb br = Inr (tok, c)"
  shows "tok \<noteq> []" and "tok = sessionToken (br_spec br) (route_inject br) (rq_header r)"
    and "verify_token (hs_sign w) (hs_claims w) (sb_key sb) tok (pa_sandbox p) (pa_route p) now = Inr c"
  using assms by (auto simp: check_token_def Let_def split: if_splits sum.splits)

lemma check_placeholder_Inr: "check_placeholder found = Inr u \<Longrightarrow> fst found = Inr None"
  by (auto simp: check_placeholder_def split: sum.splits option.splits body_error.splits)

text \<open>A request that gets past the checks: everything they established.\<close>

definition passed :: "host \<Rightarrow> handler \<Rightarrow> http_request \<Rightarrow> hold_outcome \<Rightarrow> int \<Rightarrow> int
    \<Rightarrow> route_path \<Rightarrow> sandbox \<Rightarrow> broker_route \<Rightarrow> string \<Rightarrow> claims \<Rightarrow> held_body option \<Rightarrow> url option \<Rightarrow> route_path \<Rightarrow> bool" where
  "passed w h r ho arrived scanned p sb br tok c held up out \<longleftrightarrow>
     find_route w h r = Inr (p, sb, br) \<and> check_token w arrived r p sb br = Inr (tok, c) \<and> check_hold ho = Inr held
     \<and> before_expiry scanned (cl_Exp c)
     \<and> fst (findPlaceholder (hs_codec w) (fst (live_matcher scanned (remember tok (cl_Route c) (cl_Exp c) (sb_live sb)))) r p
         (br_spec br) (route_inject br) tok held) = Inr None
     \<and> check_request r p br = Inr (up, out)"

lemma serve_passed:
  assumes "passed w h r ho arrived scanned p sb br tok c held up out"
  shows "se_answer (ServeHTTP w h r ho arrived scanned) = fst (answer_request w r p sb br up out tok c held)"
    and "se_resolved (ServeHTTP w h r ho arrived scanned) = snd (answer_request w r p sb br up out tok c held)"
  using assms by (simp_all add: passed_def ServeHTTP_def Let_def check_placeholder_def case_prod_unfold)

lemma serve_cases:
  obtains f where "se_answer (ServeHTTP w h r ho arrived scanned) = Refuse f" and "se_resolved (ServeHTTP w h r ho arrived scanned) = []"
  | p sb br tok c held up out where "passed w h r ho arrived scanned p sb br tok c held up out"
    and "se_answer (ServeHTTP w h r ho arrived scanned) = fst (answer_request w r p sb br up out tok c held)"
    and "se_resolved (ServeHTTP w h r ho arrived scanned) = snd (answer_request w r p sb br up out tok c held)"
proof (cases "find_route w h r")
  case (Inl f)
  then show thesis using that(1) by (simp add: ServeHTTP_def refuse_as_def)
next
  case fr: (Inr x)
  obtain p sb br where x: "x = (p, sb, br)" by (cases x) auto
  show thesis
  proof (cases "check_token w arrived r p sb br")
    case (Inl f)
    then show thesis using that(1) fr by (simp add: ServeHTTP_def refuse_as_def x)
  next
    case ct: (Inr y)
    obtain tok c where y: "y = (tok, c)" by (cases y)
    define lv where "lv = remember tok (cl_Route c) (cl_Exp c) (sb_live sb)"
    obtain m lv' where m: "live_matcher scanned lv = (m, lv')" by fastforce
    define found where "found held = findPlaceholder (hs_codec w) m r p (br_spec br) (route_inject br) tok held" for held
    show thesis
    proof (cases "check_hold ho")
      case (Inl f)
      then show thesis using that(1) fr ct by (simp add: ServeHTTP_def refuse_as_def x y Let_def)
    next
      case ch: (Inr held)
      show thesis
      proof (cases "before_expiry scanned (cl_Exp c)")
        case False
        then show thesis using that(1) fr ct ch by (simp add: ServeHTTP_def refuse_as_def x y Let_def)
      next
        case live: True
        show thesis
        proof (cases "check_placeholder (found held)")
          case (Inl f)
          then show thesis using that(1) fr ct ch live m
            by (simp add: ServeHTTP_def refuse_as_def x y Let_def flip: lv_def found_def)
        next
          case cp: (Inr u)
          show thesis
          proof (cases "check_request r p br")
            case (Inl f)
            then show thesis using that(1) fr ct ch live m cp
              by (simp add: ServeHTTP_def refuse_as_def x y Let_def flip: lv_def found_def)
          next
            case cr: (Inr z)
            obtain up out where z: "z = (up, out)" by (cases z)
            have "passed w h r ho arrived scanned p sb br tok c held up out"
              using fr ct ch live cr check_placeholder_Inr[OF cp] m by (simp add: passed_def x y z found_def flip: lv_def)
            then show thesis by (intro that(2)[of p sb br tok c held up out] serve_passed)
          qed
        qed
      qed
    qed
  qed
qed

lemma answer_resolved:
  "snd (answer_request w r p sb br up out tok c held) \<noteq> [] \<Longrightarrow>
   \<exists>cred. r_Credential (br_spec br) = Some cred \<and> snd (answer_request w r p sb br up out tok c held) = [cr_SecretRef cred]"
  by (auto simp: answer_request_def Let_def split: option.splits)


subsection \<open>What goes upstream\<close>

text \<open>The names the broker writes on the outgoing request.\<close>

definition broker_names :: "inject \<Rightarrow> string set" where
  "broker_names i = (\<lambda>s. CanonicalHeaderKey (hd_Name s)) ` set (set_list i) \<union> {''Accept-Encoding''}
     \<union> (if in_BasicAuth i = None then {} else {''Authorization''})"

lemma hd_set_other: "n \<noteq> CanonicalHeaderKey name \<Longrightarrow> map_of (hd_set name v h) n = map_of h n"
  by (simp add: hd_set_def update_conv')

lemma canonical_names: "CanonicalHeaderKey ''Authorization'' = ''Authorization''" "CanonicalHeaderKey ''Accept-Encoding'' = ''Accept-Encoding''"
  by code_simp+

lemma inject_other:
  assumes "n \<notin> broker_names i"
  shows "map_of (injectCredential i v h) n = map_of h n"
proof -
  have "map_of (fold (\<lambda>s h. hd_set (hd_Name s) (g s) h) ss h) n = map_of h n"
    if "n \<notin> (\<lambda>s. CanonicalHeaderKey (hd_Name s)) ` set ss" for g ss h
    using that by (induction ss arbitrary: h) (simp_all add: hd_set_other)
  then show ?thesis
    using assms by (auto simp: injectCredential_def Let_def broker_names_def hd_set_other canonical_names split: option.splits if_splits)
qed


subsection \<open>A request that is served\<close>

definition serve_token :: string where
  "serve_token = ''YQ.YQ''"

definition serve_claims :: claims where
  "serve_claims = \<lparr>cl_Sandbox = ''box'', cl_Session = ''s1'', cl_Route = ''api'', cl_Exp = 100, cl_Typ = tokenType\<rparr>"

definition serve_request :: http_request where
  "serve_request = example_request\<lparr>rq_header := [(''Authorization'', [''Bearer '' @ serve_token]), (''Accept'', [''*/*''])]\<rparr>"

definition serve_route :: broker_route where
  "serve_route = \<lparr>br_policy = ''pol'', br_spec = bearer_route, br_upstream = parse_https ''api.example.com'',
     br_services = None, br_serviceNames = [], br_tls = fresh_tls\<rparr>"

definition serve_sandbox :: sandbox where
  "serve_sandbox = \<lparr>sb_id = ''box'', sb_profile = ''dev'', sb_key = ''k'', sb_routes = [(''api'', serve_route)],
     sb_placeholders = 0, sb_live = no_live\<rparr>"

definition serve_handler :: handler where
  "serve_handler =
     \<lparr>hn_sandboxes = (\<lambda>id. if id = ''box'' then Some serve_sandbox else None),
      hn_forced = (\<lambda>_. None), hn_certs = (\<lambda>_. None), hn_cas = (\<lambda>_. None)\<rparr>"

definition serve_host :: host where
  "serve_host =
     \<lparr>hs_sign = (\<lambda>_ _. ''a''), hs_claims = (\<lambda>s. if s = ''a'' then Some serve_claims else None), hs_json = (\<lambda>_. None),
      hs_codec = no_codec, hs_arrival = (\<lambda>_ from. (from, True)), hs_vendOnly = None, hs_vendDoc = None, hs_mintDoc = None,
      hs_mint = (\<lambda>_ _ _. None), hs_vendor = None,
      hs_resolve = (\<lambda>name wl. if name = ''key'' \<and> wl_Session wl = ''s1'' then Some ''secret'' else None), hs_proxied = id\<rparr>"

lemma serve_finds: "find_route serve_host serve_handler serve_request = Inr (example_path, serve_sandbox, serve_route)"
proof -
  have "rq_method serve_request \<noteq> ''CONNECT'' \<and> \<not> upgrade (rq_header serve_request)" by code_simp
  moreover have "splitRoutePath (rq_path serve_request) (rq_escaped serve_request) = Some example_path" by code_simp
  moreover have "\<not> other_mode (r_Mode (br_spec serve_route))" by code_simp
  ultimately show ?thesis
    by (simp add: find_route_def serve_host_def serve_handler_def example_path_def serve_sandbox_def)
qed

lemma serve_passes:
  "passed serve_host serve_handler serve_request (Held example_held) 5000000000 6000000000 example_path serve_sandbox serve_route
     serve_token serve_claims (Some example_held) (br_upstream serve_route) example_path"
proof -
  have "check_token serve_host 5000000000 serve_request example_path serve_sandbox serve_route = Inr (serve_token, serve_claims)"
    by code_simp
  moreover have "fst (findPlaceholder (hs_codec serve_host) (fst (live_matcher 6000000000
        (remember serve_token (cl_Route serve_claims) (cl_Exp serve_claims) (sb_live serve_sandbox)))) serve_request example_path
      (br_spec serve_route) (route_inject serve_route) serve_token (Some example_held)) = Inr None"
    by code_simp
  moreover have "check_request serve_request example_path serve_route = Inr (br_upstream serve_route, example_path)" by code_simp
  ultimately show ?thesis
    using serve_finds by (simp add: passed_def check_hold_def before_expiry_def serve_claims_def)
qed

lemma serve_answers:
  "snd (answer_request serve_host serve_request example_path serve_sandbox serve_route (br_upstream serve_route) example_path
     serve_token serve_claims (Some example_held)) = [''key'']"
  "(case fst (answer_request serve_host serve_request example_path serve_sandbox serve_route (br_upstream serve_route) example_path
      serve_token serve_claims (Some example_held)) of
      Forward f \<Rightarrow> map_of (fw_header f) ''X-Api-Key'' = Some [''secret''] \<and> map_of (fw_header f) ''Authorization'' = None
    | _ \<Rightarrow> False)"
  by code_simp+



end
