(* ===== verification/Broker_Retry.thy ===== *)
theory Broker_Retry
  imports Broker_Serve
begin

text \<open>
  The way of a request to the upstream: \<open>upstreamTrip\<close> of \<open>internal/broker/proxy.go\<close> with
  \<open>mayForceRenew\<close> of \<open>broker.go\<close> and the TLS of a route. The upstream, the secret store and the renewer
  are parameters. The upstream's answer to a request may depend on the requests before it. Times are
  nanoseconds.
\<close>

subsection \<open>Forced renewals\<close>

definition renewInterval :: int where "renewInterval = 60000000000"

definition mayForceRenew :: "string \<Rightarrow> int \<Rightarrow> handler \<Rightarrow> bool \<times> handler" where
  "mayForceRenew secret now h =
     (case hn_forced h secret of
        Some last_time \<Rightarrow> if now - last_time < renewInterval then (False, h) else (True, h\<lparr>hn_forced := (hn_forced h)(secret \<mapsto> now)\<rparr>)
      | None \<Rightarrow> (True, h\<lparr>hn_forced := (hn_forced h)(secret \<mapsto> now)\<rparr>))"

text \<open>A handler's attempts in order, and the times one secret was renewed at, the latest first.\<close>

fun grants :: "(string \<times> int) list \<Rightarrow> handler \<Rightarrow> (string \<times> int) list \<Rightarrow> (string \<times> int) list \<times> handler" where
  "grants [] h granted = (granted, h)"
| "grants ((secret, now) # attempts) h granted =
     (case mayForceRenew secret now h of
        (ok, h) \<Rightarrow> grants attempts h (if ok then (secret, now) # granted else granted))"

subsection \<open>One request\<close>

record sent =
  sn_header :: headers
  sn_body :: "string option"
  sn_transport :: "nat option"

datatype trip_failure = TlsFailure string | RouteClosed | Unreachable

record up_answer =
  ua_StatusCode :: nat
  ua_response :: response

record trip_world =
  tw_now :: int
  tw_wire :: "sent list \<Rightarrow> sent \<Rightarrow> trip_failure + up_answer"
  tw_resolve :: "string \<Rightarrow> string option"
  tw_renewer :: "(string \<Rightarrow> string \<Rightarrow> string option) option"
  tw_sha :: "string \<Rightarrow> string"
  tw_chain :: "string \<Rightarrow> string"
  tw_parse :: "string \<Rightarrow> int \<Rightarrow> cert_error + string"
  tw_expired :: "string \<Rightarrow> int \<Rightarrow> bool"
  tw_parse_ca :: "string \<Rightarrow> string option"

record trip =
  tp_handler :: handler
  tp_route :: route_tls
  tp_tt :: "nat option"
  tp_secrets :: "string list"
  tp_renew :: string
  tp_sent :: "sent list"

fun certCheck :: "cert_error \<Rightarrow> string" where
  "certCheck CertExpired = ''tls.expired''"
| "certCheck CertUnreadable = ''tls.certificate''"
| "certCheck CertBad = ''tls.certificate''"

text \<open>\<open>prepareTLS\<close>: the CA and the certificate are read for every request, and the transport is the one
  for their digests. A route without one of them has the empty digest in its place.\<close>

definition read_ca :: "trip_world \<Rightarrow> tls_inject \<Rightarrow> handler \<Rightarrow> string option \<times> handler" where
  "read_ca w t h =
     (case ti_CA t of
        None \<Rightarrow> (Some [], h)
      | Some name \<Rightarrow> (case caPool (tw_sha w) (tw_parse_ca w) (tw_resolve w name) name h of (r, h) \<Rightarrow> (map_option snd r, h)))"

definition read_cert :: "trip_world \<Rightarrow> tls_inject \<Rightarrow> handler \<Rightarrow> (cert_error + string) \<times> handler" where
  "read_cert w t h =
     (case ti_ClientCertificate t of
        None \<Rightarrow> (Inr [], h)
      | Some name \<Rightarrow>
          (case clientCertificate (tw_sha w) (tw_parse w) (tw_expired w) (tw_resolve w name) name (tw_now w) h of
             (Inl e, h) \<Rightarrow> (Inl e, h)
           | (Inr v, h) \<Rightarrow> (Inr (tw_chain w v), h)))"

definition prepareTLS :: "trip_world \<Rightarrow> tls_inject \<Rightarrow> trip \<Rightarrow> trip_failure option \<times> trip" where
  "prepareTLS w t u =
     (case read_ca w t (tp_handler u) of
        (None, h) \<Rightarrow> (Some (TlsFailure ''tls.ca''), u\<lparr>tp_handler := h\<rparr>)
      | (Some digest, h) \<Rightarrow>
          (case read_cert w t h of
             (Inl e, h) \<Rightarrow> (Some (TlsFailure (certCheck e)), u\<lparr>tp_handler := h\<rparr>)
           | (Inr cert, h) \<Rightarrow>
               (case routeTransport \<lparr>tk_ca = digest, tk_cert = cert\<rparr> (tp_route u) of
                  (None, rl) \<Rightarrow> (Some RouteClosed, u\<lparr>tp_handler := h, tp_route := rl\<rparr>)
                | (Some i, rl) \<Rightarrow> (None, u\<lparr>tp_handler := h, tp_route := rl, tp_tt := Some i\<rparr>))))"

text \<open>\<open>send\<close>: a route with \<open>inject.tls\<close> uses its own transport, picked on the first round trip.\<close>

definition put_on_wire :: "trip_world \<Rightarrow> nat option \<Rightarrow> headers \<Rightarrow> string option \<Rightarrow> trip \<Rightarrow> (trip_failure + up_answer) \<times> trip" where
  "put_on_wire w transport header body u =
     (let s = \<lparr>sn_header = header, sn_body = body, sn_transport = transport\<rparr> in
      (tw_wire w (tp_sent u) s, u\<lparr>tp_sent := tp_sent u @ [s]\<rparr>))"

definition send :: "trip_world \<Rightarrow> inject \<Rightarrow> headers \<Rightarrow> string option \<Rightarrow> trip \<Rightarrow> (trip_failure + up_answer) \<times> trip" where
  "send w i header body u =
     (case in_TLS i of
        None \<Rightarrow> put_on_wire w None header body u
      | Some t \<Rightarrow>
          (case (if tp_tt u = None then prepareTLS w t u else (None, u)) of
             (Some f, u) \<Rightarrow> (Inl f, u)
           | (None, u) \<Rightarrow> put_on_wire w (tp_tt u) header body u))"

definition renewable :: "host \<Rightarrow> trip_world \<Rightarrow> credential_ref option \<Rightarrow> string \<Rightarrow> bool" where
  "renewable hs w cred doc \<longleftrightarrow>
     (case cred of None \<Rightarrow> False | Some c \<Rightarrow> tw_renewer w \<noteq> None \<and> cr_Lifecycle c \<noteq> [] \<and> \<not> mints hs doc)"

definition renewed :: "trip_world \<Rightarrow> credential_ref \<Rightarrow> string \<Rightarrow> trip \<Rightarrow> string option \<times> trip" where
  "renewed w cred doc u =
     (let name = cr_SecretRef cred in
      case mayForceRenew name (tw_now w) (tp_handler u) of
        (False, h) \<Rightarrow>
          (case tw_resolve w name of
             None \<Rightarrow> (None, u\<lparr>tp_handler := h, tp_renew := ''interval''\<rparr>)
           | Some d \<Rightarrow> if d = doc then (None, u\<lparr>tp_handler := h, tp_renew := ''interval''\<rparr>) else (Some d, u\<lparr>tp_handler := h\<rparr>))
      | (True, h) \<Rightarrow>
          (case (case tw_renewer w of None \<Rightarrow> None | Some f \<Rightarrow> f name doc) of
             None \<Rightarrow> (None, u\<lparr>tp_handler := h, tp_renew := ''failed''\<rparr>)
           | Some d \<Rightarrow> (Some d, u\<lparr>tp_handler := h\<rparr>)))"

text \<open>What the retry sends as its body: nothing after nothing, or all of the held body.\<close>

definition replay :: "string option \<Rightarrow> held_body option \<Rightarrow> (string + unit) + string option" where
  "replay body held =
     (case body of
        None \<Rightarrow> Inr None
      | Some _ \<Rightarrow>
          (case held of
             None \<Rightarrow> Inl (Inr ())
           | Some hb \<Rightarrow> (case complete_body hb of None \<Rightarrow> Inl (Inl ''body'') | Some b \<Rightarrow> Inr (Some b))))"

definition RoundTrip :: "host \<Rightarrow> trip_world \<Rightarrow> credential_ref option \<Rightarrow> inject \<Rightarrow> string \<Rightarrow> held_body option
    \<Rightarrow> headers \<Rightarrow> string option \<Rightarrow> trip \<Rightarrow> (trip_failure + up_answer) \<times> trip" where
  "RoundTrip hs w cred i doc held header body u =
     (case send w i header body u of
        (Inl f, u) \<Rightarrow> (Inl f, u)
      | (Inr a, u) \<Rightarrow>
          if ua_StatusCode a \<noteq> 401 \<or> \<not> renewable hs w cred doc then (Inr a, u)
          else case (cred, replay body held) of
            (Some c, Inr again) \<Rightarrow>
              (case renewed w c doc u of
                 (None, u) \<Rightarrow> (Inr a, u)
               | (Some fresh, u) \<Rightarrow>
                   (case credentialValue (hs_json hs) c fresh of
                      None \<Rightarrow> (Inr a, u\<lparr>tp_renew := ''failed''\<rparr>)
                    | Some v \<Rightarrow>
                        send w i (injectCredential i v header) again
                          (u\<lparr>tp_secrets := tp_secrets u @ secrets_of i v, tp_renew := ''retried''\<rparr>)))
          | (_, Inl (Inl note)) \<Rightarrow> (Inr a, u\<lparr>tp_renew := note\<rparr>)
          | _ \<Rightarrow> (Inr a, u))"

text \<open>The trip of a forwarded request, from its start to \<open>done\<close>.\<close>

definition start_trip :: "forward \<Rightarrow> handler \<Rightarrow> route_tls \<Rightarrow> trip" where
  "start_trip f h rl = \<lparr>tp_handler = h, tp_route = rl, tp_tt = None, tp_secrets = fw_secrets f, tp_renew = [], tp_sent = []\<rparr>"

definition trip_done :: "trip \<Rightarrow> trip" where
  "trip_done u = (case tp_tt u of None \<Rightarrow> u | Some i \<Rightarrow> u\<lparr>tp_route := release_transport i (tp_route u)\<rparr>)"

definition forward_trip :: "host \<Rightarrow> trip_world \<Rightarrow> broker_route \<Rightarrow> forward \<Rightarrow> string \<Rightarrow> handler \<Rightarrow> route_tls
    \<Rightarrow> (trip_failure + up_answer) \<times> trip" where
  "forward_trip hs w br f rest h rl =
     (let body = map_option (forwarded_body rest) (fw_body f) in
      RoundTrip hs w (r_Credential (br_spec br)) (route_inject br) (fw_doc f) (fw_body f) (fw_header f) body (start_trip f h rl))"

subsection \<open>Renewals are spaced\<close>

definition spaced :: "int list \<Rightarrow> bool" where
  "spaced ts \<longleftrightarrow> sorted_wrt (\<lambda>later earlier. renewInterval \<le> later - earlier) ts"

definition times_of :: "string \<Rightarrow> (string \<times> int) list \<Rightarrow> int list" where
  "times_of secret gs = map snd (filter (\<lambda>g. fst g = secret) gs)"

definition grants_ok :: "handler \<Rightarrow> (string \<times> int) list \<Rightarrow> bool" where
  "grants_ok h gs \<longleftrightarrow> (\<forall>s. spaced (times_of s gs) \<and> (case times_of s gs of [] \<Rightarrow> True | t # _ \<Rightarrow> hn_forced h s = Some t))"

lemma mayForceRenew_True:
  "mayForceRenew s now h = (True, h') \<Longrightarrow> h' = h\<lparr>hn_forced := (hn_forced h)(s \<mapsto> now)\<rparr> \<and> (\<forall>t. hn_forced h s = Some t \<longrightarrow> renewInterval \<le> now - t)"
  by (auto simp: mayForceRenew_def split: option.splits if_splits)

lemma mayForceRenew_False: "mayForceRenew s now h = (False, h') \<Longrightarrow> h' = h"
  by (auto simp: mayForceRenew_def split: option.splits if_splits)

lemma spaced_Cons:
  assumes "spaced (t # ts)" and "renewInterval \<le> now - t"
  shows "spaced (now # t # ts)"
proof -
  have "renewInterval \<le> now - x" if "x \<in> set ts" for x
    using assms that by (auto simp: spaced_def renewInterval_def)
  then show ?thesis using assms by (simp add: spaced_def)
qed

lemma grant_step:
  assumes ok: "grants_ok h gs" and g: "mayForceRenew s now h = (True, h')"
  shows "grants_ok h' ((s, now) # gs)"
  unfolding grants_ok_def
proof
  fix x
  note h' = mayForceRenew_True[OF g]
  show "spaced (times_of x ((s, now) # gs)) \<and> (case times_of x ((s, now) # gs) of [] \<Rightarrow> True | t # _ \<Rightarrow> hn_forced h' x = Some t)"
  proof (cases "x = s")
    case False
    then have "times_of x ((s, now) # gs) = times_of x gs" "hn_forced h' x = hn_forced h x" using h' by (simp_all add: times_of_def)
    then show ?thesis using ok unfolding grants_ok_def by metis
  next
    case True
    show ?thesis
    proof (cases "times_of s gs")
      case Nil
      then show ?thesis using True h' by (simp add: times_of_def spaced_def)
    next
      case (Cons t ts)
      have "spaced (t # ts)" "hn_forced h s = Some t" using ok Cons by (auto simp: grants_ok_def dest: spec[of _ s])
      then have "spaced (now # t # ts)" using h' spaced_Cons by blast
      then show ?thesis using True h' Cons by (simp add: times_of_def)
    qed
  qed
qed

lemma grants_spaced: "grants_ok h gs \<Longrightarrow> grants_ok (snd (grants attempts h gs)) (fst (grants attempts h gs))"
proof (induction attempts arbitrary: h gs)
  case (Cons a attempts)
  obtain s now where a: "a = (s, now)" by (cases a)
  obtain ok h' where m: "mayForceRenew s now h = (ok, h')" by fastforce
  show ?case
  proof (cases ok)
    case True
    then show ?thesis using Cons.IH[OF grant_step[OF Cons.prems]] m by (simp add: a)
  next
    case False
    then show ?thesis using Cons.IH[OF Cons.prems] m mayForceRenew_False[of s now h h'] by (simp add: a)
  qed
qed simp

text \<open>Upstream answers force few renewals. However many requests an upstream refuses, and whatever the
  clock does, any two renewals of one secret that refusals force are at least a minute apart.\<close>
theorem renewals_spaced:
  "spaced (times_of secret (fst (grants attempts empty_handler [])))"
proof -
  have "grants_ok empty_handler []" by (simp add: grants_ok_def times_of_def spaced_def)
  then show ?thesis using grants_spaced by (auto simp: grants_ok_def)
qed

subsection \<open>At most one retry\<close>

lemma put_on_wire_sent:
  "put_on_wire w t header body u = (r, u') \<Longrightarrow>
     u' = u\<lparr>tp_sent := tp_sent u @ [\<lparr>sn_header = header, sn_body = body, sn_transport = t\<rparr>]\<rparr>
     \<and> r = tw_wire w (tp_sent u) \<lparr>sn_header = header, sn_body = body, sn_transport = t\<rparr>"
  by (auto simp: put_on_wire_def Let_def)

lemma prepareTLS_fields:
  "prepareTLS w t u = (r, u') \<Longrightarrow> tp_sent u' = tp_sent u \<and> tp_secrets u' = tp_secrets u \<and> (r = None \<longrightarrow> tp_tt u' \<noteq> None)"
  by (auto simp: prepareTLS_def split: prod.splits option.splits sum.splits)

text \<open>A round trip that reaches the wire leaves the transport it used on the trip.\<close>

definition trip_transport :: "inject \<Rightarrow> trip \<Rightarrow> nat option" where
  "trip_transport i u = (if in_TLS i = None then None else tp_tt u)"

lemma send_sent:
  assumes "send w i header body u = (r, u')"
  obtains (failed) "tp_sent u' = tp_sent u" and "\<exists>f. r = Inl f" and "tp_secrets u' = tp_secrets u"
  | (wire) "tp_sent u' = tp_sent u @ [\<lparr>sn_header = header, sn_body = body, sn_transport = trip_transport i u'\<rparr>]"
    and "r = tw_wire w (tp_sent u) \<lparr>sn_header = header, sn_body = body, sn_transport = trip_transport i u'\<rparr>"
    and "tp_secrets u' = tp_secrets u" and "in_TLS i = None \<or> tp_tt u' \<noteq> None" and "tp_tt u = None \<or> tp_tt u' = tp_tt u"
proof (cases "in_TLS i")
  case None
  then have "put_on_wire w None header body u = (r, u')" using assms by (simp add: send_def)
  note s = put_on_wire_sent[OF this]
  show thesis by (rule wire) (use s None in \<open>simp_all add: trip_transport_def\<close>)
next
  case (Some t)
  obtain x u1 where p: "(if tp_tt u = None then prepareTLS w t u else (None, u)) = (x, u1)" by fastforce
  have f: "tp_sent u1 = tp_sent u" "tp_secrets u1 = tp_secrets u" "x = None \<Longrightarrow> tp_tt u1 \<noteq> None" "tp_tt u = None \<or> u1 = u"
    using p prepareTLS_fields[of w t u x u1] by (auto split: if_splits)
  show thesis
  proof (cases x)
    case Some2: (Some e)
    then have "r = Inl e" "u' = u1" using assms Some p by (simp_all add: send_def)
    then show thesis using f by (intro failed) simp_all
  next
    case None
    then have "put_on_wire w (tp_tt u1) header body u1 = (r, u')" using assms Some p by (simp add: send_def)
    note s = put_on_wire_sent[OF this]
    show thesis by (rule wire) (use s Some f None in \<open>auto simp: trip_transport_def\<close>)
  qed
qed

lemma renewed_fields: "renewed w c doc u = (r, u') \<Longrightarrow> tp_sent u' = tp_sent u \<and> tp_secrets u' = tp_secrets u \<and> tp_tt u' = tp_tt u"
  by (auto simp: renewed_def Let_def split: prod.splits bool.splits option.splits if_splits)

lemma replay_Inr: "replay body held = Inr again \<Longrightarrow> (body = None \<and> again = None) \<or> (\<exists>hb. held = Some hb \<and> again = complete_body hb \<and> again \<noteq> None)"
  by (auto simp: replay_def split: option.splits) (metis option.distinct(1))

text \<open>The second of two requests, from the first and the upstream's answer to it.\<close>

definition retry_of :: "host \<Rightarrow> trip_world \<Rightarrow> credential_ref option \<Rightarrow> inject \<Rightarrow> string \<Rightarrow> held_body option \<Rightarrow> string list \<Rightarrow> sent \<Rightarrow> sent \<Rightarrow> bool" where
  "retry_of hs w cred i doc held secrets s1 s2 \<longleftrightarrow>
     (\<exists>a. tw_wire w [] s1 = Inr a \<and> ua_StatusCode a = 401) \<and> renewable hs w cred doc
     \<and> sn_transport s2 = sn_transport s1
     \<and> (\<exists>v. sn_header s2 = injectCredential i v (sn_header s1) \<and> set (secrets_of i v) \<subseteq> set secrets)
     \<and> (sn_body s1 = None \<and> sn_body s2 = None \<or> (\<exists>hb. held = Some hb \<and> sn_body s2 = complete_body hb \<and> complete_body hb \<noteq> None))"

text \<open>After the first request has reached the wire, either it stays the only one, or a retry follows it.\<close>

lemma RoundTrip_second:
  assumes first: "send w i header body u = (r, u1)" and rt: "RoundTrip hs w cred i doc held header body u = (r', u')"
  obtains (one) "tp_sent u' = tp_sent u1" and "set (tp_secrets u1) \<subseteq> set (tp_secrets u')"
  | (two) a again v u3 where "r = Inr a" and "ua_StatusCode a = 401" and "renewable hs w cred doc" and "replay body held = Inr again"
    and "tp_sent u3 = tp_sent u1" and "tp_tt u3 = tp_tt u1" and "tp_secrets u3 = tp_secrets u1 @ secrets_of i v"
    and "send w i (injectCredential i v header) again u3 = (r', u')"
proof (cases r)
  case (Inl f)
  then show thesis using rt first one by (simp add: RoundTrip_def)
next
  case (Inr a)
  show thesis
  proof (cases "ua_StatusCode a \<noteq> 401 \<or> \<not> renewable hs w cred doc")
    case True
    then show thesis using rt first Inr one by (simp add: RoundTrip_def)
  next
    case go: False
    then obtain c where c: "cred = Some c" by (auto simp: renewable_def split: option.splits)
    show thesis
    proof (cases "replay body held")
      case (Inl note_or)
      then show thesis using rt first Inr go c one by (cases note_or) (auto simp: RoundTrip_def)
    next
      case again: (Inr again)
      obtain fr u2 where rn: "renewed w c doc u1 = (fr, u2)" by fastforce
      note u2 = renewed_fields[OF rn]
      show thesis
      proof (cases "\<exists>fresh v. fr = Some fresh \<and> credentialValue (hs_json hs) c fresh = Some v")
        case False
        then show thesis using rt first Inr go c again rn u2 one by (cases fr) (auto simp: RoundTrip_def split: option.splits)
      next
        case True
        then obtain fresh v where fv: "fr = Some fresh" "credentialValue (hs_json hs) c fresh = Some v" by blast
        let ?u3 = "u2\<lparr>tp_secrets := tp_secrets u2 @ secrets_of i v, tp_renew := ''retried''\<rparr>"
        have "send w i (injectCredential i v header) again ?u3 = (r', u')"
          using rt first Inr go c again rn fv by (simp add: RoundTrip_def)
        then show thesis by (rule two[OF Inr _ _ again, of ?u3 v, rotated 5]) (use go u2 in simp_all)
      qed
    qed
  qed
qed


end
