(* ===== verification/Renew_World.thy ===== *)
theory Renew_World
  imports Go_Prelude
begin

text \<open>
  The store a renewable secret and its journal live in, the journal, and one entry of the cache:
  \<open>internal/renew/journal.go\<close> and the types of \<open>internal/renew/cache.go\<close>. The store and the
  provider are outside the process: every call to them takes the next of the outcomes the world holds,
  which says whether it worked, how long it took and, for the provider, what it answered and whether
  somebody stored another document meanwhile. A call that finds no outcome left works at once. Times
  are nanoseconds, and the zero time is \<open>None\<close>.
\<close>

subsection \<open>Constants\<close>

definition renewAhead :: int where "renewAhead = 600000000000"
definition retryAfter :: int where "retryAfter = 30000000000"
definition recheck :: int where "recheck = 300000000000"
definition journalLife :: int where "journalLife = 600000000000"

subsection \<open>The journal\<close>

record provenance =
  pv_V :: int
  pv_From :: string
  pv_ExpiresAt :: int

definition no_provenance :: provenance where
  "no_provenance = \<lparr>pv_V = 0, pv_From = [], pv_ExpiresAt = 0\<rparr>"

record journal_owner =
  jo_PID :: int
  jo_Start :: string
  jo_Nonce :: string

datatype journal_phase = phaseRenewing | phaseRenewed

record journal =
  jn_Phase :: journal_phase
  jn_Owner :: journal_owner
  jn_StartedAt :: int
  jn_DocHash :: string
  jn_Doc :: string

text \<open>An item under the journal's name: a journal, or bytes that are none.\<close>

datatype journal_item = Journal journal | Unreadable

datatype journalStep = journalNone | journalStarted | journalRenewed | journalClear

subsection \<open>The world\<close>

text \<open>How a call to the store ends: it works, it fails, its caller goes away, it is done and reports a
  failure, or half of it is done. Half a journal is an item that cannot be read.\<close>

datatype fault = Fine | Broken | Cancelled | Landed | Half

datatype renew_answer = Renewed string | RefusedSpent | RenewFailed

record call =
  ca_fault :: fault
  ca_time :: nat
  ca_answer :: renew_answer
  ca_edit :: "(string \<times> provenance) option option"

text \<open>What happened to the store and the provider, the latest first. \<open>Refreshed d a ed\<close>: the document
  \<open>d\<close> was sent to the provider, which answered \<open>a\<close>, and \<open>ed\<close> says whether somebody changed the
  secret meanwhile.\<close>

datatype renew_event =
    CreatedJournal journal
  | WroteJournal journal
  | DamagedJournal
  | ClearedJournal
  | WroteSecret string
  | Refreshed string renew_answer bool
  | Restarted
  | Edited
  | JournalEdited

record renew_world =
  wd_secret :: "(string \<times> provenance) option"
  wd_journal :: "journal_item option"
  wd_now :: int
  wd_calls :: "call list"
  wd_log :: "renew_event list"

definition fine_call :: call where
  "fine_call = \<lparr>ca_fault = Fine, ca_time = 0, ca_answer = RenewFailed, ca_edit = None\<rparr>"

definition next_call :: "renew_world \<Rightarrow> call \<times> renew_world" where
  "next_call w =
     (case wd_calls w of
        [] \<Rightarrow> (fine_call, w)
      | c # cs \<Rightarrow> (c, w\<lparr>wd_calls := cs, wd_now := wd_now w + int (ca_time c)\<rparr>))"

definition log_event :: "renew_event \<Rightarrow> renew_world \<Rightarrow> renew_world" where
  "log_event ev w = w\<lparr>wd_log := ev # wd_log w\<rparr>"

subsection \<open>Calls to the store\<close>

datatype store_error = StoreNotFound | StoreExists | StoreFailed

datatype read_error = ReadNotFound | ReadDamaged | ReadCancelled | ReadFailed

definition read_secret :: "renew_world \<Rightarrow> (read_error + string) \<times> renew_world" where
  "read_secret w =
     (case next_call w of (c, w) \<Rightarrow>
        (if ca_fault c = Cancelled then Inl ReadCancelled
         else if ca_fault c \<noteq> Fine then Inl ReadFailed
         else case wd_secret w of None \<Rightarrow> Inl ReadNotFound | Some (v, _) \<Rightarrow> Inr v, w))"

definition readJournal :: "renew_world \<Rightarrow> (read_error + journal) \<times> renew_world" where
  "readJournal w =
     (case next_call w of (c, w) \<Rightarrow>
        (if ca_fault c = Cancelled then Inl ReadCancelled
         else if ca_fault c \<noteq> Fine then Inl ReadFailed
         else case wd_journal w of None \<Rightarrow> Inl ReadNotFound | Some Unreadable \<Rightarrow> Inl ReadDamaged | Some (Journal j) \<Rightarrow> Inr j, w))"

definition update_secret :: "string \<Rightarrow> provenance \<Rightarrow> renew_world \<Rightarrow> store_error option \<times> renew_world" where
  "update_secret doc p w =
     (case next_call w of (c, w) \<Rightarrow>
        let there = wd_secret w \<noteq> None;
            written = log_event (WroteSecret doc) (w\<lparr>wd_secret := Some (doc, p)\<rparr>) in
        case ca_fault c of
          Fine \<Rightarrow> if there then (None, written) else (Some StoreNotFound, w)
        | Landed \<Rightarrow> (Some StoreFailed, if there then written else w)
        | _ \<Rightarrow> (Some StoreFailed, w))"

definition create_journal :: "journal \<Rightarrow> renew_world \<Rightarrow> store_error option \<times> renew_world" where
  "create_journal j w =
     (case next_call w of (c, w) \<Rightarrow>
        let there = wd_journal w \<noteq> None;
            written = log_event (CreatedJournal j) (w\<lparr>wd_journal := Some (Journal j)\<rparr>) in
        case ca_fault c of
          Fine \<Rightarrow> if there then (Some StoreExists, w) else (None, written)
        | Landed \<Rightarrow> (Some StoreFailed, if there then w else written)
        | Half \<Rightarrow> (Some StoreFailed, if there then w else log_event DamagedJournal (w\<lparr>wd_journal := Some Unreadable\<rparr>))
        | _ \<Rightarrow> (Some StoreFailed, w))"

definition update_journal :: "journal \<Rightarrow> renew_world \<Rightarrow> store_error option \<times> renew_world" where
  "update_journal j w =
     (case next_call w of (c, w) \<Rightarrow>
        let there = wd_journal w \<noteq> None;
            written = log_event (WroteJournal j) (w\<lparr>wd_journal := Some (Journal j)\<rparr>) in
        case ca_fault c of
          Fine \<Rightarrow> if there then (None, written) else (Some StoreNotFound, w)
        | Landed \<Rightarrow> (Some StoreFailed, if there then written else w)
        | Half \<Rightarrow> (Some StoreFailed, if there then log_event DamagedJournal (w\<lparr>wd_journal := Some Unreadable\<rparr>) else w)
        | _ \<Rightarrow> (Some StoreFailed, w))"

definition delete_journal :: "renew_world \<Rightarrow> store_error option \<times> renew_world" where
  "delete_journal w =
     (case next_call w of (c, w) \<Rightarrow>
        let there = wd_journal w \<noteq> None;
            gone = log_event ClearedJournal (w\<lparr>wd_journal := None\<rparr>) in
        case ca_fault c of
          Fine \<Rightarrow> if there then (None, gone) else (Some StoreNotFound, w)
        | Landed \<Rightarrow> (Some StoreFailed, if there then gone else w)
        | _ \<Rightarrow> (Some StoreFailed, w))"

subsection \<open>The cache of one process\<close>

text \<open>\<open>ch_expiry\<close> is the lifecycle's reading of a document's expiry, when it has one: an error, no
  expiry, or a time. \<open>ch_annotates\<close> says whether the store keeps where a secret came from.\<close>

record renew_cache =
  ch_owner :: journal_owner
  ch_annotates :: bool
  ch_alive :: "journal_owner \<Rightarrow> bool"
  docHash :: "string \<Rightarrow> string"
  ch_expiry :: "(string \<Rightarrow> int option option) option"

definition expiry_of :: "renew_cache \<Rightarrow> string \<Rightarrow> int option option" where
  "expiry_of c v = (case ch_expiry c of None \<Rightarrow> Some None | Some f \<Rightarrow> f v)"

datatype renew_failure = Unread | JournalThere | JournalUnwritten | ProviderFailed bool

record entry =
  en_doc :: "string option"
  en_stored :: "string option"
  en_expires :: "int option"
  en_issued :: "int option"
  en_checkedAt :: "int option"
  en_failure :: "renew_failure option"
  en_failedAt :: "int option"
  en_spent :: bool
  en_writeFailedAt :: "int option"
  en_journal :: journalStep
  en_startedAt :: "int option"
  en_from :: string
  en_journalOwner :: journal_owner
  en_recovered :: bool
  en_recoverFailedAt :: "int option"
  en_blockedAt :: "int option"
  en_suspect :: bool
  en_adopted :: bool

definition new_entry :: entry where
  "new_entry =
     \<lparr>en_doc = None, en_stored = None, en_expires = None, en_issued = None, en_checkedAt = None,
      en_failure = None, en_failedAt = None, en_spent = False, en_writeFailedAt = None,
      en_journal = journalNone, en_startedAt = None, en_from = [],
      en_journalOwner = \<lparr>jo_PID = 0, jo_Start = [], jo_Nonce = []\<rparr>,
      en_recovered = False, en_recoverFailedAt = None, en_blockedAt = None, en_suspect = False, en_adopted = False\<rparr>"

text \<open>\<open>now.Sub(t) >= d\<close>: true of the zero time.\<close>

definition elapsed :: "int \<Rightarrow> int option \<Rightarrow> int \<Rightarrow> bool" where
  "elapsed now t d \<longleftrightarrow> (case t of None \<Rightarrow> True | Some x \<Rightarrow> d \<le> now - x)"

definition bytes_of :: "string option \<Rightarrow> string" where
  "bytes_of d = (case d of None \<Rightarrow> [] | Some v \<Rightarrow> v)"

definition unix_milli :: "int option \<Rightarrow> int" where
  "unix_milli t = (case t of None \<Rightarrow> - 62135596800000 | Some x \<Rightarrow> x div 1000000)"

subsection \<open>What the entry says\<close>

definition pending :: "entry \<Rightarrow> bool" where
  "pending e \<longleftrightarrow> en_journal e \<noteq> journalNone \<or> (en_doc e \<noteq> None \<and> bytes_of (en_doc e) \<noteq> bytes_of (en_stored e))"

definition writeDue :: "int \<Rightarrow> entry \<Rightarrow> bool" where
  "writeDue now e \<longleftrightarrow> pending e \<and> (en_writeFailedAt e = None \<or> elapsed now (en_writeFailedAt e) retryAfter)"

definition backingOff :: "int \<Rightarrow> entry \<Rightarrow> bool" where
  "backingOff now e \<longleftrightarrow> en_failure e \<noteq> None \<and> \<not> elapsed now (en_failedAt e) retryAfter"

definition unsettled :: "int \<Rightarrow> entry \<Rightarrow> bool" where
  "unsettled now e \<longleftrightarrow>
     (if \<not> en_recovered e then en_recoverFailedAt e = None \<or> elapsed now (en_recoverFailedAt e) retryAfter
      else en_blockedAt e \<noteq> None \<and> elapsed now (en_blockedAt e) retryAfter)"

definition renewAt :: "int \<Rightarrow> int option \<Rightarrow> int" where
  "renewAt expires issued =
     expires - (case issued of None \<Rightarrow> renewAhead | Some i \<Rightarrow> min renewAhead (max ((expires - i) div 2) 0))"

definition due :: "int \<Rightarrow> entry \<Rightarrow> bool" where
  "due now e \<longleftrightarrow>
     \<not> (en_doc e = None \<or> en_spent e \<or> backingOff now e \<or> pending e \<or> en_blockedAt e \<noteq> None)
     \<and> (en_suspect e \<or> (case en_expires e of None \<Rightarrow> False | Some x \<Rightarrow> renewAt x (en_issued e) < now))"

definition expired :: "int \<Rightarrow> entry \<Rightarrow> bool" where
  "expired now e \<longleftrightarrow> (case en_expires e of None \<Rightarrow> False | Some x \<Rightarrow> x \<le> now)"

definition stale :: "int \<Rightarrow> entry \<Rightarrow> bool" where
  "stale now e \<longleftrightarrow> en_doc e = None \<or> elapsed now (en_checkedAt e) recheck"

definition ready :: "int \<Rightarrow> entry \<Rightarrow> string option" where
  "ready now e =
     (if stale now e \<or> unsettled now e \<or> writeDue now e \<or> due now e \<or> expired now e then None else en_doc e)"

definition young :: "int \<Rightarrow> journal \<Rightarrow> bool" where
  "young now j \<longleftrightarrow> (let age = now - jn_StartedAt j * 1000000 in 0 \<le> age \<and> age < journalLife)"

text \<open>\<open>Pending\<close>, \<open>Failing\<close> and \<open>Recovering\<close>: the names of the entries a test picks, sorted.\<close>

definition entry_names :: "(entry \<Rightarrow> bool) \<Rightarrow> (string \<times> entry) list \<Rightarrow> string list" where
  "entry_names test entries = sort (map fst (filter (\<lambda>(_, e). test e) entries))"

definition Pending :: "(string \<times> entry) list \<Rightarrow> string list" where
  "Pending = entry_names pending"

definition Failing :: "(string \<times> entry) list \<Rightarrow> string list" where
  "Failing = entry_names (\<lambda>e. en_failure e \<noteq> None)"

definition Recovering :: "(string \<times> entry) list \<Rightarrow> string list" where
  "Recovering = entry_names (\<lambda>e. en_blockedAt e \<noteq> None \<or> en_suspect e \<or> en_adopted e \<or> en_recoverFailedAt e \<noteq> None)"

end
