(* ===== verification/Renew_Cache.thy ===== *)
theory Renew_Cache
  imports Renew_World
begin

text \<open>
  The operations of one entry of the renewal cache, \<open>internal/renew/cache.go\<close> and \<open>recover\<close> of
  \<open>journal.go\<close>. An entry's turn is held by one caller at a time, so an operation sees nobody else
  change the entry. \<open>ready\<close>, which a caller without the turn may run in between, only reads. The
  operations take and return the entry and the world; the texts of the errors are left out.
\<close>

datatype renew_error =
    SecretGone | CallerGone | SecretUnread | BadDocument | NoTurn
  | StoreUnread | SpentBefore | NotYetStored | HeldElsewhere | BackingOff renew_failure
  | NotRenewed renew_failure | ExpiredDoc "renew_failure option" bool

subsection \<open>Reading the secret\<close>

definition reset :: "string option \<Rightarrow> int option \<Rightarrow> int option \<Rightarrow> entry \<Rightarrow> entry" where
  "reset doc expires checkedAt e =
     e\<lparr>en_doc := doc, en_stored := doc, en_expires := expires, en_issued := None, en_checkedAt := checkedAt,
       en_failure := None, en_failedAt := None, en_spent := False, en_writeFailedAt := None, en_suspect := False\<rparr>"

definition reconcile :: "renew_cache \<Rightarrow> int \<Rightarrow> string \<Rightarrow> entry \<Rightarrow> renew_error option \<times> entry" where
  "reconcile c now v e =
     (let e = e\<lparr>en_checkedAt := Some now\<rparr> in
      if en_doc e \<noteq> None \<and> (v = bytes_of (en_stored e) \<or> v = bytes_of (en_doc e)) then (None, e\<lparr>en_stored := Some v\<rparr>)
      else case expiry_of c v of
        None \<Rightarrow> (Some BadDocument, reset None None None e)
      | Some expires \<Rightarrow> (None, reset (Some v) expires (Some now) e))"

text \<open>The caller of \<open>syncRead\<close> may go away only where its context is passed on.\<close>

definition syncRead :: "renew_cache \<Rightarrow> bool \<Rightarrow> entry \<Rightarrow> renew_world \<Rightarrow> (renew_error + bool) \<times> entry \<times> renew_world" where
  "syncRead c cancellable e w =
     (case read_secret w of
        (Inl err, w) \<Rightarrow>
          if err = ReadNotFound then (Inl SecretGone, reset None None None e, w)
          else if err = ReadCancelled \<and> cancellable then (Inl CallerGone, e, w)
          else if en_doc e = None then (Inl SecretUnread, e, w)
          else (Inr False, e\<lparr>en_checkedAt := Some (wd_now w)\<rparr>, w)
      | (Inr v, w) \<Rightarrow>
          (case reconcile c (wd_now w) v e of
             (Some err, e) \<Rightarrow> (Inl err, e, w)
           | (None, e) \<Rightarrow> (Inr True, e, w)))"

subsection \<open>Writing\<close>

definition provenanceOf :: "renew_cache \<Rightarrow> int option \<Rightarrow> renew_world \<Rightarrow> (store_error + provenance) \<times> renew_world" where
  "provenanceOf c expires w =
     (if \<not> ch_annotates c then (Inr no_provenance, w)
      else case next_call w of (cl, w) \<Rightarrow>
        (if ca_fault cl \<noteq> Fine then Inl StoreFailed
         else case wd_secret w of
           None \<Rightarrow> Inl StoreNotFound
         | Some (_, p) \<Rightarrow>
             Inr (if p = no_provenance then p
                  else p\<lparr>pv_ExpiresAt := (case expires of None \<Rightarrow> 0 | Some t \<Rightarrow> t div 1000000)\<rparr>), w))"

definition writeJournal :: "renew_cache \<Rightarrow> journal \<Rightarrow> int option \<Rightarrow> bool \<Rightarrow> renew_world \<Rightarrow> store_error option \<times> renew_world" where
  "writeJournal c j expires update w =
     (case provenanceOf c expires w of
        (Inl err, w) \<Rightarrow> (Some err, w)
      | (Inr _, w) \<Rightarrow>
          if \<not> update then create_journal j w
          else case update_journal j w of
            (r, w) \<Rightarrow> if r = Some StoreNotFound then create_journal j w else (r, w))"

definition writeBack :: "renew_cache \<Rightarrow> string \<Rightarrow> int option \<Rightarrow> renew_world \<Rightarrow> store_error option \<times> renew_world" where
  "writeBack c value expires w =
     (if \<not> ch_annotates c then update_secret value no_provenance w
      else case provenanceOf c expires w of
        (Inl err, w) \<Rightarrow> (Some err, w)
      | (Inr p, w) \<Rightarrow> update_secret value p w)"

definition journalOf :: "entry \<Rightarrow> journal" where
  "journalOf e = \<lparr>jn_Phase = phaseRenewing, jn_Owner = en_journalOwner e, jn_StartedAt = unix_milli (en_startedAt e),
     jn_DocHash = en_from e, jn_Doc = []\<rparr>"

definition dropJournal :: "entry \<Rightarrow> renew_world \<Rightarrow> entry \<times> renew_world" where
  "dropJournal e w =
     (case delete_journal w of (r, w) \<Rightarrow>
        if r \<noteq> None \<and> r \<noteq> Some StoreNotFound then (e\<lparr>en_writeFailedAt := Some (wd_now w)\<rparr>, w)
        else (e\<lparr>en_journal := journalNone, en_adopted := False\<rparr>, w))"

subsection \<open>Moving a renewal into the store\<close>

text \<open>One step of the walk of \<open>flush\<close>: the write, and the entry after it.\<close>

definition flush_step :: "renew_cache \<Rightarrow> entry \<Rightarrow> renew_world \<Rightarrow> store_error option \<times> entry \<times> renew_world" where
  "flush_step c e w =
     (case en_journal e of
        journalStarted \<Rightarrow>
          (case writeJournal c ((journalOf e)\<lparr>jn_Phase := phaseRenewed, jn_Doc := bytes_of (en_doc e)\<rparr>) (en_expires e) True w of
             (r, w) \<Rightarrow> (r, e\<lparr>en_journal := journalRenewed\<rparr>, w))
      | journalClear \<Rightarrow>
          (case delete_journal w of
             (r, w) \<Rightarrow> (if r = Some StoreNotFound then None else r, e\<lparr>en_journal := journalNone, en_adopted := False\<rparr>, w))
      | _ \<Rightarrow>
          (case writeBack c (bytes_of (en_doc e)) (en_expires e) w of
             (r, w) \<Rightarrow> (r, e\<lparr>en_stored := en_doc e, en_journal := (if en_journal e = journalRenewed then journalClear else en_journal e)\<rparr>, w)))"

text \<open>A journal that only has to go, because the secret is current.\<close>

definition clear_if_stored :: "entry \<Rightarrow> entry" where
  "clear_if_stored e =
     (if en_journal e \<noteq> journalNone \<and> bytes_of (en_doc e) = bytes_of (en_stored e) then e\<lparr>en_journal := journalClear\<rparr> else e)"

fun steps_left :: "entry \<Rightarrow> nat" where
  "steps_left e =
     (case en_journal e of journalNone \<Rightarrow> 0 | journalClear \<Rightarrow> 1 | journalRenewed \<Rightarrow> 2 | journalStarted \<Rightarrow> 3)
     + (if bytes_of (en_doc e) = bytes_of (en_stored e) then 0 else 1)"

lemma clear_if_stored_left: "steps_left (clear_if_stored e) \<le> steps_left e"
  by (auto simp: clear_if_stored_def split: journalStep.splits)

lemma flush_step_left:
  assumes "pending e" and "flush_step c (clear_if_stored e) w = (None, e', w')"
  shows "steps_left (e'\<lparr>en_writeFailedAt := None\<rparr>) < steps_left e"
  using assms by (auto simp: flush_step_def clear_if_stored_def pending_def split: journalStep.splits prod.splits if_splits)

function flush_loop :: "renew_cache \<Rightarrow> entry \<Rightarrow> renew_world \<Rightarrow> entry \<times> renew_world" where
  "flush_loop c e w =
     (if \<not> writeDue (wd_now w) e then (e, w)
      else case flush_step c (clear_if_stored e) w of
        (Some _, _, w) \<Rightarrow> ((clear_if_stored e)\<lparr>en_writeFailedAt := Some (wd_now w)\<rparr>, w)
      | (None, e, w) \<Rightarrow> flush_loop c (e\<lparr>en_writeFailedAt := None\<rparr>) w)"
  by pat_completeness auto
termination
  by (relation "measure (\<lambda>(c, e, w). steps_left e)") (auto simp: writeDue_def simp del: steps_left.simps dest: flush_step_left sym)

declare flush_loop.simps [simp del]

definition flush :: "renew_cache \<Rightarrow> entry \<Rightarrow> renew_world \<Rightarrow> renew_error option \<times> entry \<times> renew_world" where
  "flush c e w =
     (if \<not> writeDue (wd_now w) e then (None, e, w)
      else case syncRead c False e w of
        (Inl err, e, w) \<Rightarrow>
          if err = SecretGone then (case dropJournal e w of (e, w) \<Rightarrow> (Some err, e, w)) else (Some err, e, w)
      | (Inr False, e, w) \<Rightarrow> (None, e\<lparr>en_writeFailedAt := Some (wd_now w)\<rparr>, w)
      | (Inr True, e, w) \<Rightarrow> (None, flush_loop c e w))"

subsection \<open>Settling a journal found in the store\<close>

definition recovered_at :: "int option \<Rightarrow> entry \<Rightarrow> entry" where
  "recovered_at blocked e = e\<lparr>en_recovered := True, en_recoverFailedAt := None, en_blockedAt := blocked\<rparr>"

text \<open>What the journal means, once the entry holds what the secret holds.\<close>

definition settle :: "renew_cache \<Rightarrow> read_error + journal \<Rightarrow> string \<Rightarrow> entry \<Rightarrow> entry" where
  "settle c found v e =
     (case found of
        Inl _ \<Rightarrow> e\<lparr>en_journal := journalClear, en_suspect := True\<rparr>
      | Inr j \<Rightarrow>
          if jn_Phase j = phaseRenewed \<and> jn_DocHash j = docHash c v \<and> jn_Doc j \<noteq> [] then
            (case expiry_of c (jn_Doc j) of
               None \<Rightarrow> e\<lparr>en_journal := journalClear, en_suspect := True\<rparr>
             | Some expires \<Rightarrow>
                 e\<lparr>en_doc := Some (jn_Doc j), en_expires := expires, en_issued := Some (jn_StartedAt j * 1000000),
                   en_journal := journalRenewed, en_failure := None, en_failedAt := None, en_spent := False\<rparr>)
          else if jn_Phase j = phaseRenewing \<and> jn_DocHash j = docHash c v then e\<lparr>en_journal := journalClear, en_suspect := True\<rparr>
          else e\<lparr>en_journal := journalClear\<rparr>)"

definition adopt :: "read_error + journal \<Rightarrow> entry \<Rightarrow> entry" where
  "adopt found e =
     (case found of
        Inl _ \<Rightarrow> e
      | Inr j \<Rightarrow> e\<lparr>en_startedAt := Some (jn_StartedAt j * 1000000), en_from := jn_DocHash j, en_journalOwner := jn_Owner j\<rparr>)"

text \<open>The journal of a process that stopped, or one that cannot be read.\<close>

definition recover_left :: "renew_cache \<Rightarrow> int \<Rightarrow> read_error + journal \<Rightarrow> entry \<Rightarrow> renew_world \<Rightarrow> renew_error option \<times> entry \<times> renew_world" where
  "recover_left c now found e w =
     (case read_secret w of
        (Inl err, w) \<Rightarrow>
          if err = ReadNotFound then
            (case dropJournal ((recovered_at None (reset None None None e))\<lparr>en_journal := journalClear\<rparr>) w of
               (e, w) \<Rightarrow> (Some SecretGone, e, w))
          else if err = ReadCancelled then (Some CallerGone, e, w)
          else (if en_doc e = None then Some SecretUnread else None, e\<lparr>en_recoverFailedAt := Some now\<rparr>, w)
      | (Inr v, w) \<Rightarrow>
          (case reconcile c (wd_now w) v (adopt found ((recovered_at None e)\<lparr>en_adopted := True\<rparr>)) of
             (Some err, e) \<Rightarrow> (Some err, e, w)
           | (None, e) \<Rightarrow> (None, settle c found v e, w)))"

definition recover :: "renew_cache \<Rightarrow> entry \<Rightarrow> renew_world \<Rightarrow> renew_error option \<times> entry \<times> renew_world" where
  "recover c e w =
     (case readJournal w of (found, w) \<Rightarrow>
        let now = wd_now w in
        case found of
          Inl ReadNotFound \<Rightarrow> (None, recovered_at None e, w)
        | Inl ReadCancelled \<Rightarrow> (Some CallerGone, e, w)
        | Inl ReadFailed \<Rightarrow> (None, e\<lparr>en_recoverFailedAt := Some now\<rparr>, w)
        | Inl ReadDamaged \<Rightarrow> recover_left c now found e w
        | Inr j \<Rightarrow>
            if jn_Owner j = ch_owner c then
              (None, (recovered_at None e)\<lparr>en_journal := (if en_journal e = journalNone then journalClear else en_journal e)\<rparr>, w)
            else if young now j \<and> ch_alive c (jn_Owner j) then (None, recovered_at (Some now) e, w)
            else recover_left c now found e w)"

subsection \<open>Renewing\<close>

definition fail_renewal :: "renew_failure \<Rightarrow> bool \<Rightarrow> int \<Rightarrow> entry \<Rightarrow> entry" where
  "fail_renewal f spent now e = e\<lparr>en_failure := Some f, en_failedAt := Some now, en_spent := spent\<rparr>"

text \<open>The call to the provider. What it answers may be of no length, which counts as a failure that
  reached it.\<close>

definition ask_provider :: "string \<Rightarrow> renew_world \<Rightarrow> (bool + string) \<times> renew_world" where
  "ask_provider current w =
     (case next_call w of (cl, w) \<Rightarrow>
        let w = log_event (Refreshed current (ca_answer cl) (ca_edit cl \<noteq> None))
                  (case ca_edit cl of None \<Rightarrow> w | Some edit \<Rightarrow> w\<lparr>wd_secret := edit\<rparr>) in
        (case ca_answer cl of
           Renewed d \<Rightarrow> if d = [] then Inl True else Inr d
         | RefusedSpent \<Rightarrow> Inl True
         | RenewFailed \<Rightarrow> Inl False, w))"

definition renew :: "renew_cache \<Rightarrow> entry \<Rightarrow> renew_world \<Rightarrow> renew_error option \<times> entry \<times> renew_world" where
  "renew c e w =
     (let current = bytes_of (en_doc e); started = wd_now w;
          j = \<lparr>jn_Phase = phaseRenewing, jn_Owner = ch_owner c, jn_StartedAt = started div 1000000,
               jn_DocHash = docHash c current, jn_Doc = []\<rparr> in
      if pending e then (Some NotYetStored, e, w)
      else case writeJournal c j (en_expires e) False w of
        (Some StoreExists, w) \<Rightarrow>
          (case recover c (e\<lparr>en_recovered := False, en_recoverFailedAt := None\<rparr>) w of
             (Some err, e, w) \<Rightarrow> (Some err, e, w)
           | (None, e, w) \<Rightarrow> (Some (NotRenewed JournalThere), fail_renewal JournalThere False (wd_now w) e, w))
      | (Some _, w) \<Rightarrow> (Some (NotRenewed JournalUnwritten), fail_renewal JournalUnwritten False (wd_now w) e, w)
      | (None, w) \<Rightarrow>
          let e = e\<lparr>en_journal := journalStarted, en_startedAt := Some started, en_from := docHash c current, en_journalOwner := ch_owner c\<rparr> in
          (case ask_provider current w of
             (Inl spent, w) \<Rightarrow>
               let e = (fail_renewal (ProviderFailed spent) spent (wd_now w) e)
                         \<lparr>en_suspect := (if spent then False else en_suspect e), en_journal := journalClear\<rparr> in
               (case flush c e w of (_, e, w) \<Rightarrow> (Some (NotRenewed (ProviderFailed spent)), e, w))
           | (Inr d, w) \<Rightarrow>
               flush c
                 (e\<lparr>en_doc := Some d, en_expires := (case expiry_of c d of None \<Rightarrow> None | Some x \<Rightarrow> x), en_issued := Some (wd_now w),
                    en_failure := None, en_failedAt := None, en_spent := False, en_writeFailedAt := None, en_suspect := False\<rparr>) w))"

subsection \<open>The operations\<close>

definition serve :: "int \<Rightarrow> entry \<Rightarrow> renew_error + string" where
  "serve now e =
     (case en_doc e of
        None \<Rightarrow> Inl SecretGone
      | Some d \<Rightarrow> if expired now e then Inl (ExpiredDoc (en_failure e) (en_blockedAt e \<noteq> None)) else Inr d)"

definition settle_first :: "renew_cache \<Rightarrow> entry \<Rightarrow> renew_world \<Rightarrow> renew_error option \<times> entry \<times> renew_world" where
  "settle_first c e w = (if unsettled (wd_now w) e then recover c e w else (None, e, w))"

text \<open>The renewal of \<open>Resolve\<close>, when the document is due; \<open>was_read\<close> says that the store was read.\<close>

definition renew_if_due :: "renew_cache \<Rightarrow> bool \<Rightarrow> entry \<Rightarrow> renew_world \<Rightarrow> renew_error option \<times> entry \<times> renew_world" where
  "renew_if_due c was_read e w =
     (if \<not> due (wd_now w) e then (None, e, w)
      else case (if was_read then (Inr True, e, w) else syncRead c True e w) of
        (Inl err, e, w) \<Rightarrow> (Some err, e, w)
      | (Inr False, e, w) \<Rightarrow> (None, fail_renewal Unread False (wd_now w) e, w)
      | (Inr True, e, w) \<Rightarrow>
          if \<not> due (wd_now w) e then (None, e, w)
          else (case renew c e w of
                  (Some err, e, w) \<Rightarrow> (if en_doc e = None then Some err else None, e, w)
                | (None, e, w) \<Rightarrow> (None, e, w)))"

definition Resolve :: "renew_cache \<Rightarrow> bool \<Rightarrow> entry \<Rightarrow> renew_world \<Rightarrow> (renew_error + string) \<times> entry \<times> renew_world" where
  "Resolve c turn e w =
     (case ready (wd_now w) e of
        Some d \<Rightarrow> (Inr d, e, w)
      | None \<Rightarrow>
          if \<not> turn then (Inl NoTurn, e, w)
          else case settle_first c e w of
            (Some err, e, w) \<Rightarrow> (Inl err, e, w)
          | (None, e, w) \<Rightarrow>
              (case (if stale (wd_now w) e then syncRead c True e w else (Inr False, e, w)) of
                 (Inl err, e, w) \<Rightarrow> (Inl err, e, w)
               | (Inr was_read, e, w) \<Rightarrow>
                   (case flush c e w of
                      (Some err, e, w) \<Rightarrow> (Inl err, e, w)
                    | (None, e, w) \<Rightarrow>
                        (case renew_if_due c was_read e w of
                           (Some err, e, w) \<Rightarrow> (Inl err, e, w)
                         | (None, e, w) \<Rightarrow> (serve (wd_now w) e, e, w)))))"

text \<open>A read that succeeded lifts the failure of a read before it.\<close>

definition lift_unread :: "bool \<Rightarrow> entry \<Rightarrow> entry" where
  "lift_unread was_read e = (if was_read \<and> en_failure e = Some Unread then e\<lparr>en_failure := None, en_failedAt := None\<rparr> else e)"

definition force_allowed :: "bool \<Rightarrow> int \<Rightarrow> entry \<Rightarrow> renew_error option" where
  "force_allowed was_read now e =
     (if \<not> was_read then Some StoreUnread
      else if en_spent e then Some SpentBefore
      else if pending e then Some NotYetStored
      else if en_blockedAt e \<noteq> None then Some HeldElsewhere
      else if backingOff now e then map_option BackingOff (en_failure e)
      else None)"

definition ForceRenew :: "renew_cache \<Rightarrow> bool \<Rightarrow> string \<Rightarrow> entry \<Rightarrow> renew_world \<Rightarrow> (renew_error + string) \<times> entry \<times> renew_world" where
  "ForceRenew c turn old e w =
     (if \<not> turn then (Inl NoTurn, e, w)
      else case settle_first c e w of
        (Some err, e, w) \<Rightarrow> (Inl err, e, w)
      | (None, e, w) \<Rightarrow>
          (case syncRead c True e w of
             (Inl err, e, w) \<Rightarrow> (Inl err, e, w)
           | (Inr was_read, e, w) \<Rightarrow>
               (case flush c e w of
                  (Some err, e, w) \<Rightarrow> (Inl err, e, w)
                | (None, e, w) \<Rightarrow>
                    let e = lift_unread was_read e in
                    if bytes_of (en_doc e) \<noteq> old then (Inr (bytes_of (en_doc e)), e, w)
                    else case force_allowed was_read (wd_now w) e of
                      Some err \<Rightarrow> (Inl err, e, w)
                    | None \<Rightarrow>
                        (case renew c e w of
                           (Some err, e, w) \<Rightarrow> (Inl err, e, w)
                         | (None, e, w) \<Rightarrow> (Inr (bytes_of (en_doc e)), e, w)))))"

definition Recover :: "renew_cache \<Rightarrow> bool \<Rightarrow> entry \<Rightarrow> renew_world \<Rightarrow> renew_error option \<times> entry \<times> renew_world" where
  "Recover c turn e w =
     (if \<not> turn then (Some NoTurn, e, w)
      else if \<not> unsettled (wd_now w) e then (None, e, w)
      else case recover c e w of
        (Some err, e, w) \<Rightarrow> (Some err, e, w)
      | (None, e, w) \<Rightarrow> flush c e w)"

end
