(* ===== verification/Renew_Facts.thy ===== *)
theory Renew_Facts
  imports Renew_Cache
begin

text \<open>
  What the journal is for: the pair a provider answered with last is never lost to a failure. The
  proof follows where the pair is, from the answer until the secret holds it.
\<close>

subsection \<open>The pair that is owed\<close>

datatype place = InMemory | InJournal | InSecret

definition lands :: "(string \<times> place) option \<Rightarrow> journal \<Rightarrow> (string \<times> place) option" where
  "lands was j =
     (case was of
        Some (n, InMemory) \<Rightarrow> Some (n, if jn_Phase j = phaseRenewed \<and> jn_Doc j = n then InJournal else InMemory)
      | _ \<Rightarrow> was)"

text \<open>The document of the provider's last answer and where it has been put, while it is the one to keep:
  nobody has changed the store since, the lifecycle can read it, and no process that held it in memory
  alone has stopped.\<close>

fun owed :: "(string \<Rightarrow> int option option) \<Rightarrow> renew_event list \<Rightarrow> (string \<times> place) option" where
  "owed f [] = None"
| "owed f (Refreshed d a edited # l) =
     (if edited then None
      else case a of
        Renewed n \<Rightarrow> if n = [] \<or> f n = None then None else Some (n, InMemory)
      | RefusedSpent \<Rightarrow> None
      | RenewFailed \<Rightarrow> owed f l)"
| "owed f (CreatedJournal j # l) = lands (owed f l) j"
| "owed f (WroteJournal j # l) = lands (owed f l) j"
| "owed f (DamagedJournal # l) = (case owed f l of Some (n, InJournal) \<Rightarrow> Some (n, InMemory) | x \<Rightarrow> x)"
| "owed f (ClearedJournal # l) = owed f l"
| "owed f (WroteSecret d # l) = (case owed f l of Some (n, p) \<Rightarrow> Some (n, if d = n then InSecret else p) | None \<Rightarrow> None)"
| "owed f (Restarted # l) = (case owed f l of Some (n, InMemory) \<Rightarrow> None | x \<Rightarrow> x)"
| "owed f (Edited # l) = None"
| "owed f (JournalEdited # l) = None"

subsection \<open>Where it is\<close>

definition secret_of :: "renew_world \<Rightarrow> string option" where
  "secret_of w = map_option fst (wd_secret w)"

definition starts_from :: "renew_cache \<Rightarrow> string \<Rightarrow> entry \<Rightarrow> bool" where
  "starts_from c s e \<longleftrightarrow> en_journal e = journalStarted \<longrightarrow> en_from e = docHash c s \<and> en_journalOwner e = ch_owner c"

definition at_secret :: "string \<Rightarrow> string option \<Rightarrow> journal_item option \<Rightarrow> entry \<Rightarrow> bool" where
  "at_secret n sec jr e \<longleftrightarrow>
     sec = Some n \<and> (en_doc e = None \<or> en_doc e = Some n)
     \<and> (\<forall>j. jr = Some (Journal j) \<and> jn_Phase j = phaseRenewed \<longrightarrow> jn_Doc j = n)"

definition at_memory :: "renew_cache \<Rightarrow> string \<Rightarrow> string option \<Rightarrow> journal_item option \<Rightarrow> entry \<Rightarrow> bool" where
  "at_memory c n sec jr e \<longleftrightarrow>
     (\<exists>s. sec = Some s \<and> en_doc e = Some n \<and> en_stored e = Some s \<and> starts_from c s e)
     \<and> (\<forall>j. jr = Some (Journal j) \<longrightarrow> jn_Phase j = phaseRenewing \<and> jn_Owner j = ch_owner c)"

definition journal_of_pair :: "renew_cache \<Rightarrow> string \<Rightarrow> string \<Rightarrow> journal \<Rightarrow> bool" where
  "journal_of_pair c n s j \<longleftrightarrow> jn_Phase j = phaseRenewed \<and> jn_Doc j = n \<and> jn_DocHash j = docHash c s"

definition in_hand :: "renew_cache \<Rightarrow> string \<Rightarrow> string option \<Rightarrow> journal_item option \<Rightarrow> entry \<Rightarrow> bool" where
  "in_hand c n sec jr e \<longleftrightarrow>
     (\<exists>s j. sec = Some s \<and> jr = Some (Journal j) \<and> journal_of_pair c n s j \<and> en_doc e = Some n \<and> en_stored e = Some s
        \<and> starts_from c s e \<and> (en_journal e = journalRenewed \<or> (en_journal e = journalStarted \<and> jn_Owner j = ch_owner c)))"

definition left_behind :: "renew_cache \<Rightarrow> string \<Rightarrow> string option \<Rightarrow> journal_item option \<Rightarrow> entry \<Rightarrow> bool" where
  "left_behind c n sec jr e \<longleftrightarrow>
     (\<exists>s j. sec = Some s \<and> jr = Some (Journal j) \<and> journal_of_pair c n s j \<and> jn_Owner j \<noteq> ch_owner c) \<and> \<not> pending e"

definition readable :: "renew_cache \<Rightarrow> string \<Rightarrow> bool" where
  "readable c n \<longleftrightarrow> n \<noteq> [] \<and> expiry_of c n \<noteq> None"

definition placed :: "renew_cache \<Rightarrow> string \<Rightarrow> place \<Rightarrow> string option \<Rightarrow> journal_item option \<Rightarrow> entry \<Rightarrow> bool" where
  "placed c n p sec jr e \<longleftrightarrow>
     at_secret n sec jr e \<or> (p = InMemory \<and> at_memory c n sec jr e)
     \<or> (p = InJournal \<and> (in_hand c n sec jr e \<or> left_behind c n sec jr e))"

definition held :: "renew_cache \<Rightarrow> (string \<times> place) option \<Rightarrow> string option \<Rightarrow> journal_item option \<Rightarrow> entry \<Rightarrow> bool" where
  "held c was sec jr e \<longleftrightarrow>
     (case was of None \<Rightarrow> True | Some (n, p) \<Rightarrow> readable c n \<and> placed c n p sec jr e)"

definition whole :: "entry \<Rightarrow> bool" where
  "whole e \<longleftrightarrow> (en_doc e = None) = (en_stored e = None)"

definition kept :: "renew_cache \<Rightarrow> entry \<Rightarrow> renew_world \<Rightarrow> bool" where
  "kept c e w \<longleftrightarrow> whole e \<and> held c (owed (expiry_of c) (wd_log w)) (secret_of w) (wd_journal w) e"

subsection \<open>Calls that change nothing\<close>

definition same_store :: "renew_world \<Rightarrow> renew_world \<Rightarrow> bool" where
  "same_store w w' \<longleftrightarrow> wd_secret w' = wd_secret w \<and> wd_journal w' = wd_journal w \<and> wd_log w' = wd_log w"

lemma next_call_same: "same_store w (snd (next_call w))"
  by (simp add: next_call_def same_store_def split: list.splits)

lemma kept_same: "same_store w w' \<Longrightarrow> kept c e w' = kept c e w"
  by (simp add: kept_def same_store_def secret_of_def)

lemma read_secret_same: "read_secret w = (r, w') \<Longrightarrow> same_store w w'"
  using next_call_same[of w] by (auto simp: read_secret_def split: prod.splits)

lemma readJournal_same: "readJournal w = (r, w') \<Longrightarrow> same_store w w'"
  using next_call_same[of w] by (auto simp: readJournal_def split: prod.splits)

lemma provenanceOf_same: "provenanceOf c x w = (r, w') \<Longrightarrow> same_store w w'"
  using next_call_same[of w] by (auto simp: provenanceOf_def same_store_def split: prod.splits if_splits)

lemma read_secret_Inr: "read_secret w = (Inr v, w') \<Longrightarrow> secret_of w' = Some v"
  by (auto simp: read_secret_def secret_of_def split: prod.splits if_splits option.splits)

lemma read_secret_gone: "read_secret w = (Inl ReadNotFound, w') \<Longrightarrow> secret_of w' = None"
  by (auto simp: read_secret_def secret_of_def split: prod.splits if_splits option.splits)

text \<open>The parts of an entry that say where the pair is.\<close>

lemma kept_entry:
  assumes "en_doc e' = en_doc e" "en_stored e' = en_stored e" "en_journal e' = en_journal e" "en_from e' = en_from e"
    "en_journalOwner e' = en_journalOwner e"
  shows "kept c e' w = kept c e w"
proof -
  have "at_secret n s j e' = at_secret n s j e" and "at_memory c n s j e' = at_memory c n s j e"
    and "in_hand c n s j e' = in_hand c n s j e" and "left_behind c n s j e' = left_behind c n s j e" for n s j
    by (simp_all add: at_secret_def at_memory_def in_hand_def left_behind_def starts_from_def pending_def assms)
  then show ?thesis by (simp only: kept_def held_def placed_def whole_def assms)
qed

text \<open>Where the pair is, as a rule for case distinctions.\<close>

lemma kept_cases:
  assumes "kept c e w" and "owed (expiry_of c) (wd_log w) = Some (n, p)"
  obtains "at_secret n (secret_of w) (wd_journal w) e" | "p = InMemory" "at_memory c n (secret_of w) (wd_journal w) e"
  | "p = InJournal" "in_hand c n (secret_of w) (wd_journal w) e" | "p = InJournal" "left_behind c n (secret_of w) (wd_journal w) e"
  using assms by (auto simp: kept_def held_def placed_def)

lemma keptI:
  assumes "whole e" and "\<And>n p. owed (expiry_of c) (wd_log w) = Some (n, p) \<Longrightarrow> readable c n \<and> placed c n p (secret_of w) (wd_journal w) e"
  shows "kept c e w"
  using assms by (auto simp: kept_def held_def split: option.splits)

lemma keptD: "kept c e w \<Longrightarrow> whole e"
  by (simp add: kept_def)

lemma kept_pair: "kept c e w \<Longrightarrow> owed (expiry_of c) (wd_log w) = Some (n, p) \<Longrightarrow> readable c n"
  by (auto simp: kept_def held_def)

lemmas place_defs = placed_def at_secret_def at_memory_def in_hand_def left_behind_def journal_of_pair_def starts_from_def

lemma pending_doc: "whole e \<Longrightarrow> bytes_of (en_doc e) \<noteq> bytes_of (en_stored e) \<Longrightarrow> \<exists>d. en_doc e = Some d"
  by (auto simp: whole_def bytes_of_def split: option.splits)

lemma clear_if_stored_kept:
  assumes "kept c e w"
  shows "kept c (clear_if_stored e) w"
proof (cases "en_journal e \<noteq> journalNone \<and> bytes_of (en_doc e) = bytes_of (en_stored e)")
  case True
  show ?thesis
  proof (rule keptI)
    show "whole (clear_if_stored e)" using keptD[OF assms] by (simp add: whole_def clear_if_stored_def)
    fix n p assume o: "owed (expiry_of c) (wd_log w) = Some (n, p)"
    show "readable c n \<and> placed c n p (secret_of w) (wd_journal w) (clear_if_stored e)"
      using kept_pair[OF assms o] True
      by (rule_tac kept_cases[OF assms o]) (auto simp: place_defs clear_if_stored_def bytes_of_def pending_def)
  qed
qed (auto simp: clear_if_stored_def assms)

subsection \<open>The journal and the secret are written\<close>

definition wrote :: "renew_event \<Rightarrow> (string \<times> provenance) option \<Rightarrow> journal_item option \<Rightarrow> renew_world \<Rightarrow> renew_world \<Rightarrow> bool" where
  "wrote ev sec jr w w' \<longleftrightarrow> wd_log w' = ev # wd_log w \<and> wd_secret w' = sec \<and> wd_journal w' = jr"

lemmas store_calls = create_journal_def update_journal_def delete_journal_def update_secret_def log_event_def Let_def

lemma create_journal_cases:
  assumes "create_journal j w = (r, w')"
  obtains "same_store w w'" and "r \<noteq> None" | "wd_journal w = None" and "wrote (CreatedJournal j) (wd_secret w) (Some (Journal j)) w w'"
  | "wd_journal w = None" and "wrote DamagedJournal (wd_secret w) (Some Unreadable) w w'" and "r \<noteq> None"
  using assms next_call_same[of w]
  by (auto simp: store_calls same_store_def wrote_def split: prod.splits fault.splits if_splits)

lemma update_journal_cases:
  assumes "update_journal j w = (r, w')"
  obtains "same_store w w'" and "r \<noteq> None" and "r = Some StoreNotFound \<Longrightarrow> wd_journal w = None"
  | "wd_journal w \<noteq> None" and "wrote (WroteJournal j) (wd_secret w) (Some (Journal j)) w w'" and "r \<noteq> Some StoreNotFound"
  | "wd_journal w \<noteq> None" and "wrote DamagedJournal (wd_secret w) (Some Unreadable) w w'" and "r \<noteq> None" and "r \<noteq> Some StoreNotFound"
  using assms next_call_same[of w]
  by (auto simp: store_calls same_store_def wrote_def split: prod.splits fault.splits if_splits)

lemma delete_journal_cases:
  assumes "delete_journal w = (r, w')"
  obtains "same_store w w'" and "r = None \<or> r = Some StoreNotFound \<Longrightarrow> wd_journal w = None"
  | "wrote ClearedJournal (wd_secret w) None w w'"
  using assms next_call_same[of w]
  by (auto simp: store_calls same_store_def wrote_def split: prod.splits fault.splits if_splits)

lemma update_secret_cases:
  assumes "update_secret d p w = (r, w')"
  obtains "same_store w w'" and "r \<noteq> None" | "wrote (WroteSecret d) (Some (d, p)) (wd_journal w) w w'"
  using assms next_call_same[of w]
  by (auto simp: store_calls same_store_def wrote_def split: prod.splits fault.splits if_splits)

text \<open>The journal of the answer, as \<open>writeJournal\<close> puts it.\<close>

lemma writeJournal_cases:
  assumes "writeJournal c j x True w = (r, w')"
  obtains "same_store w w'" and "r \<noteq> None"
  | ev where "ev \<in> {CreatedJournal j, WroteJournal j}" and "wrote ev (wd_secret w) (Some (Journal j)) w w'"
  | "wrote DamagedJournal (wd_secret w) (Some Unreadable) w w'" and "r \<noteq> None"
proof -
  obtain pr w1 where p: "provenanceOf c x w = (pr, w1)" by fastforce
  have s: "same_store w w1" by (rule provenanceOf_same[OF p])
  have up: "wrote ev (wd_secret w1) jr w1 w2 \<Longrightarrow> wrote ev (wd_secret w) jr w w2" "same_store w1 w2 \<Longrightarrow> same_store w w2" for ev jr w2
    using s by (simp_all add: wrote_def same_store_def)
  show thesis
  proof (cases pr)
    case (Inl err)
    then have "r = Some err" "w1 = w'" using assms by (simp_all add: writeJournal_def p)
    then show thesis using that(1) s by simp
  next
    case (Inr q)
    obtain r1 w2 where u: "update_journal j w1 = (r1, w2)" by fastforce
    show thesis
    proof (cases "r1 = Some StoreNotFound")
      case True
      have c: "create_journal j w2 = (r, w')" using assms by (simp add: writeJournal_def p Inr u True)
      have same: "same_store w1 w2" using update_journal_cases[OF u] True by metis
      have up2: "wrote ev (wd_secret w2) jr w2 w3 \<Longrightarrow> wrote ev (wd_secret w) jr w w3" "same_store w2 w3 \<Longrightarrow> same_store w w3" for ev jr w3
        using s same by (simp_all add: wrote_def same_store_def)
      show thesis by (rule create_journal_cases[OF c]) (use up2 that in blast)+
    next
      case False
      then have w': "r1 = r" "w2 = w'" using assms by (simp_all add: writeJournal_def p Inr u)
      show thesis by (rule update_journal_cases[OF u]) (use up that w' in blast)+
    qed
  qed
qed

lemma writeBack_cases:
  assumes "writeBack c d x w = (r, w')"
  obtains "same_store w w'" and "r \<noteq> None" | p where "wrote (WroteSecret d) (Some (d, p)) (wd_journal w) w w'"
proof (cases "ch_annotates c")
  case False
  then have "update_secret d no_provenance w = (r, w')" using assms by (simp add: writeBack_def)
  then show thesis by (rule update_secret_cases) (use that in blast)+
next
  case True
  obtain pr w1 where p: "provenanceOf c x w = (pr, w1)" by fastforce
  have s: "same_store w w1" by (rule provenanceOf_same[OF p])
  show thesis
  proof (cases pr)
    case (Inl err)
    then have "r = Some err" "w1 = w'" using assms True by (simp_all add: writeBack_def p)
    then show thesis using that(1) s by simp
  next
    case (Inr q)
    then have "update_secret d q w1 = (r, w')" using assms True by (simp add: writeBack_def p)
    then show thesis by (rule update_secret_cases) (use s that in \<open>auto simp: wrote_def same_store_def\<close>)
  qed
qed

subsection \<open>A step of the walk\<close>

lemma wrote_view: "wrote ev sec jr w w' \<Longrightarrow> secret_of w' = map_option fst sec \<and> wd_journal w' = jr \<and> owed f (wd_log w') = owed f (ev # wd_log w)"
  by (simp add: wrote_def secret_of_def)

lemma lands_Some: "lands was j = Some (n, p) \<Longrightarrow> \<exists>q. was = Some (n, q) \<and> (p = q \<or> (q = InMemory \<and> p = InJournal \<and> jn_Phase j = phaseRenewed \<and> jn_Doc j = n))"
  by (auto simp: lands_def split: option.splits place.splits if_splits)

text \<open>The journal takes the answer. The write may be reported as failed, so both entries are good.\<close>

lemma journal_takes_answer:
  assumes k: "kept c e w" and st: "en_journal e = journalStarted" and ne: "bytes_of (en_doc e) \<noteq> bytes_of (en_stored e)"
    and j: "j = (journalOf e)\<lparr>jn_Phase := phaseRenewed, jn_Doc := bytes_of (en_doc e)\<rparr>"
    and ev: "ev \<in> {CreatedJournal j, WroteJournal j}" and wr: "wrote ev (wd_secret w) (Some (Journal j)) w w'"
    and e': "en_doc e' = en_doc e" "en_stored e' = en_stored e" "en_from e' = en_from e" "en_journalOwner e' = en_journalOwner e"
      "en_journal e' = journalStarted \<or> en_journal e' = journalRenewed"
  shows "kept c e' w'"
proof (rule keptI)
  show "whole e'" using keptD[OF k] by (simp add: whole_def e')
  fix n p assume o: "owed (expiry_of c) (wd_log w') = Some (n, p)"
  have view: "secret_of w' = secret_of w" "wd_journal w' = Some (Journal j)"
    and log: "owed (expiry_of c) (wd_log w') = lands (owed (expiry_of c) (wd_log w)) j"
    using wrote_view[OF wr] ev by (auto simp: secret_of_def)
  obtain q where q: "owed (expiry_of c) (wd_log w) = Some (n, q)" and pq: "p = q \<or> (q = InMemory \<and> p = InJournal)"
    using lands_Some o unfolding log by blast
  obtain d where d: "en_doc e = Some d" using pending_doc[OF keptD[OF k] ne] by blast
  have jd: "jn_Doc j = d" "jn_Phase j = phaseRenewed" "jn_DocHash j = en_from e" "jn_Owner j = en_journalOwner e"
    by (simp_all add: j d bytes_of_def journalOf_def)
  have mem: "q = InMemory \<Longrightarrow> n = d \<Longrightarrow> p = InJournal" using o log q by (simp add: lands_def jd)
  show "readable c n \<and> placed c n p (secret_of w') (wd_journal w') e'"
  proof (rule kept_cases[OF k q])
    assume "left_behind c n (secret_of w) (wd_journal w) e"
    then show ?thesis by (simp add: left_behind_def pending_def st)
  next
    assume "at_secret n (secret_of w) (wd_journal w) e"
    then show ?thesis using kept_pair[OF k q] d by (simp add: placed_def at_secret_def view jd e')
  next
    assume m: "q = InMemory" "at_memory c n (secret_of w) (wd_journal w) e"
    then have "n = d" by (auto simp: at_memory_def d)
    with m show ?thesis using kept_pair[OF k q] mem e' st by (auto simp: placed_def at_memory_def in_hand_def journal_of_pair_def starts_from_def view jd d)
  next
    assume m: "q = InJournal" "in_hand c n (secret_of w) (wd_journal w) e"
    then have "n = d" by (auto simp: in_hand_def d)
    with m show ?thesis using kept_pair[OF k q] pq e' st by (auto simp: placed_def in_hand_def journal_of_pair_def starts_from_def view jd d)
  qed
qed

lemma journal_damaged:
  assumes k: "kept c e w" and wr: "wrote DamagedJournal (wd_secret w) (Some Unreadable) w w'"
    and safe: "wd_journal w = None \<or> pending e"
  shows "kept c e w'"
proof (rule keptI)
  show "whole e" by (rule keptD[OF k])
  fix n p assume o: "owed (expiry_of c) (wd_log w') = Some (n, p)"
  have view: "secret_of w' = secret_of w" "wd_journal w' = Some Unreadable"
    using wrote_view[OF wr] by (auto simp: secret_of_def)
  obtain q where q: "owed (expiry_of c) (wd_log w) = Some (n, q)" and pq: "p = (if q = InJournal then InMemory else q)"
    using o wrote_view[OF wr, of "expiry_of c"] by (auto split: option.splits place.splits)
  show "readable c n \<and> placed c n p (secret_of w') (wd_journal w') e"
    using kept_pair[OF k q] pq safe by (rule_tac kept_cases[OF k q]) (auto simp: place_defs view)
qed

lemma journal_cleared:
  assumes k: "kept c e w" and wr: "wrote ClearedJournal (wd_secret w) None w w'" and cl: "en_journal e = journalClear"
  shows "kept c e w'"
proof (rule keptI)
  show "whole e" by (rule keptD[OF k])
  fix n p assume o: "owed (expiry_of c) (wd_log w') = Some (n, p)"
  have view: "secret_of w' = secret_of w" "wd_journal w' = None" and q: "owed (expiry_of c) (wd_log w) = Some (n, p)"
    using wrote_view[OF wr, of "expiry_of c"] o by (auto simp: secret_of_def)
  show "readable c n \<and> placed c n p (secret_of w') (wd_journal w') e"
    using kept_pair[OF k q] cl by (rule_tac kept_cases[OF k q]) (auto simp: place_defs view pending_def)
qed

lemma journal_done:
  assumes "kept c e w" and "en_journal e = journalClear" and "wd_journal w = None"
  shows "kept c (e\<lparr>en_journal := journalNone, en_adopted := a\<rparr>) w"
proof (rule keptI)
  let ?e = "e\<lparr>en_journal := journalNone, en_adopted := a\<rparr>"
  show "whole ?e" using keptD[OF assms(1)] by (simp add: whole_def)
  fix n p assume q: "owed (expiry_of c) (wd_log w) = Some (n, p)"
  show "readable c n \<and> placed c n p (secret_of w) (wd_journal w) ?e"
    using kept_pair[OF assms(1) q] assms(2,3) by (rule_tac kept_cases[OF assms(1) q]) (auto simp: place_defs)
qed

lemma secret_takes_answer:
  assumes k: "kept c e w" and ne: "bytes_of (en_doc e) \<noteq> bytes_of (en_stored e)"
    and wr: "wrote (WroteSecret (bytes_of (en_doc e))) (Some (bytes_of (en_doc e), x)) (wd_journal w) w w'"
    and e': "en_doc e' = en_doc e" "en_stored e' = en_doc e \<or> en_stored e' = en_stored e"
  shows "kept c e' w'"
proof (rule keptI)
  obtain d where d: "en_doc e = Some d" using pending_doc[OF keptD[OF k] ne] by blast
  show "whole e'" using keptD[OF k] e' d by (auto simp: whole_def)
  fix n p assume o: "owed (expiry_of c) (wd_log w') = Some (n, p)"
  have view: "secret_of w' = Some d" "wd_journal w' = wd_journal w"
    using wrote_view[OF wr] by (simp_all add: d bytes_of_def)
  obtain q where q: "owed (expiry_of c) (wd_log w) = Some (n, q)"
    using o wrote_view[OF wr, of "expiry_of c"] by (auto split: option.splits)
  show "readable c n \<and> placed c n p (secret_of w') (wd_journal w') e'"
    using kept_pair[OF k q] ne by (rule_tac kept_cases[OF k q]) (auto simp: place_defs view d e' pending_def)
qed

subsection \<open>The walk\<close>

definition synced :: "entry \<Rightarrow> renew_world \<Rightarrow> bool" where
  "synced e w \<longleftrightarrow> secret_of w \<noteq> None \<and> en_stored e = secret_of w"

definition in_step :: "entry \<Rightarrow> renew_world \<Rightarrow> bool" where
  "in_step e w \<longleftrightarrow> pending e \<or> synced e w"

lemma clear_if_stored_simps:
  "en_doc (clear_if_stored e) = en_doc e" "en_stored (clear_if_stored e) = en_stored e"
  "pending e \<Longrightarrow> pending (clear_if_stored e)"
  "pending e \<Longrightarrow> en_journal (clear_if_stored e) \<noteq> journalClear \<Longrightarrow> bytes_of (en_doc e) \<noteq> bytes_of (en_stored e)"
  by (auto simp: clear_if_stored_def pending_def)

lemma same_synced: "same_store w w' \<Longrightarrow> synced e w' = synced e w"
  by (simp add: same_store_def synced_def secret_of_def)

lemma wrote_synced: "wrote ev (wd_secret w) jr w w' \<Longrightarrow> synced e w' = synced e w"
  by (simp add: wrote_def synced_def secret_of_def)

lemma flush_step_kept:
  assumes k: "kept c e w" and pend: "pending e" and sy: "synced e w" and step: "flush_step c (clear_if_stored e) w = (r, e', w')"
  shows "kept c (if r = None then e' else clear_if_stored e) w'" and "in_step (if r = None then e' else clear_if_stored e) w'"
    and "r = None \<Longrightarrow> synced e' w'"
proof -
  let ?e = "clear_if_stored e"
  note ke = clear_if_stored_kept[OF k]
  have sy1: "synced ?e w" using sy by (simp add: synced_def clear_if_stored_simps)
  have ne: "en_journal ?e \<noteq> journalClear \<Longrightarrow> bytes_of (en_doc ?e) \<noteq> bytes_of (en_stored ?e)"
    using clear_if_stored_simps(4)[OF pend] by (simp add: clear_if_stored_simps)
  have pend': "pending ?e" by (rule clear_if_stored_simps(3)[OF pend])
  have put: "kept c (if r = None then e' else ?e) w' \<and> (if r = None then synced e' w' else in_step ?e w')" if ne': "bytes_of (en_doc ?e) \<noteq> bytes_of (en_stored ?e)"
      and wb: "writeBack c (bytes_of (en_doc ?e)) (en_expires ?e) w = (r, w')"
      and e': "en_doc e' = en_doc ?e" "en_stored e' = en_doc ?e"
  proof -
    obtain d where d: "en_doc ?e = Some d" using pending_doc[OF keptD[OF ke] ne'] by blast
    show ?thesis
    proof (rule writeBack_cases[OF wb])
      assume "same_store w w'" "r \<noteq> None"
      then show ?thesis using ke pend' by (cases r) (simp_all add: kept_same in_step_def)
    next
      fix p assume wr: "wrote (WroteSecret (bytes_of (en_doc ?e))) (Some (bytes_of (en_doc ?e), p)) (wd_journal w) w w'"
      have "kept c ?e w'" "kept c e' w'" by (rule secret_takes_answer[OF ke ne' wr]; simp add: e')+
      moreover have "secret_of w' = Some d" using wrote_view[OF wr] by (simp add: d bytes_of_def)
      ultimately show ?thesis using pend' by (simp add: in_step_def synced_def e' d)
    qed
  qed
  have "kept c (if r = None then e' else ?e) w' \<and> (if r = None then synced e' w' else in_step ?e w')"
  proof (cases "en_journal ?e")
    case journalStarted
    let ?j = "(journalOf ?e)\<lparr>jn_Phase := phaseRenewed, jn_Doc := bytes_of (en_doc ?e)\<rparr>"
    have wj: "writeJournal c ?j (en_expires ?e) True w = (r, w')" and e': "e' = ?e\<lparr>en_journal := journalRenewed\<rparr>"
      using step by (simp_all add: flush_step_def journalStarted split: prod.splits)
    have ne': "bytes_of (en_doc ?e) \<noteq> bytes_of (en_stored ?e)" using ne journalStarted by simp
    show ?thesis
    proof (rule writeJournal_cases[OF wj])
      assume "same_store w w'" "r \<noteq> None"
      then show ?thesis using ke sy1 by (cases r) (simp_all add: kept_same same_synced in_step_def)
    next
      fix ev assume ev: "ev \<in> {CreatedJournal ?j, WroteJournal ?j}" and wr: "wrote ev (wd_secret w) (Some (Journal ?j)) w w'"
      have "kept c ?e w'" "kept c e' w'"
        by (rule journal_takes_answer[OF ke journalStarted ne' refl ev wr]; simp add: e' journalStarted)+
      moreover have "synced ?e w'" using wrote_synced[OF wr] sy1 by simp
      moreover then have "synced e' w'" by (simp add: e' synced_def)
      ultimately show ?thesis by (simp add: in_step_def)
    next
      assume wr: "wrote DamagedJournal (wd_secret w) (Some Unreadable) w w'" and "r \<noteq> None"
      moreover have "kept c ?e w'" by (rule journal_damaged[OF ke wr]) (simp add: clear_if_stored_simps pend)
      ultimately show ?thesis using wrote_synced[OF wr] sy1 by (cases r) (simp_all add: in_step_def)
    qed
  next
    case journalClear
    obtain r1 where dj: "delete_journal w = (r1, w')" and r: "r = (if r1 = Some StoreNotFound then None else r1)"
      and e': "e' = ?e\<lparr>en_journal := journalNone, en_adopted := False\<rparr>"
      using step by (auto simp: flush_step_def journalClear split: prod.splits)
    show ?thesis
    proof (rule delete_journal_cases[OF dj])
      assume same: "same_store w w'" and gone: "r1 = None \<or> r1 = Some StoreNotFound \<Longrightarrow> wd_journal w = None"
      have "kept c e' w" if "r = None"
        unfolding e' by (rule journal_done[OF ke journalClear gone]) (use that r in \<open>auto split: if_splits\<close>)
      moreover have "synced ?e w'" using same_synced[OF same] sy1 by simp
      moreover then have "synced e' w'" by (simp add: e' synced_def)
      ultimately show ?thesis using ke same by (simp add: kept_same in_step_def)
    next
      assume wr: "wrote ClearedJournal (wd_secret w) None w w'"
      have c: "kept c ?e w'" by (rule journal_cleared[OF ke wr journalClear])
      moreover have "kept c e' w'" unfolding e' by (rule journal_done[OF c journalClear]) (use wr in \<open>simp add: wrote_def\<close>)
      moreover have "synced ?e w'" using wrote_synced[OF wr] sy1 by simp
      moreover then have "synced e' w'" by (simp add: e' synced_def)
      ultimately show ?thesis by (simp add: in_step_def)
    qed
  next
    case journalNone
    show ?thesis by (rule put) (use step ne in \<open>auto simp: flush_step_def journalNone split: prod.splits\<close>)
  next
    case journalRenewed
    show ?thesis by (rule put) (use step ne in \<open>auto simp: flush_step_def journalRenewed split: prod.splits\<close>)
  qed
  then show "kept c (if r = None then e' else ?e) w'" "in_step (if r = None then e' else ?e) w'" "r = None \<Longrightarrow> synced e' w'"
    by (auto simp: in_step_def split: if_splits)
qed

lemma flush_loop_kept:
  assumes "kept c e w" and "synced e w"
  shows "kept c (fst (flush_loop c e w)) (snd (flush_loop c e w)) \<and> in_step (fst (flush_loop c e w)) (snd (flush_loop c e w))"
  using assms
proof (induction c e w rule: flush_loop.induct)
  case (1 c e w)
  show ?case
  proof (cases "writeDue (wd_now w) e")
    case False
    then show ?thesis using "1.prems" by (simp add: flush_loop.simps[of c e] in_step_def)
  next
    case True
    then have pend: "pending e" by (simp add: writeDue_def)
    obtain r e' w' where step: "flush_step c (clear_if_stored e) w = (r, e', w')" using prod_cases3 by blast
    note fs = flush_step_kept[OF "1.prems"(1) pend "1.prems"(2) step]
    show ?thesis
    proof (cases r)
      case None
      have "kept c (e'\<lparr>en_writeFailedAt := None\<rparr>) w'" using fs(1) None kept_entry[of "e'\<lparr>en_writeFailedAt := None\<rparr>" e'] by simp
      moreover have "synced (e'\<lparr>en_writeFailedAt := None\<rparr>) w'" using fs(3)[OF None] by (simp add: synced_def)
      ultimately show ?thesis
        using "1.IH"[OF _ step[symmetric]] True step None by (simp add: flush_loop.simps[of c e])
    next
      case (Some err)
      let ?e = "(clear_if_stored e)\<lparr>en_writeFailedAt := Some (wd_now w')\<rparr>"
      have "kept c ?e w'" using fs(1) Some kept_entry[of ?e "clear_if_stored e"] by simp
      moreover have "in_step ?e w'" using fs(2) Some by (simp add: in_step_def pending_def synced_def)
      ultimately show ?thesis using True step Some by (simp add: flush_loop.simps[of c e])
    qed
  qed
qed

subsection \<open>Reading\<close>

lemma kept_None: "whole e \<Longrightarrow> owed (expiry_of c) (wd_log w) = None \<Longrightarrow> kept c e w"
  by (simp add: kept_def held_def)

lemma owed_secret: "kept c e w \<Longrightarrow> secret_of w = None \<Longrightarrow> owed (expiry_of c) (wd_log w) = None"
  by (cases "owed (expiry_of c) (wd_log w)") (auto elim!: kept_cases simp: place_defs)

lemma reset_whole: "whole (reset d x t e)"
  by (simp add: reset_def whole_def)

lemma reconcile_kept:
  assumes k: "kept c e w" and v: "secret_of w = Some v" and rc: "reconcile c now v e = (r, e')"
  shows "kept c e' w" and "r = None \<Longrightarrow> en_stored e' = Some v"
proof -
  have "kept c e' w \<and> (r = None \<longrightarrow> en_stored e' = Some v)"
  proof (cases "en_doc e \<noteq> None \<and> (v = bytes_of (en_stored e) \<or> v = bytes_of (en_doc e))")
    case True
    then have e': "e' = e\<lparr>en_checkedAt := Some now, en_stored := Some v\<rparr>" and r: "r = None"
      using rc by (simp_all add: reconcile_def Let_def)
    have "kept c e' w"
    proof (rule keptI)
      show "whole e'" using True by (simp add: e' whole_def)
      fix n p assume q: "owed (expiry_of c) (wd_log w) = Some (n, p)"
      show "readable c n \<and> placed c n p (secret_of w) (wd_journal w) e'"
        using kept_pair[OF k q] v True
        by (rule_tac kept_cases[OF k q]) (auto simp: place_defs e' pending_def bytes_of_def)
    qed
    then show ?thesis by (simp add: e')
  next
    case False
    then have e': "e' = (case expiry_of c v of None \<Rightarrow> reset None None None (e\<lparr>en_checkedAt := Some now\<rparr>)
        | Some x \<Rightarrow> reset (Some v) x (Some now) (e\<lparr>en_checkedAt := Some now\<rparr>))" and r: "r = None \<longleftrightarrow> expiry_of c v \<noteq> None"
      using rc by (auto simp: reconcile_def Let_def split: option.splits)
    have "kept c e' w"
    proof (rule keptI)
      show "whole e'" by (simp add: e' reset_whole split: option.splits)
      fix n p assume q: "owed (expiry_of c) (wd_log w) = Some (n, p)"
      show "readable c n \<and> placed c n p (secret_of w) (wd_journal w) e'"
        using kept_pair[OF k q] v False
        by (rule_tac kept_cases[OF k q])
          (auto simp: place_defs e' pending_def bytes_of_def reset_def readable_def split: option.splits)
    qed
    then show ?thesis using r by (auto simp: e' reset_def)
  qed
  then show "kept c e' w" "r = None \<Longrightarrow> en_stored e' = Some v" by auto
qed

lemma syncRead_kept:
  assumes k: "kept c e w" and s: "syncRead c cancellable e w = (r, e', w')"
  shows "kept c e' w'" and "r = Inr True \<Longrightarrow> synced e' w'" and "same_store w w'"
proof -
  obtain x w1 where rd: "read_secret w = (x, w1)" by fastforce
  note same = read_secret_same[OF rd]
  have k1: "kept c e w1" using k same by (simp add: kept_same)
  have "kept c e' w' \<and> (r = Inr True \<longrightarrow> synced e' w') \<and> w' = w1"
  proof (cases x)
    case (Inl err)
    have gone: "kept c (reset None None None e) w1" if "err = ReadNotFound"
      using owed_secret[OF k1] read_secret_gone[of w w1] rd Inl that by (intro kept_None reset_whole) simp
    show ?thesis using s k1 gone
      by (auto simp: syncRead_def rd Inl kept_entry[of "e\<lparr>en_checkedAt := Some t\<rparr>" e for t] split: if_splits)
  next
    case (Inr v)
    have v: "secret_of w1 = Some v" using read_secret_Inr rd Inr by blast
    obtain y e1 where rc: "reconcile c (wd_now w1) v e = (y, e1)" by fastforce
    show ?thesis using s reconcile_kept[OF k1 v rc] v by (auto simp: syncRead_def rd Inr rc synced_def split: option.splits)
  qed
  then show "kept c e' w'" "r = Inr True \<Longrightarrow> synced e' w'" "same_store w w'" using same by auto
qed

subsection \<open>Flushing and recovering\<close>

text \<open>The journal of a secret that is gone.\<close>

lemma dropJournal_kept:
  assumes wh: "whole e" and gone: "secret_of w = None" and none: "owed (expiry_of c) (wd_log w) = None"
    and d: "dropJournal e w = (e', w')"
  shows "kept c e' w'" and "secret_of w' = None"
proof -
  obtain r w1 where dj: "delete_journal w = (r, w1)" by fastforce
  have w': "w' = w1" and e': "whole e'" using d wh by (auto simp: dropJournal_def dj whole_def split: if_splits)
  have "owed (expiry_of c) (wd_log w1) = None \<and> secret_of w1 = None"
    by (rule delete_journal_cases[OF dj]) (use gone none in \<open>auto simp: same_store_def wrote_def secret_of_def\<close>)
  then show "kept c e' w'" "secret_of w' = None" using e' w' by (simp_all add: kept_None)
qed

lemma kept_fields:
  "kept c (e\<lparr>en_writeFailedAt := t\<rparr>) w = kept c e w" "kept c (e\<lparr>en_checkedAt := t\<rparr>) w = kept c e w"
  "kept c (e\<lparr>en_recoverFailedAt := t\<rparr>) w = kept c e w" "kept c (recovered_at t e) w = kept c e w"
  "kept c (fail_renewal f b x e) w = kept c e w" "kept c (e\<lparr>en_recovered := b, en_recoverFailedAt := t\<rparr>) w = kept c e w"
  "kept c (e\<lparr>en_recovered := b\<rparr>) w = kept c e w" "kept c (lift_unread b e) w = kept c e w" "kept c (e\<lparr>en_suspect := b\<rparr>) w = kept c e w"
  by (rule kept_entry; simp add: recovered_at_def fail_renewal_def lift_unread_def)+

lemma flush_kept:
  assumes k: "kept c e w" and f: "flush c e w = (r, e', w')"
  shows "kept c e' w'" and "in_step e w \<Longrightarrow> r = None \<Longrightarrow> in_step e' w'"
proof -
  have "kept c e' w' \<and> (in_step e w \<longrightarrow> r = None \<longrightarrow> in_step e' w')"
  proof (cases "writeDue (wd_now w) e")
    case False
    then show ?thesis using k f by (simp add: flush_def)
  next
    case due: True
    then have pend: "pending e" by (simp add: writeDue_def)
    obtain x e1 w1 where s: "syncRead c False e w = (x, e1, w1)" using prod_cases3 by blast
    note k1 = syncRead_kept[OF k s]
    show ?thesis
    proof (cases x)
      case (Inl err)
      show ?thesis
      proof (cases "err = SecretGone")
        case True
        obtain rd w2 where rd: "read_secret w = (rd, w2)" by fastforce
        have bad: "reconcile c t v e0 \<noteq> (Some SecretGone, e2)" for t v e0 e2
          by (auto simp: reconcile_def Let_def split: option.splits)
        have "rd = Inl ReadNotFound" "w1 = w2"
          using s Inl True bad by (auto simp: syncRead_def rd split: sum.splits option.splits prod.splits if_splits)
        then have gone: "secret_of w1 = None" using read_secret_gone[of w w2] rd by simp
        obtain e2 w2 where dj: "dropJournal e1 w1 = (e2, w2)" by fastforce
        show ?thesis
          using f due s Inl True dropJournal_kept(1)[OF keptD[OF k1(1)] gone owed_secret[OF k1(1) gone] dj] by (auto simp: flush_def dj)
      next
        case False
        then show ?thesis using f due s Inl k1 by (auto simp: flush_def)
      qed
    next
      case (Inr b)
      show ?thesis
      proof (cases b)
        case True
        then show ?thesis
          using f due s Inr flush_loop_kept[OF k1(1) k1(2)] by (cases "flush_loop c e1 w1") (simp add: flush_def)
      next
        case False
        then have "pending e1" using s Inr pend by (auto simp: syncRead_def pending_def split: sum.splits option.splits prod.splits if_splits)
        then show ?thesis using f due s Inr False k1(1) by (auto simp: flush_def kept_fields in_step_def pending_def)
      qed
    qed
  qed
  then show "kept c e' w'" "in_step e w \<Longrightarrow> r = None \<Longrightarrow> in_step e' w'" by auto
qed

lemma settle_kept:
  assumes k: "kept c e w" and v: "secret_of w = Some v" and st: "en_stored e = Some v"
    and found: "found = Inl x \<and> wd_journal w = Some Unreadable \<or> (\<exists>j. found = Inr j \<and> wd_journal w = Some (Journal j) \<and> jn_Owner j \<noteq> ch_owner c)"
  shows "kept c (settle c found v e) w"
proof (rule keptI)
  show "whole (settle c found v e)"
    using keptD[OF k] st by (auto simp: settle_def whole_def split: sum.splits option.splits)
  fix n p assume q: "owed (expiry_of c) (wd_log w) = Some (n, p)"
  show "readable c n \<and> placed c n p (secret_of w) (wd_journal w) (settle c found v e)"
    using kept_pair[OF k q] v st found
    by (rule_tac kept_cases[OF k q])
      (auto simp: place_defs settle_def readable_def split: sum.splits option.splits if_splits)
qed

lemma adopt_kept:
  assumes "kept c e w" and "found = Inl x \<or> (\<exists>j. found = Inr j \<and> wd_journal w = Some (Journal j) \<and> jn_Owner j \<noteq> ch_owner c)"
  shows "kept c (adopt found e) w"
proof (rule keptI)
  show "whole (adopt found e)" using keptD[OF assms(1)] by (auto simp: adopt_def whole_def split: sum.splits)
  fix n p assume q: "owed (expiry_of c) (wd_log w) = Some (n, p)"
  show "readable c n \<and> placed c n p (secret_of w) (wd_journal w) (adopt found e)"
    using kept_pair[OF assms(1) q] assms(2)
    by (rule_tac kept_cases[OF assms(1) q]) (auto simp: place_defs adopt_def pending_def split: sum.splits)
qed

lemma readJournal_Inr: "readJournal w = (Inr j, w') \<Longrightarrow> wd_journal w' = Some (Journal j)"
  by (auto simp: readJournal_def split: prod.splits if_splits option.splits journal_item.splits)

lemma readJournal_damaged: "readJournal w = (Inl ReadDamaged, w') \<Longrightarrow> wd_journal w' = Some Unreadable"
  by (auto simp: readJournal_def split: prod.splits if_splits option.splits journal_item.splits)

lemma recover_left_kept:
  assumes k: "kept c e w" and r: "recover_left c now found e w = (r, e', w')"
    and found: "found = Inl x \<and> wd_journal w = Some Unreadable \<or> (\<exists>j. found = Inr j \<and> wd_journal w = Some (Journal j) \<and> jn_Owner j \<noteq> ch_owner c)"
  shows "kept c e' w'"
proof -
  obtain rd w1 where rd: "read_secret w = (rd, w1)" by fastforce
  note same = read_secret_same[OF rd]
  have k1: "kept c e w1" using k same by (simp add: kept_same)
  have jr: "wd_journal w1 = wd_journal w" using same by (simp add: same_store_def)
  show ?thesis
  proof (cases rd)
    case (Inl err)
    show ?thesis
    proof (cases "err = ReadNotFound")
      case True
      then have gone: "secret_of w1 = None" using read_secret_gone[of w w1] rd Inl by simp
      let ?e = "(recovered_at None (reset None None None e))\<lparr>en_journal := journalClear\<rparr>"
      obtain e2 w2 where dj: "dropJournal ?e w1 = (e2, w2)" by fastforce
      have "whole ?e" by (simp add: whole_def recovered_at_def reset_def)
      then show ?thesis using r dropJournal_kept(1)[OF _ gone owed_secret[OF k1 gone] dj] Inl True
        by (simp add: recover_left_def rd dj)
    next
      case False
      then show ?thesis using r k1 Inl by (auto simp: recover_left_def rd kept_fields split: if_splits)
    qed
  next
    case (Inr v)
    have v: "secret_of w1 = Some v" using read_secret_Inr rd Inr by blast
    let ?e = "adopt found ((recovered_at None e)\<lparr>en_adopted := True\<rparr>)"
    have "kept c ((recovered_at None e)\<lparr>en_adopted := True\<rparr>) w1"
      using k1 kept_entry[of "(recovered_at None e)\<lparr>en_adopted := True\<rparr>" e c w1] by (simp add: recovered_at_def)
    then have ke: "kept c ?e w1" by (rule adopt_kept[of _ _ _ _ x]) (use found jr in auto)
    obtain y e1 where rc: "reconcile c (wd_now w1) v ?e = (y, e1)" by fastforce
    show ?thesis
    proof (cases y)
      case None
      have "kept c (settle c found v e1) w1"
        by (rule settle_kept[OF reconcile_kept(1)[OF ke v rc] v reconcile_kept(2)[OF ke v rc None], of _ x]) (use found jr in simp)
      then show ?thesis using r by (simp add: recover_left_def rd Inr rc None)
    next
      case (Some err)
      then show ?thesis using r reconcile_kept(1)[OF ke v rc] by (simp add: recover_left_def rd Inr rc)
    qed
  qed
qed

lemma kept_own_journal:
  assumes k: "kept c e w" and jr: "wd_journal w = Some (Journal j)" and own: "jn_Owner j = ch_owner c" and idle: "en_journal e = journalNone"
  shows "kept c (e\<lparr>en_journal := journalClear\<rparr>) w"
proof (rule keptI)
  show "whole (e\<lparr>en_journal := journalClear\<rparr>)" using keptD[OF k] by (simp add: whole_def)
  fix n p assume q: "owed (expiry_of c) (wd_log w) = Some (n, p)"
  show "readable c n \<and> placed c n p (secret_of w) (wd_journal w) (e\<lparr>en_journal := journalClear\<rparr>)"
    using kept_pair[OF k q] assms(2-4) by (rule_tac kept_cases[OF k q]) (auto simp: place_defs)
qed

lemma recover_kept:
  assumes k: "kept c e w" and r: "recover c e w = (r, e', w')"
  shows "kept c e' w'"
proof -
  obtain x w1 where rj: "readJournal w = (x, w1)" by fastforce
  have k1: "kept c e w1" using k readJournal_same[OF rj] by (simp add: kept_same)
  show ?thesis
  proof (cases x)
    case (Inl err)
    show ?thesis
    proof (cases "err = ReadDamaged")
      case True
      then have "recover_left c (wd_now w1) x e w1 = (r, e', w')" using r Inl by (simp add: recover_def rj Let_def)
      then show ?thesis by (rule recover_left_kept[OF k1, of _ _ _ _ _ err]) (use readJournal_damaged[of w w1] rj Inl True in simp)
    next
      case False
      then show ?thesis using r k1 Inl by (cases err) (auto simp: recover_def rj Let_def kept_fields)
    qed
  next
    case (Inr j)
    have jr: "wd_journal w1 = Some (Journal j)" using readJournal_Inr rj Inr by blast
    show ?thesis
    proof (cases "jn_Owner j = ch_owner c")
      case True
      let ?j = "if en_journal e = journalNone then journalClear else en_journal e"
      have "kept c (e\<lparr>en_journal := ?j\<rparr>) w1" using kept_own_journal[OF k1 jr True] k1 by simp
      then have "kept c ((recovered_at None e)\<lparr>en_journal := ?j\<rparr>) w1"
        using kept_entry[of "(recovered_at None e)\<lparr>en_journal := ?j\<rparr>" "e\<lparr>en_journal := ?j\<rparr>" c w1] by (simp add: recovered_at_def)
      then show ?thesis using r True by (auto simp: recover_def rj Inr Let_def)
    next
      case False
      show ?thesis
      proof (cases "young (wd_now w1) j \<and> ch_alive c (jn_Owner j)")
        case True
        then show ?thesis using r k1 False by (auto simp: recover_def rj Inr Let_def kept_fields)
      next
        case dead: False
        then have "recover_left c (wd_now w1) x e w1 = (r, e', w')" using r False Inr by (auto simp: recover_def rj Let_def split: if_splits)
        then show ?thesis by (rule recover_left_kept[OF k1, of _ _ _ _ _ undefined]) (use jr False Inr in simp)
      qed
    qed
  qed
qed

subsection \<open>Renewing\<close>

lemma create_cases:
  assumes "writeJournal c j x False w = (r, w')"
  obtains "same_store w w'" and "r \<noteq> None" | "wd_journal w = None" and "wrote (CreatedJournal j) (wd_secret w) (Some (Journal j)) w w'"
  | "wd_journal w = None" and "wrote DamagedJournal (wd_secret w) (Some Unreadable) w w'" and "r \<noteq> None"
proof -
  obtain pr w1 where p: "provenanceOf c x w = (pr, w1)" by fastforce
  have s: "same_store w w1" by (rule provenanceOf_same[OF p])
  show thesis
  proof (cases pr)
    case (Inl err)
    then have "r = Some err" "w1 = w'" using assms by (simp_all add: writeJournal_def p)
    then show thesis using that(1) s by simp
  next
    case (Inr q)
    then have "create_journal j w1 = (r, w')" using assms by (simp add: writeJournal_def p)
    then show thesis by (rule create_journal_cases) (use s that in \<open>auto simp: wrote_def same_store_def\<close>)
  qed
qed

text \<open>Nothing is under way: the pair is in the secret.\<close>

lemma idle_at_secret:
  assumes k: "kept c e w" and idle: "\<not> pending e" and jr: "wd_journal w = None" and q: "owed (expiry_of c) (wd_log w) = Some (n, p)"
  shows "secret_of w = Some n \<and> (en_doc e = None \<or> en_doc e = Some n)"
  using idle jr by (rule_tac kept_cases[OF k q]) (auto simp: place_defs pending_def bytes_of_def)

lemma owed_fails:
  "owed f (Refreshed d a ed # l) = Some (n, p) \<Longrightarrow> (a = RenewFailed \<and> owed f l = Some (n, p)) \<or> (a = Renewed n \<and> p = InMemory \<and> n \<noteq> [] \<and> f n \<noteq> None \<and> \<not> ed)"
  by (auto split: if_splits renew_answer.splits)

lemma ask_provider_log:
  assumes "ask_provider d w = (y, w')"
  shows "\<exists>a ed. wd_log w' = Refreshed d a ed # wd_log w \<and> wd_journal w' = wd_journal w \<and> (ed \<or> wd_secret w' = wd_secret w)
     \<and> y = (case a of Renewed d \<Rightarrow> if d = [] then Inl True else Inr d | RefusedSpent \<Rightarrow> Inl True | RenewFailed \<Rightarrow> Inl False)"
proof -
  obtain cl w1 where nc: "next_call w = (cl, w1)" by fastforce
  have same: "same_store w w1" using next_call_same[of w] by (simp add: nc)
  have w': "w' = log_event (Refreshed d (ca_answer cl) (ca_edit cl \<noteq> None)) (case ca_edit cl of None \<Rightarrow> w1 | Some edit \<Rightarrow> w1\<lparr>wd_secret := edit\<rparr>)"
    and y: "y = (case ca_answer cl of Renewed d \<Rightarrow> if d = [] then Inl True else Inr d | RefusedSpent \<Rightarrow> Inl True | RenewFailed \<Rightarrow> Inl False)"
    using assms by (simp_all add: ask_provider_def nc Let_def)
  show ?thesis
    using same by (intro exI[of _ "ca_answer cl"] exI[of _ "ca_edit cl \<noteq> None"])
      (cases "ca_edit cl"; simp add: w' y log_event_def same_store_def)
qed

text \<open>The journal of a renewal is created when nothing is under way.\<close>

lemma created_kept:
  assumes k: "kept c e w" and idle: "\<not> pending e" and j: "jn_Phase j = phaseRenewing" and wj: "writeJournal c j x False w = (r, w1)"
  shows "kept c e w1"
proof (rule create_cases[OF wj])
  assume jr: "wd_journal w = None" and wr: "wrote (CreatedJournal j) (wd_secret w) (Some (Journal j)) w w1"
  show ?thesis
  proof (rule keptI[OF keptD[OF k]])
    fix n p assume o: "owed (expiry_of c) (wd_log w1) = Some (n, p)"
    have "lands (owed (expiry_of c) (wd_log w)) j = Some (n, p)" using o wrote_view[OF wr, of "expiry_of c"] by simp
    then obtain q where q: "owed (expiry_of c) (wd_log w) = Some (n, q)" using lands_Some by blast
    show "readable c n \<and> placed c n p (secret_of w1) (wd_journal w1) e"
      using idle_at_secret[OF k idle jr q] kept_pair[OF k q] wrote_view[OF wr]
      by (simp add: placed_def at_secret_def secret_of_def j)
  qed
qed (use k journal_damaged in \<open>auto simp: kept_same\<close>)

text \<open>After a failed renewal, whatever pair is owed is the one the secret holds; after one that worked,
  it is the new one, and the entry holds it.\<close>

lemma provider_failed_kept:
  assumes k: "kept c e w1" and sec: "secret_of w1 = Some d" and stored: "en_stored e = Some d" "en_doc e = Some d"
    and idle: "\<And>n p. owed (expiry_of c) (wd_log w1) = Some (n, p) \<Longrightarrow> n = d"
    and jr: "wd_journal w1 = Some (Journal j)" and ren: "jn_Phase j = phaseRenewing"
    and ask: "ask_provider d w1 = (Inl sp, w2)" and e': "en_doc e' = en_doc e" "en_stored e' = en_stored e"
  shows "kept c e' w2"
proof (rule keptI)
  show "whole e'" using stored by (simp add: whole_def e')
  fix n p assume o: "owed (expiry_of c) (wd_log w2) = Some (n, p)"
  obtain a ed where log: "wd_log w2 = Refreshed d a ed # wd_log w1" and jr2: "wd_journal w2 = wd_journal w1"
    and ed: "ed \<or> wd_secret w2 = wd_secret w1"
    and y: "Inl sp = (case a of Renewed d \<Rightarrow> if d = [] then Inl True else Inr d | RefusedSpent \<Rightarrow> Inl True | RenewFailed \<Rightarrow> Inl False)"
    using ask_provider_log[OF ask] by (elim exE conjE) (rule that)
  have a: "a = RenewFailed" "\<not> ed" "owed (expiry_of c) (wd_log w1) = Some (n, p)"
    using o y owed_fails[of "expiry_of c" d a ed "wd_log w1" n p] by (auto simp: log split: if_splits)
  show "readable c n \<and> placed c n p (secret_of w2) (wd_journal w2) e'"
    using idle[OF a(3)] kept_pair[OF k a(3)] ed a(2) sec stored jr jr2 by (simp add: placed_def at_secret_def ren e' secret_of_def)
qed

lemma provider_answered_kept:
  assumes sec: "secret_of w1 = Some d" and jr: "wd_journal w1 = Some (Journal j)"
    and ren: "jn_Phase j = phaseRenewing" "jn_Owner j = ch_owner c"
    and ask: "ask_provider d w1 = (Inr n', w2)" and e': "en_doc e' = Some n'" "en_stored e' = Some d" "starts_from c d e'"
  shows "kept c e' w2"
proof (rule keptI)
  show "whole e'" by (simp add: whole_def e')
  fix n p assume o: "owed (expiry_of c) (wd_log w2) = Some (n, p)"
  obtain a ed where log: "wd_log w2 = Refreshed d a ed # wd_log w1" and jr2: "wd_journal w2 = wd_journal w1"
    and ed: "ed \<or> wd_secret w2 = wd_secret w1"
    and y: "Inr n' = (case a of Renewed d \<Rightarrow> if d = [] then Inl True else Inr d | RefusedSpent \<Rightarrow> Inl True | RenewFailed \<Rightarrow> Inl False)"
    using ask_provider_log[OF ask] by (elim exE conjE) (rule that)
  have "a = Renewed n'" using y by (auto split: renew_answer.splits if_splits)
  then have n: "n = n'" "p = InMemory" "readable c n" "\<not> ed"
    using owed_fails[of "expiry_of c" d a ed "wd_log w1" n p] o by (auto simp: log readable_def)
  show "readable c n \<and> placed c n p (secret_of w2) (wd_journal w2) e'"
    using n ed sec jr jr2 by (simp add: placed_def at_memory_def ren e' secret_of_def)
qed

lemma renew_kept:
  assumes k: "kept c e w" and step: "in_step e w" and r: "renew c e w = (r, e', w')"
  shows "kept c e' w'"
proof (cases "pending e")
  case True
  then show ?thesis using r k by (simp add: renew_def Let_def)
next
  case idle: False
  define d where "d = bytes_of (en_doc e)"
  define j where "j = \<lparr>jn_Phase = phaseRenewing, jn_Owner = ch_owner c, jn_StartedAt = wd_now w div 1000000, jn_DocHash = docHash c d, jn_Doc = []\<rparr>"
  have doc: "en_stored e = Some d" "secret_of w = Some d" "en_doc e = Some d"
    using step idle keptD[OF k] by (auto simp: in_step_def synced_def whole_def d_def pending_def bytes_of_def split: option.splits)
  obtain x w1 where wj: "writeJournal c j (en_expires e) False w = (x, w1)" by fastforce
  have kw: "kept c e w1" by (rule created_kept[OF k idle _ wj]) (simp add: j_def)
  show ?thesis
  proof (cases x)
    case (Some err)
    obtain y e2 w2 where rec: "recover c (e\<lparr>en_recovered := False, en_recoverFailedAt := None\<rparr>) w1 = (y, e2, w2)" using prod_cases3 by blast
    have "kept c e2 w2" by (rule recover_kept[OF _ rec]) (simp add: kept_fields kw)
    then show ?thesis using r idle wj Some kw rec
      by (cases err) (auto simp: renew_def Let_def kept_fields simp flip: d_def j_def split: option.splits)
  next
    case None
    have jr: "wd_journal w = None" and wr: "wrote (CreatedJournal j) (wd_secret w) (Some (Journal j)) w w1"
      by (rule create_cases[OF wj]; use None in simp)+
    have view: "secret_of w1 = Some d" "wd_journal w1 = Some (Journal j)" using wrote_view[OF wr] doc by (simp_all add: secret_of_def)
    have at: "n = d" if "owed (expiry_of c) (wd_log w1) = Some (n, p)" for n p
    proof -
      have "lands (owed (expiry_of c) (wd_log w)) j = Some (n, p)" using that wrote_view[OF wr, of "expiry_of c"] by simp
      then obtain q where q: "owed (expiry_of c) (wd_log w) = Some (n, q)" using lands_Some by blast
      show ?thesis using idle_at_secret[OF k idle jr q] doc by simp
    qed
    let ?e = "e\<lparr>en_journal := journalStarted, en_startedAt := Some (wd_now w), en_from := docHash c d, en_journalOwner := ch_owner c\<rparr>"
    obtain y w2 where ask: "ask_provider d w1 = (y, w2)" by fastforce
    show ?thesis
    proof (cases y)
      case (Inl sp)
      let ?e2 = "(fail_renewal (ProviderFailed sp) sp (wd_now w2) ?e)\<lparr>en_suspect := (if sp then False else en_suspect ?e), en_journal := journalClear\<rparr>"
      have "kept c ?e2 w2"
        by (rule provider_failed_kept[OF kw view(1) doc(1,3) at view(2) _ ask[unfolded Inl]]) (simp_all add: j_def fail_renewal_def)
      moreover obtain z e3 w3 where fl: "flush c ?e2 w2 = (z, e3, w3)" using prod_cases3 by blast
      ultimately have "kept c e3 w3" by (rule flush_kept(1))
      then show ?thesis using r idle wj None ask Inl fl by (simp add: renew_def Let_def flip: d_def j_def)
    next
      case (Inr n)
      let ?e2 = "?e\<lparr>en_doc := Some n, en_expires := (case expiry_of c n of None \<Rightarrow> None | Some x \<Rightarrow> x), en_issued := Some (wd_now w2),
          en_failure := None, en_failedAt := None, en_spent := False, en_writeFailedAt := None, en_suspect := False\<rparr>"
      have "kept c ?e2 w2"
        by (rule provider_answered_kept[OF view _ _ ask[unfolded Inr]]) (simp_all add: j_def doc starts_from_def)
      moreover have "flush c ?e2 w2 = (r, e', w')" using r idle wj None ask Inr by (simp add: renew_def Let_def flip: d_def j_def)
      ultimately show ?thesis by (rule flush_kept(1))
    qed
  qed
qed

subsection \<open>Every operation keeps the pair\<close>

lemma synced_in_step: "synced e w \<Longrightarrow> in_step e w"
  by (simp add: in_step_def)

lemma settle_first_kept: "kept c e w \<Longrightarrow> settle_first c e w = (r, e', w') \<Longrightarrow> kept c e' w'"
  by (auto simp: settle_first_def split: if_splits dest: recover_kept)

lemma renew_if_due_kept:
  assumes k: "kept c e w" and step: "b \<Longrightarrow> in_step e w" and r: "renew_if_due c b e w = (r, e', w')"
  shows "kept c e' w'"
proof (cases "due (wd_now w) e")
  case False
  then show ?thesis using k r by (simp add: renew_if_due_def)
next
  case due: True
  obtain x e1 w1 where s: "(if b then (Inr True, e, w) else syncRead c True e w) = (x, e1, w1)" using prod_cases3 by blast
  have k1: "kept c e1 w1" and st: "x = Inr True \<Longrightarrow> in_step e1 w1"
  proof -
    show "kept c e1 w1" using s k syncRead_kept(1)[OF k, of True x e1 w1] by (cases b) simp_all
    show "in_step e1 w1" if "x = Inr True"
      using s that step synced_in_step syncRead_kept(2)[OF k, of True x e1 w1] by (cases b) simp_all
  qed
  show ?thesis
  proof (cases "x = Inr True \<and> due (wd_now w1) e1")
    case True
    obtain y e2 w2 where rn: "renew c e1 w1 = (y, e2, w2)" using prod_cases3 by blast
    have "e' = e2" "w' = w2" using r due s True rn by (auto simp: renew_if_due_def split: option.splits)
    then show ?thesis using renew_kept[OF k1 st rn] True by simp
  next
    case False
    then show ?thesis using r due s k1 by (auto simp: renew_if_due_def kept_fields split: sum.splits bool.splits)
  qed
qed

lemma Resolve_kept:
  assumes k: "kept c e w" and r: "Resolve c turn e w = (r, e', w')"
  shows "kept c e' w'"
proof (cases "ready (wd_now w) e = None \<and> turn")
  case False
  then show ?thesis using k r by (auto simp: Resolve_def split: option.splits)
next
  case go: True
  obtain x1 e1 w1 where s1: "settle_first c e w = (x1, e1, w1)" using prod_cases3 by blast
  note k1 = settle_first_kept[OF k s1]
  obtain x2 e2 w2 where s2: "(if stale (wd_now w1) e1 then syncRead c True e1 w1 else (Inr False, e1, w1)) = (x2, e2, w2)" using prod_cases3 by blast
  have k2: "kept c e2 w2" using s2 k1 syncRead_kept(1)[OF k1, of True x2 e2 w2] by (auto split: if_splits)
  have st2: "x2 = Inr True \<Longrightarrow> in_step e2 w2" using s2 synced_in_step syncRead_kept(2)[OF k1, of True x2 e2 w2] by (auto split: if_splits)
  obtain x3 e3 w3 where s3: "flush c e2 w2 = (x3, e3, w3)" using prod_cases3 by blast
  note k3 = flush_kept[OF k2 s3]
  show ?thesis
  proof (cases "x1 = None \<and> x3 = None")
    case True
    show ?thesis
    proof (cases x2)
      case (Inr b)
      obtain x4 e4 w4 where s4: "renew_if_due c b e3 w3 = (x4, e4, w4)" using prod_cases3 by blast
      have "kept c e4 w4" by (rule renew_if_due_kept[OF k3(1) _ s4]) (use k3(2) st2 Inr True in simp)
      then show ?thesis using r go s1 s2 s3 s4 True Inr by (auto simp: Resolve_def split: option.splits)
    qed (use r go s1 s2 True k2 in \<open>auto simp: Resolve_def\<close>)
  next
    case False
    then show ?thesis using r go s1 s2 s3 k1 k2 k3 by (auto simp: Resolve_def split: option.splits sum.splits)
  qed
qed

lemma force_allowed_read: "force_allowed b now e = None \<Longrightarrow> b"
  by (auto simp: force_allowed_def split: if_splits)

lemma ForceRenew_kept:
  assumes k: "kept c e w" and r: "ForceRenew c turn old e w = (r, e', w')"
  shows "kept c e' w'"
proof (cases turn)
  case False
  then show ?thesis using k r by (simp add: ForceRenew_def)
next
  case go: True
  obtain x1 e1 w1 where s1: "settle_first c e w = (x1, e1, w1)" using prod_cases3 by blast
  note k1 = settle_first_kept[OF k s1]
  obtain x2 e2 w2 where s2: "syncRead c True e1 w1 = (x2, e2, w2)" using prod_cases3 by blast
  note k2 = syncRead_kept[OF k1 s2]
  obtain x3 e3 w3 where s3: "flush c e2 w2 = (x3, e3, w3)" using prod_cases3 by blast
  note k3 = flush_kept[OF k2(1) s3]
  show ?thesis
  proof (cases "x1 = None \<and> x3 = None")
    case True
    show ?thesis
    proof (cases x2)
      case (Inr b)
      let ?e = "lift_unread b e3"
      have k4: "kept c ?e w3" by (simp add: kept_fields k3(1))
      show ?thesis
      proof (cases "bytes_of (en_doc ?e) \<noteq> old \<or> force_allowed b (wd_now w3) ?e \<noteq> None")
        case True2: True
        then show ?thesis using r go s1 s2 s3 True Inr k4 by (auto simp: ForceRenew_def Let_def split: if_splits)
      next
        case False
        then have b by (auto dest: force_allowed_read)
        then have "in_step e3 w3" using k3(2) k2(2) synced_in_step Inr True by simp
        then have "in_step ?e w3" by (simp add: in_step_def synced_def pending_def lift_unread_def)
        moreover obtain x4 e4 w4 where s4: "renew c ?e w3 = (x4, e4, w4)" using prod_cases3 by blast
        ultimately have "kept c e4 w4" using renew_kept[OF k4] by blast
        then show ?thesis using r go s1 s2 s3 s4 True Inr False by (auto simp: ForceRenew_def Let_def split: option.splits)
      qed
    qed (use r go s1 s2 True k2 in \<open>auto simp: ForceRenew_def\<close>)
  next
    case False
    then show ?thesis using r go s1 s2 s3 k1 k2 k3 by (auto simp: ForceRenew_def split: option.splits sum.splits)
  qed
qed

lemma Recover_kept:
  assumes k: "kept c e w" and r: "Recover c turn e w = (r, e', w')"
  shows "kept c e' w'"
proof -
  obtain x1 e1 w1 where s1: "recover c e w = (x1, e1, w1)" using prod_cases3 by blast
  then show ?thesis
    using k r recover_kept[OF k s1] flush_kept(1)[OF recover_kept[OF k s1], of r e' w'] by (auto simp: Recover_def split: if_splits option.splits)
qed

end
