(* ===== verification/Renew_Journal.thy ===== *)
theory Renew_Journal
  imports Renew_Facts
begin

text \<open>
  The runs of the renewal cache: its operations in any order and under any faults, processes that stop
  and start again, and a store that others change. Over them: the pair a provider answered with is
  kept, a fresh process settles a journal left behind, a refresh is never sent without its journal, and
  a document somebody else stored is never overwritten.
\<close>

subsection \<open>Runs\<close>

text \<open>Between two operations the clock may be set, the outcomes of the calls to come may be anything,
  and the store may be changed. A process that starts anew has an owner, by its nonce, that no journal
  in the store names.\<close>

inductive renew_run :: "renew_cache \<Rightarrow> entry \<Rightarrow> renew_world \<Rightarrow> bool" where
  Start: "wd_log w = [] \<Longrightarrow> renew_run c new_entry w"
| Environment: "renew_run c e w \<Longrightarrow> renew_run c e (w\<lparr>wd_now := t, wd_calls := calls\<rparr>)"
| Edit_secret: "renew_run c e w \<Longrightarrow> renew_run c e (log_event Edited (w\<lparr>wd_secret := x\<rparr>))"
| Edit_journal: "renew_run c e w \<Longrightarrow> renew_run c e (log_event JournalEdited (w\<lparr>wd_journal := jr\<rparr>))"
| Resolve: "renew_run c e w \<Longrightarrow> Resolve c turn e w = (r, e', w') \<Longrightarrow> renew_run c e' w'"
| ForceRenew: "renew_run c e w \<Longrightarrow> ForceRenew c turn old e w = (r, e', w') \<Longrightarrow> renew_run c e' w'"
| Recover: "renew_run c e w \<Longrightarrow> Recover c turn e w = (x, e', w') \<Longrightarrow> renew_run c e' w'"
| Restart: "renew_run c e w \<Longrightarrow> (\<And>j. wd_journal w = Some (Journal j) \<Longrightarrow> jn_Owner j \<noteq> owner)
    \<Longrightarrow> renew_run (c\<lparr>ch_owner := owner, ch_alive := alive\<rparr>) new_entry (log_event Restarted w)"

lemma restart_kept:
  assumes k: "kept c e w" and fresh: "\<And>j. wd_journal w = Some (Journal j) \<Longrightarrow> jn_Owner j \<noteq> owner"
  shows "kept (c\<lparr>ch_owner := owner, ch_alive := alive\<rparr>) new_entry (log_event Restarted w)"
proof (rule keptI)
  let ?c = "c\<lparr>ch_owner := owner, ch_alive := alive\<rparr>" and ?w = "log_event Restarted w"
  have f: "expiry_of ?c = expiry_of c" by (simp add: expiry_of_def fun_eq_iff)
  show "whole new_entry" by (simp add: whole_def new_entry_def)
  fix n p assume o: "owed (expiry_of ?c) (wd_log ?w) = Some (n, p)"
  have q: "owed (expiry_of c) (wd_log w) = Some (n, p)" and p: "p \<noteq> InMemory"
    using o unfolding f by (auto simp: log_event_def split: option.splits place.splits)
  show "readable ?c n \<and> placed ?c n p (secret_of ?w) (wd_journal ?w) new_entry"
    using kept_pair[OF k q] p fresh
    by (rule_tac kept_cases[OF k q]) (auto simp: place_defs readable_def f log_event_def secret_of_def new_entry_def pending_def)
qed

lemma run_kept: "renew_run c e w \<Longrightarrow> kept c e w"
proof (induction rule: renew_run.induct)
  case (Start w c)
  then show ?case by (simp add: kept_None whole_def new_entry_def)
next
  case (Environment c e w t calls)
  then show ?case by (simp add: kept_def secret_of_def)
next
  case (Edit_secret c e w x)
  then show ?case by (intro kept_None) (simp_all add: keptD log_event_def)
next
  case (Edit_journal c e w jr)
  then show ?case by (intro kept_None) (simp_all add: keptD log_event_def)
next
  case (Resolve c e w turn r e' w')
  then show ?case by (rule_tac Resolve_kept)
next
  case (ForceRenew c e w turn old r e' w')
  then show ?case by (rule_tac ForceRenew_kept)
next
  case (Recover c e w turn x e' w')
  then show ?case by (rule_tac Recover_kept)
next
  case (Restart c e w owner alive)
  then show ?case by (intro restart_kept)
qed


subsection \<open>A journal left behind\<close>

text \<open>A store that works.\<close>

lemma fine_next: "wd_calls w = [] \<Longrightarrow> next_call w = (fine_call, w)"
  by (simp add: next_call_def)

lemma fine_read: "wd_calls w = [] \<Longrightarrow> secret_of w = Some v \<Longrightarrow> read_secret w = (Inr v, w)"
  by (auto simp: read_secret_def fine_next fine_call_def secret_of_def split: option.splits)

lemma fine_readJournal:
  "wd_calls w = [] \<Longrightarrow> readJournal w
     = (case wd_journal w of None \<Rightarrow> Inl ReadNotFound | Some Unreadable \<Rightarrow> Inl ReadDamaged | Some (Journal j) \<Rightarrow> Inr j, w)"
  by (simp add: readJournal_def fine_next fine_call_def)

lemma fine_delete:
  assumes "wd_calls w = []"
  obtains w' where "delete_journal w = (if wd_journal w = None then Some StoreNotFound else None, w')" and "wd_calls w' = []"
    and "secret_of w' = secret_of w" and "wd_journal w' = None" and "wd_now w' = wd_now w"
  using assms by (cases "wd_journal w") (auto simp: delete_journal_def fine_next fine_call_def log_event_def secret_of_def)

lemma fine_provenance: "wd_calls w = [] \<Longrightarrow> secret_of w \<noteq> None \<Longrightarrow> \<exists>p. provenanceOf c x w = (Inr p, w)"
  by (auto simp: provenanceOf_def fine_next fine_call_def secret_of_def)

lemma fine_update:
  "wd_calls w = [] \<Longrightarrow> secret_of w \<noteq> None \<Longrightarrow> update_secret d p w = (None, log_event (WroteSecret d) (w\<lparr>wd_secret := Some (d, p)\<rparr>))"
  by (simp add: update_secret_def fine_next fine_call_def secret_of_def Let_def)

lemma fine_writeBack:
  assumes f: "wd_calls w = []" and s: "secret_of w \<noteq> None"
  obtains w' where "writeBack c d x w = (None, w')" and "wd_calls w' = []" and "secret_of w' = Some d"
    and "wd_journal w' = wd_journal w" and "wd_now w' = wd_now w"
proof -
  obtain p where p: "provenanceOf c x w = (Inr p, w)" using fine_provenance[OF f s] by blast
  show thesis
    by (rule that[of "log_event (WroteSecret d) (w\<lparr>wd_secret := Some (d, if ch_annotates c then p else no_provenance)\<rparr>)"])
      (use f in \<open>simp_all add: writeBack_def p fine_update[OF f s] log_event_def secret_of_def\<close>)
qed

text \<open>The walk, from each of its steps on.\<close>

lemma walk_clear:
  assumes f: "wd_calls w = []" and c: "en_journal e = journalClear" and wf: "en_writeFailedAt e = None"
    and eq: "bytes_of (en_doc e) = bytes_of (en_stored e)"
  obtains e' w' where "flush_loop c e w = (e', w')" and "secret_of w' = secret_of w" and "wd_journal w' = None" and "\<not> pending e'"
proof -
  let ?e = "e\<lparr>en_journal := journalNone, en_adopted := False\<rparr>"
  have due: "writeDue (wd_now w) e" using c wf by (simp add: writeDue_def pending_def)
  have cl: "clear_if_stored e = e" using c by (simp add: clear_if_stored_def)
  obtain w1 where d: "delete_journal w = (if wd_journal w = None then Some StoreNotFound else None, w1)" and w1: "wd_calls w1 = []"
    "secret_of w1 = secret_of w" "wd_journal w1 = None" "wd_now w1 = wd_now w" by (rule fine_delete[OF f])
  have "flush_step c e w = (None, ?e, w1)" by (simp add: flush_step_def c d)
  then have "flush_loop c e w = flush_loop c (?e\<lparr>en_writeFailedAt := None\<rparr>) w1" using due cl by (simp add: flush_loop.simps[of c e w])
  also have "\<dots> = (?e\<lparr>en_writeFailedAt := None\<rparr>, w1)" using eq by (simp add: flush_loop.simps writeDue_def pending_def)
  finally show thesis by (rule that) (use w1 eq in \<open>simp_all add: pending_def\<close>)
qed

lemma walk_renewed:
  assumes f: "wd_calls w = []" and c: "en_journal e = journalRenewed" and wf: "en_writeFailedAt e = None"
    and d: "en_doc e = Some n" and s: "secret_of w \<noteq> None" and st: "en_stored e = secret_of w"
  obtains e' w' where "flush_loop c e w = (e', w')" and "secret_of w' = Some n" and "wd_journal w' = None" and "\<not> pending e'"
proof -
  have due: "writeDue (wd_now w) e" using c wf by (simp add: writeDue_def pending_def)
  show thesis
  proof (cases "bytes_of (en_doc e) = bytes_of (en_stored e)")
    case True
    let ?e = "e\<lparr>en_journal := journalClear\<rparr>"
    have "secret_of w = Some n" using True d s st by (auto simp: bytes_of_def)
    moreover have eq: "clear_if_stored e = ?e" "clear_if_stored ?e = ?e" and "writeDue (wd_now w) ?e"
      using True c wf by (simp_all add: clear_if_stored_def writeDue_def pending_def)
    then have "flush_loop c e w = flush_loop c ?e w"
      unfolding flush_loop.simps[of c e w] flush_loop.simps[of c ?e w] eq using due by simp
    moreover obtain e' w' where "flush_loop c ?e w = (e', w')" "secret_of w' = secret_of w" "wd_journal w' = None" "\<not> pending e'"
      by (rule walk_clear[OF f, of ?e]) (use True wf in simp_all)
    ultimately show thesis using that by simp
  next
    case False
    let ?e = "e\<lparr>en_stored := en_doc e, en_journal := journalClear, en_writeFailedAt := None\<rparr>"
    obtain w1 where wb: "writeBack c (bytes_of (en_doc e)) (en_expires e) w = (None, w1)" and w1: "wd_calls w1 = []"
      "secret_of w1 = Some (bytes_of (en_doc e))" by (rule fine_writeBack[OF f s])
    have "clear_if_stored e = e" using False by (simp add: clear_if_stored_def)
    then have "flush_loop c e w = flush_loop c ?e w1" using due c wb by (simp add: flush_loop.simps[of c e w] flush_step_def)
    moreover obtain e' w' where "flush_loop c ?e w1 = (e', w')" "secret_of w' = secret_of w1" "wd_journal w' = None" "\<not> pending e'"
      by (rule walk_clear[OF w1(1), of ?e]) simp_all
    ultimately show thesis using that w1(2) d by (simp add: bytes_of_def)
  qed
qed

lemma fine_flush:
  assumes f: "wd_calls w = []" and wf: "en_writeFailedAt e = None" and pend: "pending e" and d: "en_doc e \<noteq> None"
    and s: "secret_of w = Some s" and st: "en_stored e = Some s"
  shows "flush c e w = (None, flush_loop c (e\<lparr>en_checkedAt := Some (wd_now w), en_stored := Some s\<rparr>) w)"
  using wf pend d st by (simp add: flush_def writeDue_def syncRead_def fine_read[OF f s] reconcile_def Let_def bytes_of_def)

text \<open>What \<open>recover\<close> makes of a journal that is not this process's, for a new entry.\<close>

lemma fine_recover_left:
  assumes f: "wd_calls w = []" and s: "secret_of w = Some s" and x: "expiry_of c s = Some x"
  shows "recover_left c now found new_entry w
    = (None, settle c found s (reset (Some s) x (Some (wd_now w)) ((adopt found ((recovered_at None new_entry)\<lparr>en_adopted := True\<rparr>))\<lparr>en_checkedAt := Some (wd_now w)\<rparr>)), w)"
proof -
  have "en_doc (adopt found ((recovered_at None new_entry)\<lparr>en_adopted := True\<rparr>)) = None"
    by (simp add: adopt_def recovered_at_def new_entry_def split: sum.splits)
  then show ?thesis by (simp add: recover_left_def fine_read[OF f s] reconcile_def Let_def x)
qed

lemma settle_fields:
  assumes "e = reset (Some s) x t e0"
  shows "en_writeFailedAt (settle c found s e) = None" and "en_stored (settle c found s e) = Some s" and "en_doc (settle c found s e) \<noteq> None"
    and "en_journal (settle c found s e) = journalClear \<and> en_doc (settle c found s e) = Some s
      \<or> en_journal (settle c found s e) = journalRenewed \<and> (\<exists>j. found = Inr j \<and> en_doc (settle c found s e) = Some (jn_Doc j) \<and> jn_Phase j = phaseRenewed)"
  using assms by (auto simp: settle_def reset_def split: sum.splits option.splits)

lemma settle_promotes:
  assumes "jn_Phase j = phaseRenewed" and "jn_DocHash j = docHash c s" and "readable c (jn_Doc j)"
  shows "en_journal (settle c (Inr j) s e) = journalRenewed \<and> en_doc (settle c (Inr j) s e) = Some (jn_Doc j)"
  using assms by (auto simp: settle_def readable_def split: option.splits)

text \<open>The walk, from what \<open>settle\<close> left.\<close>

lemma settled_walk:
  assumes f: "wd_calls w = []" and s: "secret_of w = Some s" and e: "e = settle c found s (reset (Some s) x t e0)"
  obtains e' w' where "flush c e w = (None, e', w')" and "secret_of w' = en_doc e" and "wd_journal w' = None" and "\<not> pending e'"
proof -
  note fields = settle_fields[OF refl, of c found s x t e0, folded e]
  let ?e = "e\<lparr>en_checkedAt := Some (wd_now w), en_stored := Some s\<rparr>"
  have "pending e" using fields(4) by (auto simp: pending_def)
  then have fl: "flush c e w = (None, flush_loop c ?e w)" by (rule fine_flush[OF f fields(1) _ fields(3) s fields(2)])
  show thesis
  proof (cases "en_journal e")
    case journalClear
    then have d: "en_doc e = Some s" using fields(4) by auto
    obtain e' w' where "flush_loop c ?e w = (e', w')" "secret_of w' = secret_of w" "wd_journal w' = None" "\<not> pending e'"
      by (rule walk_clear[OF f, of ?e]) (use journalClear fields(1) d in simp_all)
    then show thesis using that fl s d by simp
  next
    case journalRenewed
    obtain d where d: "en_doc e = Some d" using fields(3) by blast
    obtain e' w' where "flush_loop c ?e w = (e', w')" "secret_of w' = Some d" "wd_journal w' = None" "\<not> pending e'"
      by (rule walk_renewed[OF f, of ?e d]) (use journalRenewed fields(1) d s in simp_all)
    then show thesis using that fl d by simp
  qed (use fields(4) in auto)
qed

text \<open>C19: A fresh process settles what a stopped one left. When the provider's last answer had reached the
  journal or the secret, the processes before have stopped, the document it replaces can be read and the
  store works, one \<open>Recover\<close> puts the answer into the secret, takes the journal away and leaves nothing to
  write.\<close>
theorem journal_recovered:
  assumes run: "renew_run c e w" and o: "owed (expiry_of c) (wd_log w) = Some (n, p)" and p: "p \<noteq> InMemory"
    and fresh: "\<And>j. wd_journal w = Some (Journal j) \<Longrightarrow> jn_Owner j \<noteq> owner" and dead: "\<And>x. \<not> alive x"
    and s: "secret_of w = Some s" and readable: "expiry_of c s \<noteq> None" and works: "wd_calls w = []"
  shows "\<exists>e' w'. Recover (c\<lparr>ch_owner := owner, ch_alive := alive\<rparr>) True new_entry (log_event Restarted w) = (None, e', w')
    \<and> secret_of w' = Some n \<and> wd_journal w' = None \<and> \<not> pending e'"
proof -
  let ?c = "c\<lparr>ch_owner := owner, ch_alive := alive\<rparr>" and ?w = "log_event Restarted w"
  have f: "expiry_of ?c = expiry_of c" by (simp add: expiry_of_def fun_eq_iff)
  have k: "kept ?c new_entry ?w" by (rule restart_kept[OF run_kept[OF run] fresh])
  have q: "owed (expiry_of ?c) (wd_log ?w) = Some (n, p)" using o p unfolding f by (cases p) (simp_all add: log_event_def)
  have w: "wd_calls ?w = []" "secret_of ?w = Some s" "wd_journal ?w = wd_journal w" using works s by (simp_all add: log_event_def secret_of_def)
  obtain x where x: "expiry_of ?c s = Some x" using readable f by auto
  have un: "unsettled (wd_now ?w) new_entry" by (simp add: unsettled_def new_entry_def)
  show ?thesis
  proof (cases "wd_journal w")
    case None
    have "secret_of ?w = Some n" using None p by (rule_tac kept_cases[OF k q]) (auto simp: place_defs w)
    moreover have "Recover ?c True new_entry ?w = (None, recovered_at None new_entry, ?w)"
      using un None by (simp add: Recover_def recover_def fine_readJournal[OF w(1)] w(3) flush_def writeDue_def pending_def recovered_at_def new_entry_def Let_def)
    ultimately show ?thesis using None w(3) by (simp add: pending_def recovered_at_def new_entry_def)
  next
    case (Some item)
    define found where "found = (case item of Unreadable \<Rightarrow> Inl ReadDamaged | Journal j \<Rightarrow> Inr j)"
    let ?s = "settle ?c found s (reset (Some s) x (Some (wd_now ?w)) ((adopt found ((recovered_at None new_entry)\<lparr>en_adopted := True\<rparr>))\<lparr>en_checkedAt := Some (wd_now ?w)\<rparr>))"
    have "recover ?c new_entry ?w = recover_left ?c (wd_now ?w) found new_entry ?w"
      using fresh dead Some by (cases item) (auto simp: recover_def fine_readJournal[OF w(1)] w(3) found_def Let_def)
    then have rec: "recover ?c new_entry ?w = (None, ?s, ?w)" using fine_recover_left[OF w(1,2) x] by simp
    obtain e' w' where fl: "flush ?c ?s ?w = (None, e', w')" and res: "secret_of w' = en_doc ?s" "wd_journal w' = None" "\<not> pending e'"
      by (rule settled_walk[OF w(1,2) refl])
    have "en_doc ?s = Some n"
    proof (rule kept_cases[OF k q])
      assume at: "at_secret n (secret_of ?w) (wd_journal ?w) new_entry"
      then have "s = n" by (simp add: at_secret_def w)
      then show ?thesis
        using at settle_fields(4)[OF refl, of ?c found s x "Some (wd_now ?w)" "(adopt found ((recovered_at None new_entry)\<lparr>en_adopted := True\<rparr>))\<lparr>en_checkedAt := Some (wd_now ?w)\<rparr>"] Some
        by (cases item) (auto simp: at_secret_def w found_def)
    next
      assume "left_behind ?c n (secret_of ?w) (wd_journal ?w) new_entry"
      then obtain j where j: "item = Journal j" "journal_of_pair ?c n s j" using Some by (auto simp: left_behind_def w)
      then have "readable ?c (jn_Doc j)" using kept_pair[OF k q] by (simp add: journal_of_pair_def)
      then show ?thesis using settle_promotes[of j ?c s] j by (simp add: found_def journal_of_pair_def)
    qed (use p in \<open>simp_all add: in_hand_def new_entry_def\<close>)
    then show ?thesis using un rec fl res by (simp add: Recover_def)
  qed
qed

end
