(* ===== verification/Renew_Property.thy ===== *)
theory Renew_Property
  imports Renew_Journal
begin

text \<open>
  What the operations of the cache do to the store, as a contract: a property of the world that the
  single effects keep is kept by every operation. The contract is interpreted on the log of the calls to
  the provider, each of which follows its own journal, and on the count of the writes of one walk.
\<close>

subsection \<open>The effects an operation has\<close>

definition renewing_journal :: "(string \<Rightarrow> string) \<Rightarrow> string \<Rightarrow> journal \<Rightarrow> bool" where
  "renewing_journal hash d j \<longleftrightarrow> jn_Phase j = phaseRenewing \<and> jn_DocHash j = hash d"

locale store_property =
  fixes hash :: "string \<Rightarrow> string" and P :: "renew_world \<Rightarrow> bool"
  assumes idle: "\<And>w w'. P w \<Longrightarrow> same_store w w' \<Longrightarrow> P w'"
    and created: "\<And>w w' j. P w \<Longrightarrow> wd_journal w = None \<Longrightarrow> wrote (CreatedJournal j) (wd_secret w) (Some (Journal j)) w w' \<Longrightarrow> P w'"
    and updated: "\<And>w w' j. P w \<Longrightarrow> wd_journal w \<noteq> None \<Longrightarrow> wrote (WroteJournal j) (wd_secret w) (Some (Journal j)) w w' \<Longrightarrow> P w'"
    and damaged: "\<And>w w'. P w \<Longrightarrow> wrote DamagedJournal (wd_secret w) (Some Unreadable) w w' \<Longrightarrow> P w'"
    and cleared: "\<And>w w'. P w \<Longrightarrow> wrote ClearedJournal (wd_secret w) None w w' \<Longrightarrow> P w'"
    and stored: "\<And>w w' d p. P w \<Longrightarrow> wrote (WroteSecret d) (Some (d, p)) (wd_journal w) w w' \<Longrightarrow> P w'"
    and asked: "\<And>w w1 w2 d j y. P w \<Longrightarrow> wd_journal w = None \<Longrightarrow> wrote (CreatedJournal j) (wd_secret w) (Some (Journal j)) w w1
      \<Longrightarrow> renewing_journal hash d j \<Longrightarrow> ask_provider d w1 = (y, w2) \<Longrightarrow> P w2"
begin

lemma read_secret_P: "P w \<Longrightarrow> read_secret w = (r, w') \<Longrightarrow> P w'"
  using idle read_secret_same by blast

lemma syncRead_P:
  assumes "P w" and "syncRead c b e w = (r, e', w')"
  shows "P w'"
proof -
  obtain x w1 where rd: "read_secret w = (x, w1)" by fastforce
  have "w' = w1" using assms(2) by (auto simp: syncRead_def rd split: sum.splits if_splits prod.splits option.splits)
  then show ?thesis using read_secret_P[OF assms(1) rd] by simp
qed

lemma create_journal_P:
  assumes "P w" and "create_journal j w = (r, w')"
  shows "P w'"
  by (rule create_journal_cases[OF assms(2)]) (use assms(1) idle created damaged in blast)+

lemma update_journal_P:
  assumes "P w" and "update_journal j w = (r, w')"
  shows "P w'"
  by (rule update_journal_cases[OF assms(2)]) (use assms(1) idle updated damaged in blast)+

lemma writeJournal_P:
  assumes "P w" and "writeJournal c j x b w = (r, w')"
  shows "P w'"
proof -
  obtain pr w1 where p: "provenanceOf c x w = (pr, w1)" by fastforce
  have P1: "P w1" using idle[OF assms(1) provenanceOf_same[OF p]] .
  obtain r2 w2 where u: "update_journal j w1 = (r2, w2)" by fastforce
  note P2 = update_journal_P[OF P1 u]
  show ?thesis
    using assms(2) P1 P2 create_journal_P[OF P1, of j r w'] create_journal_P[OF P2, of j r w']
    by (auto simp: writeJournal_def p u split: sum.splits if_splits)
qed

lemma writeBack_P:
  assumes "P w" and "writeBack c d x w = (r, w')"
  shows "P w'"
  by (rule writeBack_cases[OF assms(2)]) (use assms(1) idle stored in blast)+

lemma delete_journal_P:
  assumes "P w" and "delete_journal w = (r, w')"
  shows "P w'"
  by (rule delete_journal_cases[OF assms(2)]) (use assms(1) idle cleared in blast)+

lemma flush_step_P:
  assumes "P w" and "flush_step c e w = (r, e', w')"
  shows "P w'"
  using assms(2) writeJournal_P[OF assms(1)] writeBack_P[OF assms(1)] delete_journal_P[OF assms(1)]
  by (auto simp: flush_step_def split: journalStep.splits prod.splits)

lemma flush_loop_P: "P w \<Longrightarrow> P (snd (flush_loop c e w))"
proof (induction c e w rule: flush_loop.induct)
  case (1 c e w)
  obtain r e' w' where step: "flush_step c (clear_if_stored e) w = (r, e', w')" using prod_cases3 by blast
  note P' = flush_step_P[OF "1.prems" step]
  show ?case
    using "1.prems" P' "1.IH"[OF _ step[symmetric]] by (cases r) (auto simp: flush_loop.simps[of c e w] step)
qed

lemma dropJournal_P:
  assumes "P w" and "dropJournal e w = (e', w')"
  shows "P w'"
  using assms(2) delete_journal_P[OF assms(1)] by (auto simp: dropJournal_def split: prod.splits if_splits)

lemma flush_P:
  assumes "P w" and "flush c e w = (r, e', w')"
  shows "P w'"
proof (cases "writeDue (wd_now w) e")
  case False
  then show ?thesis using assms by (simp add: flush_def)
next
  case True
  obtain x e1 w1 where s: "syncRead c False e w = (x, e1, w1)" using prod_cases3 by blast
  note P1 = syncRead_P[OF assms(1) s]
  obtain e2 w2 where d: "dropJournal e1 w1 = (e2, w2)" by fastforce
  show ?thesis
    using assms(2) True P1 dropJournal_P[OF P1 d] flush_loop_P[OF P1, of c e1]
    by (auto simp: flush_def s d split: sum.splits if_splits bool.splits prod.splits)
qed

lemma recover_left_P:
  assumes "P w" and "recover_left c now found e w = (r, e', w')"
  shows "P w'"
proof -
  obtain x w1 where rd: "read_secret w = (x, w1)" by fastforce
  note P1 = read_secret_P[OF assms(1) rd]
  show ?thesis
    using assms(2) P1 dropJournal_P[OF P1] by (auto simp: recover_left_def rd split: sum.splits if_splits prod.splits option.splits)
qed

lemma recover_P:
  assumes "P w" and "recover c e w = (r, e', w')"
  shows "P w'"
proof -
  obtain x w1 where rj: "readJournal w = (x, w1)" by fastforce
  have P1: "P w1" using idle[OF assms(1) readJournal_same[OF rj]] .
  show ?thesis
    using assms(2) P1 recover_left_P[OF P1] by (auto simp: recover_def rj Let_def split: sum.splits read_error.splits if_splits)
qed

lemma renew_P:
  assumes P: "P w" and h: "docHash c = hash" and r: "renew c e w = (r, e', w')"
  shows "P w'"
proof (cases "pending e")
  case True
  then show ?thesis using P r by (simp add: renew_def Let_def)
next
  case idle': False
  define d where "d = bytes_of (en_doc e)"
  define j where "j = \<lparr>jn_Phase = phaseRenewing, jn_Owner = ch_owner c, jn_StartedAt = wd_now w div 1000000, jn_DocHash = docHash c d, jn_Doc = []\<rparr>"
  obtain x w1 where wj: "writeJournal c j (en_expires e) False w = (x, w1)" by fastforce
  note P1 = writeJournal_P[OF P wj]
  show ?thesis
  proof (cases x)
    case (Some err)
    obtain y e2 w2 where rec: "recover c (e\<lparr>en_recovered := False, en_recoverFailedAt := None\<rparr>) w1 = (y, e2, w2)" using prod_cases3 by blast
    show ?thesis
      using r idle' wj Some P1 recover_P[OF P1 rec] rec
      by (cases err) (auto simp: renew_def Let_def simp flip: d_def j_def split: option.splits)
  next
    case None
    have jr: "wd_journal w = None" and wr: "wrote (CreatedJournal j) (wd_secret w) (Some (Journal j)) w w1"
      by (rule create_cases[OF wj]; use None in simp)+
    obtain y w2 where ask: "ask_provider d w1 = (y, w2)" by fastforce
    have P2: "P w2" by (rule asked[OF P jr wr _ ask]) (simp add: renewing_journal_def j_def h)
    show ?thesis
      using r idle' wj None ask flush_P[OF P2]
      by (auto simp: renew_def Let_def simp flip: d_def j_def split: sum.splits prod.splits)
  qed
qed

lemma settle_first_P: "P w \<Longrightarrow> settle_first c e w = (r, e', w') \<Longrightarrow> P w'"
  by (auto simp: settle_first_def split: if_splits dest: recover_P)

lemma renew_if_due_P:
  assumes P: "P w" and h: "docHash c = hash" and r: "renew_if_due c b e w = (r, e', w')"
  shows "P w'"
proof -
  obtain x e1 w1 where s: "(if b then (Inr True, e, w) else syncRead c True e w) = (x, e1, w1)" using prod_cases3 by blast
  have P1: "P w1" using s P syncRead_P[OF P] by (cases b) auto
  obtain y e2 w2 where rn: "renew c e1 w1 = (y, e2, w2)" using prod_cases3 by blast
  show ?thesis
    using r P P1 renew_P[OF P1 h rn] rn s by (auto simp: renew_if_due_def split: if_splits sum.splits bool.splits option.splits)
qed

lemma Resolve_P:
  assumes P: "P w" and h: "docHash c = hash" and r: "Resolve c turn e w = (r, e', w')"
  shows "P w'"
proof -
  obtain x1 e1 w1 where s1: "settle_first c e w = (x1, e1, w1)" using prod_cases3 by blast
  note P1 = settle_first_P[OF P s1]
  obtain x2 e2 w2 where s2: "(if stale (wd_now w1) e1 then syncRead c True e1 w1 else (Inr False, e1, w1)) = (x2, e2, w2)" using prod_cases3 by blast
  have P2: "P w2" using s2 P1 syncRead_P[OF P1] by (auto split: if_splits)
  obtain x3 e3 w3 where s3: "flush c e2 w2 = (x3, e3, w3)" using prod_cases3 by blast
  note P3 = flush_P[OF P2 s3]
  have P4: "renew_if_due c b e3 w3 = (x4, e4, w4) \<Longrightarrow> P w4" for b x4 e4 w4 by (rule renew_if_due_P[OF P3 h])
  show ?thesis
    using r P P1 P2 P3 P4 s1 s2 s3 by (auto simp: Resolve_def split: option.splits sum.splits prod.splits if_splits)
qed

lemma ForceRenew_P:
  assumes P: "P w" and h: "docHash c = hash" and r: "ForceRenew c turn old e w = (r, e', w')"
  shows "P w'"
proof -
  obtain x1 e1 w1 where s1: "settle_first c e w = (x1, e1, w1)" using prod_cases3 by blast
  note P1 = settle_first_P[OF P s1]
  obtain x2 e2 w2 where s2: "syncRead c True e1 w1 = (x2, e2, w2)" using prod_cases3 by blast
  note P2 = syncRead_P[OF P1 s2]
  obtain x3 e3 w3 where s3: "flush c e2 w2 = (x3, e3, w3)" using prod_cases3 by blast
  note P3 = flush_P[OF P2 s3]
  have P4: "renew c (lift_unread b e3) w3 = (x4, e4, w4) \<Longrightarrow> P w4" for b x4 e4 w4 by (rule renew_P[OF P3 h])
  show ?thesis
    using r P P1 P2 P3 P4 s1 s2 s3 by (auto simp: ForceRenew_def Let_def split: option.splits sum.splits prod.splits if_splits)
qed

lemma Recover_P:
  assumes P: "P w" and r: "Recover c turn e w = (r, e', w')"
  shows "P w'"
proof -
  obtain x1 e1 w1 where s1: "recover c e w = (x1, e1, w1)" using prod_cases3 by blast
  note P1 = recover_P[OF P s1]
  show ?thesis using r P P1 s1 flush_P[OF P1] by (auto simp: Recover_def split: if_splits option.splits)
qed

end

text \<open>A property that the environment of a run keeps too holds in every run.\<close>

locale run_property = store_property +
  assumes start: "\<And>w. wd_log w = [] \<Longrightarrow> P w"
    and environment: "\<And>w t calls. P w \<Longrightarrow> P (w\<lparr>wd_now := t, wd_calls := calls\<rparr>)"
    and edit_secret: "\<And>w x. P w \<Longrightarrow> P (log_event Edited (w\<lparr>wd_secret := x\<rparr>))"
    and edit_journal: "\<And>w jr. P w \<Longrightarrow> P (log_event JournalEdited (w\<lparr>wd_journal := jr\<rparr>))"
    and restart: "\<And>w. P w \<Longrightarrow> P (log_event Restarted w)"
begin

lemma run_P: "renew_run c e w \<Longrightarrow> docHash c = hash \<Longrightarrow> P w"
proof (induction rule: renew_run.induct)
  case (Resolve c e w turn r e' w')
  then show ?case using Resolve_P by blast
next
  case (ForceRenew c e w turn old r e' w')
  then show ?case using ForceRenew_P by blast
next
  case (Recover c e w turn x e' w')
  then show ?case using Recover_P by blast
next
  case (Restart c e w owner alive)
  then show ?case using restart by simp
qed (use start environment edit_secret edit_journal in auto)

end

subsection \<open>No refresh without its journal\<close>

text \<open>The journal before the latest event on it is gone.\<close>

fun journal_gone :: "renew_event list \<Rightarrow> bool" where
  "journal_gone [] = True"
| "journal_gone (CreatedJournal _ # l) = False"
| "journal_gone (WroteJournal _ # l) = False"
| "journal_gone (DamagedJournal # l) = False"
| "journal_gone (ClearedJournal # l) = True"
| "journal_gone (JournalEdited # l) = True"
| "journal_gone (_ # l) = journal_gone l"

fun journaled :: "(string \<Rightarrow> string) \<Rightarrow> renew_event list \<Rightarrow> bool" where
  "journaled hash [] = True"
| "journaled hash (Refreshed d a ed # l) =
     ((case l of CreatedJournal j # before \<Rightarrow> renewing_journal hash d j \<and> journal_gone before | _ \<Rightarrow> False) \<and> journaled hash l)"
| "journaled hash (_ # l) = journaled hash l"

definition log_ok :: "(string \<Rightarrow> string) \<Rightarrow> renew_world \<Rightarrow> bool" where
  "log_ok hash w \<longleftrightarrow> journaled hash (wd_log w) \<and> (wd_journal w \<noteq> None \<or> journal_gone (wd_log w))"

interpretation journal_log: run_property hash "log_ok hash" for hash
proof (unfold_locales, goal_cases)
  case (7 w w1 w2 d j y)
  then obtain a ed where "wd_log w2 = Refreshed d a ed # CreatedJournal j # wd_log w" "wd_journal w2 = Some (Journal j)"
    using ask_provider_log[OF 7(5)] by (auto simp: wrote_def)
  then show ?case using 7 by (simp add: log_ok_def)
qed (auto simp: log_ok_def same_store_def wrote_def log_event_def)

text \<open>C20: A refresh is sent only under a journal of its own. In every run, each document that went to the
  provider went right after the cache had created a journal that says a renewal of that very document
  is under way, and only when the journal before it was gone: so there is one refresh in flight at a
  time, across processes.\<close>
theorem refresh_journaled:
  assumes "renew_run c e w"
  shows "journaled (docHash c) (wd_log w)"
  using journal_log.run_P[OF assms refl] by (simp add: log_ok_def)

end
