(* ===== verification/Renew_Walk.thy ===== *)
theory Renew_Walk
  imports Renew_Property
begin

text \<open>
  What \<open>flush\<close> does not do: it never writes without end, and it never writes over a document that
  somebody else stored. After that, runs of the cache on a concrete store.
\<close>

subsection \<open>At most three writes\<close>

definition walk_left :: "entry \<Rightarrow> nat" where
  "walk_left e =
     (if bytes_of (en_doc e) = bytes_of (en_stored e) then (if en_journal e = journalNone then 0 else 1)
      else case en_journal e of journalNone \<Rightarrow> 1 | journalClear \<Rightarrow> 2 | journalRenewed \<Rightarrow> 2 | journalStarted \<Rightarrow> 3)"

lemma walk_left_bound: "walk_left e \<le> 3"
  by (simp add: walk_left_def split: journalStep.splits)

lemma walk_left_step:
  assumes "pending e" and "flush_step c (clear_if_stored e) w = (None, e', w')"
  shows "walk_left (e'\<lparr>en_writeFailedAt := None\<rparr>) < walk_left e"
  using assms by (auto simp: walk_left_def flush_step_def clear_if_stored_def pending_def split: journalStep.splits prod.splits if_splits)

lemma one_event:
  "writeJournal c j x True w = (r, w') \<Longrightarrow> length (wd_log w') \<le> Suc (length (wd_log w))"
  "writeBack c d x w = (r, w') \<Longrightarrow> length (wd_log w') \<le> Suc (length (wd_log w))"
  "delete_journal w = (r, w') \<Longrightarrow> length (wd_log w') \<le> Suc (length (wd_log w))"
proof -
  show "length (wd_log w') \<le> Suc (length (wd_log w))" if "writeJournal c j x True w = (r, w')"
    by (rule writeJournal_cases[OF that]) (auto simp: same_store_def wrote_def)
  show "length (wd_log w') \<le> Suc (length (wd_log w))" if "writeBack c d x w = (r, w')"
    by (rule writeBack_cases[OF that]) (auto simp: same_store_def wrote_def)
  show "length (wd_log w') \<le> Suc (length (wd_log w))" if "delete_journal w = (r, w')"
    by (rule delete_journal_cases[OF that]) (auto simp: same_store_def wrote_def)
qed

lemma flush_step_event: "flush_step c e w = (r, e', w') \<Longrightarrow> length (wd_log w') \<le> Suc (length (wd_log w))"
  using one_event by (auto simp: flush_step_def split: journalStep.splits prod.splits)

lemma flush_loop_events: "length (wd_log (snd (flush_loop c e w))) \<le> length (wd_log w) + walk_left e"
proof (induction c e w rule: flush_loop.induct)
  case (1 c e w)
  show ?case
  proof (cases "writeDue (wd_now w) e")
    case False
    then show ?thesis by (simp add: flush_loop.simps[of c e])
  next
    case True
    then have pend: "pending e" by (simp add: writeDue_def)
    obtain r e' w' where step: "flush_step c (clear_if_stored e) w = (r, e', w')" using prod_cases3 by blast
    note ev = flush_step_event[OF step]
    show ?thesis
    proof (cases r)
      case None
      then show ?thesis
        using "1.IH"[OF _ step[symmetric]] ev walk_left_step[OF pend step[unfolded None]] True step
        by (simp add: flush_loop.simps[of c e])
    next
      case (Some err)
      have "0 < walk_left e" using pend by (simp add: walk_left_def pending_def split: journalStep.splits)
      then show ?thesis using ev True step Some by (simp add: flush_loop.simps[of c e])
    qed
  qed
qed

text \<open>C39: The walk of a renewal into the store ends. Whatever the calls to the store do, \<open>flush\<close> returns
  after at most three writes to it.\<close>
theorem flush_ends:
  "length (wd_log (snd (snd (flush c e w)))) \<le> length (wd_log w) + 3"
proof (cases "writeDue (wd_now w) e")
  case False
  then show ?thesis by (simp add: flush_def)
next
  case True
  obtain x e1 w1 where s: "syncRead c False e w = (x, e1, w1)" using prod_cases3 by blast
  obtain rd w2 where rd: "read_secret w = (rd, w2)" by fastforce
  have "w1 = w2" using s by (auto simp: syncRead_def rd split: sum.splits if_splits prod.splits option.splits)
  then have log: "wd_log w1 = wd_log w" using read_secret_same[OF rd] by (simp add: same_store_def)
  obtain r2 w3 where d: "delete_journal w1 = (r2, w3)" by fastforce
  have "length (wd_log (snd (dropJournal e1 w1))) \<le> length (wd_log w) + 3"
    using one_event(3)[OF d] log by (simp add: dropJournal_def d)
  moreover have "length (wd_log (snd (flush_loop c e1 w1))) \<le> length (wd_log w) + 3"
    using flush_loop_events[of c e1 w1] walk_left_bound[of e1] log by simp
  ultimately show ?thesis
    using True log by (auto simp: flush_def s split: sum.splits bool.splits prod.splits)
qed

subsection \<open>Documents of others\<close>

lemma walk_leaves_secret:
  "bytes_of (en_doc e) = bytes_of (en_stored e) \<Longrightarrow> wd_secret (snd (flush_loop c e w)) = wd_secret w"
proof (induction c e w rule: flush_loop.induct)
  case (1 c e w)
  show ?case
  proof (cases "writeDue (wd_now w) e")
    case False
    then show ?thesis by (simp add: flush_loop.simps[of c e])
  next
    case True
    then have "en_journal e \<noteq> journalNone" using "1.prems" by (simp add: writeDue_def pending_def)
    then have cl: "clear_if_stored e = e\<lparr>en_journal := journalClear\<rparr>" using "1.prems" by (simp add: clear_if_stored_def)
    obtain r1 w' where d: "delete_journal w = (r1, w')" by fastforce
    have sec: "wd_secret w' = wd_secret w" by (rule delete_journal_cases[OF d]) (simp_all add: same_store_def wrote_def)
    obtain r where step: "flush_step c (clear_if_stored e) w = (r, e\<lparr>en_journal := journalNone, en_adopted := False\<rparr>, w')"
      unfolding cl by (simp add: flush_step_def d)
    show ?thesis
      using "1.IH"[OF _ step[symmetric]] "1.prems" True step sec by (cases r) (simp_all add: flush_loop.simps[of c e])
  qed
qed

text \<open>A re-import is never overwritten. When the store holds a document that is neither the one the
  cache last saw there nor the one it wants to write, \<open>flush\<close> leaves the secret as it is, whichever of
  its calls fail.\<close>
theorem reimport_not_overwritten:
  assumes "secret_of w = Some v" and "v \<noteq> bytes_of (en_stored e)" and "v \<noteq> bytes_of (en_doc e)"
  shows "wd_secret (snd (snd (flush c e w))) = wd_secret w"
proof (cases "writeDue (wd_now w) e")
  case False
  then show ?thesis by (simp add: flush_def)
next
  case True
  obtain x e1 w1 where s: "syncRead c False e w = (x, e1, w1)" using prod_cases3 by blast
  obtain rd w2 where rd: "read_secret w = (rd, w2)" by fastforce
  have w1: "w1 = w2" using s by (auto simp: syncRead_def rd split: sum.splits if_splits prod.splits option.splits)
  then have sec: "wd_secret w1 = wd_secret w" "secret_of w1 = Some v" using read_secret_same[OF rd] assms(1) by (simp_all add: same_store_def secret_of_def)
  have eq: "bytes_of (en_doc e1) = bytes_of (en_stored e1)" if "x = Inr True"
  proof (cases rd)
    case (Inr v')
    have "v' = v" using read_secret_Inr[of w v' w2] rd Inr sec(2) w1 by simp
    then show ?thesis using s that Inr assms(2,3)
      by (auto simp: syncRead_def rd reconcile_def Let_def reset_def split: option.splits)
  qed (use s that in \<open>auto simp: syncRead_def rd split: if_splits\<close>)
  obtain r2 w3 where d: "delete_journal w1 = (r2, w3)" by fastforce
  have "wd_secret w3 = wd_secret w1" by (rule delete_journal_cases[OF d]) (simp_all add: same_store_def wrote_def)
  then have "wd_secret (snd (dropJournal e1 w1)) = wd_secret w" using sec by (simp add: dropJournal_def d)
  then show ?thesis
    using True sec eq walk_leaves_secret[of e1 c w1] by (auto simp: flush_def s split: sum.splits bool.splits prod.splits)
qed

subsection \<open>A refresh that the store fails\<close>

definition step_call :: "fault \<Rightarrow> renew_answer \<Rightarrow> call" where
  "step_call f a = \<lparr>ca_fault = f, ca_time = 1, ca_answer = a, ca_edit = None\<rparr>"

definition example_cache :: renew_cache where
  "example_cache = \<lparr>ch_owner = \<lparr>jo_PID = 7, jo_Start = [], jo_Nonce = ''a''\<rparr>, ch_annotates = False, ch_alive = (\<lambda>_. False),
     docHash = (\<lambda>d. ''h'' @ d), ch_expiry = None\<rparr>"

text \<open>The provider answers, the journal takes the answer, and the store fails before the secret does.\<close>

definition example_world :: renew_world where
  "example_world = \<lparr>wd_secret = Some (''old'', no_provenance), wd_journal = None, wd_now = 1000000000,
     wd_calls = map (\<lambda>f. step_call f (Renewed ''new'')) [Fine, Fine, Fine, Fine, Fine, Fine, Broken], wd_log = []\<rparr>"

definition example_renewed :: "(renew_error + string) \<times> entry \<times> renew_world" where
  "example_renewed = ForceRenew example_cache True ''old'' new_entry example_world"

lemma example_run: "renew_run example_cache (fst (snd example_renewed)) (snd (snd example_renewed))"
proof -
  have "renew_run example_cache new_entry example_world" by (rule renew_run.Start) (simp add: example_world_def)
  then show ?thesis
    by (rule renew_run.ForceRenew[where turn = True and old = "''old''" and r = "fst example_renewed"]) (simp add: example_renewed_def)
qed

lemma example_owed:
  "fst example_renewed = Inr ''new''" "secret_of (snd (snd example_renewed)) = Some ''old''" "wd_calls (snd (snd example_renewed)) = []"
  "owed (expiry_of example_cache) (wd_log (snd (snd example_renewed))) = Some (''new'', InJournal)"
  "length (wd_log (snd (snd example_renewed))) = 3"
  by code_simp+


theorem refresh_journaled_witness:
  "journaled (docHash example_cache) (wd_log (snd (snd example_renewed))) \<and> wd_log (snd (snd example_renewed)) \<noteq> []"
  using refresh_journaled[OF example_run] example_owed(5) by auto

text \<open>The next process writes it.\<close>

theorem journal_recovered_witness:
  "\<exists>e' w'. Recover (example_cache\<lparr>ch_owner := \<lparr>jo_PID = 8, jo_Start = [], jo_Nonce = ''b''\<rparr>, ch_alive := \<lambda>_. False\<rparr>) True new_entry
      (log_event Restarted (snd (snd example_renewed))) = (None, e', w')
     \<and> secret_of w' = Some ''new'' \<and> wd_journal w' = None \<and> \<not> pending e'"
proof -
  have "case wd_journal (snd (snd example_renewed)) of Some (Journal j) \<Rightarrow> jo_PID (jn_Owner j) = 7 | _ \<Rightarrow> True" by code_simp
  then have "jn_Owner j \<noteq> \<lparr>jo_PID = 8, jo_Start = [], jo_Nonce = ''b''\<rparr>" if "wd_journal (snd (snd example_renewed)) = Some (Journal j)" for j
    using that by auto
  then show ?thesis
    using journal_recovered[OF example_run example_owed(4) _ _ _ example_owed(2) _ example_owed(3),
        of "\<lparr>jo_PID = 8, jo_Start = [], jo_Nonce = ''b''\<rparr>" "\<lambda>_. False"]
    by (simp add: expiry_of_def example_cache_def)
qed

text \<open>Somebody imports a document before the next write.\<close>

theorem reimport_not_overwritten_witness:
  "wd_secret (snd (snd (flush example_cache (fst (snd example_renewed))
      ((snd (snd example_renewed))\<lparr>wd_secret := Some (''import'', no_provenance), wd_now := 90000000000\<rparr>)))) = Some (''import'', no_provenance)"
proof -
  let ?e = "fst (snd example_renewed)" and ?w = "(snd (snd example_renewed))\<lparr>wd_secret := Some (''import'', no_provenance), wd_now := 90000000000\<rparr>"
  have "bytes_of (en_stored ?e) = ''old''" "bytes_of (en_doc ?e) = ''new''" by code_simp+
  then have "wd_secret (snd (snd (flush example_cache ?e ?w))) = wd_secret ?w"
    by (intro reimport_not_overwritten[of ?w "''import''" ?e]) (simp_all add: secret_of_def)
  then show ?thesis by simp
qed

end
