(* ===== verification/Go_Path.thy ===== *)
theory Go_Path
  imports Go_Prelude
begin

text \<open>
  \<open>path.Clean\<close> of Go's standard library, by its documented rules on the elements of a path: empty
  elements and \<open>.\<close> go, \<open>..\<close> takes the element before it away, and one at the start of a rooted
  path goes too. A path a profile may write is one that is its own simplest form and names
  something below the guest home: \<open>clean_rel\<close>.
\<close>

abbreviation slash :: char where "slash \<equiv> CHR ''/''"

definition path_parts :: "string \<Rightarrow> string list" where
  "path_parts p = split_on slash p"

text \<open>The elements kept so far are in reverse.\<close>

fun clean_parts :: "bool \<Rightarrow> string list \<Rightarrow> string list \<Rightarrow> string list" where
  "clean_parts rooted kept [] = rev kept"
| "clean_parts rooted kept (e # es) =
     (if e = [] \<or> e = ''.'' then clean_parts rooted kept es
      else if e = ''..'' then
        (case kept of
           [] \<Rightarrow> clean_parts rooted (if rooted then [] else [''..'']) es
         | k # ks \<Rightarrow> if k = ''..'' then clean_parts rooted (''..'' # kept) es
                     else clean_parts rooted ks es)
      else clean_parts rooted (e # kept) es)"

definition rooted :: "string \<Rightarrow> bool" where
  "rooted p \<longleftrightarrow> has_prefix ''/'' p"

definition Clean :: "string \<Rightarrow> string" where
  "Clean p =
     (let r = rooted p; s = join_with ''/'' (clean_parts r [] (path_parts p)) in
      if r then slash # s else if s = [] then ''.'' else s)"

text \<open>An element that names something: not empty, not \<open>.\<close> and not \<open>..\<close>.\<close>

definition plain_element :: "string \<Rightarrow> bool" where
  "plain_element e \<longleftrightarrow> e \<noteq> [] \<and> e \<noteq> ''.'' \<and> e \<noteq> ''..'' \<and> slash \<notin> set e"

lemma clean_parts_plain:
  "\<forall>e \<in> set es. plain_element e \<Longrightarrow> clean_parts r kept es = rev kept @ es"
  by (induction es arbitrary: kept) (auto simp: plain_element_def)

lemma path_parts_join: "es \<noteq> [] \<Longrightarrow> \<forall>e \<in> set es. plain_element e \<Longrightarrow> path_parts (join_with ''/'' es) = es"
  by (simp add: path_parts_def plain_element_def split_join)

lemma path_parts_no_slash: "e \<in> set (path_parts p) \<Longrightarrow> slash \<notin> set e"
  using split_on_parts by (fastforce simp: path_parts_def)

lemma join_parts [simp]: "join_with ''/'' (path_parts p) = p"
  by (simp add: path_parts_def)

lemma path_parts_nonempty [simp]: "path_parts p \<noteq> []"
  by (simp add: path_parts_def)

lemma path_parts_inject: "path_parts p = path_parts q \<longleftrightarrow> p = q"
  by (metis join_parts)

lemma join_plain_hd:
  assumes "es \<noteq> []" "\<forall>e \<in> set es. plain_element e"
  shows "join_with ''/'' es \<noteq> []" "\<not> rooted (join_with ''/'' es)"
proof -
  obtain e es' where es: "es = e # es'" using assms(1) by (auto simp: neq_Nil_conv)
  then obtain c e' where e: "e = c # e'" "c \<noteq> slash" using assms(2) by (cases e) (auto simp: plain_element_def)
  have "\<exists>t. join_with ''/'' es = c # t" using es e by (cases es') auto
  then show "join_with ''/'' es \<noteq> []" "\<not> rooted (join_with ''/'' es)"
    using e by (auto simp: rooted_def has_prefix_iff)
qed

lemma Clean_plain:
  assumes "es \<noteq> []" "\<forall>e \<in> set es. plain_element e"
  shows "Clean (join_with ''/'' es) = join_with ''/'' es"
  using join_plain_hd[OF assms] assms by (simp add: Clean_def Let_def path_parts_join clean_parts_plain)

definition clean_rel :: "string \<Rightarrow> bool" where
  "clean_rel p \<longleftrightarrow> (\<forall>e \<in> set (path_parts p). plain_element e)"

lemma clean_rel_fixed: "clean_rel p \<Longrightarrow> Clean p = p"
  using Clean_plain[of "path_parts p"] by (simp add: clean_rel_def)

text \<open>Only the start of what \<open>path.Clean\<close> keeps of a path that is not rooted can climb.\<close>

definition climbs_first :: "bool \<Rightarrow> string list \<Rightarrow> bool" where
  "climbs_first r es \<longleftrightarrow> (\<exists>n ks. es = replicate n ''..'' @ ks \<and> (r \<longrightarrow> n = 0) \<and> (\<forall>k \<in> set ks. plain_element k))"

lemma climbs_first_push:
  assumes "climbs_first r (rev kept)" "plain_element e"
  shows "climbs_first r (rev (e # kept))"
proof -
  obtain n ks where "rev kept = replicate n ''..'' @ ks" "r \<longrightarrow> n = 0" "\<forall>k \<in> set ks. plain_element k"
    using assms(1) unfolding climbs_first_def by blast
  then have "rev (e # kept) = replicate n ''..'' @ (ks @ [e])" "r \<longrightarrow> n = 0" "\<forall>k \<in> set (ks @ [e]). plain_element k"
    using assms(2) by auto
  then show ?thesis unfolding climbs_first_def by blast
qed

lemma climbs_first_pop:
  assumes "climbs_first r (rev (k # ks))" "k \<noteq> ''..''"
  shows "climbs_first r (rev ks)"
proof -
  obtain n qs where eq: "rev (k # ks) = replicate n ''..'' @ qs" "r \<longrightarrow> n = 0" "\<forall>q \<in> set qs. plain_element q"
    using assms(1) unfolding climbs_first_def by blast
  have "qs \<noteq> []"
  proof
    assume "qs = []"
    then have "k \<in> set (replicate n ''..'')" using eq(1) by (metis append.right_neutral list.set_intros(1) set_rev)
    then show False using assms(2) by (simp split: if_splits)
  qed
  then obtain qs' q where qs: "qs = qs' @ [q]" by (metis append_butlast_last_id)
  then have "rev ks = replicate n ''..'' @ qs'" using eq(1) by simp
  then show ?thesis using eq(2,3) qs unfolding climbs_first_def by auto
qed

lemma climbs_first_up:
  assumes "climbs_first r (rev kept)" "kept = [] \<or> hd kept = ''..''" "\<not> r"
  shows "climbs_first r (rev (''..'' # kept))"
proof -
  obtain n qs where eq: "rev kept = replicate n ''..'' @ qs" "\<forall>q \<in> set qs. plain_element q"
    using assms(1) unfolding climbs_first_def by blast
  have "qs = []"
  proof (rule ccontr)
    assume "qs \<noteq> []"
    then have "last (rev kept) = last qs" "kept \<noteq> []" using eq(1) by auto
    then have "hd kept = last qs" by (metis last_rev)
    moreover have "plain_element (last qs)" using eq(2) \<open>qs \<noteq> []\<close> by simp
    ultimately show False using assms(2) \<open>kept \<noteq> []\<close> by (auto simp: plain_element_def)
  qed
  then have "rev (''..'' # kept) = replicate (Suc n) ''..'' @ []"
    using eq(1) by (simp add: replicate_append_same)
  then show ?thesis using assms(3) unfolding climbs_first_def by (metis empty_iff list.set(1))
qed

lemma clean_parts_climb:
  assumes "\<forall>e \<in> set es. slash \<notin> set e" "climbs_first r (rev kept)"
  shows "climbs_first r (clean_parts r kept es)"
  using assms
proof (induction es arbitrary: kept)
  case (Cons e es)
  consider "e = [] \<or> e = ''.''" | "e = ''..''" "kept = []" | k ks where "e = ''..''" "kept = k # ks"
    | "e \<noteq> []" "e \<noteq> ''.''" "e \<noteq> ''..''" by (cases kept) auto
  then show ?case
  proof cases
    case 2
    have "climbs_first r (rev (if r then [] else [''..'']))"
      using climbs_first_up[of r kept] Cons.prems(2) 2 by auto
    then have "climbs_first r (clean_parts r (if r then [] else [''..'']) es)" using Cons.prems(1) by (intro Cons.IH) simp_all
    then show ?thesis using 2 by simp
  next
    case 3
    show ?thesis
    proof (cases "k = ''..''")
      case True
      have "\<not> r"
      proof
        assume r
        then have "\<forall>x \<in> set (rev kept). plain_element x" using Cons.prems(2) by (auto simp: climbs_first_def)
        then show False using 3 True by (simp add: plain_element_def)
      qed
      then have "climbs_first r (rev (''..'' # kept))" using climbs_first_up[OF Cons.prems(2)] 3 True by simp
      then have "climbs_first r (clean_parts r (''..'' # kept) es)" using Cons.prems(1) by (intro Cons.IH) simp_all
      then show ?thesis using 3 True by simp
    next
      case False
      then have "climbs_first r (rev ks)" using climbs_first_pop[of r k ks] Cons.prems(2) 3 by simp
      then have "climbs_first r (clean_parts r ks es)" using Cons.prems(1) by (intro Cons.IH) simp_all
      then show ?thesis using 3 False by simp
    qed
  next
    case 4
    then have "plain_element e" using Cons.prems(1) by (simp add: plain_element_def)
    then have "climbs_first r (clean_parts r (e # kept) es)"
      using Cons.prems climbs_first_push[of r kept e] by (intro Cons.IH) simp_all
    then show ?thesis using 4 by simp
  next
    case 1
    then show ?thesis using Cons by simp
  qed
qed simp

text \<open>A path in its simplest form that is not rooted and does not climb is made of plain elements.\<close>

lemma clean_rel_iff:
  "clean_rel p \<longleftrightarrow> Clean p = p \<and> \<not> rooted p \<and> p \<noteq> ''.'' \<and> p \<noteq> ''..'' \<and> \<not> has_prefix ''../'' p"
proof
  assume "clean_rel p"
  then have plain: "\<forall>e \<in> set (path_parts p). plain_element e" by (simp add: clean_rel_def)
  have "\<not> rooted p" using join_plain_hd(2)[OF path_parts_nonempty plain] by simp
  moreover have "path_parts ''.'' = [''.'']" "path_parts ''..'' = [''..'']" by (simp_all add: path_parts_def)
  then have "p \<noteq> ''.''" "p \<noteq> ''..''" using plain by (metis list.set_intros(1) plain_element_def)+
  moreover have "\<not> has_prefix ''../'' p"
  proof
    assume "has_prefix ''../'' p"
    then obtain t where "p = ''..'' @ slash # t" by (auto simp: has_prefix_iff)
    then have "''..'' \<in> set (path_parts p)" by (simp add: path_parts_def)
    then show False using plain by (auto simp: plain_element_def)
  qed
  ultimately show "Clean p = p \<and> \<not> rooted p \<and> p \<noteq> ''.'' \<and> p \<noteq> ''..'' \<and> \<not> has_prefix ''../'' p"
    using clean_rel_fixed[OF \<open>clean_rel p\<close>] by blast
next
  assume p: "Clean p = p \<and> \<not> rooted p \<and> p \<noteq> ''.'' \<and> p \<noteq> ''..'' \<and> \<not> has_prefix ''../'' p"
  let ?es = "clean_parts False [] (path_parts p)"
  have "climbs_first False ?es"
    by (rule clean_parts_climb) (auto simp: climbs_first_def path_parts_no_slash)
  then obtain n ks where es: "?es = replicate n ''..'' @ ks" "\<forall>k \<in> set ks. plain_element k"
    unfolding climbs_first_def by blast
  have joined: "p = join_with ''/'' ?es" "?es \<noteq> []"
    using p by (auto simp: Clean_def Let_def split: if_splits)
  have "n = 0"
  proof (rule ccontr)
    assume "n \<noteq> 0"
    then obtain rest where rest: "?es = ''..'' # rest" using es(1) by (cases n) auto
    show False
    proof (cases rest)
      case Nil
      then show ?thesis using joined(1) rest p by simp
    next
      case (Cons r rs)
      then have "p = ''../'' @ join_with ''/'' rest" using joined(1) rest by simp
      then have "has_prefix ''../'' p" unfolding has_prefix_iff by blast
      then show ?thesis using p by blast
    qed
  qed
  then have "\<forall>e \<in> set ?es. plain_element e" using es by simp
  then show "clean_rel p" using path_parts_join[OF joined(2)] joined(1) by (metis clean_rel_def)
qed

text \<open>A path below another one, on the elements.\<close>

lemma join_with_append:
  "xs \<noteq> [] \<Longrightarrow> ys \<noteq> [] \<Longrightarrow> join_with sep (xs @ ys) = join_with sep xs @ sep @ join_with sep ys"
proof (induction xs)
  case (Cons x xs)
  then show ?case by (cases xs; cases ys) auto
qed simp

lemma slash_prefix_iff:
  "has_prefix (p @ ''/'') q \<longleftrightarrow> (\<exists>es. es \<noteq> [] \<and> path_parts q = path_parts p @ es)"
proof
  assume "has_prefix (p @ ''/'') q"
  then obtain t where "q = p @ slash # t" by (auto simp: has_prefix_iff)
  then have "path_parts q = path_parts p @ path_parts t" by (simp add: path_parts_def split_on_append)
  then show "\<exists>es. es \<noteq> [] \<and> path_parts q = path_parts p @ es" by (metis path_parts_nonempty)
next
  assume "\<exists>es. es \<noteq> [] \<and> path_parts q = path_parts p @ es"
  then obtain es where es: "es \<noteq> []" "path_parts q = path_parts p @ es" by blast
  have "q = join_with ''/'' (path_parts p @ es)" using es(2) by (metis join_parts)
  also have "\<dots> = p @ ''/'' @ join_with ''/'' es" using es(1) join_with_append[of "path_parts p" es "''/''"] by simp
  finally show "has_prefix (p @ ''/'') q" by (simp add: has_prefix_iff)
qed

lemma path_parts_join2: "path_parts (p @ slash # q) = path_parts p @ path_parts q"
  by (simp add: path_parts_def split_on_append)

lemma length_path_parts: "length (path_parts p) = Suc (length (filter (\<lambda>c. c = slash) p))"
proof (induction p)
  case (Cons c p)
  then show ?case by (cases "split_on slash p") (auto simp: path_parts_def)
qed (simp add: path_parts_def)

end
