(* ===== verification/Profile_Volumes.thy ===== *)
theory Profile_Volumes
  imports Go_Path Session_Ref
begin

text \<open>
  What a profile mounts inside the guest: \<open>internal/profile/volumes.go\<close>. A tmpfs covers a
  directory of the guest home, or is mounted at its own guest path, a hostmount under it brings
  one path of the workspace back, and a file binding writes a stored secret at a path that
  \<open>EphemeralPath\<close> accepts. The facts relate \<open>Under\<close>, which compares strings, to the elements of
  the paths, and show that \<open>MountOrder\<close> mounts a parent before anything under it.
\<close>

definition VolumeTmpfs :: string where "VolumeTmpfs = ''tmpfs''"
definition VolumeHostMount :: string where "VolumeHostMount = ''hostmount''"
definition VolumeNamed :: string where "VolumeNamed = ''volume''"

definition defaultTmpfsSize :: string where "defaultTmpfsSize = ''64m''"

record volume =
  v_Kind :: string
  v_Path :: string
  v_Source :: string
  v_Size :: string
  v_File :: bool
  v_At :: string

text \<open>\<open>tmpfsSizePattern\<close> is \<open>^[1-9][0-9]*[kKmMgG]?$\<close>.\<close>

definition tmpfsSizePattern :: "string \<Rightarrow> bool" where
  "tmpfsSizePattern s =
     (case s of [] \<Rightarrow> False
      | c # cs \<Rightarrow> is_digit c \<and> c \<noteq> CHR ''0''
          \<and> (case dropWhile is_digit cs of [] \<Rightarrow> True | u # us \<Rightarrow> us = [] \<and> u \<in> set ''kKmMgG''))"

definition TmpfsOptions :: "volume \<Rightarrow> string" where
  "TmpfsOptions v =
     ''size='' @ (if v_Size v = [] then defaultTmpfsSize else v_Size v) @ '',mode=0700,nodev,nosuid''"

subsection \<open>Paths\<close>

definition Under :: "string \<Rightarrow> string \<Rightarrow> bool" where
  "Under child parent \<longleftrightarrow> child \<noteq> parent \<and> has_prefix (Clean parent @ ''/'') (Clean child)"

definition pathDepth :: "string \<Rightarrow> nat" where
  "pathDepth p = length (filter (\<lambda>c. c = slash) (Clean p))"

definition MountOrder :: "volume list \<Rightarrow> volume list" where
  "MountOrder vs = sort_key (\<lambda>v. pathDepth (v_Path v)) vs"

definition systemTrees :: "string list" where
  "systemTrees = [''/proc'', ''/sys'', ''/dev'', ''/run'', ''/tmp'', ''/etc'', ''/usr'',
     ''/bin'', ''/sbin'', ''/boot'', ''/var'', ''/work'']"

datatype at_error =
    AtNotAbsolute string | AtDotDot string | AtNotSimple string string | AtRoot
  | AtOverHome string string | AtSystemTree string string

definition tmpfsAt :: "string \<Rightarrow> string \<Rightarrow> at_error option" where
  "tmpfsAt at home =
     (let first = slash # (path_parts at ! 1) in
      first_err
        [err_if (\<not> has_prefix ''/'' at) (AtNotAbsolute at),
         err_if (''..'' \<in> set (path_parts at)) (AtDotDot at),
         err_if (Clean at \<noteq> at) (AtNotSimple at (Clean at)),
         err_if (at = ''/'') AtRoot,
         err_if (home \<noteq> [] \<and> (at = home \<or> Under at home \<or> Under home at)) (AtOverHome at home),
         err_if (first \<in> set systemTrees \<or> has_prefix ''/lib'' first) (AtSystemTree at first)])"

datatype path_error =
    NoPath | PathAbsolute string | PathTilde string | PathEscapes string | PathNotSimple string string

definition guestPath :: "string \<Rightarrow> path_error option" where
  "guestPath p =
     (if p = [] then Some NoPath
      else if has_prefix ''/'' p then Some (PathAbsolute p)
      else if has_prefix ''~'' p then Some (PathTilde p)
      else if Clean p = ''.'' \<or> Clean p = ''..'' \<or> has_prefix ''../'' (Clean p) then Some (PathEscapes p)
      else if Clean p \<noteq> p then Some (PathNotSimple p (Clean p))
      else None)"

subsection \<open>Files\<close>

record file_binding =
  fb_Ref :: string
  fb_Path :: string
  fb_Mode :: string

definition DefaultFileMode :: nat where "DefaultFileMode = 384"

datatype mode_error = ModeNotOctal string | ModeTooWide string

text \<open>\<open>strconv.ParseUint\<close> in base 8 with 32 bits: digits only, at least one, no overflow.\<close>

definition parse_octal :: "string \<Rightarrow> nat option" where
  "parse_octal s =
     (if s = [] \<or> (\<exists>c \<in> set s. \<not> (is_digit c \<and> c \<noteq> CHR ''8'' \<and> c \<noteq> CHR ''9'')) then None
      else let n = foldl (\<lambda>n c. n * 8 + (of_char c - 48)) 0 s in
           if n < 2 ^ 32 then Some n else None)"

definition FileMode :: "file_binding \<Rightarrow> mode_error + nat" where
  "FileMode b =
     (if fb_Mode b = [] then Inr DefaultFileMode
      else case parse_octal (fb_Mode b) of
             None \<Rightarrow> Inl (ModeNotOctal (fb_Mode b))
           | Some n \<Rightarrow> if 511 < n then Inl (ModeTooWide (fb_Mode b)) else Inr n)"

subsection \<open>The mounts of a profile\<close>

definition volumesOfKind :: "volume list \<Rightarrow> string \<Rightarrow> volume list" where
  "volumesOfKind vs k = filter (\<lambda>v. v_Kind v = k) (MountOrder vs)"

definition Tmpfs :: "volume list \<Rightarrow> volume list" where
  "Tmpfs vs = volumesOfKind vs VolumeTmpfs"

definition HostMounts :: "volume list \<Rightarrow> volume list" where
  "HostMounts vs = volumesOfKind vs VolumeHostMount"

definition EphemeralPath :: "volume list \<Rightarrow> string \<Rightarrow> bool" where
  "EphemeralPath vs target \<longleftrightarrow>
     list_ex (\<lambda>v. v_Kind v = VolumeTmpfs \<and> (Under target (v_Path v) \<or> target = v_Path v)) vs
     \<and> \<not> list_ex (\<lambda>v. v_Kind v = VolumeHostMount \<and> (target = v_Path v \<or> Under target (v_Path v))) vs"

definition nestedUnder :: "string \<Rightarrow> volume list \<Rightarrow> bool" where
  "nestedUnder target vs \<longleftrightarrow> list_ex (\<lambda>v. Under target (v_Path v)) vs"

subsection \<open>Facts\<close>

lemma guestPath_clean: "guestPath p = None \<Longrightarrow> clean_rel p"
  by (auto simp: guestPath_def clean_rel_iff rooted_def split: if_splits)

lemma strict_prefix_parts:
  "strict_prefix (path_parts p) (path_parts q) \<longleftrightarrow> (\<exists>es. es \<noteq> [] \<and> path_parts q = path_parts p @ es)"
  by (auto simp: strict_prefix_def prefix_def)

lemma Under_simplest:
  assumes "Clean p = p" "Clean q = q"
  shows "Under q p \<longleftrightarrow> strict_prefix (path_parts p) (path_parts q)"
  using assms unfolding Under_def strict_prefix_parts by (auto simp: slash_prefix_iff)

lemmas Under_clean = Under_simplest[OF clean_rel_fixed clean_rel_fixed]

lemma pathDepth_clean: "clean_rel p \<Longrightarrow> Suc (pathDepth p) = length (path_parts p)"
  by (simp add: pathDepth_def length_path_parts clean_rel_fixed)

lemma Under_deeper: "clean_rel p \<Longrightarrow> clean_rel q \<Longrightarrow> Under q p \<Longrightarrow> pathDepth p < pathDepth q"
  using pathDepth_clean[of p] pathDepth_clean[of q] by (auto simp: Under_clean strict_prefix_parts neq_Nil_conv)

lemma set_MountOrder [simp]: "set (MountOrder vs) = set vs"
  by (simp add: MountOrder_def)

lemma set_Tmpfs: "t \<in> set (Tmpfs vs) \<longleftrightarrow> t \<in> set vs \<and> v_Kind t = VolumeTmpfs"
  by (auto simp: Tmpfs_def volumesOfKind_def)

lemma set_HostMounts: "t \<in> set (HostMounts vs) \<longleftrightarrow> t \<in> set vs \<and> v_Kind t = VolumeHostMount"
  by (auto simp: HostMounts_def volumesOfKind_def)

lemma kinds_differ [simp]: "VolumeTmpfs \<noteq> VolumeHostMount" "VolumeHostMount \<noteq> VolumeTmpfs"
  by (simp_all add: VolumeTmpfs_def VolumeHostMount_def)

text \<open>Parents first: what stands after a volume in the order is not above it.\<close>

lemma sorted_filter_key: "sorted (map f (filter P (sort_key f xs)))"
  by (rule sorted_filter) simp

lemma order_parents_first:
  assumes "volumesOfKind vs k = as @ v # bs" "w \<in> set bs" "clean_rel (v_Path v)" "clean_rel (v_Path w)"
  shows "\<not> Under (v_Path v) (v_Path w)"
proof -
  have "sorted (map (\<lambda>v. pathDepth (v_Path v)) (as @ v # bs))"
    using sorted_filter_key[of "\<lambda>v. pathDepth (v_Path v)" "\<lambda>v. v_Kind v = k" vs] assms(1)
    by (simp add: volumesOfKind_def MountOrder_def)
  then have "pathDepth (v_Path v) \<le> pathDepth (v_Path w)"
    using assms(2) by (auto simp: sorted_append)
  then show ?thesis using Under_deeper[OF assms(4,3)] by linarith
qed

end
