(* ===== verification/Profile_Secrets.thy ===== *)
theory Profile_Secrets
  imports Policy_Types Profile_Volumes
begin

text \<open>
  What a profile needs and how it is handed over: \<open>internal/profile/secrets.go\<close>,
  \<open>internal/profile/binding.go\<close>, \<open>ValidName\<close> of \<open>internal/secret/secret.go\<close>, and the fields of
  \<open>Profile\<close> they work on. The YAML and JSON coding of the declarations is left out: a document is
  decoded when it gets here.
\<close>

subsection \<open>Names of secrets\<close>

definition maxName :: nat where "maxName = 128"

datatype name_error = NameMissing | NameTooLong nat | NameStartsWith char | NameHolds char

fun name_chars :: "bool \<Rightarrow> string \<Rightarrow> name_error option" where
  "name_chars at_start [] = None"
| "name_chars at_start (c # cs) =
     (if is_alpha c then name_chars False cs
      else if is_digit c \<or> c = CHR ''_'' \<or> c = CHR ''-'' then
        (if at_start then Some (NameStartsWith c) else name_chars False cs)
      else Some (NameHolds c))"

definition ValidName :: "string \<Rightarrow> name_error option" where
  "ValidName name =
     (if name = [] then Some NameMissing
      else if maxName < length name then Some (NameTooLong (length name))
      else name_chars True name)"

definition JournalSuffix :: string where "JournalSuffix = ''.journal''"

definition JournalName :: "string \<Rightarrow> string" where
  "JournalName name = name @ JournalSuffix"

definition validStoreName :: "string \<Rightarrow> name_error option" where
  "validStoreName name =
     (if has_suffix JournalSuffix name \<and> ValidName (trim_suffix JournalSuffix name) = None then None
      else ValidName name)"

subsection \<open>Sources and declarations\<close>

definition SourceKeychain :: string where "SourceKeychain = ''keychain''"
definition SourceFile :: string where "SourceFile = ''file''"
definition SourceEnv :: string where "SourceEnv = ''env''"
definition SourceAWS :: string where "SourceAWS = ''aws''"
definition SourceGCloud :: string where "SourceGCloud = ''gcloud''"

lemmas source_defs = SourceKeychain_def SourceFile_def SourceEnv_def SourceAWS_def SourceGCloud_def

record secret_source =
  so_From :: string
  so_Service :: string
  so_Path :: string
  so_Var :: string
  so_Hint :: string

definition locatorValue :: "secret_source \<Rightarrow> string" where
  "locatorValue s =
     (if so_From s = SourceKeychain then so_Service s
      else if so_From s = SourceFile then so_Path s
      else if so_From s = SourceEnv then so_Var s
      else [])"

definition Locator :: "secret_source \<Rightarrow> string" where
  "Locator s = so_From s @ '':'' @ locatorValue s"

record secret_decl =
  sd_Name :: string
  sd_Required :: "bool option"
  sd_Field :: string
  sd_ExpiryField :: string
  sd_Sources :: "secret_source list option"
  sd_From :: string
  sd_Service :: string
  sd_Path :: string
  sd_Var :: string
  sd_Hint :: string

definition IsRequired :: "secret_decl \<Rightarrow> bool" where
  "IsRequired d \<longleftrightarrow> (case sd_Required d of None \<Rightarrow> True | Some b \<Rightarrow> b)"

definition SourceList :: "secret_decl \<Rightarrow> secret_source list" where
  "SourceList d =
     (if els (sd_Sources d) \<noteq> [] then els (sd_Sources d)
      else if sd_From d = [] then []
      else [\<lparr>so_From = sd_From d, so_Service = sd_Service d, so_Path = sd_Path d,
             so_Var = sd_Var d, so_Hint = sd_Hint d\<rparr>])"

definition HintText :: "secret_decl \<Rightarrow> string" where
  "HintText d =
     (if sd_Hint d \<noteq> [] then sd_Hint d
      else case find (\<lambda>s. so_Hint s \<noteq> []) (SourceList d) of Some s \<Rightarrow> so_Hint s | None \<Rightarrow> [])"

definition Importable :: "secret_decl \<Rightarrow> bool" where
  "Importable d \<longleftrightarrow> SourceList d \<noteq> []"

subsection \<open>Bindings\<close>

definition NamespaceSecrets :: string where "NamespaceSecrets = ''secrets''"
definition NamespaceEnv :: string where "NamespaceEnv = ''env''"

record binding_ref =
  br_Namespace :: string
  br_Name :: string

definition binding_ref_String :: "binding_ref \<Rightarrow> string" where
  "binding_ref_String r = br_Namespace r @ ''.'' @ br_Name r"

datatype ref_error = RefNoNamespace string | RefIncomplete string | RefUnknownNamespace string string

definition ParseBindingRef :: "string \<Rightarrow> ref_error + binding_ref" where
  "ParseBindingRef s =
     (case cut_char CHR ''.'' s of (namespace, name, ok) \<Rightarrow>
        if \<not> ok then Inl (RefNoNamespace s)
        else if namespace = [] \<or> name = [] then Inl (RefIncomplete s)
        else if namespace = NamespaceSecrets \<or> namespace = NamespaceEnv
        then Inr \<lparr>br_Namespace = namespace, br_Name = name\<rparr>
        else Inl (RefUnknownNamespace s namespace))"

record env_binding =
  eb_Name :: string
  eb_Value :: string
  eb_Ref :: string
  eb_Refs :: "string list"

definition RefList :: "env_binding \<Rightarrow> string list" where
  "RefList b = (if eb_Refs b \<noteq> [] then eb_Refs b else if eb_Ref b = [] then [] else [eb_Ref b])"

definition Resolved :: "env_binding \<Rightarrow> ref_error + binding_ref option" where
  "Resolved b =
     (if eb_Ref b = [] then Inr None
      else case ParseBindingRef (eb_Ref b) of Inl e \<Rightarrow> Inl e | Inr r \<Rightarrow> Inr (Some r))"

subsection \<open>Profiles\<close>

text \<open>A profile with the fields that say what it needs, what it binds and what it mounts.\<close>

record full_profile = profile +
  p_GuestHome :: string
  p_Secrets :: "secret_decl list"
  p_Env :: "env_binding list"
  p_Files :: "file_binding list"
  p_Volumes :: "volume list"

definition Denied :: "full_profile \<Rightarrow> string \<Rightarrow> bool" where
  "Denied p name \<longleftrightarrow> list_ex (\<lambda>d. d = name) (p_deny p)"

definition Secret :: "full_profile \<Rightarrow> string \<Rightarrow> secret_decl option" where
  "Secret p name = find (\<lambda>d. sd_Name d = name) (p_Secrets p)"

definition SecretNames :: "secret_decl list \<Rightarrow> string list" where
  "SecretNames ds = map sd_Name ds"

definition GuestUser :: "full_profile \<Rightarrow> string" where
  "GuestUser p = last (path_parts (p_GuestHome p))"

subsection \<open>Facts\<close>

lemma name_chars_None:
  "name_chars b s = None \<longleftrightarrow>
     (\<forall>c \<in> set s. is_alpha c \<or> is_digit c \<or> c = CHR ''_'' \<or> c = CHR ''-'')
     \<and> (b \<longrightarrow> s \<noteq> [] \<longrightarrow> is_alpha (hd s))"
  by (induction b s rule: name_chars.induct) auto

lemma namespaces_differ [simp]: "NamespaceSecrets \<noteq> NamespaceEnv" "NamespaceEnv \<noteq> NamespaceSecrets"
  by (simp_all add: NamespaceSecrets_def NamespaceEnv_def)

lemma ParseBindingRef_Inr:
  "ParseBindingRef s = Inr r \<Longrightarrow>
     s = binding_ref_String r \<and> br_Name r \<noteq> []
     \<and> (br_Namespace r = NamespaceSecrets \<or> br_Namespace r = NamespaceEnv)"
  by (auto simp: ParseBindingRef_def binding_ref_String_def split: prod.splits if_splits dest: cut_char_spec)

lemma Secret_None: "Secret p n = None \<longleftrightarrow> n \<notin> set (SecretNames (p_Secrets p))"
  by (auto simp: Secret_def SecretNames_def find_None_iff)

lemma Secret_Some: "Secret p n = Some d \<Longrightarrow> d \<in> set (p_Secrets p) \<and> sd_Name d = n"
  by (auto simp: Secret_def dest: find_SomeD)

end
