(* ===== verification/Profile_Validate.thy ===== *)
theory Profile_Validate
  imports Profile_Secrets
begin

text \<open>
  The checks of a profile's secrets, volumes, files and environment against each other:
  \<open>internal/profile/validate.go\<close>, in the order of its statements. The property is what the file
  channel rests on: the target of every file binding of a profile that passes is in its simplest
  form, below a tmpfs, and in or below no hostmount, so a credential written there cannot reach
  the disk of the host.
\<close>

datatype profile_error =
    SecretName name_error | SecretTwice string | FromAndSources string | SourcesEmpty string
  | SourceNoFrom string | SourceUnknown string string | LocatorMisplaced string string string
  | LocatorMissing string string string
  | VolumeNotSupported string | VolumeNoKind | VolumeUnknownKind string string
  | VolumePath string path_error | VolumeTwice string | SourceMisplaced string | FileMisplaced string
  | SizeMisplaced string | SizeBad string string | AtMisplaced string | VolumeAt string at_error
  | AtOverlaps string string string | TmpfsNested string string | HostMountAlone string
  | FilePath string path_error | FileTwice string | FileModeBad string mode_error | FileNoRef string
  | FileRef string ref_error | FileRefsEnv string binding_ref | FileUndeclared string string
  | FileOnDisk string
  | EnvNoName | EnvName string | EnvTwice string | EnvRefAndRefs string | EnvValueAndRef string
  | EnvEmpty string | EnvDenied string | EnvRef string ref_error | EnvUndeclared string string

subsection \<open>Secrets\<close>

text \<open>The keys of a locator, in the order \<open>extra\<close> lists them, and the one a source wants.\<close>

definition source_keys :: "string \<Rightarrow> (string \<times> string list) option" where
  "source_keys from =
     (if from = SourceKeychain then Some (''service'', [''path'', ''var''])
      else if from = SourceFile then Some (''path'', [''service'', ''var''])
      else if from = SourceEnv then Some (''var'', [''service'', ''path''])
      else if from = SourceAWS \<or> from = SourceGCloud then Some ([], [''service'', ''path'', ''var''])
      else None)"

definition locator_key :: "secret_source \<Rightarrow> string \<Rightarrow> string" where
  "locator_key s key =
     (if key = ''service'' then so_Service s else if key = ''path'' then so_Path s
      else if key = ''var'' then so_Var s else [])"

definition validateSource :: "string \<Rightarrow> secret_source \<Rightarrow> profile_error option" where
  "validateSource name s =
     (if so_From s = [] then Some (SourceNoFrom name)
      else case source_keys (so_From s) of
        None \<Rightarrow> Some (SourceUnknown name (so_From s))
      | Some (want, extra) \<Rightarrow>
          first_err
            (map (\<lambda>key. err_if (locator_key s key \<noteq> []) (LocatorMisplaced name (so_From s) key)) extra
             @ [err_if (want \<noteq> [] \<and> locatorValue s = []) (LocatorMissing name (so_From s) want)]))"

definition validate_secret :: "secret_decl \<Rightarrow> string list \<Rightarrow> profile_error + string list" where
  "validate_secret d declared =
     on_ok
       (first_err
          ([map_option SecretName (ValidName (sd_Name d)),
            err_if (sd_Name d \<in> set declared) (SecretTwice (sd_Name d)),
            err_if (sd_From d \<noteq> [] \<and> els (sd_Sources d) \<noteq> []) (FromAndSources (sd_Name d)),
            err_if (sd_Sources d = Some []) (SourcesEmpty (sd_Name d))]
           @ map (validateSource (sd_Name d)) (SourceList d)))
       (declared @ [sd_Name d])"

definition validateSecrets :: "full_profile \<Rightarrow> profile_error + string list" where
  "validateSecrets p = fold_err validate_secret (p_Secrets p) []"

subsection \<open>Volumes\<close>

definition volume_kind_check :: "volume \<Rightarrow> profile_error option" where
  "volume_kind_check v =
     (if v_Kind v = VolumeTmpfs \<or> v_Kind v = VolumeHostMount then None
      else if v_Kind v = VolumeNamed then Some (VolumeNotSupported (v_Path v))
      else if v_Kind v = [] then Some VolumeNoKind
      else Some (VolumeUnknownKind (v_Path v) (v_Kind v)))"

definition ats_overlap :: "volume \<Rightarrow> volume \<Rightarrow> bool" where
  "ats_overlap v t \<longleftrightarrow>
     v_At t \<noteq> [] \<and> (v_At t = v_At v \<or> Under (v_At t) (v_At v) \<or> Under (v_At v) (v_At t))"

definition at_checks :: "string \<Rightarrow> volume list \<Rightarrow> volume \<Rightarrow> profile_error option" where
  "at_checks home tmpfs v =
     (if v_At v = [] then None
      else first_err
        [err_if (v_Kind v \<noteq> VolumeTmpfs) (AtMisplaced (v_Path v)),
         map_option (VolumeAt (v_Path v)) (tmpfsAt (v_At v) home),
         map_option (\<lambda>t. AtOverlaps (v_Path t) (v_Path v) (v_At v)) (find (ats_overlap v) tmpfs)])"

text \<open>The state of the loop is the paths seen and the tmpfs volumes so far.\<close>

definition validate_volume ::
  "string \<Rightarrow> volume \<Rightarrow> string list \<times> volume list \<Rightarrow> profile_error + (string list \<times> volume list)" where
  "validate_volume home v st =
     (case st of (seen, tmpfs) \<Rightarrow>
        on_ok
          (first_err
             [volume_kind_check v,
              map_option (VolumePath (v_Path v)) (guestPath (v_Path v)),
              err_if (v_Path v \<in> set seen) (VolumeTwice (v_Path v)),
              err_if (v_Source v \<noteq> []) (SourceMisplaced (v_Path v)),
              err_if (v_File v \<and> v_Kind v \<noteq> VolumeHostMount) (FileMisplaced (v_Path v)),
              err_if (v_Size v \<noteq> [] \<and> v_Kind v \<noteq> VolumeTmpfs) (SizeMisplaced (v_Path v)),
              err_if (v_Size v \<noteq> [] \<and> \<not> tmpfsSizePattern (v_Size v)) (SizeBad (v_Path v) (v_Size v)),
              at_checks home tmpfs v])
          (seen @ [v_Path v], if v_Kind v = VolumeTmpfs then tmpfs @ [v] else tmpfs))"

definition relocated_nest :: "volume \<Rightarrow> volume \<Rightarrow> bool" where
  "relocated_nest a b \<longleftrightarrow>
     (v_At a \<noteq> [] \<or> v_At b \<noteq> []) \<and> (Under (v_Path a) (v_Path b) \<or> Under (v_Path b) (v_Path a))"

fun nested_tmpfs :: "volume list \<Rightarrow> (volume \<times> volume) option" where
  "nested_tmpfs [] = None"
| "nested_tmpfs (a # rest) =
     (case find (relocated_nest a) rest of Some b \<Rightarrow> Some (a, b) | None \<Rightarrow> nested_tmpfs rest)"

definition validateVolumes :: "full_profile \<Rightarrow> profile_error option" where
  "validateVolumes p =
     (case fold_err (validate_volume (p_GuestHome p)) (p_Volumes p) ([], []) of
        Inl e \<Rightarrow> Some e
      | Inr (seen, tmpfs) \<Rightarrow>
          first_err
            [map_option (\<lambda>(a, b). TmpfsNested (v_Path a) (v_Path b)) (nested_tmpfs tmpfs),
             map_option (\<lambda>v. HostMountAlone (v_Path v))
               (find (\<lambda>v. v_Kind v = VolumeHostMount \<and> \<not> nestedUnder (v_Path v) tmpfs) (p_Volumes p))])"

subsection \<open>Files\<close>

definition file_ref_check :: "string list \<Rightarrow> file_binding \<Rightarrow> profile_error option" where
  "file_ref_check declared b =
     (if fb_Ref b = [] then Some (FileNoRef (fb_Path b))
      else case ParseBindingRef (fb_Ref b) of
        Inl e \<Rightarrow> Some (FileRef (fb_Path b) e)
      | Inr r \<Rightarrow>
          first_err
            [err_if (br_Namespace r \<noteq> NamespaceSecrets) (FileRefsEnv (fb_Path b) r),
             err_if (br_Name r \<notin> set declared) (FileUndeclared (fb_Path b) (br_Name r))])"

definition validate_file ::
  "full_profile \<Rightarrow> string list \<Rightarrow> file_binding \<Rightarrow> string list \<Rightarrow> profile_error + string list" where
  "validate_file p declared b bound =
     on_ok
       (first_err
          [map_option (FilePath (fb_Path b)) (guestPath (fb_Path b)),
           err_if (fb_Path b \<in> set bound) (FileTwice (fb_Path b)),
           (case FileMode b of Inl e \<Rightarrow> Some (FileModeBad (fb_Path b) e) | Inr _ \<Rightarrow> None),
           file_ref_check declared b,
           err_if (\<not> EphemeralPath (p_Volumes p) (fb_Path b)) (FileOnDisk (fb_Path b))])
       (bound @ [fb_Path b])"

definition validateFiles :: "full_profile \<Rightarrow> string list \<Rightarrow> profile_error option" where
  "validateFiles p declared =
     (case fold_err (validate_file p declared) (p_Files p) [] of Inl e \<Rightarrow> Some e | Inr _ \<Rightarrow> None)"

subsection \<open>Environment\<close>

definition env_ref_check :: "string list \<Rightarrow> string \<Rightarrow> string \<Rightarrow> profile_error option" where
  "env_ref_check declared name raw =
     (case ParseBindingRef raw of
        Inl e \<Rightarrow> Some (EnvRef name e)
      | Inr r \<Rightarrow> err_if (br_Namespace r = NamespaceSecrets \<and> br_Name r \<notin> set declared)
                   (EnvUndeclared name (br_Name r)))"

definition validate_env ::
  "full_profile \<Rightarrow> string list \<Rightarrow> env_binding \<Rightarrow> string list \<Rightarrow> profile_error + string list" where
  "validate_env p declared b bound =
     (let hasValue = eb_Value b \<noteq> []; hasRef = eb_Ref b \<noteq> []; hasRefs = eb_Refs b \<noteq> [] in
      on_ok
        (first_err
           ([err_if (eb_Name b = []) EnvNoName,
             err_if (contains_any (eb_Name b) [CHR ''='', CHR '' '', CHR 0x09, CHR 0x0A]) (EnvName (eb_Name b)),
             err_if (eb_Name b \<in> set bound) (EnvTwice (eb_Name b)),
             err_if (hasRef \<and> hasRefs) (EnvRefAndRefs (eb_Name b)),
             err_if (hasValue \<and> (hasRef \<or> hasRefs)) (EnvValueAndRef (eb_Name b)),
             err_if (\<not> hasValue \<and> \<not> hasRef \<and> \<not> hasRefs) (EnvEmpty (eb_Name b)),
             err_if (Denied p (eb_Name b)) (EnvDenied (eb_Name b))]
            @ map (env_ref_check declared (eb_Name b)) (RefList b)))
        (bound @ [eb_Name b]))"

definition validateEnv :: "full_profile \<Rightarrow> string list \<Rightarrow> profile_error option" where
  "validateEnv p declared =
     (case fold_err (validate_env p declared) (p_Env p) [] of Inl e \<Rightarrow> Some e | Inr _ \<Rightarrow> None)"

definition validateBindings :: "full_profile \<Rightarrow> profile_error option" where
  "validateBindings p =
     (case validateSecrets p of
        Inl e \<Rightarrow> Some e
      | Inr declared \<Rightarrow> first_err [validateVolumes p, validateFiles p declared, validateEnv p declared])"

subsection \<open>What the loops establish\<close>

text \<open>A loop that checks each element and remembers a key of each: the keys are distinct and every
  element passed its checks with the state its predecessors left.\<close>

lemma fold_err_trace:
  assumes "fold_err f xs s = Inr s'" "x \<in> set xs"
  shows "\<exists>t t'. f x t = Inr t'"
  using assms
proof (induction xs arbitrary: s)
  case (Cons y ys)
  then show ?case by (auto split: sum.splits)
qed simp

lemma fold_err_keys:
  assumes "\<And>x s t. f x s = Inr t \<Longrightarrow> key x \<notin> set s \<and> t = s @ [key x]"
    and "fold_err f xs s = Inr t" "distinct s"
  shows "t = s @ map key xs" "distinct t"
proof -
  have "t = s @ map key xs \<and> distinct t"
    using assms(2,3)
  proof (induction xs arbitrary: s)
    case (Cons x xs)
    then obtain u where u: "f x s = Inr u" "fold_err f xs u = Inr t" by (auto split: sum.splits)
    then have "key x \<notin> set s" "u = s @ [key x]" using assms(1) by blast+
    then have "distinct u" using Cons.prems(2) by simp
    then have "t = u @ map key xs \<and> distinct t" by (rule Cons.IH[OF u(2)])
    then show ?case using \<open>u = s @ [key x]\<close> by (metis append.assoc append_Cons append_Nil list.simps(9))
  qed simp
  then show "t = s @ map key xs" "distinct t" by blast+
qed

definition volume_ok :: "volume \<Rightarrow> bool" where
  "volume_ok v \<longleftrightarrow>
     (v_Kind v = VolumeTmpfs \<or> v_Kind v = VolumeHostMount) \<and> clean_rel (v_Path v)
     \<and> (v_At v \<noteq> [] \<longrightarrow> v_Kind v = VolumeTmpfs)"

lemma volume_kind_check_None:
  "volume_kind_check v = None \<longleftrightarrow> v_Kind v = VolumeTmpfs \<or> v_Kind v = VolumeHostMount"
  by (simp add: volume_kind_check_def)

lemma at_checks_None:
  "at_checks home tmpfs v = None \<Longrightarrow> v_At v \<noteq> [] \<Longrightarrow>
     v_Kind v = VolumeTmpfs \<and> tmpfsAt (v_At v) home = None \<and> (\<forall>t \<in> set tmpfs. \<not> ats_overlap v t)"
  by (simp add: at_checks_def find_None_iff del: first_err.simps)

lemma validate_volume_Inr:
  assumes "validate_volume home v (seen, tmpfs) = Inr st"
  shows "volume_ok v" "v_Path v \<notin> set seen" "at_checks home tmpfs v = None"
    and "st = (seen @ [v_Path v], if v_Kind v = VolumeTmpfs then tmpfs @ [v] else tmpfs)"
proof -
  have checks: "volume_kind_check v = None" "guestPath (v_Path v) = None" "v_Path v \<notin> set seen"
      "at_checks home tmpfs v = None"
    and st: "st = (seen @ [v_Path v], if v_Kind v = VolumeTmpfs then tmpfs @ [v] else tmpfs)"
    using assms by (simp_all add: validate_volume_def del: first_err.simps)
  show "volume_ok v"
    using checks at_checks_None[OF checks(4)] by (auto simp: volume_ok_def volume_kind_check_None guestPath_clean)
  show "v_Path v \<notin> set seen" "at_checks home tmpfs v = None" using checks by blast+
  show "st = (seen @ [v_Path v], if v_Kind v = VolumeTmpfs then tmpfs @ [v] else tmpfs)" by (rule st)
qed

text \<open>Two tmpfs volumes, in either order, where one of them is mounted outside the home.\<close>

definition apart :: "string \<Rightarrow> string \<Rightarrow> bool" where
  "apart p q \<longleftrightarrow> p \<noteq> q \<and> \<not> Under p q \<and> \<not> Under q p"

lemma apart_sym: "apart p q \<longleftrightarrow> apart q p"
  by (auto simp: apart_def)

definition ats_apart :: "volume list \<Rightarrow> bool" where
  "ats_apart ts \<longleftrightarrow>
     pairwise (\<lambda>s t. v_At s \<noteq> [] \<longrightarrow> v_At t \<noteq> [] \<longrightarrow> apart (v_At s) (v_At t)) (set ts)"

lemma ats_apart_snoc:
  assumes "ats_apart ts" "at_checks home ts v = None"
  shows "ats_apart (ts @ [v])"
proof (cases "v_At v = []")
  case True
  then show ?thesis using assms(1) by (auto simp: ats_apart_def pairwise_insert)
next
  case False
  then have "\<forall>t \<in> set ts. \<not> ats_overlap v t" using at_checks_None[OF assms(2)] by blast
  then have "\<forall>t \<in> set ts. v_At t \<noteq> [] \<longrightarrow> apart (v_At t) (v_At v) \<and> apart (v_At v) (v_At t)"
    by (auto simp: ats_overlap_def apart_def)
  then show ?thesis using assms(1) by (auto simp: ats_apart_def pairwise_insert)
qed

lemma validate_volumes_loop:
  assumes "fold_err (validate_volume home) vs ([], []) = Inr (seen, tmpfs)"
  shows "\<forall>v \<in> set vs. volume_ok v \<and> (v_At v \<noteq> [] \<longrightarrow> tmpfsAt (v_At v) home = None)"
    and "seen = map v_Path vs" "distinct seen" "tmpfs = filter (\<lambda>v. v_Kind v = VolumeTmpfs) vs" "ats_apart tmpfs"
proof -
  have "\<forall>v \<in> set vs. volume_ok v \<and> (v_At v \<noteq> [] \<longrightarrow> tmpfsAt (v_At v) home = None)"
    "seen = map v_Path vs \<and> distinct seen" "tmpfs = filter (\<lambda>v. v_Kind v = VolumeTmpfs) vs" "ats_apart tmpfs"
    using assms
  proof (induction vs arbitrary: seen tmpfs rule: rev_induct)
    case Nil
    { case 1 then show ?case by simp next case 2 then show ?case by simp
      next case 3 then show ?case by simp next case 4 then show ?case by (simp add: ats_apart_def) }
  next
    case (snoc v vs)
    have step: "\<exists>s t. fold_err (validate_volume home) vs ([], []) = Inr (s, t)
        \<and> validate_volume home v (s, t) = Inr (seen, tmpfs)"
      if loop: "fold_err (validate_volume home) (vs @ [v]) ([], []) = Inr (seen, tmpfs)" for seen tmpfs
    proof -
      obtain st where st: "fold_err (validate_volume home) vs ([], []) = Inr st"
        "fold_err (validate_volume home) [v] st = Inr (seen, tmpfs)"
        using loop unfolding fold_err_append bind_err_Inr by blast
      then have "validate_volume home v st = Inr (seen, tmpfs)" by (simp split: sum.splits)
      then show ?thesis using st(1) by (cases st) blast
    qed
    { case 1
      then obtain s t where st: "fold_err (validate_volume home) vs ([], []) = Inr (s, t)"
        "validate_volume home v (s, t) = Inr (seen, tmpfs)" using step by blast
      show ?case using snoc(1)[OF st(1)] validate_volume_Inr[OF st(2)] at_checks_None by auto
    next case 2
      then obtain s t where st: "fold_err (validate_volume home) vs ([], []) = Inr (s, t)"
        "validate_volume home v (s, t) = Inr (seen, tmpfs)" using step by blast
      show ?case using snoc(2)[OF st(1)] validate_volume_Inr[OF st(2)] by auto
    next case 3
      then obtain s t where st: "fold_err (validate_volume home) vs ([], []) = Inr (s, t)"
        "validate_volume home v (s, t) = Inr (seen, tmpfs)" using step by blast
      show ?case using snoc(3)[OF st(1)] validate_volume_Inr[OF st(2)] by auto
    next case 4
      then obtain s t where st: "fold_err (validate_volume home) vs ([], []) = Inr (s, t)"
        "validate_volume home v (s, t) = Inr (seen, tmpfs)" using step by blast
      show ?case using snoc(4)[OF st(1)] validate_volume_Inr[OF st(2)] ats_apart_snoc by auto }
  qed
  then show "\<forall>v \<in> set vs. volume_ok v \<and> (v_At v \<noteq> [] \<longrightarrow> tmpfsAt (v_At v) home = None)"
    "seen = map v_Path vs" "distinct seen" "tmpfs = filter (\<lambda>v. v_Kind v = VolumeTmpfs) vs" "ats_apart tmpfs"
    by blast+
qed

subsection \<open>What a profile that passes looks like\<close>

lemma relocated_nest_sym: "relocated_nest a b \<longleftrightarrow> relocated_nest b a"
  by (auto simp: relocated_nest_def)

lemma relocated_nest_self [simp]: "\<not> relocated_nest a a"
  by (simp add: relocated_nest_def Under_def)

lemma nested_tmpfs_None:
  "nested_tmpfs ts = None \<Longrightarrow> a \<in> set ts \<Longrightarrow> b \<in> set ts \<Longrightarrow> \<not> relocated_nest a b"
proof (induction ts)
  case (Cons t ts)
  then have "\<forall>b \<in> set ts. \<not> relocated_nest t b" "nested_tmpfs ts = None"
    by (auto simp: find_None_iff split: option.splits)
  then show ?case using Cons relocated_nest_sym by auto
qed simp

definition volumes_ok :: "string \<Rightarrow> volume list \<Rightarrow> bool" where
  "volumes_ok home vs \<longleftrightarrow>
     (\<forall>v \<in> set vs. volume_ok v \<and> (v_At v \<noteq> [] \<longrightarrow> tmpfsAt (v_At v) home = None))
     \<and> distinct (map v_Path vs)
     \<and> ats_apart (Tmpfs vs)
     \<and> (\<forall>s \<in> set (Tmpfs vs). \<forall>t \<in> set (Tmpfs vs). \<not> relocated_nest s t)
     \<and> (\<forall>h \<in> set (HostMounts vs). \<exists>t \<in> set (Tmpfs vs). Under (v_Path h) (v_Path t))"

lemma set_Tmpfs_filter: "set (Tmpfs vs) = set (filter (\<lambda>v. v_Kind v = VolumeTmpfs) vs)"
  by (auto simp: set_Tmpfs)

lemma validateVolumes_ok:
  assumes "validateVolumes p = None"
  shows "volumes_ok (p_GuestHome p) (p_Volumes p)"
proof -
  let ?vs = "p_Volumes p"
  obtain seen tmpfs where loop: "fold_err (validate_volume (p_GuestHome p)) ?vs ([], []) = Inr (seen, tmpfs)"
    and rest: "nested_tmpfs tmpfs = None" "find (\<lambda>v. v_Kind v = VolumeHostMount \<and> \<not> nestedUnder (v_Path v) tmpfs) ?vs = None"
    using assms by (auto simp: validateVolumes_def simp del: first_err.simps split: sum.splits)
  note facts = validate_volumes_loop[OF loop]
  have tmpfs: "set tmpfs = set (Tmpfs ?vs)" using facts(4) by (simp add: set_Tmpfs_filter)
  have "ats_apart (Tmpfs ?vs)" using facts(5) tmpfs by (simp add: ats_apart_def)
  moreover have "\<forall>s \<in> set (Tmpfs ?vs). \<forall>t \<in> set (Tmpfs ?vs). \<not> relocated_nest s t"
    using nested_tmpfs_None[OF rest(1)] tmpfs by blast
  moreover have "\<forall>h \<in> set (HostMounts ?vs). \<exists>t \<in> set (Tmpfs ?vs). Under (v_Path h) (v_Path t)"
    using rest(2) tmpfs by (auto simp: find_None_iff set_HostMounts nestedUnder_def list_ex_iff)
  ultimately show ?thesis using facts(1-3) by (simp add: volumes_ok_def)
qed

lemma validate_secrets_declared:
  assumes "validateSecrets p = Inr declared"
  shows "declared = SecretNames (p_Secrets p)" "distinct declared"
proof -
  have step: "sd_Name d \<notin> set s \<and> t = s @ [sd_Name d]" if "validate_secret d s = Inr t" for d s t
    using that by (auto simp: validate_secret_def simp del: first_err.simps)
  have loop: "fold_err validate_secret (p_Secrets p) [] = Inr declared"
    using assms by (simp add: validateSecrets_def)
  show "declared = SecretNames (p_Secrets p)" "distinct declared"
    using fold_err_keys[OF step loop] by (simp_all add: SecretNames_def)
qed

definition file_ok :: "full_profile \<Rightarrow> file_binding \<Rightarrow> bool" where
  "file_ok p b \<longleftrightarrow>
     clean_rel (fb_Path b) \<and> EphemeralPath (p_Volumes p) (fb_Path b)
     \<and> (\<exists>mode. FileMode b = Inr mode)
     \<and> (\<exists>r. ParseBindingRef (fb_Ref b) = Inr r \<and> br_Namespace r = NamespaceSecrets
            \<and> br_Name r \<in> set (SecretNames (p_Secrets p)))"

lemma file_ref_check_None:
  "file_ref_check declared b = None \<Longrightarrow>
     \<exists>r. ParseBindingRef (fb_Ref b) = Inr r \<and> br_Namespace r = NamespaceSecrets \<and> br_Name r \<in> set declared"
  by (auto simp: file_ref_check_def simp del: first_err.simps split: if_splits sum.splits)

lemma validate_file_Inr:
  assumes "validate_file p (SecretNames (p_Secrets p)) b bound = Inr bound'"
  shows "file_ok p b" "fb_Path b \<notin> set bound" "bound' = bound @ [fb_Path b]"
proof -
  have checks: "guestPath (fb_Path b) = None" "fb_Path b \<notin> set bound" "bound' = bound @ [fb_Path b]"
      "(case FileMode b of Inl e \<Rightarrow> Some (FileModeBad (fb_Path b) e) | Inr _ \<Rightarrow> None) = None"
      "file_ref_check (SecretNames (p_Secrets p)) b = None" "EphemeralPath (p_Volumes p) (fb_Path b)"
    using assms by (simp_all add: validate_file_def del: first_err.simps)
  show "file_ok p b"
    using checks guestPath_clean[OF checks(1)] file_ref_check_None[OF checks(5)]
    unfolding file_ok_def by (auto split: sum.splits)
  show "fb_Path b \<notin> set bound" "bound' = bound @ [fb_Path b]" using checks by blast+
qed

lemma validateFiles_ok:
  assumes "validateFiles p (SecretNames (p_Secrets p)) = None"
  shows "\<forall>b \<in> set (p_Files p). file_ok p b" "distinct (map fb_Path (p_Files p))"
proof -
  let ?f = "validate_file p (SecretNames (p_Secrets p))"
  obtain out where out: "fold_err ?f (p_Files p) [] = Inr out"
    using assms by (auto simp: validateFiles_def split: sum.splits)
  show "\<forall>b \<in> set (p_Files p). file_ok p b"
    using fold_err_trace[OF out] validate_file_Inr(1) by blast
  have "\<And>b s t. ?f b s = Inr t \<Longrightarrow> fb_Path b \<notin> set s \<and> t = s @ [fb_Path b]"
    using validate_file_Inr by blast
  from fold_err_keys[OF this out] show "distinct (map fb_Path (p_Files p))" by simp
qed

definition env_ok :: "full_profile \<Rightarrow> env_binding \<Rightarrow> bool" where
  "env_ok p b \<longleftrightarrow>
     eb_Name b \<noteq> [] \<and> CHR ''='' \<notin> set (eb_Name b) \<and> \<not> Denied p (eb_Name b)
     \<and> (eb_Value b = [] \<longleftrightarrow> RefList b \<noteq> [])
     \<and> (\<forall>raw \<in> set (RefList b). \<exists>r. ParseBindingRef raw = Inr r
          \<and> (br_Namespace r = NamespaceSecrets \<longrightarrow> br_Name r \<in> set (SecretNames (p_Secrets p))))"

lemma env_ref_check_None:
  "env_ref_check declared name raw = None \<Longrightarrow>
     \<exists>r. ParseBindingRef raw = Inr r \<and> (br_Namespace r = NamespaceSecrets \<longrightarrow> br_Name r \<in> set declared)"
  by (auto simp: env_ref_check_def split: sum.splits)

lemma validate_env_Inr:
  assumes "validate_env p (SecretNames (p_Secrets p)) b bound = Inr bound'"
  shows "env_ok p b" "eb_Name b \<notin> set bound" "bound' = bound @ [eb_Name b]"
proof -
  have checks: "eb_Name b \<noteq> []" "CHR ''='' \<notin> set (eb_Name b)" "\<not> Denied p (eb_Name b)"
      "eb_Name b \<notin> set bound" "bound' = bound @ [eb_Name b]"
      "\<not> (eb_Value b \<noteq> [] \<and> (eb_Ref b \<noteq> [] \<or> eb_Refs b \<noteq> []))"
      "\<not> (\<not> eb_Value b \<noteq> [] \<and> \<not> eb_Ref b \<noteq> [] \<and> \<not> eb_Refs b \<noteq> [])"
      "\<forall>raw \<in> set (RefList b). env_ref_check (SecretNames (p_Secrets p)) (eb_Name b) raw = None"
    using assms by (auto simp: validate_env_def Let_def simp del: first_err.simps)
  then have "eb_Value b = [] \<longleftrightarrow> RefList b \<noteq> []" by (auto simp: RefList_def)
  then show "env_ok p b" using checks env_ref_check_None unfolding env_ok_def by blast
  show "eb_Name b \<notin> set bound" "bound' = bound @ [eb_Name b]" using checks by blast+
qed

lemma validateEnv_ok:
  assumes "validateEnv p (SecretNames (p_Secrets p)) = None"
  shows "\<forall>b \<in> set (p_Env p). env_ok p b" "distinct (map eb_Name (p_Env p))"
proof -
  let ?f = "validate_env p (SecretNames (p_Secrets p))"
  obtain out where out: "fold_err ?f (p_Env p) [] = Inr out"
    using assms by (auto simp: validateEnv_def split: sum.splits)
  show "\<forall>b \<in> set (p_Env p). env_ok p b"
    using fold_err_trace[OF out] validate_env_Inr(1) by blast
  have "\<And>b s t. ?f b s = Inr t \<Longrightarrow> eb_Name b \<notin> set s \<and> t = s @ [eb_Name b]"
    using validate_env_Inr by blast
  from fold_err_keys[OF this out] show "distinct (map eb_Name (p_Env p))" by simp
qed

lemma validateBindings_ok:
  assumes "validateBindings p = None"
  shows "volumes_ok (p_GuestHome p) (p_Volumes p)" "\<forall>b \<in> set (p_Files p). file_ok p b"
    "\<forall>b \<in> set (p_Env p). env_ok p b" "distinct (SecretNames (p_Secrets p))" "distinct (map fb_Path (p_Files p))"
proof -
  obtain declared where d: "validateSecrets p = Inr declared" "validateVolumes p = None"
      "validateFiles p declared = None" "validateEnv p declared = None"
    using assms by (auto simp: validateBindings_def simp del: first_err.simps split: sum.splits)
  note names = validate_secrets_declared[OF d(1)]
  show "volumes_ok (p_GuestHome p) (p_Volumes p)" by (rule validateVolumes_ok[OF d(2)])
  show "\<forall>b \<in> set (p_Files p). file_ok p b" "distinct (map fb_Path (p_Files p))"
    using validateFiles_ok d(3) names by auto
  show "\<forall>b \<in> set (p_Env p). env_ok p b" using validateEnv_ok d(4) names by auto
  show "distinct (SecretNames (p_Secrets p))" using names by simp
qed

end
