(* ===== verification/Wrap_Deliver.thy ===== *)
theory Wrap_Deliver
  imports Net_Addr Profile_Validate
begin

text \<open>
  Handing a sandbox its secret files: \<open>internal/wrap/secretfiles.go\<close> and \<open>deliverBrigCA\<close> of
  \<open>internal/wrap/briginternal.go\<close>. Every step runs a command in the guest as root, through
  \<open>Runtime.Output\<close> and \<open>Runtime.Feed\<close>, and the guest decides what each answers: it is a parameter, a
  function of all that was asked before and of the command, so no command is assumed to work. The
  state is the trace of the commands and their answers.
\<close>

subsection \<open>Commands in the guest\<close>

record exec_spec =
  es_Name :: string
  es_User :: string
  es_Cmd :: "string list"

datatype call = Output exec_spec | Feed exec_spec string

text \<open>An answer is what the command printed, or \<open>None\<close> when it failed.\<close>

type_synonym trace = "(call \<times> string option) list"
type_synonym guest = "trace \<Rightarrow> call \<Rightarrow> string option"

datatype deliver_error =
    CACreate | CAWrite | CASize | CABundle
  | MountTable | MovedMount string string | PinTarget string | Pin string | AtCreate string string
  | Cover string | BindTarget string | BindBack string | NotMounted string
  | NoFstype string | NotEphemeral string string | NotKept string | NoSwaps | SwapOn string
  | DeliverRef string ref_error | DeliverMode string mode_error | EmptyValue string
  | FileCreate string | FileUnread string | NotRegular string string string | OnDisk string string
  | FileWrite string | SizeUnread string | SizeWrong string string nat | Chown string string

type_synonym 'a act = "trace \<Rightarrow> (deliver_error + 'a) \<times> trace"

definition ret :: "'a \<Rightarrow> 'a act" where
  "ret x tr = (Inr x, tr)"

definition stop :: "deliver_error \<Rightarrow> 'a act" where
  "stop e tr = (Inl e, tr)"

definition and_then :: "'a act \<Rightarrow> ('a \<Rightarrow> 'b act) \<Rightarrow> 'b act" where
  "and_then m f tr = (case m tr of (Inl e, t) \<Rightarrow> (Inl e, t) | (Inr x, t) \<Rightarrow> f x t)"

fun each :: "('a \<Rightarrow> unit act) \<Rightarrow> 'a list \<Rightarrow> unit act" where
  "each f [] = ret ()"
| "each f (x # xs) = and_then (f x) (\<lambda>_. each f xs)"

definition require :: "bool \<Rightarrow> deliver_error \<Rightarrow> unit act" where
  "require ok e = (if ok then ret () else stop e)"

definition persistRoot :: string where "persistRoot = ''/run/brig/persist''"
definition guestRootUser :: string where "guestRootUser = ''root''"

record deliver_config =
  dc_Profile :: full_profile
  dc_VMName :: string
  dc_values :: "(string \<times> string) list"
  dc_brigCA :: string
  dc_MaxFeed :: nat

definition root_exec :: "deliver_config \<Rightarrow> string list \<Rightarrow> exec_spec" where
  "root_exec c argv = \<lparr>es_Name = dc_VMName c, es_User = guestRootUser, es_Cmd = argv\<rparr>"

definition guestOutput :: "guest \<Rightarrow> deliver_config \<Rightarrow> deliver_error \<Rightarrow> string list \<Rightarrow> string act" where
  "guestOutput g c e argv tr =
     (let call = Output (root_exec c argv); answer = g tr call in
      (case answer of None \<Rightarrow> Inl e | Some out \<Rightarrow> Inr out, tr @ [(call, answer)]))"

definition guestRoot :: "guest \<Rightarrow> deliver_config \<Rightarrow> deliver_error \<Rightarrow> string list \<Rightarrow> unit act" where
  "guestRoot g c e argv = and_then (guestOutput g c e argv) (\<lambda>_. ret ())"

definition feed_cmd :: "string \<Rightarrow> string list" where
  "feed_cmd target = [''sh'', ''-c'', ''cat >> \"$1\"'', ''sh'', target]"

definition feed :: "guest \<Rightarrow> deliver_config \<Rightarrow> deliver_error \<Rightarrow> string \<Rightarrow> string \<Rightarrow> unit act" where
  "feed g c e target piece tr =
     (let call = Feed (root_exec c (feed_cmd target)) piece; answer = g tr call in
      (case answer of None \<Rightarrow> Inl e | Some _ \<Rightarrow> Inr (), tr @ [(call, answer)]))"

text \<open>
  A value goes over in pieces of the runtime's limit; a limit of 0 stands for a runtime without
  one. The fuel is the length of the value, enough since a piece is not empty.
\<close>

fun pieces :: "nat \<Rightarrow> nat \<Rightarrow> string \<Rightarrow> string list" where
  "pieces 0 k s = []"
| "pieces (Suc n) k s = (if s = [] then [] else take k s # pieces n k (drop k s))"

definition piece_size :: "deliver_config \<Rightarrow> string \<Rightarrow> nat" where
  "piece_size c value =
     (if 0 < dc_MaxFeed c \<and> dc_MaxFeed c < length value then dc_MaxFeed c else length value)"

definition value_pieces :: "deliver_config \<Rightarrow> string \<Rightarrow> string list" where
  "value_pieces c value = pieces (length value) (piece_size c value) value"

subsection \<open>Paths in the guest\<close>

definition join_path :: "string \<Rightarrow> string \<Rightarrow> string" where
  "join_path base rel = trim_suffix ''/'' base @ ''/'' @ rel"

definition guestPath_of :: "deliver_config \<Rightarrow> string \<Rightarrow> string" where
  "guestPath_of c rel = join_path (p_GuestHome (dc_Profile c)) rel"

definition best_at :: "volume list \<Rightarrow> string \<Rightarrow> volume option" where
  "best_at ts rel =
     fold (\<lambda>t best.
        if v_At t = [] \<or> (rel \<noteq> v_Path t \<and> \<not> Under rel (v_Path t)) then best
        else case best of
               None \<Rightarrow> Some t
             | Some b \<Rightarrow> if Under (v_Path t) (v_Path b) then Some t else Some b) ts None"

definition mountTarget :: "deliver_config \<Rightarrow> string \<Rightarrow> string" where
  "mountTarget c rel =
     (case best_at (Tmpfs (p_Volumes (dc_Profile c))) rel of
        None \<Rightarrow> guestPath_of c rel
      | Some best \<Rightarrow>
          if rel = v_Path best then v_At best
          else v_At best @ trim_prefix (Clean (v_Path best)) (Clean rel))"

definition slashDir :: "string \<Rightarrow> string" where
  "slashDir p =
     (if slash \<in> set p then rev (drop 1 (dropWhile (\<lambda>c. c \<noteq> slash) (rev p))) else ''.'')"

fun escape_char :: "char \<Rightarrow> string" where
  "escape_char c = (if c = CHR ''%'' then ''%25'' else if c = slash then ''%2F'' else [c])"

definition pinPath :: "string \<Rightarrow> string" where
  "pinPath rel = persistRoot @ ''/'' @ concat (map escape_char rel)"

definition nonEmptyLines :: "string \<Rightarrow> string list" where
  "nonEmptyLines s = filter (\<lambda>line. trim_space line \<noteq> []) (split_on CHR 0x0A s)"

text \<open>\<open>strings.Fields\<close>: \<open>skip\<close> counts the bytes left of the white space being passed.\<close>

fun fields_from :: "nat \<Rightarrow> string \<Rightarrow> string \<Rightarrow> string list" where
  "fields_from k word [] = (if word = [] then [] else [rev word])"
| "fields_from (Suc k) word (c # s) = fields_from k word s"
| "fields_from 0 word (c # s) =
     (case leading_space (c # s) of
        None \<Rightarrow> fields_from 0 (c # word) s
      | Some r \<Rightarrow> if word = [] then fields_from (length r - 1) [] s
                  else rev word # fields_from (length r - 1) [] s)"

definition Fields :: "string \<Rightarrow> string list" where
  "Fields s = fields_from 0 [] s"

definition mountpoints_in :: "string \<Rightarrow> string list" where
  "mountpoints_in out =
     concat (map (\<lambda>line. if 4 < length (Fields line) then [Fields line ! 4] else []) (nonEmptyLines out))"

definition guestMountpoints :: "guest \<Rightarrow> deliver_config \<Rightarrow> string list act" where
  "guestMountpoints g c =
     and_then (guestOutput g c MountTable [''cat'', ''/proc/self/mountinfo'']) (\<lambda>out. ret (mountpoints_in out))"

definition fstype_cmd :: "string \<Rightarrow> string list" where
  "fstype_cmd target = [''stat'', ''-f'', ''-c'', ''%T'', target]"

definition guestFstype :: "guest \<Rightarrow> deliver_config \<Rightarrow> string \<Rightarrow> string act" where
  "guestFstype g c target =
     and_then (guestOutput g c (NoFstype target) (fstype_cmd target)) (\<lambda>out. ret (trim_space out))"

definition createGuestTarget :: "guest \<Rightarrow> deliver_config \<Rightarrow> deliver_error \<Rightarrow> string \<Rightarrow> bool \<Rightarrow> unit act" where
  "createGuestTarget g c e target file =
     (if file then guestRoot g c e [''sh'', ''-c'',
        ''set -e; mkdir -p -- \"$(dirname \"$1\")\"; [ -e \"$1\" ] || : > \"$1\"'', ''sh'', target]
      else guestRoot g c e [''mkdir'', ''-p'', target])"

subsection \<open>The volumes\<close>

definition covered_by :: "volume list \<Rightarrow> volume \<Rightarrow> volume option" where
  "covered_by cover h =
     fold (\<lambda>t found.
        if Under (v_Path h) (v_Path t)
        then (case found of None \<Rightarrow> Some t | Some f \<Rightarrow> if Under (v_Path t) (v_Path f) then Some t else found)
        else found) cover None"

definition pinning :: "volume list \<Rightarrow> volume \<Rightarrow> bool" where
  "pinning cover h \<longleftrightarrow> (case covered_by cover h of None \<Rightarrow> False | Some t \<Rightarrow> v_At t = [])"

definition relocating :: "volume list \<Rightarrow> volume \<Rightarrow> bool" where
  "relocating cover h \<longleftrightarrow> (case covered_by cover h of None \<Rightarrow> False | Some t \<Rightarrow> v_At t \<noteq> [])"

text \<open>The tmpfs volumes that are not mounted yet, or the one an older profile left in the home.\<close>

fun to_cover :: "deliver_config \<Rightarrow> string list \<Rightarrow> volume list \<Rightarrow> deliver_error + volume list" where
  "to_cover c mounted [] = Inr []"
| "to_cover c mounted (v # vs) =
     (if mountTarget c (v_Path v) \<in> set mounted then to_cover c mounted vs
      else if v_At v \<noteq> [] \<and> guestPath_of c (v_Path v) \<in> set mounted then Inl (MovedMount (v_Path v) (v_At v))
      else bind_err (to_cover c mounted vs) (\<lambda>cover. Inr (v # cover)))"

definition bind_mount :: "guest \<Rightarrow> deliver_config \<Rightarrow> deliver_error \<Rightarrow> string \<Rightarrow> string \<Rightarrow> unit act" where
  "bind_mount g c e from onto = guestRoot g c e [''mount'', ''--bind'', from, onto]"

definition pin :: "guest \<Rightarrow> deliver_config \<Rightarrow> volume list \<Rightarrow> string list \<Rightarrow> volume \<Rightarrow> unit act" where
  "pin g c cover mounted h =
     (if \<not> pinning cover h \<or> pinPath (v_Path h) \<in> set mounted then ret ()
      else and_then (createGuestTarget g c (PinTarget (v_Path h)) (pinPath (v_Path h)) (v_File h))
             (\<lambda>_. bind_mount g c (Pin (v_Path h)) (guestPath_of c (v_Path h)) (pinPath (v_Path h))))"

definition tmpfs_cmd :: "deliver_config \<Rightarrow> volume \<Rightarrow> string list" where
  "tmpfs_cmd c t = [''mount'', ''-t'', ''tmpfs'', ''-o'', TmpfsOptions t, ''tmpfs'', mountTarget c (v_Path t)]"

definition cover_with :: "guest \<Rightarrow> deliver_config \<Rightarrow> volume \<Rightarrow> unit act" where
  "cover_with g c t =
     and_then (if v_At t \<noteq> [] then guestRoot g c (AtCreate (v_At t) (v_Path t)) [''mkdir'', ''-p'', v_At t] else ret ())
       (\<lambda>_. guestRoot g c (Cover (v_Path t)) (tmpfs_cmd c t))"

definition bind_back :: "guest \<Rightarrow> deliver_config \<Rightarrow> volume list \<Rightarrow> volume \<Rightarrow> unit act" where
  "bind_back g c cover h =
     (if relocating cover h then
        and_then (createGuestTarget g c (BindTarget (v_Path h)) (mountTarget c (v_Path h)) (v_File h))
          (\<lambda>_. bind_mount g c (BindBack (v_Path h)) (guestPath_of c (v_Path h)) (mountTarget c (v_Path h)))
      else if \<not> pinning cover h then ret ()
      else and_then (createGuestTarget g c (BindTarget (v_Path h)) (guestPath_of c (v_Path h)) (v_File h))
             (\<lambda>_. bind_mount g c (BindBack (v_Path h)) (pinPath (v_Path h)) (guestPath_of c (v_Path h))))"

definition mount_phases :: "guest \<Rightarrow> deliver_config \<Rightarrow> volume list \<Rightarrow> string list \<Rightarrow> string list act" where
  "mount_phases g c cover mounted =
     (let hs = HostMounts (p_Volumes (dc_Profile c)) in
      and_then (each (pin g c cover mounted) hs) (\<lambda>_.
      and_then (each (cover_with g c) cover) (\<lambda>_.
      and_then (each (bind_back g c cover) hs) (\<lambda>_.
      guestMountpoints g c))))"

definition mountVolumes :: "guest \<Rightarrow> deliver_config \<Rightarrow> unit act" where
  "mountVolumes g c =
     and_then (guestMountpoints g c) (\<lambda>mounted.
       case to_cover c mounted (Tmpfs (p_Volumes (dc_Profile c))) of
         Inl e \<Rightarrow> stop e
       | Inr cover \<Rightarrow>
           and_then (if cover \<noteq> [] then mount_phases g c cover mounted else ret mounted) (\<lambda>mounted.
             each (\<lambda>h. require (mountTarget c (v_Path h) \<in> set mounted) (NotMounted (v_Path h)))
               (HostMounts (p_Volumes (dc_Profile c)))))"

definition verify_tmpfs :: "guest \<Rightarrow> deliver_config \<Rightarrow> volume \<Rightarrow> unit act" where
  "verify_tmpfs g c v =
     and_then (guestFstype g c (mountTarget c (v_Path v)))
       (\<lambda>fstype. require (fstype = ''tmpfs'') (NotEphemeral (v_Path v) fstype))"

definition verify_hostmount :: "guest \<Rightarrow> deliver_config \<Rightarrow> volume \<Rightarrow> unit act" where
  "verify_hostmount g c v =
     and_then (guestFstype g c (mountTarget c (v_Path v)))
       (\<lambda>fstype. require (fstype \<noteq> ''tmpfs'') (NotKept (v_Path v)))"

definition verifyVolumes :: "guest \<Rightarrow> deliver_config \<Rightarrow> unit act" where
  "verifyVolumes g c =
     and_then (each (verify_tmpfs g c) (Tmpfs (p_Volumes (dc_Profile c)))) (\<lambda>_.
     and_then (each (verify_hostmount g c) (HostMounts (p_Volumes (dc_Profile c)))) (\<lambda>_.
     and_then (guestOutput g c NoSwaps [''cat'', ''/proc/swaps'']) (\<lambda>swaps.
       let lines = nonEmptyLines swaps in require (length lines \<le> 1) (SwapOn (lines ! 1)))))"

subsection \<open>The files\<close>

text \<open>\<open>%o\<close>, and \<open>%04o\<close> for the permission bits.\<close>

fun show_octal :: "nat \<Rightarrow> string" where
  "show_octal n = (if n < 8 then [digit_char n] else show_octal (n div 8) @ [digit_char (n mod 8)])"

declare show_octal.simps [simp del]

definition show_octal4 :: "nat \<Rightarrow> string" where
  "show_octal4 n = replicate (4 - length (show_octal n)) (CHR ''0'') @ show_octal n"

definition stat_cmd :: "string \<Rightarrow> string list" where
  "stat_cmd target = [''stat'', ''-c'', ''%F|%U|%a'', target]"

definition regular_as :: "string \<Rightarrow> nat \<Rightarrow> string \<Rightarrow> bool" where
  "regular_as user mode got \<longleftrightarrow>
     (case cut_char CHR ''|'' (trim_space got) of (kind, rest, _) \<Rightarrow>
        has_prefix ''regular '' kind \<and> rest = user @ ''|'' @ show_octal mode)"

definition verifySecretFile :: "guest \<Rightarrow> deliver_config \<Rightarrow> file_binding \<Rightarrow> string \<Rightarrow> string \<Rightarrow> nat \<Rightarrow> unit act" where
  "verifySecretFile g c b target user mode =
     and_then (guestOutput g c (FileUnread (fb_Path b)) (stat_cmd target)) (\<lambda>got.
     and_then (require (regular_as user mode got)
                (NotRegular (fb_Path b) (trim_space got) (user @ ''|'' @ show_octal mode))) (\<lambda>_.
     and_then (guestFstype g c target) (\<lambda>fstype.
       require (fstype = ''tmpfs'') (OnDisk (fb_Path b) fstype))))"

definition create_script :: string where
  "create_script = ''set -e; rm -f -- \"$1\"; umask 077; set -C; : > \"$1\"; chown \"$2\" \"$1\"; chmod \"$3\" \"$1\"''"

definition writeSecretFile :: "guest \<Rightarrow> deliver_config \<Rightarrow> file_binding \<Rightarrow> unit act" where
  "writeSecretFile g c b =
     (case ParseBindingRef (fb_Ref b) of
        Inl e \<Rightarrow> stop (DeliverRef (fb_Path b) e)
      | Inr r \<Rightarrow>
          (case FileMode b of
             Inl e \<Rightarrow> stop (DeliverMode (fb_Path b) e)
           | Inr mode \<Rightarrow>
               (let target = mountTarget c (fb_Path b); user = GuestUser (dc_Profile c);
                    value = (case map_of (dc_values c) (br_Name r) of None \<Rightarrow> [] | Some v \<Rightarrow> v) in
                if value = [] then stop (EmptyValue (fb_Path b))
                else
                  and_then (guestRoot g c (FileCreate (fb_Path b))
                              [''sh'', ''-c'', create_script, ''sh'', target, user, show_octal4 mode]) (\<lambda>_.
                  and_then (verifySecretFile g c b target user mode) (\<lambda>_.
                  and_then (each (feed g c (FileWrite (fb_Path b)) target) (value_pieces c value)) (\<lambda>_.
                  and_then (guestOutput g c (SizeUnread (fb_Path b)) [''stat'', ''-c'', ''%s'', target]) (\<lambda>size.
                    require (trim_space size = show_nat (length value))
                      (SizeWrong (fb_Path b) (trim_space size) (length value)))))))))"

text \<open>The directories from one up to a tmpfs root. The fuel is the length of the path.\<close>

fun dirs_up :: "nat \<Rightarrow> string \<Rightarrow> string \<Rightarrow> string list" where
  "dirs_up 0 root dir = []"
| "dirs_up (Suc n) root dir = (if Under dir root then dir # dirs_up n root (slashDir dir) else [])"

definition add_dir :: "deliver_config \<Rightarrow> string \<Rightarrow> string list \<Rightarrow> string list" where
  "add_dir c dir out = (let guest = mountTarget c dir in if guest \<in> set out then out else out @ [guest])"

definition credentialDirs :: "deliver_config \<Rightarrow> file_binding list \<Rightarrow> string list" where
  "credentialDirs c files =
     fold (\<lambda>t out.
        fold (\<lambda>b out.
           if Under (fb_Path b) (v_Path t)
           then fold (add_dir c) (dirs_up (length (fb_Path b)) (v_Path t) (slashDir (fb_Path b))) out
           else out)
          files (out @ [mountTarget c (v_Path t)]))
       (Tmpfs (p_Volumes (dc_Profile c))) []"

definition slashes :: "string \<Rightarrow> nat" where
  "slashes p = length (filter (\<lambda>c. c = slash) p)"

definition chownGuest :: "guest \<Rightarrow> deliver_config \<Rightarrow> string list \<Rightarrow> string \<Rightarrow> unit act" where
  "chownGuest g c dirs user =
     (let ordered = sort_key slashes dirs in
      each (\<lambda>dir. guestRoot g c (Chown dir user) [''chown'', user, dir])
        (if user \<noteq> guestRootUser then rev ordered else ordered))"

fun pending_files :: "deliver_config \<Rightarrow> file_binding list \<Rightarrow> deliver_error + file_binding list" where
  "pending_files c [] = Inr []"
| "pending_files c (b # bs) =
     (case ParseBindingRef (fb_Ref b) of
        Inl e \<Rightarrow> Inl (DeliverRef (fb_Path b) e)
      | Inr r \<Rightarrow> if map_of (dc_values c) (br_Name r) = None then pending_files c bs
                 else bind_err (pending_files c bs) (\<lambda>rest. Inr (b # rest)))"

text \<open>The deferred hand-over runs after a failed write too, and its own failure counts last.\<close>

definition finally_do :: "unit act \<Rightarrow> unit act \<Rightarrow> unit act" where
  "finally_do m clean tr =
     (case m tr of (r, t) \<Rightarrow> (case clean t of (r', t') \<Rightarrow> (case r of Inl e \<Rightarrow> Inl e | Inr _ \<Rightarrow> r', t')))"

definition writeSecretFiles :: "guest \<Rightarrow> deliver_config \<Rightarrow> unit act" where
  "writeSecretFiles g c =
     (case pending_files c (p_Files (dc_Profile c)) of
        Inl e \<Rightarrow> stop e
      | Inr pending \<Rightarrow>
          if pending = [] then ret ()
          else
            (let dirs = credentialDirs c pending in
             and_then (chownGuest g c dirs guestRootUser) (\<lambda>_.
               finally_do (each (writeSecretFile g c) pending)
                 (chownGuest g c dirs (GuestUser (dc_Profile c))))))"

definition releaseTmpfs :: "guest \<Rightarrow> deliver_config \<Rightarrow> unit act" where
  "releaseTmpfs g c =
     chownGuest g c (map (\<lambda>t. mountTarget c (v_Path t)) (Tmpfs (p_Volumes (dc_Profile c)))) (GuestUser (dc_Profile c))"

subsection \<open>The brig CA and the whole delivery\<close>

definition GuestCAPath :: string where "GuestCAPath = ''/brig/ca/brig.pem''"
definition GuestCABundlePath :: string where "GuestCABundlePath = ''/brig/ca/bundle.pem''"

definition caBundleSources :: "string list" where
  "caBundleSources = [''/etc/ssl/certs/ca-certificates.crt'', ''/etc/pki/tls/certs/ca-bundle.crt'', ''/etc/ssl/cert.pem'']"

definition caCreateScript :: string where
  "caCreateScript =
     ''set -e; for d in \"$(dirname \"$1\")\" \"$1\"; do [ ! -L \"$d\" ] || { echo \"$d is a link\" >&2; exit 1; }; done; ''
     @ ''mkdir -p -m 0755 \"$1\"; chown root \"$1\"; chmod 0755 \"$1\"; rm -f -- \"$2\" \"$3\" \"$3.new\"; umask 022; set -C; : > \"$2\"''"

definition caSizeScript :: string where
  "caSizeScript = ''[ \"$(stat -c %s \"$1\")\" = \"$2\" ]''"

definition caBundleScript :: string where
  "caBundleScript =
     ''set -e; umask 022; set -C; out=\"$1\"; ca=\"$2\"; shift 2; : > \"$out.new\"; ''
     @ ''for f in \"$@\"; do if [ -f \"$f\" ]; then cat \"$f\" >> \"$out.new\"; echo >> \"$out.new\"; break; fi; done; ''
     @ ''cat \"$ca\" >> \"$out.new\"; mv -f \"$out.new\" \"$out\"''"

definition deliverBrigCA :: "guest \<Rightarrow> deliver_config \<Rightarrow> unit act" where
  "deliverBrigCA g c =
     (if dc_brigCA c = [] then ret ()
      else
        and_then (guestRoot g c CACreate [''sh'', ''-c'', caCreateScript, ''sh'', ''/brig/ca'', GuestCAPath, GuestCABundlePath]) (\<lambda>_.
        and_then (each (feed g c CAWrite GuestCAPath) (value_pieces c (dc_brigCA c))) (\<lambda>_.
        and_then (guestRoot g c CASize [''sh'', ''-c'', caSizeScript, ''sh'', GuestCAPath, show_nat (length (dc_brigCA c))]) (\<lambda>_.
        guestRoot g c CABundle ([''sh'', ''-c'', caBundleScript, ''sh'', GuestCABundlePath, GuestCAPath] @ caBundleSources)))))"

definition deliverSecretFiles :: "guest \<Rightarrow> deliver_config \<Rightarrow> unit act" where
  "deliverSecretFiles g c =
     and_then (deliverBrigCA g c) (\<lambda>_.
       if p_Volumes (dc_Profile c) = [] \<and> p_Files (dc_Profile c) = [] then ret ()
       else and_then (mountVolumes g c) (\<lambda>_.
            and_then (verifyVolumes g c) (\<lambda>_.
            and_then (writeSecretFiles g c) (\<lambda>_.
            releaseTmpfs g c))))"

definition createTimeVolumes :: "deliver_config \<Rightarrow> bool \<Rightarrow> string \<Rightarrow> string list \<times> (string \<times> string) list" where
  "createTimeVolumes c is_hull home =
     (if is_hull then ([], [])
      else
        (let vs = MountOrder (p_Volumes (dc_Profile c)) in
         (map (\<lambda>v. mountTarget c (v_Path v) @ '':'' @ TmpfsOptions v) (filter (\<lambda>v. v_Kind v = VolumeTmpfs) vs),
          map (\<lambda>v. (Clean (home @ ''/'' @ v_Path v), mountTarget c (v_Path v)))
            (filter (\<lambda>v. v_Kind v = VolumeHostMount) vs))))"

end
