(* ===== verification/Wrap_Paths.thy ===== *)
theory Wrap_Paths
  imports Wrap_Deliver "HOL-Library.Sublist"
begin

text \<open>
  Where the paths of a profile end up in the guest. For a profile whose volumes pass
  \<open>validateVolumes\<close>, \<open>mountTarget\<close> keeps the order of paths: one target is at or below another
  exactly when the paths are, whether a tmpfs of the home or one with \<open>at:\<close> covers them. The pins
  lie apart from all of them.
\<close>

subsection \<open>Absolute paths\<close>

definition abs_parts :: "string \<Rightarrow> string list \<Rightarrow> bool" where
  "abs_parts p es \<longleftrightarrow> es \<noteq> [] \<and> (\<forall>e \<in> set es. plain_element e) \<and> path_parts p = [] # es"

lemma path_parts_slash: "path_parts (slash # q) = [] # path_parts q"
  by (simp add: path_parts_def)

lemma Clean_abs: "abs_parts p es \<Longrightarrow> Clean p = p"
proof -
  assume p: "abs_parts p es"
  then have "slash # join_with ''/'' es = join_with ''/'' (path_parts p)"
    using join_with_Nil_head[of es "''/''"] by (simp add: abs_parts_def del: join_parts)
  then have eq: "slash # join_with ''/'' es = p" by simp
  then have "rooted p" by (auto simp: rooted_def has_prefix_iff)
  moreover have "clean_parts True [] (path_parts p) = es" using p by (simp add: abs_parts_def clean_parts_plain)
  ultimately show ?thesis by (simp only: Clean_def Let_def if_True eq)
qed

lemma abs_partsI:
  assumes "Clean p = p" "rooted p" "p \<noteq> ''/''"
  shows "\<exists>es. abs_parts p es"
proof -
  let ?es = "clean_parts True [] (path_parts p)"
  have "climbs_first True ?es"
    by (rule clean_parts_climb) (auto simp: climbs_first_def path_parts_no_slash)
  then have plain: "\<forall>e \<in> set ?es. plain_element e" by (auto simp: climbs_first_def)
  have p: "p = slash # join_with ''/'' ?es" using assms(1,2) by (simp add: Clean_def Let_def)
  then have "?es \<noteq> []" using assms(3) by auto
  then have "path_parts p = [] # ?es" using p plain path_parts_slash path_parts_join by metis
  then show ?thesis using plain \<open>?es \<noteq> []\<close> unfolding abs_parts_def by blast
qed

lemma tmpfsAt_parts:
  assumes "tmpfsAt at home = None"
  shows "\<exists>es. abs_parts at es \<and> hd es \<noteq> ''run''"
    and "home \<noteq> [] \<Longrightarrow> at \<noteq> home \<and> \<not> Profile_Volumes.Under at home \<and> \<not> Profile_Volumes.Under home at"
proof -
  have checks: "has_prefix ''/'' at" "Clean at = at" "at \<noteq> ''/''"
      "home \<noteq> [] \<longrightarrow> at \<noteq> home \<and> \<not> Profile_Volumes.Under at home \<and> \<not> Profile_Volumes.Under home at"
      "slash # (path_parts at ! 1) \<notin> set systemTrees"
    using assms by (auto simp: tmpfsAt_def Let_def simp del: first_err.simps)
  then obtain es where es: "abs_parts at es" using abs_partsI[of at] by (auto simp: rooted_def)
  then have "path_parts at ! 1 = hd es" by (auto simp: abs_parts_def hd_conv_nth)
  moreover have "slash # ''run'' \<in> set systemTrees" by (simp add: systemTrees_def)
  ultimately have "hd es \<noteq> ''run''" using checks(5) by metis
  then show "\<exists>es. abs_parts at es \<and> hd es \<noteq> ''run''" using es by blast
  show "home \<noteq> [] \<Longrightarrow> at \<noteq> home \<and> \<not> Profile_Volumes.Under at home \<and> \<not> Profile_Volumes.Under home at" using checks(4) by blast
qed

subsection \<open>Profiles whose volumes can be laid out\<close>

abbreviation home_of :: "deliver_config \<Rightarrow> string" where "home_of c \<equiv> p_GuestHome (dc_Profile c)"
abbreviation vols_of :: "deliver_config \<Rightarrow> volume list" where "vols_of c \<equiv> p_Volumes (dc_Profile c)"

definition home_ok :: "string \<Rightarrow> bool" where
  "home_ok home \<longleftrightarrow> (\<exists>es. abs_parts home es \<and> hd es \<noteq> ''run'')"

definition laid_out :: "deliver_config \<Rightarrow> bool" where
  "laid_out c \<longleftrightarrow> volumes_ok (home_of c) (vols_of c) \<and> home_ok (home_of c)"

abbreviation at_or_below :: "string \<Rightarrow> string \<Rightarrow> bool" where
  "at_or_below p q \<equiv> prefix (path_parts p) (path_parts q)"

definition target_parts :: "deliver_config \<Rightarrow> string \<Rightarrow> string list" where
  "target_parts c x = path_parts (mountTarget c x)"

definition home_parts :: "deliver_config \<Rightarrow> string list" where
  "home_parts c = path_parts (home_of c)"

definition relocated :: "deliver_config \<Rightarrow> volume \<Rightarrow> string \<Rightarrow> bool" where
  "relocated c t x \<longleftrightarrow> t \<in> set (Tmpfs (vols_of c)) \<and> v_At t \<noteq> [] \<and> at_or_below (v_Path t) x"

lemma at_or_below_iff:
  "clean_rel p \<Longrightarrow> clean_rel q \<Longrightarrow> at_or_below p q \<longleftrightarrow> q = p \<or> Profile_Volumes.Under q p"
  by (auto simp: Under_clean strict_prefix_def path_parts_inject)

lemma laid_out_volume:
  assumes "laid_out c" "v \<in> set (vols_of c)"
  shows "clean_rel (v_Path v)" "v_Kind v = VolumeTmpfs \<or> v_Kind v = VolumeHostMount"
  using assms by (auto simp: laid_out_def volumes_ok_def volume_ok_def)

lemma laid_out_in:
  "laid_out c \<Longrightarrow> t \<in> set (Tmpfs (vols_of c)) \<Longrightarrow> clean_rel (v_Path t)"
  "laid_out c \<Longrightarrow> h \<in> set (HostMounts (vols_of c)) \<Longrightarrow> clean_rel (v_Path h)"
  using laid_out_volume(1) by (auto simp: set_Tmpfs set_HostMounts)

lemma same_path:
  assumes "laid_out c" "s \<in> set (vols_of c)" "t \<in> set (vols_of c)" "v_Path s = v_Path t"
  shows "s = t"
  using assms unfolding laid_out_def volumes_ok_def by (auto simp: distinct_map inj_on_def)

text \<open>Two tmpfs volumes over one path are the same when one of them is mounted elsewhere.\<close>

lemma no_nest:
  assumes "laid_out c" "s \<in> set (Tmpfs (vols_of c))" "t \<in> set (Tmpfs (vols_of c))" "v_At s \<noteq> [] \<or> v_At t \<noteq> []"
    and "at_or_below (v_Path s) x" "at_or_below (v_Path t) x"
  shows "s = t"
proof -
  have nest: "\<not> relocated_nest s t" using assms(1-3) by (simp add: laid_out_def volumes_ok_def)
  have "at_or_below (v_Path s) (v_Path t) \<or> at_or_below (v_Path t) (v_Path s)"
    using assms(5,6) by (rule prefix_same_cases)
  then have "v_Path s = v_Path t"
    using nest assms laid_out_in(1)[OF assms(1)] by (auto simp: relocated_nest_def at_or_below_iff)
  then show ?thesis using same_path[OF assms(1)] assms(2,3) by (simp add: set_Tmpfs)
qed

lemma home_facts:
  assumes "laid_out c"
  obtains es where "abs_parts (home_of c) es" "hd es \<noteq> ''run''" "home_parts c = [] # es"
  using assms by (auto simp: laid_out_def home_ok_def home_parts_def abs_parts_def)

lemma guestPath_parts:
  assumes "laid_out c"
  shows "path_parts (guestPath_of c x) = home_parts c @ path_parts x"
proof -
  obtain es where es: "abs_parts (home_of c) es" using home_facts[OF assms] by blast
  have "\<not> has_suffix ''/'' (home_of c)"
  proof
    assume "has_suffix ''/'' (home_of c)"
    then obtain t where "home_of c = t @ ''/''" by (auto simp: has_suffix_iff)
    then have "path_parts (home_of c) = path_parts t @ [[]]" using path_parts_join2[of t "[]"] by (simp add: path_parts_def)
    then have "[] # es = path_parts t @ [[]]" using es by (simp add: abs_parts_def)
    then have "last ([] # es) = []" by simp
    then have "[] \<in> set es" using es by (metis abs_parts_def last_ConsR last_in_set)
    then show False using es by (auto simp: abs_parts_def plain_element_def)
  qed
  then show ?thesis
    by (simp add: guestPath_of_def join_path_def trim_suffix_def path_parts_join2 home_parts_def)
qed

lemma at_facts:
  assumes "laid_out c" "t \<in> set (Tmpfs (vols_of c))" "v_At t \<noteq> []"
  obtains es where "abs_parts (v_At t) es" "hd es \<noteq> ''run''"
    "\<not> prefix (path_parts (v_At t)) (home_parts c)" "\<not> prefix (home_parts c) (path_parts (v_At t))"
proof -
  have at: "tmpfsAt (v_At t) (home_of c) = None"
    using assms by (auto simp: laid_out_def volumes_ok_def set_Tmpfs)
  obtain hs where home: "abs_parts (home_of c) hs" using home_facts[OF assms(1)] by blast
  then have "home_of c \<noteq> []" by (auto simp: abs_parts_def path_parts_def)
  obtain es where es: "abs_parts (v_At t) es" "hd es \<noteq> ''run''" using tmpfsAt_parts(1)[OF at] by blast
  have "v_At t \<noteq> home_of c" "\<not> Profile_Volumes.Under (v_At t) (home_of c)" "\<not> Profile_Volumes.Under (home_of c) (v_At t)"
    using tmpfsAt_parts(2)[OF at \<open>home_of c \<noteq> []\<close>] by blast+
  then have "\<not> prefix (path_parts (v_At t)) (home_parts c)" "\<not> prefix (home_parts c) (path_parts (v_At t))"
    using Clean_abs[OF es(1)] Clean_abs[OF home]
    by (auto simp: home_parts_def Under_simplest strict_prefix_def path_parts_inject)
  then show thesis using that es by blast
qed

lemma ats_differ:
  assumes "laid_out c" "s \<in> set (Tmpfs (vols_of c))" "t \<in> set (Tmpfs (vols_of c))" "v_At s \<noteq> []" "v_At t \<noteq> []"
    and "prefix (path_parts (v_At s)) (path_parts (v_At t))"
  shows "s = t"
proof (rule ccontr)
  assume "s \<noteq> t"
  then have "apart (v_At s) (v_At t)"
    using assms by (auto simp: laid_out_def volumes_ok_def ats_apart_def pairwise_def)
  moreover obtain es fs where "abs_parts (v_At s) es" "abs_parts (v_At t) fs"
    using at_facts[OF assms(1)] assms(2-5) by metis
  ultimately show False
    using assms(6) Clean_abs by (auto simp: apart_def Under_simplest strict_prefix_def path_parts_inject)
qed

subsection \<open>The target of a path\<close>

lemma best_at_Some:
  "best_at ts x = Some b \<Longrightarrow> b \<in> set ts \<and> v_At b \<noteq> [] \<and> (x = v_Path b \<or> Profile_Volumes.Under x (v_Path b))"
proof -
  let ?step = "\<lambda>t best. if v_At t = [] \<or> (x \<noteq> v_Path t \<and> \<not> Profile_Volumes.Under x (v_Path t)) then best
        else case best of None \<Rightarrow> Some t | Some b \<Rightarrow> if Profile_Volumes.Under (v_Path t) (v_Path b) then Some t else Some b"
  have "fold ?step us best = Some b \<Longrightarrow>
      (\<forall>b. best = Some b \<longrightarrow> b \<in> set ts \<and> v_At b \<noteq> [] \<and> (x = v_Path b \<or> Profile_Volumes.Under x (v_Path b)))
      \<Longrightarrow> set us \<subseteq> set ts \<Longrightarrow> b \<in> set ts \<and> v_At b \<noteq> [] \<and> (x = v_Path b \<or> Profile_Volumes.Under x (v_Path b))" for us best
    by (induction us arbitrary: best) (auto split: if_splits option.splits)
  then show "best_at ts x = Some b \<Longrightarrow> ?thesis" by (simp add: best_at_def)
qed

lemma best_at_None:
  assumes "best_at ts x = None" "t \<in> set ts" "v_At t \<noteq> []"
  shows "x \<noteq> v_Path t \<and> \<not> Profile_Volumes.Under x (v_Path t)"
proof -
  let ?step = "\<lambda>t best. if v_At t = [] \<or> (x \<noteq> v_Path t \<and> \<not> Profile_Volumes.Under x (v_Path t)) then best
        else case best of None \<Rightarrow> Some t | Some b \<Rightarrow> if Profile_Volumes.Under (v_Path t) (v_Path b) then Some t else Some b"
  have stays: "fold ?step us (Some b) \<noteq> None" for us b
    by (induction us arbitrary: b) (auto split: if_splits)
  have "fold ?step us None = None \<Longrightarrow> t \<in> set us \<Longrightarrow> x \<noteq> v_Path t \<and> \<not> Profile_Volumes.Under x (v_Path t)" for us
    using assms(3) by (induction us) (auto simp: stays split: if_splits)
  then show ?thesis using assms(1,2) by (simp add: best_at_def)
qed

lemma target_cases:
  assumes ok: "laid_out c" and x: "clean_rel x"
  obtains (moved) t es where "relocated c t x" "path_parts x = path_parts (v_Path t) @ es"
      "target_parts c x = path_parts (v_At t) @ es"
  | (home) "\<forall>t. \<not> relocated c t x" "target_parts c x = home_parts c @ path_parts x"
proof (cases "best_at (Tmpfs (vols_of c)) x")
  case None
  then have "target_parts c x = home_parts c @ path_parts x"
    using guestPath_parts[OF ok] by (simp add: target_parts_def mountTarget_def)
  moreover have "\<forall>t. \<not> relocated c t x"
    using best_at_None[OF None] x laid_out_in(1)[OF ok] by (auto simp: relocated_def at_or_below_iff)
  ultimately show thesis by (rule home[rotated])
next
  case (Some t)
  note t = best_at_Some[OF Some]
  have clean: "clean_rel (v_Path t)" using laid_out_in(1)[OF ok] t by blast
  then have "at_or_below (v_Path t) x" using t x by (simp add: at_or_below_iff)
  then have reloc: "relocated c t x" using t by (simp add: relocated_def)
  show thesis
  proof (cases "x = v_Path t")
    case True
    then show thesis using moved[OF reloc, of "[]"] Some by (simp add: target_parts_def mountTarget_def)
  next
    case False
    then obtain es where es: "es \<noteq> []" "path_parts x = path_parts (v_Path t) @ es"
      using \<open>at_or_below (v_Path t) x\<close> by (metis append.right_neutral path_parts_inject prefix_def)
    then have "x = v_Path t @ slash # join_with ''/'' es"
      by (metis append_Cons append_Nil join_parts join_with_append path_parts_nonempty)
    moreover have "path_parts (join_with ''/'' es) = es"
    proof (rule path_parts_join[OF es(1)])
      show "\<forall>e \<in> set es. plain_element e" using x es(2) by (simp add: clean_rel_def)
    qed
    ultimately have "target_parts c x = path_parts (v_At t) @ es"
      using Some False clean x
      by (simp add: target_parts_def mountTarget_def clean_rel_fixed path_parts_join2)
    then show thesis by (rule moved[OF reloc es(2)])
  qed
qed

end
