(* ===== verification/Wrap_Mounts.thy ===== *)
theory Wrap_Mounts
  imports Wrap_Paths
begin

text \<open>
  What the mounts of a delivery leave behind. A mount table lists the mounts, the newest first, and
  a path resolves through the newest mount at or above it, which is how the kernel walks a stack of
  mounts that were each made through the ones before. A bind mount takes the place its source
  resolves to when it is made.
\<close>

subsection \<open>Mount tables\<close>

datatype place = Workspace "string list" | Memory nat "string list" | Outside "string list"

fun below :: "place \<Rightarrow> string list \<Rightarrow> place" where
  "below (Workspace p) es = Workspace (p @ es)"
| "below (Memory n p) es = Memory n (p @ es)"
| "below (Outside p) es = Outside (p @ es)"

type_synonym mount_table = "(string \<times> place) list"

fun resolve :: "mount_table \<Rightarrow> string list \<Rightarrow> place" where
  "resolve [] p = Outside p"
| "resolve ((m, b) # T) p =
     (if prefix (path_parts m) p then below b (drop (length (path_parts m)) p) else resolve T p)"

fun is_memory :: "place \<Rightarrow> bool" where
  "is_memory (Memory n p) \<longleftrightarrow> True"
| "is_memory p \<longleftrightarrow> False"

text \<open>What a command that succeeded does to the table, and the table a trace leaves.\<close>

definition mount_effect :: "string list \<Rightarrow> mount_table \<Rightarrow> mount_table" where
  "mount_effect argv T =
     (if take 2 argv = [''mount'', ''--bind''] \<and> length argv = 4
      then (argv ! 3, resolve T (path_parts (argv ! 2))) # T
      else if take 3 argv = [''mount'', ''-t'', ''tmpfs''] \<and> length argv = 7
      then (argv ! 6, Memory (length T) []) # T
      else T)"

fun apply_call :: "call \<times> string option \<Rightarrow> mount_table \<Rightarrow> mount_table" where
  "apply_call (Output x, Some out) T = mount_effect (es_Cmd x) T"
| "apply_call _ T = T"

definition table_after :: "mount_table \<Rightarrow> trace \<Rightarrow> mount_table" where
  "table_after base tr = fold apply_call tr base"

lemma table_after_append [simp]: "table_after base (tr @ [e]) = apply_call e (table_after base tr)"
  by (simp add: table_after_def)

lemma resolve_here [simp]: "path_parts m = p \<Longrightarrow> resolve ((m, b) # T) (p @ es) = below b es"
  by simp

lemma resolve_past [simp]: "\<not> prefix (path_parts m) p \<Longrightarrow> resolve ((m, b) # T) p = resolve T p"
  by simp

declare resolve.simps(2) [simp del]

subsection \<open>Targets and the order of paths\<close>

lemma target_of_tmpfs:
  assumes ok: "laid_out c" and t: "relocated c t x" and x: "clean_rel x" "path_parts x = path_parts (v_Path t) @ es"
  shows "target_parts c x = path_parts (v_At t) @ es"
  using ok x(1)
proof (cases rule: target_cases)
  case (moved u fs)
  then have "u = t" using no_nest[OF ok, of u t x] t by (auto simp: relocated_def)
  then show ?thesis using moved x(2) by simp
next
  case home
  then show ?thesis using t by blast
qed

lemma target_of_home:
  assumes "laid_out c" "clean_rel x" "\<forall>t. \<not> relocated c t x"
  shows "target_parts c x = home_parts c @ path_parts x"
  using assms(1,2) by (cases rule: target_cases) (use assms(3) in auto)

lemma comparable: "p @ es = q @ fs \<Longrightarrow> prefix p q \<or> prefix q p"
  by (auto simp: append_eq_append_conv2 prefix_def)

text \<open>A target at or below another one means the same of the paths.\<close>

lemma target_below:
  assumes ok: "laid_out c" and a: "clean_rel a" and b: "clean_rel b"
    and below: "target_parts c b = target_parts c a @ es"
  shows "path_parts b = path_parts a @ es"
  using ok a
proof (cases rule: target_cases)
  case ma: (moved t ea)
  show ?thesis using ok b
  proof (cases rule: target_cases)
    case mb: (moved u eb)
    have eq: "path_parts (v_At u) @ eb = path_parts (v_At t) @ ea @ es" using below ma(3) mb(3) by simp
    have at: "t \<in> set (Tmpfs (vols_of c))" "v_At t \<noteq> []" "u \<in> set (Tmpfs (vols_of c))" "v_At u \<noteq> []"
      using ma(1) mb(1) by (simp_all add: relocated_def)
    have "prefix (path_parts (v_At t)) (path_parts (v_At u)) \<or> prefix (path_parts (v_At u)) (path_parts (v_At t))"
      using comparable[OF eq] by blast
    then have "t = u" using ats_differ[OF ok] at by metis
    then show ?thesis using eq ma(2) mb(2) by simp
  next
    case hb: home
    have "home_parts c @ path_parts b = path_parts (v_At t) @ ea @ es" using below ma(3) hb(2) by simp
    then have "prefix (path_parts (v_At t)) (home_parts c) \<or> prefix (home_parts c) (path_parts (v_At t))"
      using comparable by blast
    then show ?thesis using at_facts[OF ok] ma(1) by (metis relocated_def)
  qed
next
  case ha: home
  show ?thesis using ok b
  proof (cases rule: target_cases)
    case mb: (moved u eb)
    have "path_parts (v_At u) @ eb = home_parts c @ path_parts a @ es" using below ha(2) mb(3) by simp
    then have "prefix (path_parts (v_At u)) (home_parts c) \<or> prefix (home_parts c) (path_parts (v_At u))"
      using comparable by blast
    then show ?thesis using at_facts[OF ok] mb(1) by (metis relocated_def)
  next
    case hb: home
    then show ?thesis using below ha(2) by simp
  qed
qed

text \<open>And the other way round for the volumes of the profile.\<close>

lemma above_by_tmpfs:
  assumes "laid_out c" "v \<in> set (vols_of c)" "t \<in> set (Tmpfs (vols_of c))" "v_At t \<noteq> []"
    and "at_or_below (v_Path v) x" "at_or_below (v_Path t) x" "clean_rel x"
  shows "at_or_below (v_Path t) (v_Path v)"
proof (rule ccontr)
  assume not: "\<not> at_or_below (v_Path t) (v_Path v)"
  then have vt: "at_or_below (v_Path v) (v_Path t)" using prefix_same_cases assms(5,6) by blast
  show False
  proof (cases "v_Kind v = VolumeTmpfs")
    case True
    then show False using no_nest[OF assms(1), of v t x] assms not by (auto simp: set_Tmpfs)
  next
    case False
    then have "v \<in> set (HostMounts (vols_of c))" using laid_out_volume(2)[OF assms(1,2)] assms(2) by (simp add: set_HostMounts)
    then obtain s where s: "s \<in> set (Tmpfs (vols_of c))" "Profile_Volumes.Under (v_Path v) (v_Path s)"
      using assms(1) by (auto simp: laid_out_def volumes_ok_def)
    then have sv: "at_or_below (v_Path s) (v_Path v)"
      using at_or_below_iff laid_out_in(1)[OF assms(1)] laid_out_volume(1)[OF assms(1,2)] by blast
    then have "at_or_below (v_Path s) x" using assms(5) by (meson prefix_order.trans)
    then have "s = t" using no_nest[OF assms(1) s(1) assms(3)] assms(4,6) by blast
    then show False using sv not by simp
  qed
qed

lemma target_above:
  assumes ok: "laid_out c" and v: "v \<in> set (vols_of c)" and x: "clean_rel x" "path_parts x = path_parts (v_Path v) @ es"
  shows "target_parts c x = target_parts c (v_Path v) @ es"
proof (cases "\<exists>t. relocated c t x")
  case True
  then obtain t where t: "relocated c t x" by blast
  then have below: "at_or_below (v_Path t) (v_Path v)"
    using above_by_tmpfs[OF ok v, of t x] x by (auto simp: relocated_def)
  then obtain fs where fs: "path_parts (v_Path v) = path_parts (v_Path t) @ fs" by (auto simp: prefix_def)
  have "target_parts c (v_Path v) = path_parts (v_At t) @ fs"
    using target_of_tmpfs[OF ok, of t "v_Path v" fs] t below fs laid_out_volume(1)[OF ok v] by (simp add: relocated_def)
  moreover have "target_parts c x = path_parts (v_At t) @ fs @ es"
    using target_of_tmpfs[OF ok t x(1)] x(2) fs by simp
  ultimately show ?thesis by simp
next
  case False
  then have "\<forall>t. \<not> relocated c t (v_Path v)"
    using x(2) by (auto simp: relocated_def prefix_def)
  then show ?thesis
    using False target_of_home[OF ok x(1)] target_of_home[OF ok laid_out_volume(1)[OF ok v]] x(2) by simp
qed

lemma target_order:
  assumes "laid_out c" "v \<in> set (vols_of c)" "clean_rel x"
  shows "prefix (target_parts c (v_Path v)) (target_parts c x) \<longleftrightarrow> at_or_below (v_Path v) x"
proof
  assume "prefix (target_parts c (v_Path v)) (target_parts c x)"
  then obtain es where "target_parts c x = target_parts c (v_Path v) @ es" by (auto simp: prefix_def)
  then have "path_parts x = path_parts (v_Path v) @ es"
    by (rule target_below[OF assms(1) laid_out_volume(1)[OF assms(1,2)] assms(3)])
  then show "at_or_below (v_Path v) x" by simp
next
  assume "at_or_below (v_Path v) x"
  then obtain es where "path_parts x = path_parts (v_Path v) @ es" by (auto simp: prefix_def)
  then show "prefix (target_parts c (v_Path v)) (target_parts c x)" using target_above[OF assms] by simp
qed

subsection \<open>The pins lie apart\<close>

definition off_run :: "string list \<Rightarrow> bool" where
  "off_run p \<longleftrightarrow> 2 \<le> length p \<and> p ! 1 \<noteq> ''run''"

lemma off_run_append: "off_run p \<Longrightarrow> off_run (p @ es)"
  by (simp add: off_run_def nth_append)

lemma off_run_abs: "abs_parts p es \<Longrightarrow> hd es \<noteq> ''run'' \<Longrightarrow> off_run (path_parts p)"
  by (cases es) (auto simp: abs_parts_def off_run_def)

lemma escape_no_slash: "slash \<notin> set (concat (map escape_char x))"
  by (induction x) auto

lemma pin_parts: "path_parts (pinPath x) = [[], ''run'', ''brig'', ''persist'', concat (map escape_char x)]"
proof -
  have "path_parts persistRoot = [[], ''run'', ''brig'', ''persist'']" by code_simp
  then show ?thesis
    using escape_no_slash[of x] path_parts_join2[of persistRoot "concat (map escape_char x)"]
    by (simp add: pinPath_def path_parts_def)
qed

lemma escape_inject: "concat (map escape_char x) = concat (map escape_char y) \<Longrightarrow> x = y"
proof (induction x arbitrary: y)
  case Nil
  then show ?case by (cases y) (auto split: if_splits)
next
  case (Cons a x)
  then show ?case by (cases y) (auto split: if_splits)
qed

lemma off_run_pin:
  assumes "off_run p"
  shows "\<not> prefix p (path_parts (pinPath x))" "\<not> prefix (path_parts (pinPath x)) p"
proof -
  obtain a b q where p: "p = a # b # q" "b \<noteq> ''run''"
    using assms by (cases p; cases "tl p") (auto simp: off_run_def)
  then show "\<not> prefix p (path_parts (pinPath x))" "\<not> prefix (path_parts (pinPath x)) p" by (auto simp: pin_parts)
qed

lemma off_run_home: "laid_out c \<Longrightarrow> off_run (home_parts c)"
  using home_facts off_run_abs by (metis home_parts_def)

lemma off_run_target:
  assumes "laid_out c" "clean_rel x"
  shows "off_run (target_parts c x)"
  using assms
proof (cases rule: target_cases)
  case (moved t es)
  then obtain fs where "abs_parts (v_At t) fs" "hd fs \<noteq> ''run''"
    using at_facts[OF assms(1)] by (metis relocated_def)
  then show ?thesis using moved(3) off_run_abs off_run_append by simp
qed (simp add: off_run_append off_run_home[OF assms(1)])

end
