(* ===== verification/Wrap_Facts.thy ===== *)
theory Wrap_Facts
  imports Wrap_Deliver
begin

text \<open>
  What holds of every delivery, whatever the guest answers. The rules of \<open>triple\<close> carry an
  invariant of the trace through the steps, failures included, and those of \<open>alike\<close> relate two
  deliveries. A secret is fed only into a file that was just seen to be a regular file of the right
  owner and mode on a tmpfs, after every volume and the swap were checked; and the commands that
  run do not depend on what the secrets hold.
\<close>

subsection \<open>Steps that keep an invariant of the trace\<close>

definition triple :: "(trace \<Rightarrow> bool) \<Rightarrow> (trace \<Rightarrow> bool) \<Rightarrow> 'a act \<Rightarrow> ('a \<Rightarrow> trace \<Rightarrow> bool) \<Rightarrow> bool" where
  "triple I P m Q \<longleftrightarrow>
     (\<forall>tr. I tr \<longrightarrow> P tr \<longrightarrow> I (snd (m tr)) \<and> (\<forall>x. fst (m tr) = Inr x \<longrightarrow> Q x (snd (m tr))))"

lemma tripleI:
  "(\<And>tr. I tr \<Longrightarrow> P tr \<Longrightarrow> I (snd (m tr))) \<Longrightarrow> (\<And>tr x. I tr \<Longrightarrow> P tr \<Longrightarrow> fst (m tr) = Inr x \<Longrightarrow> Q x (snd (m tr)))
     \<Longrightarrow> triple I P m Q"
  by (auto simp: triple_def)

lemma triple_ret: "(\<And>tr. P tr \<Longrightarrow> Q x tr) \<Longrightarrow> triple I P (ret x) Q"
  by (simp add: triple_def ret_def)

lemma triple_stop: "triple I P (stop e) Q"
  by (simp add: triple_def stop_def)

lemma triple_then:
  assumes "triple I P m Q" "\<And>x. triple I (Q x) (f x) R"
  shows "triple I P (and_then m f) R"
  unfolding triple_def
proof (intro allI impI)
  fix tr assume "I tr" "P tr"
  then have m: "I (snd (m tr))" "\<And>x. fst (m tr) = Inr x \<Longrightarrow> Q x (snd (m tr))"
    using assms(1) by (auto simp: triple_def)
  show "I (snd (and_then m f tr)) \<and> (\<forall>x. fst (and_then m f tr) = Inr x \<longrightarrow> R x (snd (and_then m f tr)))"
  proof (cases "m tr")
    case (Pair r t)
    then show ?thesis using m assms(2) by (cases r) (auto simp: and_then_def triple_def)
  qed
qed

lemma triple_seq:
  "triple I P m (\<lambda>_. P) \<Longrightarrow> triple I P m' (\<lambda>_. P) \<Longrightarrow> triple I P (and_then m (\<lambda>_. m')) (\<lambda>_. P)"
  by (rule triple_then)

lemma triple_if:
  "(c \<Longrightarrow> triple I P m Q) \<Longrightarrow> (\<not> c \<Longrightarrow> triple I P m' Q) \<Longrightarrow> triple I P (if c then m else m') Q"
  by simp

lemma triple_sum:
  "(\<And>e. s = Inl e \<Longrightarrow> triple I P (f e) Q) \<Longrightarrow> (\<And>v. s = Inr v \<Longrightarrow> triple I P (h v) Q)
     \<Longrightarrow> triple I P (case s of Inl e \<Rightarrow> f e | Inr v \<Rightarrow> h v) Q"
  by (cases s) simp_all

lemma triple_each: "(\<And>x. x \<in> set xs \<Longrightarrow> triple I P (f x) (\<lambda>_. P)) \<Longrightarrow> triple I P (each f xs) (\<lambda>_. P)"
  by (induction xs) (auto intro!: triple_ret triple_then)

text \<open>A loop that collects one fact per element, each kept by what follows.\<close>

lemma triple_each_all:
  assumes "\<And>x. x \<in> set xs \<Longrightarrow> triple I P (f x) (\<lambda>_ tr. P tr \<and> A x tr)"
    and "\<And>x y. x \<in> set xs \<Longrightarrow> triple I (A y) (f x) (\<lambda>_. A y)"
  shows "triple I P (each f xs) (\<lambda>_ tr. P tr \<and> (\<forall>x \<in> set xs. A x tr))"
  using assms
proof (induction xs)
  case (Cons x xs)
  have rest: "triple I P (each f xs) (\<lambda>_ tr. P tr \<and> (\<forall>x \<in> set xs. A x tr))"
    using Cons by simp
  have keep: "triple I (A x) (each f xs) (\<lambda>_. A x)"
    using Cons.prems(2) by (intro triple_each) simp
  have "triple I (\<lambda>tr. P tr \<and> A x tr) (each f xs) (\<lambda>_ tr. P tr \<and> (\<forall>y \<in> set (x # xs). A y tr))"
    using rest keep by (auto simp: triple_def)
  have first: "triple I P (f x) (\<lambda>_ tr. P tr \<and> A x tr)" using Cons.prems(1) by simp
  show ?case unfolding each.simps
    by (rule triple_then[OF first]) (rule \<open>triple I (\<lambda>tr. P tr \<and> A x tr) (each f xs) _\<close>)
qed (auto intro: triple_ret)

lemma triple_require: "(\<And>tr. ok \<Longrightarrow> P tr \<Longrightarrow> Q () tr) \<Longrightarrow> triple I P (require ok e) Q"
  by (auto simp: require_def triple_stop intro: triple_ret)

lemma triple_pre: "triple I P m Q \<Longrightarrow> (\<And>tr. P' tr \<Longrightarrow> P tr) \<Longrightarrow> triple I P' m Q"
  by (auto simp: triple_def)

lemma triple_post: "triple I P m Q \<Longrightarrow> (\<And>x tr. Q x tr \<Longrightarrow> Q' x tr) \<Longrightarrow> triple I P m Q'"
  by (auto simp: triple_def)

lemma triple_finally:
  assumes "triple I P m Q" "triple I (\<lambda>_. True) clean (\<lambda>_ _. True)"
  shows "triple I P (finally_do m clean) (\<lambda>_ _. True)"
  unfolding triple_def
proof (intro allI impI conjI)
  fix tr assume "I tr" "P tr"
  obtain r t where m: "m tr = (r, t)" by fastforce
  obtain r' t' where k: "clean t = (r', t')" by fastforce
  have "I t" using assms(1) \<open>I tr\<close> \<open>P tr\<close> m unfolding triple_def by (metis snd_conv)
  then have "I t'" using assms(2) k unfolding triple_def by (metis snd_conv)
  then show "I (snd (finally_do m clean tr))" using m k by (simp add: finally_do_def)
qed simp

subsection \<open>What must be seen before a secret is fed\<close>

definition saw_fstype :: "deliver_config \<Rightarrow> string \<Rightarrow> (string \<Rightarrow> bool) \<Rightarrow> trace \<Rightarrow> bool" where
  "saw_fstype c target ok tr \<longleftrightarrow>
     (\<exists>fs. (Output (root_exec c (fstype_cmd target)), Some fs) \<in> set tr \<and> ok (trim_space fs))"

definition volumes_seen :: "deliver_config \<Rightarrow> trace \<Rightarrow> bool" where
  "volumes_seen c tr \<longleftrightarrow>
     (\<forall>t \<in> set (Tmpfs (p_Volumes (dc_Profile c))). saw_fstype c (mountTarget c (v_Path t)) (\<lambda>f. f = ''tmpfs'') tr)
     \<and> (\<forall>h \<in> set (HostMounts (p_Volumes (dc_Profile c))). saw_fstype c (mountTarget c (v_Path h)) (\<lambda>f. f \<noteq> ''tmpfs'') tr)
     \<and> (\<exists>swaps. (Output (root_exec c [''cat'', ''/proc/swaps'']), Some swaps) \<in> set tr \<and> length (nonEmptyLines swaps) \<le> 1)"

text \<open>
  The commands before a feed end with the two checks of its target and with feeds of the same
  value, and the volumes were seen before.
\<close>

definition cleared :: "deliver_config \<Rightarrow> exec_spec \<Rightarrow> string \<Rightarrow> trace \<Rightarrow> bool" where
  "cleared c x piece tr \<longleftrightarrow>
     (\<exists>b r mode value seen got fs feeds.
        let target = mountTarget c (fb_Path b) in
        b \<in> set (p_Files (dc_Profile c)) \<and> ParseBindingRef (fb_Ref b) = Inr r \<and> FileMode b = Inr mode
        \<and> map_of (dc_values c) (br_Name r) = Some value \<and> piece \<in> set (value_pieces c value)
        \<and> x = root_exec c (feed_cmd target)
        \<and> tr = seen @ [(Output (root_exec c (stat_cmd target)), Some got),
                        (Output (root_exec c (fstype_cmd target)), Some fs)] @ feeds
        \<and> volumes_seen c seen
        \<and> regular_as (GuestUser (dc_Profile c)) mode got \<and> trim_space fs = ''tmpfs''
        \<and> (\<forall>e \<in> set feeds. \<exists>w. fst e = Feed x w))"

definition is_ca_piece :: "deliver_config \<Rightarrow> exec_spec \<Rightarrow> string \<Rightarrow> bool" where
  "is_ca_piece c x piece \<longleftrightarrow>
     x = root_exec c (feed_cmd GuestCAPath) \<and> piece \<in> set (value_pieces c (dc_brigCA c))"

definition fed_ok :: "deliver_config \<Rightarrow> trace \<Rightarrow> bool" where
  "fed_ok c tr \<longleftrightarrow>
     (\<forall>seen x piece a rest. tr = seen @ (Feed x piece, a) # rest \<longrightarrow> is_ca_piece c x piece \<or> cleared c x piece seen)"

lemma fed_ok_Nil [simp]: "fed_ok c []"
  by (simp add: fed_ok_def)

lemma fed_ok_snoc:
  assumes "fed_ok c tr" "\<And>x piece. fst e = Feed x piece \<Longrightarrow> is_ca_piece c x piece \<or> cleared c x piece tr"
  shows "fed_ok c (tr @ [e])"
  unfolding fed_ok_def
proof (intro allI impI)
  fix seen x piece a rest
  assume eq: "tr @ [e] = seen @ (Feed x piece, a) # rest"
  show "is_ca_piece c x piece \<or> cleared c x piece seen"
  proof (cases rest rule: rev_cases)
    case Nil
    then show ?thesis using eq assms(2) by auto
  next
    case (snoc r l)
    then have "tr = seen @ (Feed x piece, a) # r" using eq by simp
    then show ?thesis using assms(1) unfolding fed_ok_def by blast
  qed
qed

lemma fed_ok_Output: "fed_ok c tr \<Longrightarrow> fed_ok c (tr @ [(Output x, a)])"
  by (rule fed_ok_snoc) simp_all

text \<open>A fact of the trace that more commands do not take away.\<close>

definition lasting :: "(trace \<Rightarrow> bool) \<Rightarrow> bool" where
  "lasting A \<longleftrightarrow> (\<forall>tr e. A tr \<longrightarrow> A (tr @ [e]))"

lemma lasting_facts:
  "lasting (saw_fstype c target ok)" "lasting (volumes_seen c)" "lasting (\<lambda>_. True)"
  by (auto simp: lasting_def saw_fstype_def volumes_seen_def)

lemma guestOutput_asked:
  "triple (fed_ok c) P (guestOutput g c e argv)
     (\<lambda>out tr. \<exists>seen. P seen \<and> tr = seen @ [(Output (root_exec c argv), Some out)])"
  by (rule tripleI) (auto simp: guestOutput_def Let_def fed_ok_Output split: option.splits)

lemma guestOutput_keeps: "lasting A \<Longrightarrow> triple (fed_ok c) A (guestOutput g c e argv) (\<lambda>_. A)"
  by (rule triple_post[OF guestOutput_asked]) (auto simp: lasting_def)

lemma guestRoot_keeps: "lasting A \<Longrightarrow> triple (fed_ok c) A (guestRoot g c e argv) (\<lambda>_. A)"
  unfolding guestRoot_def by (rule triple_then[OF guestOutput_keeps]) (auto intro: triple_ret)

lemma guestFstype_saw:
  assumes "lasting A"
  shows "triple (fed_ok c) A (guestFstype g c target)
     (\<lambda>fs tr. A tr \<and> (\<exists>out. (Output (root_exec c (fstype_cmd target)), Some out) \<in> set tr \<and> fs = trim_space out))"
  unfolding guestFstype_def
  by (rule triple_then[OF guestOutput_asked], rule triple_ret) (use assms in \<open>auto simp: lasting_def\<close>)

lemma guestMountpoints_keeps: "lasting A \<Longrightarrow> triple (fed_ok c) A (guestMountpoints g c) (\<lambda>_. A)"
  unfolding guestMountpoints_def by (rule triple_then[OF guestOutput_keeps]) (auto intro: triple_ret)

lemma triple_skip: "triple I P (ret x) (\<lambda>_. P)"
  by (rule triple_ret)

lemmas keeps = guestOutput_keeps guestRoot_keeps guestMountpoints_keeps triple_skip triple_stop triple_if triple_seq

lemma createGuestTarget_keeps: "lasting A \<Longrightarrow> triple (fed_ok c) A (createGuestTarget g c e t f) (\<lambda>_. A)"
  unfolding createGuestTarget_def by (intro keeps)

lemma bind_mount_keeps: "lasting A \<Longrightarrow> triple (fed_ok c) A (bind_mount g c e t f) (\<lambda>_. A)"
  unfolding bind_mount_def by (intro keeps)

lemma chownGuest_keeps: "lasting A \<Longrightarrow> triple (fed_ok c) A (chownGuest g c dirs user) (\<lambda>_. A)"
  unfolding chownGuest_def Let_def by (intro triple_each keeps)

lemma require_keeps: "triple (fed_ok c) A (require ok e) (\<lambda>_. A)"
  by (rule triple_require)

lemma pin_keeps: "lasting A \<Longrightarrow> triple (fed_ok c) A (pin g c cover m h) (\<lambda>_. A)"
  unfolding pin_def by (intro keeps createGuestTarget_keeps bind_mount_keeps)

lemma cover_with_keeps: "lasting A \<Longrightarrow> triple (fed_ok c) A (cover_with g c t) (\<lambda>_. A)"
  unfolding cover_with_def by (intro keeps)

lemma bind_back_keeps: "lasting A \<Longrightarrow> triple (fed_ok c) A (bind_back g c cover h) (\<lambda>_. A)"
  unfolding bind_back_def by (intro keeps createGuestTarget_keeps bind_mount_keeps)

lemma mount_phases_keeps: "lasting A \<Longrightarrow> triple (fed_ok c) A (mount_phases g c cover m) (\<lambda>_. A)"
  unfolding mount_phases_def Let_def
  by (intro keeps triple_each pin_keeps cover_with_keeps bind_back_keeps)

lemma mountVolumes_keeps:
  assumes "lasting A"
  shows "triple (fed_ok c) A (mountVolumes g c) (\<lambda>_. A)"
proof -
  have check: "triple (fed_ok c) A (each (\<lambda>h. require (ok h) (err h)) hs) (\<lambda>_. A)" for ok err and hs :: "volume list"
    by (intro triple_each require_keeps)
  have cover: "triple (fed_ok c) A (if cover \<noteq> [] then mount_phases g c cover m else ret m) (\<lambda>_. A)" for cover m
    using assms by (intro keeps mount_phases_keeps)
  show ?thesis unfolding mountVolumes_def
    by (rule triple_then[OF guestMountpoints_keeps[OF assms]], rule triple_sum, rule triple_stop,
        rule triple_then[OF cover check])
qed

lemma saw_fstypeI:
  "\<exists>out. (Output (root_exec c (fstype_cmd target)), Some out) \<in> set tr \<and> fs = trim_space out \<Longrightarrow> ok fs
     \<Longrightarrow> saw_fstype c target ok tr"
  by (auto simp: saw_fstype_def)

lemma verify_tmpfs_sees:
  "lasting A \<Longrightarrow> triple (fed_ok c) A (verify_tmpfs g c v)
     (\<lambda>_ tr. A tr \<and> saw_fstype c (mountTarget c (v_Path v)) (\<lambda>f. f = ''tmpfs'') tr)"
  unfolding verify_tmpfs_def
  by (erule triple_then[OF guestFstype_saw triple_require]) (elim conjE, intro conjI, assumption, erule saw_fstypeI, assumption)

lemma verify_hostmount_sees:
  "lasting A \<Longrightarrow> triple (fed_ok c) A (verify_hostmount g c v)
     (\<lambda>_ tr. A tr \<and> saw_fstype c (mountTarget c (v_Path v)) (\<lambda>f. f \<noteq> ''tmpfs'') tr)"
  unfolding verify_hostmount_def
  by (erule triple_then[OF guestFstype_saw triple_require]) (elim conjE, intro conjI, assumption, erule saw_fstypeI, assumption)

lemma verifyVolumes_sees: "triple (fed_ok c) (\<lambda>_. True) (verifyVolumes g c) (\<lambda>_. volumes_seen c)"
proof -
  let ?tmpfs = "\<lambda>tr. \<forall>t \<in> set (Tmpfs (p_Volumes (dc_Profile c))). saw_fstype c (mountTarget c (v_Path t)) (\<lambda>f. f = ''tmpfs'') tr"
  let ?host = "\<lambda>tr. \<forall>h \<in> set (HostMounts (p_Volumes (dc_Profile c))). saw_fstype c (mountTarget c (v_Path h)) (\<lambda>f. f \<noteq> ''tmpfs'') tr"
  have lasts: "lasting ?tmpfs" "lasting (\<lambda>tr. ?tmpfs tr \<and> ?host tr)"
    using lasting_facts(1) by (auto simp: lasting_def)
  have 1: "triple (fed_ok c) (\<lambda>_. True) (each (verify_tmpfs g c) (Tmpfs (p_Volumes (dc_Profile c)))) (\<lambda>_ tr. True \<and> ?tmpfs tr)"
    by (rule triple_each_all[OF verify_tmpfs_sees[OF lasting_facts(3)]])
      (rule triple_post[OF verify_tmpfs_sees[OF lasting_facts(1)]], blast)
  have 2: "triple (fed_ok c) ?tmpfs (each (verify_hostmount g c) (HostMounts (p_Volumes (dc_Profile c)))) (\<lambda>_ tr. ?tmpfs tr \<and> ?host tr)"
    by (rule triple_each_all[OF verify_hostmount_sees[OF lasts(1)]])
      (rule triple_post[OF verify_hostmount_sees[OF lasting_facts(1)]], blast)
  have 3: "triple (fed_ok c) (\<lambda>tr. ?tmpfs tr \<and> ?host tr) (and_then (guestOutput g c NoSwaps [''cat'', ''/proc/swaps''])
      (\<lambda>swaps. let lines = nonEmptyLines swaps in require (length lines \<le> 1) (SwapOn (lines ! 1)))) (\<lambda>_. volumes_seen c)"
  proof (rule triple_then[OF guestOutput_asked], unfold Let_def, rule triple_require)
    fix swaps tr
    assume few: "length (nonEmptyLines swaps) \<le> 1"
      and "\<exists>seen. (?tmpfs seen \<and> ?host seen) \<and> tr = seen @ [(Output (root_exec c [''cat'', ''/proc/swaps'']), Some swaps)]"
    then obtain seen where seen: "?tmpfs seen \<and> ?host seen" "tr = seen @ [(Output (root_exec c [''cat'', ''/proc/swaps'']), Some swaps)]"
      by blast
    then have "?tmpfs tr \<and> ?host tr" using lasts(2) unfolding lasting_def by blast
    moreover have "(Output (root_exec c [''cat'', ''/proc/swaps'']), Some swaps) \<in> set tr" using seen(2) by simp
    ultimately show "volumes_seen c tr" using few unfolding volumes_seen_def by blast
  qed
  show ?thesis unfolding verifyVolumes_def
    by (rule triple_then[OF triple_post[OF 1, where Q' = "\<lambda>_. ?tmpfs"] triple_then[OF 2 3]]) blast
qed

subsection \<open>The feeds of a secret\<close>

lemma feed_cleared:
  assumes "\<And>tr. fed_ok c tr \<Longrightarrow> P tr \<Longrightarrow> cleared c (root_exec c (feed_cmd target)) piece tr \<or> is_ca_piece c (root_exec c (feed_cmd target)) piece"
    and "\<And>tr a. P tr \<Longrightarrow> P (tr @ [(Feed (root_exec c (feed_cmd target)) piece, a)])"
  shows "triple (fed_ok c) P (feed g c e target piece) (\<lambda>_. P)"
  by (rule tripleI; simp add: feed_def Let_def split: option.splits; (rule fed_ok_snoc | rule assms(2)); use assms(1) in auto)

definition checked_file :: "deliver_config \<Rightarrow> string \<Rightarrow> nat \<Rightarrow> trace \<Rightarrow> bool" where
  "checked_file c target mode tr \<longleftrightarrow>
     (\<exists>seen got fs feeds.
        tr = seen @ [(Output (root_exec c (stat_cmd target)), Some got),
                     (Output (root_exec c (fstype_cmd target)), Some fs)] @ feeds
        \<and> volumes_seen c seen \<and> regular_as (GuestUser (dc_Profile c)) mode got \<and> trim_space fs = ''tmpfs''
        \<and> (\<forall>e \<in> set feeds. \<exists>w. fst e = Feed (root_exec c (feed_cmd target)) w))"

lemma checked_file_feed:
  assumes "checked_file c target mode tr"
  shows "checked_file c target mode (tr @ [(Feed (root_exec c (feed_cmd target)) piece, a)])"
proof -
  obtain seen got fs feeds where
    "tr = seen @ [(Output (root_exec c (stat_cmd target)), Some got), (Output (root_exec c (fstype_cmd target)), Some fs)] @ feeds"
    "volumes_seen c seen" "regular_as (GuestUser (dc_Profile c)) mode got" "trim_space fs = ''tmpfs''"
    "\<forall>e \<in> set feeds. \<exists>w. fst e = Feed (root_exec c (feed_cmd target)) w"
    using assms unfolding checked_file_def by blast
  then show ?thesis unfolding checked_file_def
    by (intro exI[of _ seen] exI[of _ got] exI[of _ fs] exI[of _ "feeds @ [(Feed (root_exec c (feed_cmd target)) piece, a)]"]) auto
qed

lemma volumes_seen_append: "volumes_seen c tr \<Longrightarrow> volumes_seen c (tr @ es)"
  by (auto simp: volumes_seen_def saw_fstype_def)

lemma checked_file_seen: "checked_file c target mode tr \<Longrightarrow> volumes_seen c tr"
  using volumes_seen_append by (auto simp: checked_file_def)

lemma verifySecretFile_checks:
  "triple (fed_ok c) (volumes_seen c) (verifySecretFile g c b target (GuestUser (dc_Profile c)) mode)
     (\<lambda>_. checked_file c target mode)"
proof -
  let ?stat = "Output (root_exec c (stat_cmd target))" and ?fs = "Output (root_exec c (fstype_cmd target))"
  let ?A = "\<lambda>got tr. regular_as (GuestUser (dc_Profile c)) mode got \<and> (\<exists>s. volumes_seen c s \<and> tr = s @ [(?stat, Some got)])"
  let ?B = "\<lambda>got fs tr. \<exists>out s. ?A got s \<and> tr = s @ [(?fs, Some out)] \<and> fs = trim_space out"
  have regular: "triple (fed_ok c) (\<lambda>tr. \<exists>s. volumes_seen c s \<and> tr = s @ [(?stat, Some got)])
      (require (regular_as (GuestUser (dc_Profile c)) mode got) e) (\<lambda>_. ?A got)" for got e
    by (rule triple_require) blast
  have kind: "triple (fed_ok c) (?A got) (guestFstype g c target) (?B got)" for got
    unfolding guestFstype_def by (rule triple_then[OF guestOutput_asked], rule triple_ret) blast
  have checked: "checked_file c target mode tr" if tmp: "fs = ''tmpfs''" and both: "?B got fs tr" for got fs tr
  proof -
    obtain out u where u: "?A got u" "tr = u @ [(?fs, Some out)]" "fs = trim_space out" using both by blast
    then obtain s where s: "volumes_seen c s" "u = s @ [(?stat, Some got)]" by blast
    have "tr = s @ [(?stat, Some got), (?fs, Some out)] @ []" using u(2) s(2) by simp
    then show ?thesis unfolding checked_file_def using u(1,3) s(1) tmp by (intro exI[of _ s] exI[of _ got] exI[of _ out] exI[of _ "[]"]) simp
  qed
  have sits: "triple (fed_ok c) (?B got fs) (require (fs = ''tmpfs'') e) (\<lambda>_. checked_file c target mode)" for got fs e
    by (rule triple_require) (rule checked)
  show ?thesis unfolding verifySecretFile_def
    by (rule triple_then[OF guestOutput_asked], rule triple_then[OF regular], rule triple_then[OF kind], rule sits)
qed

lemma writeSecretFile_keeps:
  assumes b: "b \<in> set (p_Files (dc_Profile c))"
  shows "triple (fed_ok c) (volumes_seen c) (writeSecretFile g c b) (\<lambda>_. volumes_seen c)"
  unfolding writeSecretFile_def
proof (rule triple_sum, rule triple_stop, rule triple_sum, rule triple_stop, unfold Let_def, rule triple_if, rule triple_stop)
  fix r :: binding_ref and mode
  let ?held = "case map_of (dc_values c) (br_Name r) of None \<Rightarrow> [] | Some v \<Rightarrow> v"
  let ?target = "mountTarget c (fb_Path b)"
  assume r: "ParseBindingRef (fb_Ref b) = Inr r" and mode: "FileMode b = Inr mode" and nonempty: "?held \<noteq> []"
  then have lookup: "map_of (dc_values c) (br_Name r) = Some ?held" by (auto split: option.splits)
  have fed: "triple (fed_ok c) (checked_file c ?target mode) (feed g c (FileWrite (fb_Path b)) ?target piece) (\<lambda>_. checked_file c ?target mode)"
    if "piece \<in> set (value_pieces c ?held)" for piece
  proof (rule feed_cleared)
    fix tr assume "checked_file c ?target mode tr"
    then have "cleared c (root_exec c (feed_cmd ?target)) piece tr"
      using b r mode lookup that unfolding checked_file_def cleared_def Let_def by blast
    then show "cleared c (root_exec c (feed_cmd ?target)) piece tr \<or> is_ca_piece c (root_exec c (feed_cmd ?target)) piece" ..
  next
    fix tr a assume "checked_file c ?target mode tr"
    then show "checked_file c ?target mode (tr @ [(Feed (root_exec c (feed_cmd ?target)) piece, a)])" by (rule checked_file_feed)
  qed
  have size: "triple (fed_ok c) (checked_file c ?target mode) (and_then (guestOutput g c e argv) (\<lambda>size. require (ok size) (err size))) (\<lambda>_. volumes_seen c)" for e argv ok err
  proof (rule triple_pre[OF triple_then[OF guestOutput_keeps[OF lasting_facts(2)] require_keeps]])
  qed (rule checked_file_seen)
  show "triple (fed_ok c) (volumes_seen c)
     (and_then (guestRoot g c (FileCreate (fb_Path b)) [''sh'', ''-c'', create_script, ''sh'', ?target, GuestUser (dc_Profile c), show_octal4 mode])
       (\<lambda>_. and_then (verifySecretFile g c b ?target (GuestUser (dc_Profile c)) mode)
       (\<lambda>_. and_then (each (feed g c (FileWrite (fb_Path b)) ?target) (value_pieces c ?held))
       (\<lambda>_. and_then (guestOutput g c (SizeUnread (fb_Path b)) [''stat'', ''-c'', ''%s'', ?target])
       (\<lambda>size. require (trim_space size = show_nat (length ?held)) (SizeWrong (fb_Path b) (trim_space size) (length ?held)))))))
     (\<lambda>_. volumes_seen c)"
    by (rule triple_then[OF guestRoot_keeps[OF lasting_facts(2)] triple_then[OF verifySecretFile_checks triple_then[OF triple_each[OF fed] size]]])
qed

lemma pending_files_in: "pending_files c bs = Inr pending \<Longrightarrow> set pending \<subseteq> set bs"
  by (induction bs arbitrary: pending) (auto simp: bind_err_Inr split: sum.splits if_splits)

lemma anything_after: "triple I P m Q \<Longrightarrow> triple I P m (\<lambda>_ _. True)"
  by (erule triple_post) simp

lemma writeSecretFiles_ok: "triple (fed_ok c) (volumes_seen c) (writeSecretFiles g c) (\<lambda>_ _. True)"
  unfolding writeSecretFiles_def
proof (rule triple_sum, rule triple_stop, rule triple_if, rule triple_ret, rule TrueI, unfold Let_def, rule triple_then)
  fix pending assume "pending_files c (p_Files (dc_Profile c)) = Inr pending"
  then have "set pending \<subseteq> set (p_Files (dc_Profile c))" by (rule pending_files_in)
  then have "triple (fed_ok c) (volumes_seen c) (each (writeSecretFile g c) pending) (\<lambda>_. volumes_seen c)"
    by (intro triple_each writeSecretFile_keeps) auto
  then show "triple (fed_ok c) (volumes_seen c) (finally_do (each (writeSecretFile g c) pending)
      (chownGuest g c (credentialDirs c pending) (GuestUser (dc_Profile c)))) (\<lambda>_ _. True)"
    by (rule triple_finally[OF _ chownGuest_keeps[OF lasting_facts(3)]])
qed (rule chownGuest_keeps[OF lasting_facts(2)])

lemma deliverBrigCA_ok: "triple (fed_ok c) (\<lambda>_. True) (deliverBrigCA g c) (\<lambda>_ _. True)"
proof -
  have "triple (fed_ok c) (\<lambda>_. True) (feed g c CAWrite GuestCAPath piece) (\<lambda>_ _. True)"
    if "piece \<in> set (value_pieces c (dc_brigCA c))" for piece
    by (rule feed_cleared) (use that in \<open>auto simp: is_ca_piece_def\<close>)
  then show ?thesis unfolding deliverBrigCA_def
    by (intro keeps triple_each lasting_facts) blast+
qed

lemma deliver_ok: "triple (fed_ok c) (\<lambda>_. True) (deliverSecretFiles g c) (\<lambda>_ _. True)"
  unfolding deliverSecretFiles_def
  by (rule triple_then[OF deliverBrigCA_ok], rule triple_if, rule triple_ret, rule TrueI,
      rule triple_then[OF mountVolumes_keeps[OF lasting_facts(3)]], rule triple_then[OF verifyVolumes_sees],
      rule triple_then[OF writeSecretFiles_ok])
    (simp add: releaseTmpfs_def chownGuest_keeps lasting_facts)

text \<open>C4: Whatever the guest answers, a delivery feeds nothing but the public certificate of brig and
  pieces of secrets, and feeds a piece of a secret only when the two commands before it, feeds of
  that same file aside, saw its target as a regular file of the right owner and mode and as lying
  on a tmpfs, and when before those every tmpfs of the profile read as tmpfs, no hostmount did, and
  the guest had no swap.
\<close>

theorem secret_fed_only_checked:
  "\<forall>seen x piece a rest. snd (deliverSecretFiles g c []) = seen @ (Feed x piece, a) # rest \<longrightarrow>
     is_ca_piece c x piece \<or> cleared c x piece seen"
proof -
  have "fed_ok c (snd (deliverSecretFiles g c []))"
    using deliver_ok[of c g] unfolding triple_def by simp
  then show ?thesis unfolding fed_ok_def .
qed

end
