(* ===== verification/Wrap_Blind.thy ===== *)
theory Wrap_Blind
  imports Wrap_Facts
begin

text \<open>
  A relation between two deliveries that differ in what the secrets hold. The rules of \<open>alike\<close> carry
  it through the steps; only the writing of a file reads a value, and it feeds pieces of the same
  lengths.
\<close>

subsection \<open>Steps that are alike\<close>

text \<open>What a guest sees that does not look at what it is fed: the commands and the lengths.\<close>

fun hide :: "call \<Rightarrow> call" where
  "hide (Output x) = Output x"
| "hide (Feed x piece) = Feed x (replicate (length piece) (CHR ''0''))"

definition hidden :: "trace \<Rightarrow> trace" where
  "hidden tr = map (\<lambda>(call, a). (hide call, a)) tr"

definition blind_guest :: "guest \<Rightarrow> guest" where
  "blind_guest g tr call = g (hidden tr) (hide call)"

definition alike :: "'a act \<Rightarrow> 'a act \<Rightarrow> bool" where
  "alike m m' \<longleftrightarrow>
     (\<forall>tr tr'. hidden tr = hidden tr' \<longrightarrow> fst (m tr) = fst (m' tr') \<and> hidden (snd (m tr)) = hidden (snd (m' tr')))"

lemma alike_ret: "alike (ret x) (ret x)" and alike_stop: "alike (stop e) (stop e)"
  by (simp_all add: alike_def ret_def stop_def)

lemma alike_then:
  assumes "alike m m'" "\<And>x. alike (f x) (f' x)"
  shows "alike (and_then m f) (and_then m' f')"
  unfolding alike_def
proof (intro allI impI)
  fix tr tr' :: trace assume eq: "hidden tr = hidden tr'"
  obtain r t r' t' where runs: "m tr = (r, t)" "m' tr' = (r', t')" by fastforce
  then have "r' = r" "hidden t = hidden t'" using assms(1) eq by (auto simp: alike_def dest!: spec)
  then show "fst (and_then m f tr) = fst (and_then m' f' tr') \<and> hidden (snd (and_then m f tr)) = hidden (snd (and_then m' f' tr'))"
    using runs assms(2) by (cases r) (auto simp: and_then_def alike_def)
qed

lemma alike_each: "(\<And>x. x \<in> set xs \<Longrightarrow> alike (f x) (f' x)) \<Longrightarrow> alike (each f xs) (each f' xs)"
  by (induction xs) (auto intro: alike_ret alike_then)

lemma alike_each2: "list_all2 (\<lambda>x y. alike (f x) (f' y)) xs ys \<Longrightarrow> alike (each f xs) (each f' ys)"
  by (induction rule: list_all2_induct) (auto intro: alike_ret alike_then)

lemma alike_if: "alike m m' \<Longrightarrow> alike n n' \<Longrightarrow> alike (if c then m else n) (if c then m' else n')"
  by simp

lemma alike_require: "alike (require ok e) (require ok e)"
  by (simp add: require_def alike_ret alike_stop)

lemma alike_finally:
  assumes "alike m m'" "alike k k'"
  shows "alike (finally_do m k) (finally_do m' k')"
  unfolding alike_def
proof (intro allI impI)
  fix tr tr' :: trace assume eq: "hidden tr = hidden tr'"
  obtain r t r' t' where runs: "m tr = (r, t)" "m' tr' = (r', t')" by fastforce
  then have same: "r' = r" "hidden t = hidden t'" using assms(1) eq by (auto simp: alike_def dest!: spec)
  obtain q u q' u' where cleans: "k t = (q, u)" "k' t' = (q', u')" by fastforce
  then have "q' = q" "hidden u = hidden u'" using assms(2) same(2) by (auto simp: alike_def dest!: spec)
  then show "fst (finally_do m k tr) = fst (finally_do m' k' tr') \<and> hidden (snd (finally_do m k tr)) = hidden (snd (finally_do m' k' tr'))"
    using runs cleans same by (simp add: finally_do_def)
qed

lemma hidden_append [simp]: "hidden (tr @ tr') = hidden tr @ hidden tr'"
  by (simp add: hidden_def)

lemma alike_output: "alike (guestOutput (blind_guest g) c e argv) (guestOutput (blind_guest g) c e argv)"
  by (simp add: alike_def guestOutput_def blind_guest_def Let_def)

lemma alike_feed:
  "length p = length p' \<Longrightarrow> alike (feed (blind_guest g) c e t p) (feed (blind_guest g) c e t p')"
  by (simp add: alike_def feed_def blind_guest_def Let_def) (simp add: hidden_def)

text \<open>Only the writing of a file reads the values.\<close>

lemma with_values_fields:
  fixes c :: deliver_config
  shows "dc_Profile (c\<lparr>dc_values := vs\<rparr>) = dc_Profile c" "dc_values (c\<lparr>dc_values := vs\<rparr>) = vs"
  by simp_all

lemma with_values [simp]:
  fixes c :: deliver_config
  shows "root_exec (c\<lparr>dc_values := vs\<rparr>) = root_exec c"
    "guestPath_of (c\<lparr>dc_values := vs\<rparr>) = guestPath_of c"
    "value_pieces (c\<lparr>dc_values := vs\<rparr>) = value_pieces c"
  by (auto simp: root_exec_def guestPath_of_def value_pieces_def piece_size_def fun_eq_iff)

lemma with_values_paths [simp]:
  fixes c :: deliver_config
  shows "guestOutput g (c\<lparr>dc_values := vs\<rparr>) = guestOutput g c"
    "feed g (c\<lparr>dc_values := vs\<rparr>) = feed g c"
    "mountTarget (c\<lparr>dc_values := vs\<rparr>) = mountTarget c"
  by (auto simp: guestOutput_def feed_def mountTarget_def fun_eq_iff cong: option.case_cong)

lemma with_values_steps [simp]:
  fixes c :: deliver_config
  shows "guestRoot g (c\<lparr>dc_values := vs\<rparr>) = guestRoot g c"
    "guestMountpoints g (c\<lparr>dc_values := vs\<rparr>) = guestMountpoints g c"
    "guestFstype g (c\<lparr>dc_values := vs\<rparr>) = guestFstype g c"
    "to_cover (c\<lparr>dc_values := vs\<rparr>) = to_cover c"
    "add_dir (c\<lparr>dc_values := vs\<rparr>) = add_dir c"
proof -
  show "to_cover (c\<lparr>dc_values := vs\<rparr>) = to_cover c"
  proof (intro ext)
    fix m ts show "to_cover (c\<lparr>dc_values := vs\<rparr>) m ts = to_cover c m ts" by (induction ts) auto
  qed
qed (auto simp: guestRoot_def guestMountpoints_def guestFstype_def fun_eq_iff add_dir_def)

lemma with_values_mounts [simp]:
  fixes c :: deliver_config
  shows "createGuestTarget g (c\<lparr>dc_values := vs\<rparr>) = createGuestTarget g c"
    "bind_mount g (c\<lparr>dc_values := vs\<rparr>) = bind_mount g c"
    "cover_with g (c\<lparr>dc_values := vs\<rparr>) = cover_with g c"
    "credentialDirs (c\<lparr>dc_values := vs\<rparr>) = credentialDirs c"
    "chownGuest g (c\<lparr>dc_values := vs\<rparr>) = chownGuest g c"
    "verifySecretFile g (c\<lparr>dc_values := vs\<rparr>) = verifySecretFile g c"
  by (auto simp: createGuestTarget_def bind_mount_def cover_with_def tmpfs_cmd_def credentialDirs_def chownGuest_def
      verifySecretFile_def fun_eq_iff cong: if_cong)

lemma with_values_phases [simp]:
  fixes c :: deliver_config
  shows "pin g (c\<lparr>dc_values := vs\<rparr>) = pin g c"
    "bind_back g (c\<lparr>dc_values := vs\<rparr>) = bind_back g c"
  by (auto simp: pin_def bind_back_def fun_eq_iff cong: if_cong)

lemma with_values_volumes [simp]:
  fixes c :: deliver_config
  shows "mountVolumes g (c\<lparr>dc_values := vs\<rparr>) = mountVolumes g c"
    "verifyVolumes g (c\<lparr>dc_values := vs\<rparr>) = verifyVolumes g c"
    "releaseTmpfs g (c\<lparr>dc_values := vs\<rparr>) = releaseTmpfs g c"
    "deliverBrigCA g (c\<lparr>dc_values := vs\<rparr>) = deliverBrigCA g c"
  by (simp_all add: mountVolumes_def mount_phases_def verifyVolumes_def verify_tmpfs_def[abs_def]
      verify_hostmount_def[abs_def] releaseTmpfs_def deliverBrigCA_def cong: if_cong sum.case_cong)

text \<open>Every step that reads no value is like itself.\<close>

lemma alike_fun: "(\<And>x. alike (f x) (f' x)) \<Longrightarrow> alike (and_then (ret x) f) (and_then (ret x) f')"
  by (rule alike_then[OF alike_ret])

lemma alike_sum:
  "(\<And>e. s = Inl e \<Longrightarrow> alike (f e) (f' e)) \<Longrightarrow> (\<And>v. s = Inr v \<Longrightarrow> alike (h v) (h' v))
     \<Longrightarrow> alike (case s of Inl e \<Rightarrow> f e | Inr v \<Rightarrow> h v) (case s of Inl e \<Rightarrow> f' e | Inr v \<Rightarrow> h' v)"
  by (cases s) simp_all

lemmas alike_rules = alike_ret alike_stop alike_require alike_output alike_if alike_then alike_each alike_sum alike_finally

lemma alike_root: "alike (guestRoot (blind_guest g) c e argv) (guestRoot (blind_guest g) c e argv)"
  unfolding guestRoot_def by (intro alike_rules)

lemma alike_fstype: "alike (guestFstype (blind_guest g) c t) (guestFstype (blind_guest g) c t)"
  unfolding guestFstype_def by (intro alike_rules)

lemma alike_chown: "alike (chownGuest (blind_guest g) c ds u) (chownGuest (blind_guest g) c ds u)"
  unfolding chownGuest_def Let_def by (intro alike_rules alike_root)

lemma alike_mounts: "alike (mountVolumes (blind_guest g) c) (mountVolumes (blind_guest g) c)"
  unfolding mountVolumes_def mount_phases_def guestMountpoints_def pin_def cover_with_def bind_back_def
    createGuestTarget_def bind_mount_def Let_def
  by (intro alike_rules alike_root)

lemma alike_verify: "alike (verifyVolumes (blind_guest g) c) (verifyVolumes (blind_guest g) c)"
  unfolding verifyVolumes_def verify_tmpfs_def verify_hostmount_def Let_def
  by (intro alike_rules alike_fstype)

lemma alike_CA: "alike (deliverBrigCA (blind_guest g) c) (deliverBrigCA (blind_guest g) c)"
  unfolding deliverBrigCA_def by (intro alike_rules alike_root alike_feed refl)

lemma alike_verify_file:
  "alike (verifySecretFile (blind_guest g) c b t u m) (verifySecretFile (blind_guest g) c b t u m)"
  unfolding verifySecretFile_def by (intro alike_rules alike_fstype)

subsection \<open>The files\<close>

definition same_lengths :: "(string \<times> string) list \<Rightarrow> (string \<times> string) list \<Rightarrow> bool" where
  "same_lengths vs vs' \<longleftrightarrow> list_all2 (\<lambda>(n, v) (n', v'). n = n' \<and> length v = length v') vs vs'"

lemma same_lengths_lookup:
  "same_lengths vs vs' \<Longrightarrow> rel_option (\<lambda>v v'. length v = length v') (map_of vs n) (map_of vs' n)"
  unfolding same_lengths_def by (induction rule: list_all2_induct) auto

lemma pieces_same: "length s = length s' \<Longrightarrow> list_all2 (\<lambda>p p'. length p = length p') (pieces n k s) (pieces n k s')"
proof (induction n arbitrary: s s')
  case (Suc n)
  then show ?case by (cases s; cases s') simp_all
qed simp

lemma value_pieces_same:
  "length v = length v' \<Longrightarrow> list_all2 (\<lambda>p p'. length p = length p') (value_pieces c v) (value_pieces c v')"
  by (simp add: value_pieces_def piece_size_def pieces_same)

lemma alike_feeds:
  assumes "length v = length v'"
  shows "alike (each (feed (blind_guest g) c e t) (value_pieces c v)) (each (feed (blind_guest g) c e t) (value_pieces c v'))"
  by (rule alike_each2[OF list_all2_mono[OF value_pieces_same[OF assms]]]) (rule alike_feed)

lemma alike_write_file:
  assumes "same_lengths vs vs'"
  shows "alike (writeSecretFile (blind_guest g) (c\<lparr>dc_values := vs\<rparr>) b) (writeSecretFile (blind_guest g) (c\<lparr>dc_values := vs'\<rparr>) b)"
proof -
  let ?v = "\<lambda>vs r. case map_of vs (br_Name r) of None \<Rightarrow> [] | Some v \<Rightarrow> v"
  have len: "length (?v vs r) = length (?v vs' r)" for r :: binding_ref
    using same_lengths_lookup[OF assms, of "br_Name r"]
    by (cases "map_of vs (br_Name r)"; cases "map_of vs' (br_Name r)") auto
  then have empty: "?v vs r = [] \<longleftrightarrow> ?v vs' r = []" for r :: binding_ref by (metis length_0_conv)
  show ?thesis
    unfolding writeSecretFile_def with_values with_values_paths with_values_steps with_values_mounts Let_def with_values_fields
      empty len
    by (intro alike_sum alike_stop alike_if alike_then alike_root alike_verify_file alike_feeds alike_output alike_require len)
qed

lemma pending_same:
  assumes "same_lengths vs vs'"
  shows "pending_files (c\<lparr>dc_values := vs\<rparr>) bs = pending_files (c\<lparr>dc_values := vs'\<rparr>) bs"
proof -
  have "map_of vs n = None \<longleftrightarrow> map_of vs' n = None" for n
    using same_lengths_lookup[OF assms, of n] by (cases "map_of vs n"; cases "map_of vs' n") auto
  then show ?thesis by (induction bs) (auto split: sum.splits)
qed

lemma alike_delivery:
  assumes "same_lengths vs vs'"
  shows "alike (deliverSecretFiles (blind_guest g) (c\<lparr>dc_values := vs\<rparr>)) (deliverSecretFiles (blind_guest g) (c\<lparr>dc_values := vs'\<rparr>))"
  unfolding deliverSecretFiles_def with_values_volumes releaseTmpfs_def writeSecretFiles_def with_values_mounts
    with_values_paths pending_same[OF assms] Let_def with_values_fields
  by (intro alike_rules alike_CA alike_mounts alike_verify alike_chown alike_write_file assms)

text \<open>C21: What runs in the guest does not depend on what the secrets hold. Two deliveries that differ
  only in the values, of the same lengths, run the same commands in the same order and end the same
  way, in every guest whose answers do not depend on what it is fed: no value is in an argument.
\<close>

theorem commands_hide_values:
  assumes "same_lengths vs vs'"
  shows "fst (deliverSecretFiles (blind_guest g) (c\<lparr>dc_values := vs\<rparr>) []) = fst (deliverSecretFiles (blind_guest g) (c\<lparr>dc_values := vs'\<rparr>) [])
     \<and> map (hide \<circ> fst) (snd (deliverSecretFiles (blind_guest g) (c\<lparr>dc_values := vs\<rparr>) []))
       = map (hide \<circ> fst) (snd (deliverSecretFiles (blind_guest g) (c\<lparr>dc_values := vs'\<rparr>) []))"
proof -
  let ?run = "\<lambda>vs. deliverSecretFiles (blind_guest g) (c\<lparr>dc_values := vs\<rparr>) []"
  have same: "fst (?run vs) = fst (?run vs')" "hidden (snd (?run vs)) = hidden (snd (?run vs'))"
    using alike_delivery[OF assms, of g c] by (simp_all add: alike_def)
  have calls: "map (hide \<circ> fst) tr = map fst (hidden tr)" for tr by (simp add: hidden_def case_prod_unfold)
  have "map (hide \<circ> fst) (snd (?run vs)) = map (hide \<circ> fst) (snd (?run vs'))" using same(2) calls by metis
  then show ?thesis using same(1) by blast
qed

end
