(* ===== verification/Go_Space.thy ===== *)
theory Go_Space
  imports Go_Prelude
begin

text \<open>
  Text that \<open>strings.TrimSpace\<close> leaves alone: the lemmas on words whose ends are printable ASCII, shared
  by the guest's answers, the mount table and the printed forms that are parsed again.
\<close>

subsection \<open>Words without white space\<close>

definition plain_char :: "char \<Rightarrow> bool" where
  "plain_char c \<longleftrightarrow> CHR ''!'' \<le> c \<and> c \<le> CHR ''~''"

lemma space_runes_ends: "\<forall>r \<in> set space_runes. r \<noteq> [] \<and> \<not> plain_char (hd r) \<and> \<not> plain_char (last r)"
  by (simp add: space_runes_def plain_char_def char_le_nat)

lemma leading_space_plain: "plain_char c \<Longrightarrow> leading_space (c # s) = None"
  using space_runes_ends by (fastforce simp: leading_space_def find_None_iff has_prefix_iff Cons_eq_append_conv)

lemma leading_space_Nil [simp]: "leading_space [] = None"
  using space_runes_ends by (auto simp: leading_space_def find_None_iff has_prefix_iff)

lemma trailing_space_plain: "plain_char (last s) \<Longrightarrow> s \<noteq> [] \<Longrightarrow> trailing_space s = None"
  using space_runes_ends by (auto simp: trailing_space_def find_None_iff has_suffix_iff last_append)

lemma trim_space_Nil [simp]: "trim_space [] = []"
  by (simp add: trim_space_def)

lemma trim_space_plain: "plain_char (hd s) \<Longrightarrow> plain_char (last s) \<Longrightarrow> trim_space s = s"
proof (cases s)
  case (Cons c t)
  assume ends: "plain_char (hd s)" "plain_char (last s)"
  have "trim_left_n (length s) s = s" using ends Cons by (simp add: leading_space_plain)
  moreover have "trim_right_n (length s) s = s" using ends Cons trailing_space_plain[of s] by simp
  ultimately show ?thesis by (simp add: trim_space_def)
qed simp

end
