(* ===== verification/Wrap_Demo.thy ===== *)
theory Wrap_Demo
  imports Wrap_Blind Go_Space
begin

text \<open>
  An example delivery, evaluated by rewriting: a profile with one tmpfs and one credential file, and
  a guest whose answers let it through. It instantiates the properties of every delivery.
\<close>

subsection \<open>The example\<close>

definition demo_profile :: full_profile where
  "demo_profile = \<lparr>p_name = ''a'', p_kind = None, p_policy = [], p_reserved = False, p_deny = [],
     p_GuestHome = ''/h'', p_Secrets = [\<lparr>sd_Name = ''t'', sd_Required = None, sd_Field = [], sd_ExpiryField = [],
       sd_Sources = None, sd_From = [], sd_Service = [], sd_Path = [], sd_Var = [], sd_Hint = []\<rparr>], p_Env = [],
     p_Files = [\<lparr>fb_Ref = ''secrets.t'', fb_Path = ''.c/k'', fb_Mode = []\<rparr>],
     p_Volumes = [\<lparr>v_Kind = ''tmpfs'', v_Path = ''.c'', v_Source = [], v_Size = [], v_File = False, v_At = []\<rparr>]\<rparr>"

definition demo_config :: deliver_config where
  "demo_config = \<lparr>dc_Profile = demo_profile, dc_VMName = ''v'', dc_values = [(''t'', ''xyz'')], dc_brigCA = [], dc_MaxFeed = 2\<rparr>"

definition demo_guest :: guest where
  "demo_guest tr call = (case call of Feed x v \<Rightarrow> Some []
     | Output x \<Rightarrow> Some (if take 2 (es_Cmd x) = [''stat'', ''-f''] then ''tmpfs''
                 else if take 3 (es_Cmd x) = [''stat'', ''-c'', ''%s''] then ''3''
                 else if take 2 (es_Cmd x) = [''stat'', ''-c''] then ''regular file|h|600'' else []))"

subsection \<open>The steps\<close>

lemma demo_valid: "validateBindings demo_profile = None"
  by code_simp

lemma demo_volumes: "Tmpfs (p_Volumes demo_profile) = [\<lparr>v_Kind = ''tmpfs'', v_Path = ''.c'', v_Source = [], v_Size = [], v_File = False, v_At = []\<rparr>]" "HostMounts (p_Volumes demo_profile) = []"
  by code_simp+
lemma demo_targets: "mountTarget demo_config ''.c'' = ''/h/.c''" "mountTarget demo_config ''.c/k'' = ''/h/.c/k''"
  by code_simp+
lemma demo_dirs: "credentialDirs demo_config (p_Files demo_profile) = [''/h/.c'']" by code_simp
lemma demo_user: "GuestUser demo_profile = ''h''" by code_simp
lemma demo_pending: "pending_files demo_config (p_Files demo_profile) = Inr (p_Files demo_profile)" by code_simp

lemma demo_octal: "show_octal 384 = ''600''"
proof -
  have "digit_char 6 = CHR ''6''" "digit_char 0 = CHR ''0''" by code_simp+
  then show ?thesis by (simp add: show_octal.simps)
qed

lemma demo_regular: "regular_as ''h'' 384 ''regular file|h|600''"
  by (simp add: regular_as_def trim_space_plain plain_char_def char_le_nat has_prefix_def demo_octal)

lemma demo_size: "show_nat (length ''xyz'') = ''3''"
  by code_simp

lemma demo_trims: "trim_space ''tmpfs'' = ''tmpfs''" "trim_space ''3'' = ''3''"
  by (simp_all add: trim_space_plain plain_char_def char_le_nat)
lemma demo_lines: "nonEmptyLines [] = []" by (simp add: nonEmptyLines_def)
lemma demo_mounts: "mountpoints_in [] = []" by (simp add: mountpoints_in_def demo_lines)

lemma demo_out: "guestOutput demo_guest demo_config e argv tr =
   (let answer = (if take 2 argv = [''stat'', ''-f''] then ''tmpfs''
                 else if take 3 argv = [''stat'', ''-c'', ''%s''] then ''3''
                 else if take 2 argv = [''stat'', ''-c''] then ''regular file|h|600'' else []) in
    (Inr answer, tr @ [(Output (root_exec demo_config argv), Some answer)]))"
  by (simp add: guestOutput_def demo_guest_def root_exec_def Let_def)
lemma demo_feed: "feed demo_guest demo_config e t p tr = (Inr (), tr @ [(Feed (root_exec demo_config (feed_cmd t)) p, Some [])])"
  by (simp add: feed_def demo_guest_def Let_def)

lemma demo_conf: "dc_Profile demo_config = demo_profile" "dc_values demo_config = [(''t'', ''xyz'')]" "dc_brigCA demo_config = []"
  by (simp_all add: demo_config_def)
lemma demo_prof: "p_Files demo_profile = [\<lparr>fb_Ref = ''secrets.t'', fb_Path = ''.c/k'', fb_Mode = []\<rparr>]"
  "p_Volumes demo_profile = [\<lparr>v_Kind = ''tmpfs'', v_Path = ''.c'', v_Source = [], v_Size = [], v_File = False, v_At = []\<rparr>]"
  by (simp_all add: demo_profile_def)
lemma demo_ref: "ParseBindingRef ''secrets.t'' = Inr \<lparr>br_Namespace = ''secrets'', br_Name = ''t''\<rparr>" by code_simp
lemma demo_pieces: "value_pieces demo_config ''xyz'' = [''xy'', ''z'']" by code_simp


lemmas demo_steps = and_then_def ret_def demo_out guestRoot_def guestFstype_def require_def

lemma demo_mount: "\<exists>es. mountVolumes demo_guest demo_config tr = (Inr (), tr @ es)"
  by (simp add: mountVolumes_def guestMountpoints_def demo_steps demo_mounts demo_conf demo_volumes mount_phases_def
      demo_targets cover_with_def tmpfs_cmd_def Let_def)

lemma demo_verify: "\<exists>es. verifyVolumes demo_guest demo_config tr = (Inr (), tr @ es)"
  by (simp add: verifyVolumes_def demo_conf demo_volumes demo_targets verify_tmpfs_def demo_steps Let_def
      fstype_cmd_def demo_trims demo_lines)

lemma demo_chown: "\<exists>es. chownGuest demo_guest demo_config [d] u tr = (Inr (), tr @ es)"
  by (simp add: chownGuest_def Let_def demo_steps)

lemma demo_write: "\<exists>es. writeSecretFile demo_guest demo_config \<lparr>fb_Ref = ''secrets.t'', fb_Path = ''.c/k'', fb_Mode = []\<rparr> tr
   = (Inr (), tr @ es @ [(Feed (root_exec demo_config (feed_cmd ''/h/.c/k'')) ''xy'', Some []), (Feed (root_exec demo_config (feed_cmd ''/h/.c/k'')) ''z'', Some []),
     (Output (root_exec demo_config [''stat'', ''-c'', ''%s'', ''/h/.c/k'']), Some ''3'')])"
  using demo_size by (simp add: writeSecretFile_def demo_ref FileMode_def DefaultFileMode_def demo_conf demo_targets demo_user demo_steps Let_def
      verifySecretFile_def stat_cmd_def fstype_cmd_def demo_regular demo_trims demo_pieces demo_feed)

lemma demo_feeds: "\<exists>seen rest. snd (deliverSecretFiles demo_guest demo_config []) = seen @ (Feed (root_exec demo_config (feed_cmd ''/h/.c/k'')) ''xy'', Some []) # rest"
proof -
  obtain m where m: "mountVolumes demo_guest demo_config [] = (Inr (), m)" using demo_mount[of "[]"] by auto
  obtain v where v: "verifyVolumes demo_guest demo_config m = (Inr (), v)" using demo_verify[of m] by auto
  obtain k where k: "chownGuest demo_guest demo_config [''/h/.c''] ''root'' v = (Inr (), k)" using demo_chown by blast
  let ?x = "root_exec demo_config (feed_cmd ''/h/.c/k'')"
  let ?size = "(Output (root_exec demo_config [''stat'', ''-c'', ''%s'', ''/h/.c/k'']), Some ''3'')"
  let ?file = "\<lparr>fb_Ref = ''secrets.t'', fb_Path = ''.c/k'', fb_Mode = []\<rparr>"
  obtain es where "writeSecretFile demo_guest demo_config ?file k
     = (Inr (), k @ es @ [(Feed ?x ''xy'', Some []), (Feed ?x ''z'', Some []), ?size])" using demo_write by blast
  then obtain w where w: "writeSecretFile demo_guest demo_config ?file k = (Inr (), w)"
    and fed: "w = (k @ es) @ (Feed ?x ''xy'', Some []) # [(Feed ?x ''z'', Some []), ?size]" by simp
  obtain h where h: "chownGuest demo_guest demo_config [''/h/.c''] ''h'' w = (Inr (), w @ h)" using demo_chown by blast
  obtain h' where h': "chownGuest demo_guest demo_config [''/h/.c''] ''h'' (w @ h) = (Inr (), w @ h @ h')"
    using demo_chown[of "''/h/.c''" "''h''" "w @ h"] by auto
  have pend: "pending_files demo_config [?file] = Inr [?file]" "credentialDirs demo_config [?file] = [''/h/.c'']"
    using demo_pending demo_dirs by (simp_all only: demo_prof)
  have "writeSecretFiles demo_guest demo_config v = (Inr (), w @ h)"
    by (simp add: writeSecretFiles_def demo_conf demo_prof(1) pend demo_user guestRootUser_def and_then_def finally_do_def ret_def Let_def k w h
      del: pending_files.simps)
  then have "deliverSecretFiles demo_guest demo_config [] = (Inr (), w @ h @ h')"
    by (simp add: deliverSecretFiles_def deliverBrigCA_def demo_conf demo_prof(1) and_then_def ret_def m v h'
      releaseTmpfs_def demo_volumes demo_targets demo_user)
  then have "snd (deliverSecretFiles demo_guest demo_config []) =
      (k @ es) @ (Feed ?x ''xy'', Some []) # ((Feed ?x ''z'', Some []) # ?size # h @ h')" using fed by simp
  then show ?thesis by blast
qed

theorem secret_fed_only_checked_witness:
  "\<exists>seen rest. snd (deliverSecretFiles demo_guest demo_config [])
       = seen @ (Feed (root_exec demo_config (feed_cmd ''/h/.c/k'')) ''xy'', Some []) # rest
     \<and> cleared demo_config (root_exec demo_config (feed_cmd ''/h/.c/k'')) ''xy'' seen"
proof -
  have "\<not> is_ca_piece demo_config (root_exec demo_config (feed_cmd ''/h/.c/k'')) ''xy''"
    by (simp add: is_ca_piece_def demo_conf value_pieces_def)
  then show ?thesis using secret_fed_only_checked[where g = demo_guest and c = demo_config] demo_feeds by blast
qed

lemma demo_blind: "blind_guest demo_guest = demo_guest"
proof (intro ext)
  fix tr call show "blind_guest demo_guest tr call = demo_guest tr call"
    by (cases call) (simp_all add: blind_guest_def demo_guest_def)
qed

theorem commands_hide_values_witness:
  "map (hide \<circ> fst) (snd (deliverSecretFiles demo_guest demo_config []))
     = map (hide \<circ> fst) (snd (deliverSecretFiles demo_guest (demo_config\<lparr>dc_values := [(''t'', ''abc'')]\<rparr>) []))"
proof -
  have "same_lengths [(''t'', ''xyz'')] [(''t'', ''abc'')]" by (simp add: same_lengths_def)
  moreover have "demo_config\<lparr>dc_values := [(''t'', ''xyz'')]\<rparr> = demo_config" by (simp add: demo_config_def)
  ultimately show ?thesis
    using commands_hide_values[of "[(''t'', ''xyz'')]" "[(''t'', ''abc'')]" demo_guest demo_config] by (simp only: demo_blind)
qed

end
