(* ===== verification/Wrap_Layout.thy ===== *)
theory Wrap_Layout
  imports Wrap_Mounts Wrap_Demo
begin

text \<open>
  The three phases of \<open>mountVolumes\<close> in a guest that mounts what it is told to. The laws of such a
  guest are the locale \<open>mounting_guest\<close>: every command works, and the mount table it prints names
  the mounts made so far. \<open>kernel_guest\<close>, which answers the way the kernel prints
  \<open>/proc/self/mountinfo\<close>, is an instance, for mount points without the characters the kernel
  escapes there. In it, the paths that \<open>EphemeralPath\<close> accepts are exactly those that end up in
  memory, and every other path of the home leads to itself in the workspace.
\<close>

subsection \<open>Pinned or moved\<close>

lemma covered_by_Some:
  "covered_by ts h = Some t \<Longrightarrow> t \<in> set ts \<and> Profile_Volumes.Under (v_Path h) (v_Path t)"
proof -
  let ?step = "\<lambda>t found. if Profile_Volumes.Under (v_Path h) (v_Path t)
        then (case found of None \<Rightarrow> Some t | Some f \<Rightarrow> if Profile_Volumes.Under (v_Path t) (v_Path f) then Some t else found) else found"
  have "fold ?step us found = Some t \<Longrightarrow>
      (\<forall>f. found = Some f \<longrightarrow> f \<in> set ts \<and> Profile_Volumes.Under (v_Path h) (v_Path f)) \<Longrightarrow> set us \<subseteq> set ts
      \<Longrightarrow> t \<in> set ts \<and> Profile_Volumes.Under (v_Path h) (v_Path t)" for us found
    by (induction us arbitrary: found) (auto split: if_splits option.splits)
  then show "covered_by ts h = Some t \<Longrightarrow> ?thesis" by (simp add: covered_by_def)
qed

lemma covered_by_None: "covered_by ts h = None \<Longrightarrow> t \<in> set ts \<Longrightarrow> \<not> Profile_Volumes.Under (v_Path h) (v_Path t)"
proof -
  let ?step = "\<lambda>t found. if Profile_Volumes.Under (v_Path h) (v_Path t)
        then (case found of None \<Rightarrow> Some t | Some f \<Rightarrow> if Profile_Volumes.Under (v_Path t) (v_Path f) then Some t else found) else found"
  have stays: "fold ?step us (Some f) \<noteq> None" for us f
    by (induction us arbitrary: f) (auto split: if_splits)
  have "fold ?step us None = None \<Longrightarrow> t \<in> set us \<Longrightarrow> \<not> Profile_Volumes.Under (v_Path h) (v_Path t)" for us
    by (induction us) (auto simp: stays split: if_splits)
  then show "covered_by ts h = None \<Longrightarrow> t \<in> set ts \<Longrightarrow> ?thesis" by (simp add: covered_by_def)
qed

lemma host_covered:
  assumes "laid_out c" "h \<in> set (HostMounts (vols_of c))"
  shows "\<exists>t \<in> set (Tmpfs (vols_of c)). at_or_below (v_Path t) (v_Path h)"
  using assms laid_out_in at_or_below_iff by (fastforce simp: laid_out_def volumes_ok_def)

definition moved_path :: "deliver_config \<Rightarrow> string \<Rightarrow> bool" where
  "moved_path c x \<longleftrightarrow> (\<exists>t. relocated c t x)"

lemma pin_or_move:
  assumes ok: "laid_out c" and h: "h \<in> set (HostMounts (vols_of c))"
  shows "pinning (Tmpfs (vols_of c)) h \<longleftrightarrow> \<not> moved_path c (v_Path h)"
    and "relocating (Tmpfs (vols_of c)) h \<longleftrightarrow> moved_path c (v_Path h)"
proof -
  obtain t where t: "covered_by (Tmpfs (vols_of c)) h = Some t"
    using covered_by_None h ok by (metis laid_out_def not_None_eq volumes_ok_def)
  note in_t = covered_by_Some[OF t]
  have above: "at_or_below (v_Path t) (v_Path h)"
    using in_t laid_out_in ok h at_or_below_iff by blast
  have "moved_path c (v_Path h) \<longleftrightarrow> v_At t \<noteq> []"
  proof
    assume "moved_path c (v_Path h)"
    then obtain u where u: "relocated c u (v_Path h)" by (auto simp: moved_path_def)
    then have "t = u" using no_nest[OF ok _ _ _ above, of u] in_t by (auto simp: relocated_def)
    then show "v_At t \<noteq> []" using u by (simp add: relocated_def)
  next
    assume "v_At t \<noteq> []"
    then show "moved_path c (v_Path h)" using in_t above by (auto simp: moved_path_def relocated_def)
  qed
  then show "pinning (Tmpfs (vols_of c)) h \<longleftrightarrow> \<not> moved_path c (v_Path h)"
    "relocating (Tmpfs (vols_of c)) h \<longleftrightarrow> moved_path c (v_Path h)"
    using t by (simp_all add: pinning_def relocating_def)
qed

lemma target_in_home:
  assumes "laid_out c" "clean_rel x" "\<not> moved_path c x"
  shows "mountTarget c x = guestPath_of c x" "target_parts c x = home_parts c @ path_parts x"
proof -
  have "best_at (Tmpfs (vols_of c)) x = None"
  proof (rule ccontr)
    assume "best_at (Tmpfs (vols_of c)) x \<noteq> None"
    then obtain t where "best_at (Tmpfs (vols_of c)) x = Some t" by blast
    note t = best_at_Some[OF this]
    then have "relocated c t x"
      using laid_out_in(1)[OF assms(1)] assms(2) by (auto simp: relocated_def at_or_below_iff)
    then show False using assms(3) by (auto simp: moved_path_def)
  qed
  then show "mountTarget c x = guestPath_of c x" by (simp add: mountTarget_def)
  show "target_parts c x = home_parts c @ path_parts x"
    using target_of_home assms by (auto simp: moved_path_def)
qed

text \<open>A tmpfs that covers a moved path is the one that moves it, so nothing in the home does.\<close>

lemma moved_not_in_home:
  assumes "laid_out c" "moved_path c x" "t \<in> set (Tmpfs (vols_of c))" "at_or_below (v_Path t) x"
  shows "v_At t \<noteq> []"
proof -
  obtain u where "relocated c u x" using assms(2) by (auto simp: moved_path_def)
  then have "t = u" "v_At u \<noteq> []" using no_nest[OF assms(1,3) _ _ assms(4), of u] by (auto simp: relocated_def)
  then show ?thesis by simp
qed

lemma at_off_home:
  assumes "laid_out c" "clean_rel x" "moved_path c x"
  shows "\<not> prefix (target_parts c x) (home_parts c @ es)"
  using assms(1,2)
proof (cases rule: target_cases)
  case (moved t fs)
  show ?thesis
  proof
    assume "prefix (target_parts c x) (home_parts c @ es)"
    then obtain gs where "home_parts c @ es = path_parts (v_At t) @ fs @ gs" using moved(3) by (auto simp: prefix_def)
    then have "prefix (path_parts (v_At t)) (home_parts c) \<or> prefix (home_parts c) (path_parts (v_At t))"
      using comparable by blast
    then show False using at_facts[OF assms(1)] moved(1) by (metis relocated_def)
  qed
next
  case home
  then show ?thesis using assms(3) by (auto simp: moved_path_def)
qed

subsection \<open>The tables of the phases\<close>

definition pin_mount :: "deliver_config \<Rightarrow> volume \<Rightarrow> mount_table \<Rightarrow> mount_table" where
  "pin_mount c h T =
     (if moved_path c (v_Path h) then T
      else (pinPath (v_Path h), resolve T (path_parts (guestPath_of c (v_Path h)))) # T)"

definition cover_mount :: "deliver_config \<Rightarrow> volume \<Rightarrow> mount_table \<Rightarrow> mount_table" where
  "cover_mount c t T = (mountTarget c (v_Path t), Memory (length T) []) # T"

definition back_mount :: "deliver_config \<Rightarrow> volume \<Rightarrow> mount_table \<Rightarrow> mount_table" where
  "back_mount c h T =
     (mountTarget c (v_Path h),
      resolve T (path_parts (if moved_path c (v_Path h) then guestPath_of c (v_Path h) else pinPath (v_Path h)))) # T"

definition phases :: "deliver_config \<Rightarrow> mount_table \<Rightarrow> mount_table" where
  "phases c base =
     (let hs = HostMounts (vols_of c) in
      fold (back_mount c) hs (fold (cover_mount c) (Tmpfs (vols_of c)) (fold (pin_mount c) hs base)))"

definition pinned :: "deliver_config \<Rightarrow> volume set \<Rightarrow> mount_table \<Rightarrow> bool" where
  "pinned c H T \<longleftrightarrow>
     (\<forall>h \<in> H. \<not> moved_path c (v_Path h) \<longrightarrow> resolve T (path_parts (pinPath (v_Path h))) = Workspace (path_parts (v_Path h)))"

definition home_shared :: "deliver_config \<Rightarrow> mount_table \<Rightarrow> bool" where
  "home_shared c T \<longleftrightarrow> (\<forall>es. resolve T (home_parts c @ es) = Workspace es)"

lemma pin_phase:
  assumes ok: "laid_out c" and hs: "set hs \<subseteq> set (HostMounts (vols_of c))"
  shows "home_shared c T \<Longrightarrow> pinned c D T \<Longrightarrow>
     home_shared c (fold (pin_mount c) hs T) \<and> pinned c (D \<union> set hs) (fold (pin_mount c) hs T)"
  using hs
proof (induction hs arbitrary: T D)
  case (Cons h hs)
  have home: "home_shared c (pin_mount c h T)"
    using Cons.prems(1) off_run_pin(2)[OF off_run_append[OF off_run_home[OF ok]]]
    by (simp add: home_shared_def pin_mount_def)
  have "pinned c (insert h D) (pin_mount c h T)"
    unfolding pinned_def
  proof (intro ballI impI)
    fix k assume k: "k \<in> insert h D" "\<not> moved_path c (v_Path k)"
    show "resolve (pin_mount c h T) (path_parts (pinPath (v_Path k))) = Workspace (path_parts (v_Path k))"
    proof (cases "moved_path c (v_Path h)")
      case True
      then have "k \<in> D" using k by auto
      then show ?thesis using True k Cons.prems(2) by (simp add: pin_mount_def pinned_def)
    next
      case False
      have src: "resolve T (path_parts (guestPath_of c (v_Path h))) = Workspace (path_parts (v_Path h))"
        using Cons.prems(1) guestPath_parts[OF ok] by (simp add: home_shared_def)
      show ?thesis
      proof (cases "v_Path k = v_Path h")
        case True
        then show ?thesis using False src resolve_here[OF refl, of _ _ _ "[]"] by (simp add: pin_mount_def)
      next
        case differ: False
        then have "k \<in> D" using k by auto
        moreover have "\<not> prefix (path_parts (pinPath (v_Path h))) (path_parts (pinPath (v_Path k)))"
          using differ escape_inject by (auto simp: pin_parts)
        ultimately show ?thesis using False k Cons.prems(2) by (simp add: pin_mount_def pinned_def)
      qed
    qed
  qed
  then show ?case using Cons.IH[OF home, of "insert h D"] Cons.prems(3) by simp
qed simp

definition covered :: "deliver_config \<Rightarrow> volume set \<Rightarrow> mount_table \<Rightarrow> bool" where
  "covered c S T \<longleftrightarrow>
     (\<forall>x. clean_rel x \<longrightarrow> (\<exists>t \<in> S. at_or_below (v_Path t) x) \<longrightarrow> is_memory (resolve T (target_parts c x)))"

text \<open>What the home still shows of itself: paths that no tmpfs is mounted at or above.\<close>

definition home_open :: "deliver_config \<Rightarrow> mount_table \<Rightarrow> bool" where
  "home_open c T \<longleftrightarrow>
     (\<forall>es. (\<forall>t \<in> set (Tmpfs (vols_of c)). \<not> prefix (target_parts c (v_Path t)) (home_parts c @ es))
        \<longrightarrow> resolve T (home_parts c @ es) = Workspace es)"

lemma below_memory [simp]: "is_memory (below b es) \<longleftrightarrow> is_memory b"
  by (cases b) simp_all

lemma resolve_entry:
  "resolve ((m, b) # T) p =
     (if prefix (path_parts m) p then below b (drop (length (path_parts m)) p) else resolve T p)"
  by (rule resolve.simps)

lemma cover_phase:
  assumes ok: "laid_out c" and ts: "set ts \<subseteq> set (Tmpfs (vols_of c))"
  shows "pinned c D T \<Longrightarrow> home_open c T \<Longrightarrow> covered c S T \<Longrightarrow>
     pinned c D (fold (cover_mount c) ts T) \<and> home_open c (fold (cover_mount c) ts T)
     \<and> covered c (S \<union> set ts) (fold (cover_mount c) ts T)"
  using ts
proof (induction ts arbitrary: T S)
  case (Cons t ts)
  have t: "t \<in> set (Tmpfs (vols_of c))" "t \<in> set (vols_of c)" using Cons.prems(4) by (auto simp: set_Tmpfs)
  have off: "off_run (path_parts (mountTarget c (v_Path t)))"
    using off_run_target[OF ok laid_out_in(1)[OF ok t(1)]] by (simp add: target_parts_def)
  have 1: "pinned c D (cover_mount c t T)"
    using Cons.prems(1) off_run_pin(1)[OF off] by (simp add: pinned_def cover_mount_def)
  have 2: "home_open c (cover_mount c t T)"
    using Cons.prems(2) t(1) by (simp add: home_open_def cover_mount_def target_parts_def)
  have 3: "covered c (insert t S) (cover_mount c t T)"
    unfolding covered_def
  proof (intro allI impI)
    fix x assume x: "clean_rel x" "\<exists>u \<in> insert t S. at_or_below (v_Path u) x"
    show "is_memory (resolve (cover_mount c t T) (target_parts c x))"
    proof (cases "at_or_below (v_Path t) x")
      case True
      then have "prefix (path_parts (mountTarget c (v_Path t))) (target_parts c x)"
        using target_order[OF ok t(2) x(1)] by (simp add: target_parts_def)
      then show ?thesis by (simp add: cover_mount_def resolve_entry)
    next
      case False
      then have "\<not> prefix (path_parts (mountTarget c (v_Path t))) (target_parts c x)"
        using target_order[OF ok t(2) x(1)] by (simp add: target_parts_def)
      moreover have "is_memory (resolve T (target_parts c x))" using False x Cons.prems(3) by (auto simp: covered_def)
      ultimately show ?thesis by (simp add: cover_mount_def)
    qed
  qed
  show ?case using Cons.IH[OF 1 2 3] Cons.prems(4) by simp
qed simp

text \<open>
  While the hostmounts come back: those done lead to themselves in the workspace, the rest of what
  a tmpfs covers stays in memory, and the sources of the others are still there.
\<close>

definition brought_back :: "deliver_config \<Rightarrow> volume set \<Rightarrow> mount_table \<Rightarrow> bool" where
  "brought_back c D T \<longleftrightarrow>
     pinned c (set (HostMounts (vols_of c))) T
     \<and> (\<forall>x. clean_rel x \<longrightarrow> (\<exists>h \<in> D. at_or_below (v_Path h) x) \<longrightarrow> resolve T (target_parts c x) = Workspace (path_parts x))
     \<and> (\<forall>x. clean_rel x \<longrightarrow> (\<exists>t \<in> set (Tmpfs (vols_of c)). at_or_below (v_Path t) x)
          \<longrightarrow> (\<forall>h \<in> set (HostMounts (vols_of c)). \<not> at_or_below (v_Path h) x) \<longrightarrow> is_memory (resolve T (target_parts c x)))
     \<and> (\<forall>x. clean_rel x \<longrightarrow> (\<forall>t \<in> set (Tmpfs (vols_of c)). at_or_below (v_Path t) x \<longrightarrow> v_At t \<noteq> [])
          \<longrightarrow> resolve T (home_parts c @ path_parts x) = Workspace (path_parts x))"

lemma no_target_in_home:
  assumes ok: "laid_out c" and v: "v \<in> set (vols_of c)"
    and free: "\<And>t. t \<in> set (Tmpfs (vols_of c)) \<Longrightarrow> at_or_below (v_Path t) x \<Longrightarrow> v_At t \<noteq> []"
  shows "\<not> prefix (target_parts c (v_Path v)) (home_parts c @ path_parts x)"
proof
  assume pre: "prefix (target_parts c (v_Path v)) (home_parts c @ path_parts x)"
  note clean = laid_out_volume(1)[OF ok v]
  then have stay: "\<not> moved_path c (v_Path v)" using at_off_home[OF ok] pre by blast
  then have vx: "at_or_below (v_Path v) x" using target_in_home(2)[OF ok clean] pre by simp
  have "\<exists>t \<in> set (Tmpfs (vols_of c)). at_or_below (v_Path t) (v_Path v)"
    using laid_out_volume(2)[OF ok v] host_covered[OF ok, of v] v by (auto simp: set_Tmpfs set_HostMounts)
  then obtain t where t: "t \<in> set (Tmpfs (vols_of c))" "at_or_below (v_Path t) (v_Path v)" by blast
  then have "v_At t \<noteq> []" using free vx by (meson prefix_order.trans)
  then show False using t stay by (auto simp: moved_path_def relocated_def)
qed

lemma back_source:
  assumes ok: "laid_out c" and h: "h \<in> set (HostMounts (vols_of c))" and T: "brought_back c D T"
  shows "resolve T (path_parts (if moved_path c (v_Path h) then guestPath_of c (v_Path h) else pinPath (v_Path h)))
     = Workspace (path_parts (v_Path h))"
proof (cases "moved_path c (v_Path h)")
  case True
  then have "\<forall>t \<in> set (Tmpfs (vols_of c)). at_or_below (v_Path t) (v_Path h) \<longrightarrow> v_At t \<noteq> []"
    using moved_not_in_home[OF ok] by blast
  then show ?thesis using True T laid_out_in(2)[OF ok h] guestPath_parts[OF ok] by (simp add: brought_back_def)
next
  case False
  then show ?thesis using T h by (simp add: brought_back_def pinned_def)
qed

lemma back_step:
  assumes ok: "laid_out c" and h: "h \<in> set (HostMounts (vols_of c))" and T: "brought_back c D T"
  shows "brought_back c (insert h D) (back_mount c h T)"
proof -
  have v: "h \<in> set (vols_of c)" using h by (simp add: set_HostMounts)
  note clean = laid_out_in(2)[OF ok h]
  let ?m = "mountTarget c (v_Path h)"
  have mount: "back_mount c h T = (?m, Workspace (path_parts (v_Path h))) # T"
    using back_source[OF ok h T] by (simp add: back_mount_def)
  have parts: "path_parts ?m = target_parts c (v_Path h)" by (simp add: target_parts_def)
  have 1: "pinned c (set (HostMounts (vols_of c))) (back_mount c h T)"
    using T off_run_pin(1)[OF off_run_target[OF ok clean]]
    by (simp add: brought_back_def pinned_def mount parts)
  have there: "resolve (back_mount c h T) (target_parts c x) = Workspace (path_parts x)"
    if x: "clean_rel x" "at_or_below (v_Path h) x" for x
  proof -
    obtain es where es: "path_parts x = path_parts (v_Path h) @ es" using x(2) by (auto simp: prefix_def)
    then have "target_parts c x = path_parts ?m @ es" using target_above[OF ok v x(1)] parts by simp
    then show ?thesis using es by (simp add: mount)
  qed
  have past: "resolve (back_mount c h T) (target_parts c x) = resolve T (target_parts c x)"
    if "clean_rel x" "\<not> at_or_below (v_Path h) x" for x
    using target_order[OF ok v that(1)] that(2) by (simp add: mount parts)
  have 4: "resolve (back_mount c h T) (home_parts c @ path_parts x) = Workspace (path_parts x)"
    if x: "clean_rel x" "\<forall>t \<in> set (Tmpfs (vols_of c)). at_or_below (v_Path t) x \<longrightarrow> v_At t \<noteq> []" for x
    using no_target_in_home[OF ok v, of x] x T by (simp add: mount parts brought_back_def)
  show ?thesis unfolding brought_back_def
  proof (intro conjI allI impI)
    fix x assume x: "clean_rel x" "\<exists>k \<in> insert h D. at_or_below (v_Path k) x"
    show "resolve (back_mount c h T) (target_parts c x) = Workspace (path_parts x)"
      using there[OF x(1)] past[OF x(1)] x T by (cases "at_or_below (v_Path h) x") (auto simp: brought_back_def)
  next
    fix x assume x: "clean_rel x" "\<exists>t \<in> set (Tmpfs (vols_of c)). at_or_below (v_Path t) x"
      "\<forall>k \<in> set (HostMounts (vols_of c)). \<not> at_or_below (v_Path k) x"
    then show "is_memory (resolve (back_mount c h T) (target_parts c x))"
      using past[OF x(1)] h T by (simp add: brought_back_def)
  qed (use 1 4 in auto)
qed

lemma back_phase:
  assumes ok: "laid_out c" and hs: "set hs \<subseteq> set (HostMounts (vols_of c))"
  shows "brought_back c D T \<Longrightarrow> brought_back c (D \<union> set hs) (fold (back_mount c) hs T)"
  using hs
proof (induction hs arbitrary: T D)
  case (Cons h hs)
  then have "brought_back c (insert h D) (back_mount c h T)" using back_step[OF ok] by simp
  then show ?case using Cons.IH[of "insert h D"] Cons.prems(2) by simp
qed simp

lemma phases_back:
  assumes ok: "laid_out c" and base: "home_shared c base"
  shows "brought_back c (set (HostMounts (vols_of c))) (phases c base)"
proof -
  let ?hs = "HostMounts (vols_of c)" and ?ts = "Tmpfs (vols_of c)"
  let ?P = "fold (pin_mount c) ?hs base"
  let ?C = "fold (cover_mount c) ?ts ?P"
  have P: "home_shared c ?P" "pinned c (set ?hs) ?P"
    using pin_phase[OF ok order_refl base, of "{}"] by (simp_all add: pinned_def)
  have C: "pinned c (set ?hs) ?C" "home_open c ?C" "covered c (set ?ts) ?C"
    using cover_phase[OF ok order_refl P(2), of "{}"] P(1) by (simp_all add: home_open_def home_shared_def covered_def)
  have bare: "resolve ?C (home_parts c @ path_parts x) = Workspace (path_parts x)"
    if "\<forall>t \<in> set ?ts. at_or_below (v_Path t) x \<longrightarrow> v_At t \<noteq> []" for x
  proof -
    have "\<forall>t \<in> set ?ts. \<not> prefix (target_parts c (v_Path t)) (home_parts c @ path_parts x)"
      using no_target_in_home[OF ok, of _ x] that by (auto simp: set_Tmpfs)
    then show ?thesis using C(2) by (simp add: home_open_def)
  qed
  have "brought_back c {} ?C"
    using C(1,3) bare unfolding brought_back_def covered_def by blast
  then show ?thesis using back_phase[OF ok order_refl, of "{}"] by (simp add: phases_def Let_def)
qed

lemma EphemeralPath_parts:
  assumes "laid_out c" "clean_rel x"
  shows "EphemeralPath (vols_of c) x \<longleftrightarrow>
     (\<exists>t \<in> set (Tmpfs (vols_of c)). at_or_below (v_Path t) x) \<and> (\<forall>h \<in> set (HostMounts (vols_of c)). \<not> at_or_below (v_Path h) x)"
proof -
  have "at_or_below (v_Path v) x \<longleftrightarrow> x = v_Path v \<or> Profile_Volumes.Under x (v_Path v)" if "v \<in> set (vols_of c)" for v
    using at_or_below_iff laid_out_volume(1)[OF assms(1) that] assms(2) by blast
  then show ?thesis unfolding EphemeralPath_def list_ex_iff by (auto simp: set_Tmpfs set_HostMounts)
qed

text \<open>The whole of it: in memory when \<open>EphemeralPath\<close> says so, and in the workspace otherwise.\<close>

lemma phases_place:
  assumes ok: "laid_out c" and base: "home_shared c base" and x: "clean_rel x"
  shows "if EphemeralPath (vols_of c) x then is_memory (resolve (phases c base) (target_parts c x))
     else resolve (phases c base) (target_parts c x) = Workspace (path_parts x)"
proof -
  note fin = phases_back[OF ok base]
  consider (eph) "EphemeralPath (vols_of c) x" | (kept) "\<exists>h \<in> set (HostMounts (vols_of c)). at_or_below (v_Path h) x"
    | (bare) "\<forall>t \<in> set (Tmpfs (vols_of c)). \<not> at_or_below (v_Path t) x"
    using EphemeralPath_parts[OF ok x] by blast
  then show ?thesis
  proof cases
    case eph
    then show ?thesis using fin x EphemeralPath_parts[OF ok x] by (simp add: brought_back_def)
  next
    case kept
    then have "\<not> EphemeralPath (vols_of c) x" using EphemeralPath_parts[OF ok x] by blast
    then show ?thesis using fin x kept by (simp add: brought_back_def)
  next
    case bare
    then have no: "\<not> EphemeralPath (vols_of c) x" "\<not> moved_path c x"
      using EphemeralPath_parts[OF ok x] by (auto simp: moved_path_def relocated_def)
    then show ?thesis using fin x bare target_in_home(2)[OF ok x no(2)] by (simp add: brought_back_def)
  qed
qed

end
