(* ===== verification/Wrap_Kernel.thy ===== *)
theory Wrap_Kernel
  imports Wrap_Layout
begin

text \<open>
  \<open>mountVolumes\<close> run in a guest that mounts. The locale states what the code relies on of such a
  guest, its lemmas run the code once, and \<open>kernel_guest\<close> provides the laws.
\<close>

definition plain_name :: "string \<Rightarrow> bool" where
  "plain_name m \<longleftrightarrow> m \<noteq> [] \<and> (\<forall>c \<in> set m. plain_char c \<and> c \<noteq> CHR 0x5C)"

definition names :: "mount_table \<Rightarrow> string set" where
  "names T = fst ` set T"

definition mountinfo_cmd :: "string list" where
  "mountinfo_cmd = [''cat'', ''/proc/self/mountinfo'']"

locale mounting_guest =
  fixes guest :: "trace \<Rightarrow> call \<Rightarrow> string option" and base :: mount_table
  assumes works: "guest tr (Output x) \<noteq> None"
    and tells: "es_Cmd x = mountinfo_cmd \<Longrightarrow> guest tr (Output x) = Some out \<Longrightarrow>
      (\<forall>m \<in> names (table_after base tr). plain_name m) \<Longrightarrow> set (mountpoints_in out) = names (table_after base tr)"
begin

definition does :: "unit act \<Rightarrow> (mount_table \<Rightarrow> mount_table) \<Rightarrow> bool" where
  "does m f \<longleftrightarrow> (\<forall>tr. \<exists>tr'. m tr = (Inr (), tr') \<and> table_after base tr' = f (table_after base tr))"

lemma doesI: "(\<And>tr. \<exists>tr'. m tr = (Inr (), tr') \<and> table_after base tr' = f (table_after base tr)) \<Longrightarrow> does m f"
  by (simp add: does_def)

lemma does_ret: "does (ret ()) (\<lambda>T. T)"
  by (simp add: does_def ret_def)

lemma does_then:
  assumes "does m f" "does m' h"
  shows "does (and_then m (\<lambda>_. m')) (\<lambda>T. h (f T))"
proof (rule doesI)
  fix tr
  obtain t where t: "m tr = (Inr (), t)" "table_after base t = f (table_after base tr)"
    using assms(1) unfolding does_def by blast
  obtain u where u: "m' t = (Inr (), u)" "table_after base u = h (table_after base t)"
    using assms(2) unfolding does_def by blast
  show "\<exists>tr'. and_then m (\<lambda>_. m') tr = (Inr (), tr') \<and> table_after base tr' = h (f (table_after base tr))"
    using t u by (intro exI[of _ u]) (simp add: and_then_def)
qed

lemma does_each: "(\<And>x. x \<in> set xs \<Longrightarrow> does (f x) (F x)) \<Longrightarrow> does (each f xs) (fold F xs)"
proof (induction xs)
  case (Cons x xs)
  then have "does (and_then (f x) (\<lambda>_. each f xs)) (\<lambda>T. fold F xs (F x T))" by (intro does_then) auto
  then show ?case by (simp add: comp_def)
qed (simp add: does_ret id_def)

lemma does_root: "does (guestRoot guest c e argv) (mount_effect argv)"
proof (rule doesI)
  fix tr
  obtain out where "guest tr (Output (root_exec c argv)) = Some out" using works by blast
  then show "\<exists>tr'. guestRoot guest c e argv tr = (Inr (), tr') \<and> table_after base tr' = mount_effect argv (table_after base tr)"
    by (simp add: guestRoot_def guestOutput_def and_then_def ret_def Let_def) (simp add: root_exec_def)
qed

lemma does_root_as:
  assumes "mount_effect argv = f"
  shows "does (guestRoot guest c e argv) f"
  unfolding assms[symmetric] by (rule does_root)

lemma does_if: "does m f \<Longrightarrow> does m' f \<Longrightarrow> does (if b then m else m') f"
  by simp

lemma does_create: "does (createGuestTarget guest c e target file) (\<lambda>T. T)"
  unfolding createGuestTarget_def
  by (rule does_if; rule does_root_as; simp add: mount_effect_def fun_eq_iff)

lemma does_bind: "does (bind_mount guest c e from onto) (\<lambda>T. (onto, resolve T (path_parts from)) # T)"
  unfolding bind_mount_def by (rule does_root_as) (simp add: mount_effect_def fun_eq_iff)

lemma does_create_bind:
  "does (and_then (createGuestTarget guest c e onto file) (\<lambda>_. bind_mount guest c e' from onto))
     (\<lambda>T. (onto, resolve T (path_parts from)) # T)"
  by (rule does_then[OF does_create does_bind])

lemma does_pin:
  assumes "laid_out c" "h \<in> set (HostMounts (vols_of c))" "pinPath (v_Path h) \<notin> set mounted"
  shows "does (pin guest c (Tmpfs (vols_of c)) mounted h) (pin_mount c h)"
  using pin_or_move(1)[OF assms(1,2)] assms(3) does_ret does_create_bind
  by (cases "moved_path c (v_Path h)") (auto simp: pin_def pin_mount_def[abs_def])

lemma does_mkdir:
  "does (if v_At t \<noteq> [] then guestRoot guest c e [''mkdir'', ''-p'', v_At t] else ret ()) (\<lambda>T. T)"
  by (rule does_if, rule does_root_as, simp add: mount_effect_def fun_eq_iff, rule does_ret)

lemma does_cover: "does (cover_with guest c t) (cover_mount c t)"
proof -
  have "does (guestRoot guest c e (tmpfs_cmd c t)) (cover_mount c t)" for e
    by (rule does_root_as) (simp add: mount_effect_def tmpfs_cmd_def cover_mount_def fun_eq_iff)
  from does_then[OF does_mkdir this] show ?thesis unfolding cover_with_def .
qed

lemma does_back:
  assumes "laid_out c" "h \<in> set (HostMounts (vols_of c))"
  shows "does (bind_back guest c (Tmpfs (vols_of c)) h) (back_mount c h)"
proof (cases "moved_path c (v_Path h)")
  case True
  then show ?thesis
    using pin_or_move(2)[OF assms] does_create_bind by (simp add: bind_back_def back_mount_def[abs_def])
next
  case False
  then show ?thesis
    using pin_or_move[OF assms] does_create_bind target_in_home(1)[OF assms(1) laid_out_in(2)[OF assms]]
    by (simp add: bind_back_def back_mount_def[abs_def])
qed

lemma mountpoints_told:
  assumes "\<forall>m \<in> names (table_after base tr). plain_name m"
  shows "\<exists>mounted tr'. guestMountpoints guest c tr = (Inr mounted, tr')
     \<and> set mounted = names (table_after base tr) \<and> table_after base tr' = table_after base tr"
proof -
  obtain out where out: "guest tr (Output (root_exec c mountinfo_cmd)) = Some out" using works by blast
  have "mount_effect mountinfo_cmd = (\<lambda>T. T)" by (auto simp: mount_effect_def mountinfo_cmd_def fun_eq_iff)
  then have "table_after base (tr @ [(Output (root_exec c mountinfo_cmd), Some out)]) = table_after base tr"
    by (simp add: root_exec_def)
  moreover have "guestMountpoints guest c tr = (Inr (mountpoints_in out), tr @ [(Output (root_exec c mountinfo_cmd), Some out)])"
    using out by (simp add: guestMountpoints_def guestOutput_def and_then_def ret_def Let_def mountinfo_cmd_def)
  moreover have "set (mountpoints_in out) = names (table_after base tr)"
    by (rule tells[OF _ out assms]) (simp add: root_exec_def)
  ultimately show ?thesis by blast
qed

end

subsection \<open>A fresh guest\<close>

definition fresh :: "deliver_config \<Rightarrow> mount_table \<Rightarrow> bool" where
  "fresh c base \<longleftrightarrow>
     home_shared c base
     \<and> (\<forall>v \<in> set (vols_of c). mountTarget c (v_Path v) \<notin> names base \<and> guestPath_of c (v_Path v) \<notin> names base
          \<and> pinPath (v_Path v) \<notin> names base)"

definition plain_names :: "deliver_config \<Rightarrow> mount_table \<Rightarrow> bool" where
  "plain_names c base \<longleftrightarrow>
     (\<forall>m \<in> names base. plain_name m)
     \<and> (\<forall>v \<in> set (vols_of c). plain_name (mountTarget c (v_Path v)) \<and> plain_name (pinPath (v_Path v)))"

lemma names_fold:
  assumes "\<And>v T. v \<in> set vs \<Longrightarrow> names (F v T) \<subseteq> N v \<union> names T"
  shows "names (fold F vs T) \<subseteq> (\<Union>v \<in> set vs. N v) \<union> names T"
  using assms
proof (induction vs arbitrary: T)
  case (Cons v vs)
  have "names (fold F vs (F v T)) \<subseteq> (\<Union>v \<in> set vs. N v) \<union> names (F v T)" using Cons by simp
  also have "\<dots> \<subseteq> (\<Union>v \<in> set vs. N v) \<union> (N v \<union> names T)" using Cons.prems[of v T] by auto
  finally show ?case by auto
qed simp

lemma names_mounts:
  "names (pin_mount c v T) \<subseteq> {pinPath (v_Path v)} \<union> names T"
  "names (cover_mount c v T) \<subseteq> {mountTarget c (v_Path v)} \<union> names T"
  "names (back_mount c v T) \<subseteq> {mountTarget c (v_Path v)} \<union> names T"
  by (auto simp: names_def pin_mount_def cover_mount_def back_mount_def)

lemma phases_plain:
  assumes "plain_names c base"
  shows "\<forall>m \<in> names (phases c base). plain_name m"
proof
  let ?hs = "HostMounts (vols_of c)" and ?ts = "Tmpfs (vols_of c)"
  let ?P = "fold (pin_mount c) ?hs base"
  let ?C = "fold (cover_mount c) ?ts ?P"
  fix m assume "m \<in> names (phases c base)"
  then consider "m \<in> (\<Union>v \<in> set ?hs. {mountTarget c (v_Path v)})" | "m \<in> (\<Union>v \<in> set ?ts. {mountTarget c (v_Path v)})"
    | "m \<in> (\<Union>v \<in> set ?hs. {pinPath (v_Path v)})" | "m \<in> names base"
    using names_fold[of ?hs "back_mount c" "\<lambda>v. {mountTarget c (v_Path v)}" ?C, OF names_mounts(3)]
      names_fold[of ?ts "cover_mount c" "\<lambda>v. {mountTarget c (v_Path v)}" ?P, OF names_mounts(2)]
      names_fold[of ?hs "pin_mount c" "\<lambda>v. {pinPath (v_Path v)}" base, OF names_mounts(1)]
    unfolding phases_def Let_def by blast
  then show "plain_name m"
    using assms by cases (auto simp: plain_names_def set_Tmpfs set_HostMounts)
qed

lemma names_back: "h \<in> set hs \<Longrightarrow> mountTarget c (v_Path h) \<in> names (fold (back_mount c) hs T)"
proof (induction hs arbitrary: T)
  case (Cons k hs)
  have keep: "n \<in> names T \<Longrightarrow> n \<in> names (fold (back_mount c) hs T)" for n T
    by (induction hs arbitrary: T) (auto simp: names_def back_mount_def)
  show ?case
  proof (cases "h = k")
    case True
    have "mountTarget c (v_Path k) \<in> names (back_mount c k T)" by (simp add: names_def back_mount_def)
    then show ?thesis using keep True by simp
  next
    case False
    then show ?thesis using Cons by simp
  qed
qed simp

lemma to_cover_all:
  "\<forall>v \<in> set vs. mountTarget c (v_Path v) \<notin> set mounted \<and> guestPath_of c (v_Path v) \<notin> set mounted
     \<Longrightarrow> to_cover c mounted vs = Inr vs"
  by (induction vs) auto

lemma require_all: "\<forall>x \<in> set xs. ok x \<Longrightarrow> each (\<lambda>x. require (ok x) (e x)) xs tr = (Inr (), tr)"
  by (induction xs) (auto simp: require_def ret_def and_then_def)

lemma no_tmpfs_phases: "laid_out c \<Longrightarrow> Tmpfs (vols_of c) = [] \<Longrightarrow> HostMounts (vols_of c) = [] \<and> phases c base = base"
proof -
  assume ok: "laid_out c" "Tmpfs (vols_of c) = []"
  then have "set (HostMounts (vols_of c)) = {}" using host_covered[OF ok(1)] by fastforce
  then have "HostMounts (vols_of c) = []" by simp
  then show ?thesis using ok(2) by (simp add: phases_def)
qed

context mounting_guest
begin

lemma phases_run:
  assumes ok: "laid_out c" and plain: "plain_names c base" and new: "fresh c base"
    and tr: "table_after base tr = base" and mounted: "set mounted = names base"
  shows "\<exists>mounted' tr'. mount_phases guest c (Tmpfs (vols_of c)) mounted tr = (Inr mounted', tr')
     \<and> set mounted' = names (phases c base) \<and> table_after base tr' = phases c base"
proof -
  let ?hs = "HostMounts (vols_of c)" and ?ts = "Tmpfs (vols_of c)"
  have free: "pinPath (v_Path h) \<notin> set mounted" if "h \<in> set ?hs" for h
    using new mounted that by (simp add: fresh_def set_HostMounts)
  have pins: "does (each (pin guest c ?ts mounted) ?hs) (fold (pin_mount c) ?hs)"
    using does_pin[OF ok] free by (intro does_each) blast
  have covers: "does (each (cover_with guest c) ?ts) (fold (cover_mount c) ?ts)"
    by (intro does_each does_cover)
  have backs: "does (each (bind_back guest c ?ts) ?hs) (fold (back_mount c) ?hs)"
    by (intro does_each does_back[OF ok])
  obtain t1 where t1: "each (pin guest c ?ts mounted) ?hs tr = (Inr (), t1)" "table_after base t1 = fold (pin_mount c) ?hs base"
    using pins tr unfolding does_def by metis
  obtain t2 where t2: "each (cover_with guest c) ?ts t1 = (Inr (), t2)" "table_after base t2 = fold (cover_mount c) ?ts (table_after base t1)"
    using covers unfolding does_def by metis
  obtain t3 where t3: "each (bind_back guest c ?ts) ?hs t2 = (Inr (), t3)" "table_after base t3 = fold (back_mount c) ?hs (table_after base t2)"
    using backs unfolding does_def by metis
  have T: "table_after base t3 = phases c base" using t1 t2 t3 by (simp add: phases_def Let_def)
  then obtain mounted' t4 where t4: "guestMountpoints guest c t3 = (Inr mounted', t4)"
    "set mounted' = names (phases c base)" "table_after base t4 = phases c base"
    using mountpoints_told[of t3 c] phases_plain[OF plain] by auto
  show ?thesis
    using t1(1) t2(1) t3(1) t4 by (simp add: mount_phases_def Let_def and_then_def)
qed

lemma mountVolumes_run:
  assumes ok: "laid_out c" and plain: "plain_names c base" and new: "fresh c base"
  shows "\<exists>tr. mountVolumes guest c [] = (Inr (), tr) \<and> table_after base tr = phases c base"
proof -
  have "table_after base [] = base" by (simp add: table_after_def)
  then obtain mounted t where t: "guestMountpoints guest c [] = (Inr mounted, t)" "set mounted = names base" "table_after base t = base"
    using mountpoints_told[of "[]" c] plain by (auto simp: plain_names_def)
  have cover: "to_cover c mounted (Tmpfs (vols_of c)) = Inr (Tmpfs (vols_of c))"
    using new t(2) by (intro to_cover_all) (auto simp: fresh_def set_Tmpfs)
  show ?thesis
  proof (cases "Tmpfs (vols_of c) = []")
    case True
    then show ?thesis using t cover no_tmpfs_phases[OF ok True, of base]
      by (simp add: mountVolumes_def and_then_def ret_def)
  next
    case False
    obtain mounted' u where u: "mount_phases guest c (Tmpfs (vols_of c)) mounted t = (Inr mounted', u)"
      "set mounted' = names (phases c base)" "table_after base u = phases c base"
      using phases_run[OF ok plain new t(3,2)] by blast
    have "each (\<lambda>h. require (mountTarget c (v_Path h) \<in> set mounted') (NotMounted (v_Path h))) (HostMounts (vols_of c)) u = (Inr (), u)"
      using names_back u(2) by (intro require_all) (auto simp: phases_def Let_def)
    then show ?thesis using t cover u False by (simp add: mountVolumes_def and_then_def)
  qed
qed

end

subsection \<open>The kernel's own mount table\<close>

text \<open>The kernel writes a space, a tab, a newline and a backslash of a mount point as octal.\<close>

fun mangle_char :: "char \<Rightarrow> string" where
  "mangle_char c =
     (if c = CHR '' '' then CHR 0x5C # ''040'' else if c = CHR 0x09 then CHR 0x5C # ''011''
      else if c = CHR 0x0A then CHR 0x5C # ''012'' else if c = CHR 0x5C then CHR 0x5C # ''134'' else [c])"

definition mount_line :: "string \<Rightarrow> string" where
  "mount_line m = join_with '' '' [''1'', ''2'', ''0:1'', ''/'', concat (map mangle_char m), ''rw'']"

definition mountinfo :: "mount_table \<Rightarrow> string" where
  "mountinfo T = concat (map (\<lambda>e. mount_line (fst e) @ [CHR 0x0A]) T)"

definition kernel_guest :: "mount_table \<Rightarrow> guest" where
  "kernel_guest base tr call =
     Some (case call of
             Output x \<Rightarrow> if es_Cmd x = mountinfo_cmd then mountinfo (table_after base tr) else []
           | Feed x v \<Rightarrow> [])"

lemma not_plain: "\<not> plain_char CHR '' ''" "\<not> plain_char CHR 0x09" "\<not> plain_char CHR 0x0A"
  by code_simp+

lemma mangle_char_plain: "plain_char c \<Longrightarrow> c \<noteq> CHR 0x5C \<Longrightarrow> mangle_char c = [c]"
  using not_plain by (cases "c = CHR '' ''"; cases "c = CHR 0x09"; cases "c = CHR 0x0A") simp_all

lemma mangle_plain: "plain_name m \<Longrightarrow> concat (map mangle_char m) = m"
proof -
  have "\<forall>c \<in> set m. mangle_char c = [c] \<Longrightarrow> concat (map mangle_char m) = m"
    by (induction m) (simp_all del: mangle_char.simps)
  then show "plain_name m \<Longrightarrow> ?thesis" using mangle_char_plain by (simp add: plain_name_def del: mangle_char.simps)
qed

lemma blank_runes: "list_all (\<lambda>r. hd r = CHR '' '' \<longrightarrow> r = '' '') space_runes" "'' '' \<in> set space_runes"
  by code_simp+

lemma leading_space_blank: "leading_space (CHR '' '' # s) = Some '' ''"
proof -
  have only: "r = '' ''" if "r \<in> set space_runes" "has_prefix r (CHR '' '' # s)" for r
  proof -
    have "r \<noteq> []" using that(1) by (rule space_runes_nonempty)
    then have "hd r = CHR '' ''" using that(2) by (cases r) (auto simp: has_prefix_def)
    then show ?thesis using that(1) blank_runes(1) by (simp add: list_all_iff)
  qed
  have "has_prefix '' '' (CHR '' '' # s)" by (simp add: has_prefix_def)
  then obtain r where "leading_space (CHR '' '' # s) = Some r"
    using blank_runes(2) unfolding leading_space_def by (metis find_None_iff not_None_eq)
  then show ?thesis using only unfolding leading_space_def by (metis find_SomeD)
qed

lemma fields_word:
  "\<forall>c \<in> set w. plain_char c \<Longrightarrow> fields_from 0 pre (w @ s) = fields_from 0 (rev w @ pre) s"
  by (induction w arbitrary: pre) (simp_all add: leading_space_plain)

lemma Fields_words:
  "\<forall>w \<in> set ws. w \<noteq> [] \<and> (\<forall>c \<in> set w. plain_char c) \<Longrightarrow> Fields (join_with '' '' ws) = ws"
  unfolding Fields_def
proof (induction ws)
  case (Cons s ts)
  show ?case
  proof (cases ts)
    case Nil
    have "fields_from 0 [] (s @ []) = [s]" using Cons.prems fields_word[of s "[]" "[]"] by (simp del: append_Nil2)
    then show ?thesis using Nil by simp
  next
    case more: (Cons t us)
    have "fields_from 0 [] (s @ CHR '' '' # join_with '' '' ts) = s # fields_from 0 [] (join_with '' '' ts)"
      using Cons.prems fields_word[of s "[]" "CHR '' '' # join_with '' '' ts"] by (simp add: leading_space_blank)
    then show ?thesis using more Cons.IH Cons.prems by simp
  qed
qed simp

lemma digits_plain: "list_all (\<lambda>w. w \<noteq> [] \<and> list_all plain_char w) [''1'', ''2'', ''0:1'', ''/'', ''rw'']"
  by code_simp

lemma line_fields: "plain_name m \<Longrightarrow> Fields (mount_line m) = [''1'', ''2'', ''0:1'', ''/'', m, ''rw'']"
  using digits_plain unfolding mount_line_def
  by (subst Fields_words) (auto simp: mangle_plain plain_name_def list_all_iff simp del: mangle_char.simps)

lemma line_no_newline: "plain_name m \<Longrightarrow> CHR 0x0A \<notin> set (mount_line m)"
  using not_plain(3) by (auto simp: mount_line_def mangle_plain plain_name_def simp del: mangle_char.simps)

lemma line_not_blank: "plain_name m \<Longrightarrow> trim_space (mount_line m) \<noteq> []"
proof -
  assume m: "plain_name m"
  have "mount_line m = CHR ''1'' # tl (mount_line m)" "last (mount_line m) = CHR ''w''"
    using m by (simp_all add: mount_line_def mangle_plain del: mangle_char.simps)
  moreover have "plain_char CHR ''1''" "plain_char CHR ''w''" by code_simp+
  ultimately show ?thesis by (metis list.sel(1) list.distinct(1) trim_space_plain)
qed

lemma told_by_kernel:
  "\<forall>e \<in> set T. plain_name (fst e) \<Longrightarrow> mountpoints_in (mountinfo T) = map fst T"
proof -
  assume plain: "\<forall>e \<in> set T. plain_name (fst e)"
  have "split_on CHR 0x0A (mountinfo T) = map (\<lambda>e. mount_line (fst e)) T @ [[]]"
    using plain
  proof (induction T)
    case (Cons e T)
    then show ?case using split_on_append_sep[OF line_no_newline, of "fst e" "mountinfo T"] by (simp add: mountinfo_def)
  qed (simp add: mountinfo_def)
  then have "nonEmptyLines (mountinfo T) = map (\<lambda>e. mount_line (fst e)) T"
    using plain line_not_blank by (simp add: nonEmptyLines_def comp_def)
  moreover have "concat (map (\<lambda>e. if 4 < length (Fields (mount_line (fst e))) then [Fields (mount_line (fst e)) ! 4] else []) T) = map fst T"
    using plain by (induction T) (simp_all add: line_fields)
  ultimately show ?thesis by (simp add: mountpoints_in_def comp_def)
qed

interpretation kernel: mounting_guest "kernel_guest base" base for base
proof
  fix tr x out
  show "kernel_guest base tr (Output x) \<noteq> None" by (simp add: kernel_guest_def)
  assume "es_Cmd x = mountinfo_cmd" "kernel_guest base tr (Output x) = Some out"
    and plain: "\<forall>m \<in> names (table_after base tr). plain_name m"
  then have "out = mountinfo (table_after base tr)" by (simp add: kernel_guest_def)
  then show "set (mountpoints_in out) = names (table_after base tr)"
    using plain told_by_kernel[of "table_after base tr"] by (simp add: names_def)
qed

text \<open>
  A mount point with a space is printed as octal, and the code compares the field as it stands: it
  is not found among the mount points, so it is mounted again on every delivery.
\<close>

lemma space_not_found: "''/h/a b'' \<notin> set (mountpoints_in (mountinfo [(''/h/a b'', p)]))"
proof -
  let ?m = "CHR ''/'' # ''h/a'' @ CHR 0x5C # ''040b''"
  have line: "mount_line ''/h/a b'' = join_with '' '' [''1'', ''2'', ''0:1'', ''/'', ?m, ''rw'']" by (simp add: mount_line_def)
  have plain: "list_all (\<lambda>w. w \<noteq> [] \<and> list_all plain_char w) [''1'', ''2'', ''0:1'', ''/'', ?m, ''rw'']" by code_simp
  then have fields: "Fields (mount_line ''/h/a b'') = [''1'', ''2'', ''0:1'', ''/'', ?m, ''rw'']"
    unfolding line by (intro Fields_words) (simp add: list_all_iff)
  have "mountpoints_in out = (if nonEmptyLines out = [] then [] else mountpoints_in out)" for out
    by (simp add: mountpoints_in_def)
  have "CHR 0x0A \<notin> set (mount_line ''/h/a b'')" unfolding line by simp
  then have "split_on CHR 0x0A (mountinfo [(''/h/a b'', p)]) = [mount_line ''/h/a b'', []]"
    by (simp add: mountinfo_def split_on_append_sep)
  then have "set (nonEmptyLines (mountinfo [(''/h/a b'', p)])) \<subseteq> {mount_line ''/h/a b''}" by (auto simp: nonEmptyLines_def)
  then show ?thesis using fields by (fastforce simp: mountpoints_in_def split: if_splits)
qed

subsection \<open>The layout of a valid profile\<close>


definition layout_profile :: full_profile where
  "layout_profile = demo_profile\<lparr>p_Volumes :=
     [\<lparr>v_Kind = ''hostmount'', v_Path = ''.c/s'', v_Source = [], v_Size = [], v_File = False, v_At = []\<rparr>,
      \<lparr>v_Kind = ''tmpfs'', v_Path = ''.c'', v_Source = [], v_Size = [], v_File = False, v_At = ''/b/c''\<rparr>]\<rparr>"

definition layout_config :: deliver_config where
  "layout_config = demo_config\<lparr>dc_Profile := layout_profile\<rparr>"

definition layout_base :: mount_table where
  "layout_base = [(''/h'', Workspace []), (''/proc'', Outside [])]"

lemma layout_valid: "validateBindings (dc_Profile layout_config) = None"
  by code_simp

lemma layout_home: "home_ok (p_GuestHome (dc_Profile layout_config))"
proof -
  have "p_GuestHome (dc_Profile layout_config) = ''/h''" by code_simp
  moreover have "path_parts ''/h'' = [] # [''h'']" by code_simp
  ultimately show ?thesis unfolding home_ok_def abs_parts_def
    by (intro exI[of _ "[''h'']"]) (simp add: plain_element_def)
qed

lemma layout_fresh: "fresh layout_config layout_base"
proof -
  have "home_parts layout_config = path_parts ''/h''" by code_simp
  then have "home_shared layout_config layout_base"
    by (simp add: home_shared_def layout_base_def)
  moreover have "list_all (\<lambda>v. mountTarget layout_config (v_Path v) \<notin> names layout_base
      \<and> guestPath_of layout_config (v_Path v) \<notin> names layout_base \<and> pinPath (v_Path v) \<notin> names layout_base) (vols_of layout_config)"
    by code_simp
  ultimately show ?thesis by (simp add: fresh_def list_all_iff)
qed

lemma layout_plain: "plain_names layout_config layout_base"
proof -
  have "list_all (\<lambda>m. m \<noteq> [] \<and> list_all (\<lambda>c. plain_char c \<and> c \<noteq> CHR 0x5C) m)
     (map fst layout_base @ map (\<lambda>v. mountTarget layout_config (v_Path v)) (vols_of layout_config)
      @ map (\<lambda>v. pinPath (v_Path v)) (vols_of layout_config))" by code_simp
  then show ?thesis by (auto simp: plain_names_def plain_name_def names_def list_all_iff)
qed


end
