(* ===== verification/Creds_Bind.thy ===== *)
theory Creds_Bind
  imports Profile_Validate
begin

text \<open>
  What a run forwards into the guest: \<open>internal/creds/creds.go\<close>, \<open>internal/creds/bind.go\<close> and
  \<open>internal/creds/preview.go\<close>. The environment of brig is a parameter, a variable with its value or
  \<open>None\<close> when it is not set, and so is what the store gave: the map of resolved secrets for a run,
  and the answers of a listing for a preview. A warning is a constructor with what its text names.
\<close>

subsection \<open>The set that is forwarded\<close>

record var =
  va_Name :: string
  va_Value :: string
  va_Secret :: bool

datatype warning =
    DeniedVar string string | LooksLikeRef string "string option"
  | BadRef string ref_error | SecretEmpty string string | SecretUnresolved string string

record cred_set =
  cs_Vars :: "var list"
  cs_Names :: "string list"
  cs_Warnings :: "warning list"

definition empty_set :: cred_set where
  "empty_set = \<lparr>cs_Vars = [], cs_Names = [], cs_Warnings = []\<rparr>"

definition report_name :: "string \<Rightarrow> string \<Rightarrow> string" where
  "report_name name reportAs = (if reportAs = [] then name else reportAs)"

definition Add :: "string \<Rightarrow> string \<Rightarrow> string \<Rightarrow> cred_set \<Rightarrow> cred_set" where
  "Add name v reportAs s =
     s\<lparr>cs_Vars := cs_Vars s @ [\<lparr>va_Name = name, va_Value = v, va_Secret = False\<rparr>],
       cs_Names := cs_Names s @ [report_name name reportAs]\<rparr>"

definition AddSecret :: "string \<Rightarrow> string \<Rightarrow> string \<Rightarrow> cred_set \<Rightarrow> cred_set" where
  "AddSecret name v reportAs s =
     s\<lparr>cs_Vars := cs_Vars s @ [\<lparr>va_Name = name, va_Value = v, va_Secret = True\<rparr>],
       cs_Names := cs_Names s @ [report_name name reportAs]\<rparr>"

definition AddPlumbing :: "string \<Rightarrow> string \<Rightarrow> cred_set \<Rightarrow> cred_set" where
  "AddPlumbing name v s = s\<lparr>cs_Vars := cs_Vars s @ [\<lparr>va_Name = name, va_Value = v, va_Secret = False\<rparr>]\<rparr>"

definition Has :: "string \<Rightarrow> cred_set \<Rightarrow> bool" where
  "Has name s \<longleftrightarrow> list_ex (\<lambda>v. va_Name v = name) (cs_Vars s)"

definition warn :: "warning \<Rightarrow> cred_set \<Rightarrow> cred_set" where
  "warn w s = s\<lparr>cs_Warnings := cs_Warnings s @ [w]\<rparr>"

subsection \<open>The guards\<close>

record options =
  op_AllowRefs :: bool
  op_AllowDenied :: bool

definition plainScheme :: "string \<Rightarrow> bool" where
  "plainScheme s \<longleftrightarrow>
     (case s of [] \<Rightarrow> False
      | c # cs \<Rightarrow> is_lower c
          \<and> list_all (\<lambda>ch. is_lower ch \<or> is_digit ch \<or> ch = CHR ''+'' \<or> ch = CHR ''.'' \<or> ch = CHR ''-'') cs)"

definition unresolvedRef :: "string \<Rightarrow> string option" where
  "unresolvedRef v =
     (case cut_str ''://'' v of (scheme, rest, ok) \<Rightarrow>
        if \<not> ok \<or> scheme = [] \<or> rest = [] then None
        else if contains_any scheme [CHR '' '', CHR 0x09] then None
        else if scheme = ''http'' \<or> scheme = ''https'' then None
        else Some scheme)"

text \<open>The warning that explains a refusal, or \<open>None\<close> for a value that may pass.\<close>

definition admit :: "full_profile \<Rightarrow> string \<Rightarrow> string \<Rightarrow> bool \<Rightarrow> options \<Rightarrow> warning option" where
  "admit p name v fromEnv opt =
     (if Denied p name \<and> \<not> op_AllowDenied opt then Some (DeniedVar name (p_name p))
      else if fromEnv \<and> \<not> op_AllowRefs opt then
        (case unresolvedRef v of
           None \<Rightarrow> None
         | Some scheme \<Rightarrow> Some (LooksLikeRef name (if plainScheme scheme then Some scheme else None)))
      else None)"

subsection \<open>Binding\<close>

type_synonym environment = "string \<Rightarrow> string option"
type_synonym secrets = "string \<Rightarrow> string option"

text \<open>What the walk of a chain ends with: an unusable ref, a value, or the secret it ends on.\<close>

datatype walked =
    Unparsable ref_error
  | FromEnv string
  | FromSecret string "string option"
  | Nothing

definition value_or_empty :: "string option \<Rightarrow> string" where
  "value_or_empty v = (case v of None \<Rightarrow> [] | Some x \<Rightarrow> x)"

fun walk :: "secrets \<Rightarrow> environment \<Rightarrow> string list \<Rightarrow> walked" where
  "walk secrets env [] = Nothing"
| "walk secrets env (raw # refs) =
     (case ParseBindingRef raw of
        Inl e \<Rightarrow> Unparsable e
      | Inr r \<Rightarrow>
          if br_Namespace r = NamespaceSecrets then
            (if value_or_empty (secrets (br_Name r)) = [] \<and> refs \<noteq> [] then walk secrets env refs
             else FromSecret (br_Name r) (secrets (br_Name r)))
          else if value_or_empty (env (br_Name r)) = [] then walk secrets env refs
          else FromEnv (value_or_empty (env (br_Name r))))"

definition forward :: "full_profile \<Rightarrow> options \<Rightarrow> string \<Rightarrow> string \<Rightarrow> bool \<Rightarrow> bool \<Rightarrow> cred_set \<Rightarrow> cred_set" where
  "forward p opt name v fromEnv fromSecret s =
     (case admit p name v fromEnv opt of
        Some w \<Rightarrow> warn w s
      | None \<Rightarrow> if fromSecret then AddSecret name v (name @ ''(secret)'') s else Add name v name s)"

definition bind_one ::
  "full_profile \<Rightarrow> secrets \<Rightarrow> environment \<Rightarrow> options \<Rightarrow> env_binding \<Rightarrow> cred_set \<Rightarrow> cred_set" where
  "bind_one p secrets env opt b s =
     (if RefList b = [] then (if eb_Value b = [] then s else forward p opt (eb_Name b) (eb_Value b) False False s)
      else case walk secrets env (RefList b) of
        Unparsable e \<Rightarrow> warn (BadRef (eb_Name b) e) s
      | Nothing \<Rightarrow> s
      | FromEnv v \<Rightarrow> forward p opt (eb_Name b) v True False s
      | FromSecret n (Some v) \<Rightarrow>
          if v = [] then warn (SecretEmpty (eb_Name b) n) s
          else forward p opt (eb_Name b) v False True s
      | FromSecret n None \<Rightarrow>
          if Secret p n \<noteq> None then s else warn (SecretUnresolved (eb_Name b) n) s)"

definition Bind :: "full_profile \<Rightarrow> env_binding list \<Rightarrow> secrets \<Rightarrow> environment \<Rightarrow> options \<Rightarrow> cred_set" where
  "Bind p bs secrets env opt = fold (bind_one p secrets env opt) bs empty_set"

subsection \<open>The preview\<close>

definition DeliveryEnv :: string where "DeliveryEnv = ''env''"
definition DeliveryFile :: string where "DeliveryFile = ''file''"
definition DeliveryNone :: string where "DeliveryNone = ''none''"

datatype source = NoSource | SourceEnvironment | SourceSecret
datatype plan_state = StateResolved | StateUnresolved | StateWithheld | StateUnknown

datatype reason =
    NoReason | WithheldBy warning | RefUnread ref_error | NotInStore string | NoListing | NoValue

record planned =
  pl_Name :: string
  pl_Delivery :: string
  pl_Source :: source
  pl_Secret :: string
  pl_Required :: bool
  pl_State :: plan_state
  pl_Reason :: reason

text \<open>A listing says whether a name is there, and whether it answered at all.\<close>

type_synonym listing = "string \<Rightarrow> bool \<times> bool"

definition required :: "full_profile \<Rightarrow> string \<Rightarrow> bool" where
  "required p name \<longleftrightarrow> (case Secret p name of None \<Rightarrow> False | Some d \<Rightarrow> IsRequired d)"

fun plan_walk ::
  "full_profile \<Rightarrow> listing \<Rightarrow> environment \<Rightarrow> options \<Rightarrow> string list \<Rightarrow> planned \<Rightarrow> bool \<Rightarrow> planned \<times> bool" where
  "plan_walk p stored env opt [] c unlisted = (c, unlisted)"
| "plan_walk p stored env opt (raw # refs) c unlisted =
     (case ParseBindingRef raw of
        Inl e \<Rightarrow> (c\<lparr>pl_Secret := [], pl_Required := False, pl_Reason := RefUnread e\<rparr>, False)
      | Inr r \<Rightarrow>
          if br_Namespace r = NamespaceEnv then
            (if value_or_empty (env (br_Name r)) = [] then plan_walk p stored env opt refs c unlisted
             else
               (let c = c\<lparr>pl_Source := SourceEnvironment, pl_Secret := [], pl_Required := False, pl_State := StateResolved\<rparr> in
                (case admit p (pl_Name c) (value_or_empty (env (br_Name r))) True opt of
                   None \<Rightarrow> c
                 | Some w \<Rightarrow> c\<lparr>pl_State := StateWithheld, pl_Reason := WithheldBy w\<rparr>, unlisted)))
          else
            (let c = c\<lparr>pl_Secret := br_Name r, pl_Required := required p (br_Name r)\<rparr>;
                 (present, known) = stored (br_Name r) in
             if \<not> known then plan_walk p stored env opt refs c True
             else if \<not> present then
               plan_walk p stored env opt refs (if refs = [] then c\<lparr>pl_Reason := NotInStore (br_Name r)\<rparr> else c) unlisted
             else
               (let c = c\<lparr>pl_Source := SourceSecret, pl_State := StateResolved\<rparr> in
                (case admit p (pl_Name c) [] False opt of
                   None \<Rightarrow> c
                 | Some w \<Rightarrow> c\<lparr>pl_State := StateWithheld, pl_Reason := WithheldBy w\<rparr>, unlisted))))"

definition env_row :: "full_profile \<Rightarrow> listing \<Rightarrow> environment \<Rightarrow> options \<Rightarrow> env_binding \<Rightarrow> planned" where
  "env_row p stored env opt b =
     (case plan_walk p stored env opt (RefList b)
             \<lparr>pl_Name = eb_Name b, pl_Delivery = DeliveryEnv, pl_Source = NoSource, pl_Secret = [],
              pl_Required = False, pl_State = StateUnresolved, pl_Reason = NoReason\<rparr> False of
        (c, unlisted) \<Rightarrow>
          (let c = (if pl_State c = StateUnresolved \<and> unlisted then c\<lparr>pl_State := StateUnknown, pl_Reason := NoListing\<rparr> else c) in
           if pl_State c = StateUnresolved \<and> pl_Reason c = NoReason then c\<lparr>pl_Reason := NoValue\<rparr> else c))"

definition secretRow :: "full_profile \<Rightarrow> string \<Rightarrow> string \<Rightarrow> string \<Rightarrow> listing \<Rightarrow> planned" where
  "secretRow p name delivery secretName stored =
     (let c = \<lparr>pl_Name = name, pl_Delivery = delivery, pl_Source = NoSource, pl_Secret = secretName,
               pl_Required = required p secretName, pl_State = StateUnresolved, pl_Reason = NotInStore secretName\<rparr>;
          (present, known) = stored secretName in
      if \<not> known then c\<lparr>pl_State := StateUnknown, pl_Reason := NoListing\<rparr>
      else if present then c\<lparr>pl_Source := SourceSecret, pl_State := StateResolved, pl_Reason := NoReason\<rparr>
      else c)"

definition file_row :: "full_profile \<Rightarrow> listing \<Rightarrow> file_binding \<Rightarrow> planned" where
  "file_row p stored b =
     (case ParseBindingRef (fb_Ref b) of
        Inl e \<Rightarrow> \<lparr>pl_Name = fb_Path b, pl_Delivery = DeliveryFile, pl_Source = NoSource, pl_Secret = [],
                  pl_Required = False, pl_State = StateUnresolved, pl_Reason = RefUnread e\<rparr>
      | Inr r \<Rightarrow> secretRow p (fb_Path b) DeliveryFile (br_Name r) stored)"

definition file_names :: "file_binding list \<Rightarrow> string list" where
  "file_names bs = concat (map (\<lambda>b. case ParseBindingRef (fb_Ref b) of Inl e \<Rightarrow> [] | Inr r \<Rightarrow> [br_Name r]) bs)"

text \<open>Rows by delivery, then by name: the stable sorts one after the other.\<close>

definition Preview :: "full_profile \<Rightarrow> env_binding list \<Rightarrow> listing \<Rightarrow> environment \<Rightarrow> options \<Rightarrow> planned list" where
  "Preview p bs stored env opt =
     (let envs = map (env_row p stored env opt) (filter (\<lambda>b. RefList b \<noteq> []) bs);
          files = map (file_row p stored) (p_Files p);
          delivered = filter (\<lambda>n. n \<noteq> []) (map pl_Secret envs) @ file_names (p_Files p);
          rest = map (\<lambda>d. secretRow p (sd_Name d) DeliveryNone (sd_Name d) stored)
                   (filter (\<lambda>d. IsRequired d \<and> sd_Name d \<notin> set delivered) (p_Secrets p)) in
      sort_key pl_Delivery (sort_key pl_Name (envs @ files @ rest)))"

end
