(* ===== verification/Creds_Resolve.thy ===== *)
theory Creds_Resolve
  imports Creds_Bind Net_Addr
begin

text \<open>
  Resolving the secrets of a run: \<open>internal/creds/resolve.go\<close>, and the rows of a notice from
  \<open>internal/notice/notice.go\<close> that it fills in. The store is a parameter: opening it fails or gives a
  reader, and a read fails or gives a value. What the store was asked comes out beside the result,
  \<open>None\<close> when it was never opened.
\<close>

datatype store_error = ErrNotFound | ErrUnsupported | ErrOther string

type_synonym reader = "string \<Rightarrow> store_error + string"

subsection \<open>Notices\<close>

datatype mark = NoteMark | DoMark | MissingMark

record notice_row =
  nr_mark :: mark
  nr_left :: string
  nr_right :: string
  nr_under :: "string list"

record block =
  bk_heading :: string
  bk_rows :: "notice_row list"

definition Missing_row :: "string \<Rightarrow> string \<Rightarrow> string list \<Rightarrow> block \<Rightarrow> block" where
  "Missing_row name command hints b =
     b\<lparr>bk_rows := bk_rows b @ [\<lparr>nr_mark = MissingMark, nr_left = name, nr_right = command, nr_under = hints\<rparr>]\<rparr>"

subsection \<open>What is missing\<close>

record missing =
  ms_Name :: string
  ms_Required :: bool
  ms_Importable :: bool
  ms_Reason :: store_error
  ms_Hint :: string
  ms_Create :: string

definition newMissing :: "secret_decl \<Rightarrow> store_error \<Rightarrow> missing" where
  "newMissing d reason =
     \<lparr>ms_Name = sd_Name d, ms_Required = IsRequired d, ms_Importable = Importable d, ms_Reason = reason,
      ms_Hint = HintText d, ms_Create = []\<rparr>"

datatype cred_error =
    MissingSecretsError string string "missing list"
  | StoreError string "missing list" store_error string

datatype fix_text = CouldNotRead store_error | ImportFromHost string | CreateWith string

text \<open>The command that supplies one secret of a \<open>MissingSecretsError\<close> for profile \<open>profile\<close>.\<close>

definition fix_of :: "string \<Rightarrow> missing \<Rightarrow> fix_text" where
  "fix_of profile m =
     (if ms_Reason m \<noteq> ErrNotFound then CouldNotRead (ms_Reason m)
      else if ms_Importable m then ImportFromHost profile
      else if ms_Create m \<noteq> [] then CreateWith (ms_Create m)
      else CreateWith (''brig secret create '' @ ms_Name m))"

record broker_error =
  be_Sandbox :: string
  be_Route :: string
  be_Message :: string

definition NewBrokerCredentialError :: "string \<Rightarrow> string \<Rightarrow> broker_error" where
  "NewBrokerCredentialError sandbox message =
     (let route =
        (if has_prefix ''route '' message then
           (case cut_str '': '' (trim_prefix ''route '' message) of (name, _, ok) \<Rightarrow>
              if ok \<and> \<not> contains_any name [CHR '' '', CHR 0x0A] then name else [])
         else []) in
      \<lparr>be_Sandbox = sandbox, be_Route = route, be_Message = message\<rparr>)"

subsection \<open>Needed\<close>

text \<open>The secrets a chain may reach: those before its first environment variable with a value.\<close>

fun reached :: "environment \<Rightarrow> string list \<Rightarrow> string list" where
  "reached env [] = []"
| "reached env (raw # refs) =
     (case ParseBindingRef raw of
        Inl _ \<Rightarrow> reached env refs
      | Inr r \<Rightarrow>
          if br_Namespace r = NamespaceEnv then
            (if value_or_empty (env (br_Name r)) \<noteq> [] then [] else reached env refs)
          else br_Name r # reached env refs)"

definition file_secrets :: "file_binding list \<Rightarrow> string list" where
  "file_secrets bs =
     concat (map (\<lambda>b. case ParseBindingRef (fb_Ref b) of Inl _ \<Rightarrow> []
                    | Inr r \<Rightarrow> if br_Namespace r = NamespaceSecrets then [br_Name r] else []) bs)"

definition wanted :: "full_profile \<Rightarrow> environment \<Rightarrow> string list" where
  "wanted p env = concat (map (\<lambda>b. reached env (RefList b)) (p_Env p)) @ file_secrets (p_Files p)"

definition Needed :: "full_profile \<Rightarrow> environment \<Rightarrow> secret_decl list" where
  "Needed p env = filter (\<lambda>d. IsRequired d \<or> sd_Name d \<in> set (wanted p env)) (p_Secrets p)"

subsection \<open>Resolving\<close>

definition missingBlock :: "full_profile \<Rightarrow> missing list \<Rightarrow> block" where
  "missingBlock p misses =
     (let names = map ms_Name (filter ms_Importable misses);
          hints = map (\<lambda>m. if length names = 1 then ms_Hint m else ms_Name m @ '': '' @ ms_Hint m)
                    (filter (\<lambda>m. ms_Importable m \<and> ms_Hint m \<noteq> []) misses);
          count = (if length misses > 1 then show_nat (length misses) @ '' secrets'' else ''1 secret'');
          start = \<lparr>bk_heading = p_name p @ '' runs without '' @ count, bk_rows = []\<rparr> in
      fst (fold (\<lambda>m (b, imported).
             if \<not> ms_Importable m then
               (Missing_row (ms_Name m) (''brig secret create '' @ ms_Name m)
                  (if ms_Hint m \<noteq> [] then [ms_Hint m] else []) b, imported)
             else if \<not> imported then
               (Missing_row (join_with '', '' names) (''brig secret import '' @ p_name p) hints b, True)
             else (b, imported)) misses (start, False)))"

datatype resolve_warning = StoreUnread store_error string string | MissingBlock block

definition warnOptional :: "full_profile \<Rightarrow> missing list \<Rightarrow> resolve_warning list" where
  "warnOptional p misses =
     (let absent = filter (\<lambda>m. ms_Reason m = ErrNotFound) misses;
          unread = map (\<lambda>m. StoreUnread (ms_Reason m) (p_name p) (ms_Name m))
                     (filter (\<lambda>m. ms_Reason m \<noteq> ErrUnsupported \<and> ms_Reason m \<noteq> ErrNotFound) misses) in
      (if absent \<noteq> [] then [MissingBlock (missingBlock p absent)] else []) @ unread)"

text \<open>Where a secret reaches the guest as a variable, and whether its chain reads the shell first.\<close>

fun spelling_in :: "string \<Rightarrow> env_binding \<Rightarrow> string list \<Rightarrow> (string \<times> bool) option" where
  "spelling_in name b [] = None"
| "spelling_in name b (raw # refs) =
     (case ParseBindingRef raw of
        Inl _ \<Rightarrow> spelling_in name b refs
      | Inr r \<Rightarrow>
          if br_Namespace r \<noteq> NamespaceSecrets \<or> br_Name r \<noteq> name then spelling_in name b refs
          else (case ParseBindingRef (hd (RefList b)) of
                  Inl _ \<Rightarrow> Some (eb_Name b, False)
                | Inr first \<Rightarrow> if br_Namespace first = NamespaceEnv then Some (br_Name first, True)
                              else Some (eb_Name b, False)))"

fun spelling_of :: "string \<Rightarrow> env_binding list \<Rightarrow> string \<times> bool" where
  "spelling_of name [] = ([], False)"
| "spelling_of name (b # bs) =
     (case spelling_in name b (RefList b) of Some r \<Rightarrow> r | None \<Rightarrow> spelling_of name bs)"

definition envSpelling :: "full_profile \<Rightarrow> string \<Rightarrow> string \<times> bool" where
  "envSpelling p name = spelling_of name (p_Env p)"

definition suggestion :: "string \<Rightarrow> string \<Rightarrow> string" where
  "suggestion variable name =
     ''`refs: ['' @ NamespaceEnv @ ''.'' @ variable @ '', '' @ NamespaceSecrets @ ''.'' @ name @ '']`''"

definition storeAdvice :: "full_profile \<Rightarrow> missing list \<Rightarrow> store_error \<Rightarrow> string" where
  "storeAdvice p ms cause =
     (if cause \<noteq> ErrUnsupported then []
      else
        (let spelled = filter (\<lambda>(m, v, first). v \<noteq> []) (map (\<lambda>m. (m, envSpelling p (ms_Name m))) ms);
             exportable = map (\<lambda>(m, v, first). v) (filter (\<lambda>(m, v, first). first) spelled);
             only = filter (\<lambda>(m, v, first). \<not> first) spelled;
             out = (if exportable \<noteq> [] then [''Export '' @ join_with '', '' exportable
                      @ '' before running brig, which this profile reads first''] else [])
                 @ (if only \<noteq> [] then [''This profile reads '' @ join_with '', '' (map (\<lambda>(m, v, first). ms_Name m) only)
                      @ '' only from the store, so run it on macOS, or add ''
                      @ join_with '', '' (map (\<lambda>(m, v, first). suggestion v (ms_Name m)) only)
                      @ '' to its env binding''] else []) in
         if out = [] then [] else join_with ''. '' out @ ''.''))"

record resolution =
  rs_Values :: secrets
  rs_Warnings :: "resolve_warning list"

definition nothing_resolved :: resolution where
  "nothing_resolved = \<lparr>rs_Values = (\<lambda>_. None), rs_Warnings = []\<rparr>"

definition unavailable ::
  "full_profile \<Rightarrow> string \<Rightarrow> secret_decl list \<Rightarrow> store_error \<Rightarrow> cred_error + resolution" where
  "unavailable p sandbox needed err =
     (let ms = map (\<lambda>d. newMissing d err) needed;
          req = filter ms_Required ms;
          opt = filter (\<lambda>m. \<not> ms_Required m) ms in
      if req \<noteq> [] then Inl (StoreError sandbox req err (storeAdvice p req err))
      else Inr (nothing_resolved\<lparr>rs_Warnings := warnOptional p opt\<rparr>))"

definition read_one :: "reader \<Rightarrow> secret_decl \<Rightarrow> secrets \<times> missing list \<Rightarrow> secrets \<times> missing list" where
  "read_one rd d st =
     (case st of (vs, misses) \<Rightarrow>
        (case rd (sd_Name d) of
           Inr v \<Rightarrow> (vs(sd_Name d \<mapsto> v), misses)
         | Inl e \<Rightarrow> (vs, misses @ [newMissing d e])))"

definition read_needed ::
  "full_profile \<Rightarrow> string \<Rightarrow> secret_decl list \<Rightarrow> reader \<Rightarrow> cred_error + resolution" where
  "read_needed p sandbox needed rd =
     (case fold (read_one rd) needed (\<lambda>_. None, []) of (vs, misses) \<Rightarrow>
        (let req = filter ms_Required misses;
             opt = filter (\<lambda>m. \<not> ms_Required m) misses in
         if req \<noteq> [] then Inl (MissingSecretsError sandbox (p_name p) req)
         else Inr \<lparr>rs_Values = vs, rs_Warnings = warnOptional p opt\<rparr>))"

definition ResolveSecrets ::
  "full_profile \<Rightarrow> string \<Rightarrow> (store_error + reader) \<Rightarrow> environment \<Rightarrow> (cred_error + resolution) \<times> string list option" where
  "ResolveSecrets p sandbox store env =
     (let needed = Needed p env in
      if needed = [] then (Inr nothing_resolved, None)
      else case store of
        Inl err \<Rightarrow> (unavailable p sandbox needed err, Some [])
      | Inr rd \<Rightarrow> (read_needed p sandbox needed rd, Some (map sd_Name needed)))"

end
