(* ===== verification/Creds_Facts.thy ===== *)
theory Creds_Facts
  imports Creds_Resolve "HOL-Library.Multiset"
begin

text \<open>
  What resolving, binding and previewing promise together: the secrets that are read are enough for
  the binding, a run stops exactly for a required secret it cannot read, nothing passes the guards
  unseen, what is reported does not depend on what a secret holds, and the preview is the run.
\<close>

subsection \<open>Reading what is needed\<close>

text \<open>What a reader gives for a name, and the part of a store that a profile declares.\<close>

definition reading :: "reader \<Rightarrow> string \<Rightarrow> string option" where
  "reading rd n = (case rd n of Inl _ \<Rightarrow> None | Inr v \<Rightarrow> Some v)"

definition declared_part :: "full_profile \<Rightarrow> reader \<Rightarrow> secrets" where
  "declared_part p rd n = (if n \<in> set (SecretNames (p_Secrets p)) then reading rd n else None)"

definition lost :: "reader \<Rightarrow> secret_decl list \<Rightarrow> secret_decl list" where
  "lost rd ds = filter (\<lambda>d. reading rd (sd_Name d) = None) ds"

definition failure :: "reader \<Rightarrow> secret_decl \<Rightarrow> missing" where
  "failure rd d = newMissing d (projl (rd (sd_Name d)))"

lemma newMissing_simps [simp]:
  "ms_Name (newMissing d e) = sd_Name d" "ms_Required (newMissing d e) = IsRequired d"
  by (simp_all add: newMissing_def)

lemma failure_simps [simp]:
  "ms_Name (failure rd d) = sd_Name d" "ms_Required (failure rd d) = IsRequired d"
  by (simp_all add: failure_def)

lemma read_one_step:
  "read_one rd d (vs, misses) =
     (if reading rd (sd_Name d) = None then (vs, misses @ [failure rd d])
      else (vs(sd_Name d := reading rd (sd_Name d)), misses))"
  by (simp add: read_one_def reading_def failure_def split: sum.split)

lemma fold_read:
  "fold (read_one rd) ds (vs, misses) =
     ((\<lambda>n. if n \<in> sd_Name ` set ds \<and> reading rd n \<noteq> None then reading rd n else vs n),
      misses @ map (failure rd) (lost rd ds))"
  by (induction ds arbitrary: vs misses) (auto simp: read_one_step lost_def fun_eq_iff)

lemma Needed_required:
  "filter IsRequired (lost rd (Needed p env)) = lost rd (filter IsRequired (p_Secrets p))"
  by (simp add: lost_def Needed_def conj_commute conj_left_commute)
     (rule filter_cong, auto)

lemma read_needed_values:
  "read_needed p sandbox needed rd = Inr r \<Longrightarrow>
     rs_Values r n = (if n \<in> sd_Name ` set needed then reading rd n else None)"
  by (auto simp: read_needed_def fold_read Let_def split: if_splits)

lemma filter_failures:
  "filter ms_Required (map (failure rd) ds) = map (failure rd) (filter IsRequired ds)"
  by (simp add: filter_map o_def)

lemma resolve_values:
  assumes "fst (ResolveSecrets p sandbox (Inr rd) env) = Inr r"
  shows "rs_Values r n = (if n \<in> sd_Name ` set (Needed p env) then reading rd n else None)"
proof (cases "Needed p env = []")
  case True
  with assms show ?thesis by (simp add: ResolveSecrets_def nothing_resolved_def) auto
next
  case False
  with assms have "read_needed p sandbox (Needed p env) rd = Inr r" by (simp add: ResolveSecrets_def Let_def)
  then show ?thesis by (rule read_needed_values)
qed

subsection \<open>Binding looks up what is needed\<close>

lemma walk_cong:
  "\<forall>n \<in> set (reached env refs). s1 n = s2 n \<Longrightarrow> walk s1 env refs = walk s2 env refs"
  by (induction refs) (auto split: sum.split)

lemma bind_one_cong:
  "\<forall>n \<in> set (reached env (RefList b)). s1 n = s2 n \<Longrightarrow>
     bind_one p s1 env opt b = bind_one p s2 env opt b"
  by (rule ext) (simp add: bind_one_def walk_cong [of env "RefList b" s1 s2])

lemma Bind_cong:
  assumes "\<And>b n. b \<in> set bs \<Longrightarrow> n \<in> set (reached env (RefList b)) \<Longrightarrow> s1 n = s2 n"
  shows "Bind p bs s1 env opt = Bind p bs s2 env opt"
proof -
  have "bind_one p s1 env opt b = bind_one p s2 env opt b" if "b \<in> set bs" for b
    using assms that by (intro bind_one_cong) blast
  then show ?thesis unfolding Bind_def by (intro fold_cong) auto
qed

lemma reached_wanted:
  "b \<in> set (p_Env p) \<Longrightarrow> n \<in> set (reached env (RefList b)) \<Longrightarrow> n \<in> set (wanted p env)"
  by (auto simp: wanted_def)

lemma wanted_declared:
  assumes "n \<in> set (wanted p env)"
  shows "n \<in> sd_Name ` set (Needed p env) \<longleftrightarrow> n \<in> set (SecretNames (p_Secrets p))"
  using assms by (auto simp: Needed_def SecretNames_def)

subsection \<open>What one binding adds\<close>

lemma set_simps [simp]:
  "cs_Vars (warn w s) = cs_Vars s" "cs_Names (warn w s) = cs_Names s"
  "cs_Warnings (warn w s) = cs_Warnings s @ [w]"
  "cs_Vars (Add n v r s) = cs_Vars s @ [\<lparr>va_Name = n, va_Value = v, va_Secret = False\<rparr>]"
  "cs_Vars (AddSecret n v r s) = cs_Vars s @ [\<lparr>va_Name = n, va_Value = v, va_Secret = True\<rparr>]"
  "cs_Names (Add n v r s) = cs_Names s @ [report_name n r]"
  "cs_Names (AddSecret n v r s) = cs_Names s @ [report_name n r]"
  "cs_Warnings (Add n v r s) = cs_Warnings s" "cs_Warnings (AddSecret n v r s) = cs_Warnings s"
  "cs_Vars empty_set = []" "cs_Names empty_set = []" "cs_Warnings empty_set = []"
  by (simp_all add: warn_def Add_def AddSecret_def empty_set_def)

definition adds :: "full_profile \<Rightarrow> secrets \<Rightarrow> environment \<Rightarrow> options \<Rightarrow> env_binding \<Rightarrow> var list" where
  "adds p secrets env opt b = cs_Vars (bind_one p secrets env opt b empty_set)"

lemma forward_vars:
  "cs_Vars (forward p opt n v fe fs s) =
     cs_Vars s @ (if admit p n v fe opt = None then [\<lparr>va_Name = n, va_Value = v, va_Secret = fs\<rparr>] else [])"
  by (simp add: forward_def split: option.split)

lemma bind_one_vars: "cs_Vars (bind_one p secrets env opt b s) = cs_Vars s @ adds p secrets env opt b"
  by (simp add: adds_def bind_one_def forward_vars split: walked.split option.split)

lemma fold_bind_vars:
  "cs_Vars (fold (bind_one p secrets env opt) bs s) = cs_Vars s @ concat (map (adds p secrets env opt) bs)"
  by (induction bs arbitrary: s) (simp_all add: bind_one_vars)

lemma Bind_vars: "cs_Vars (Bind p bs secrets env opt) = concat (map (adds p secrets env opt) bs)"
  by (simp add: Bind_def fold_bind_vars)

text \<open>A binding adds its variable when its chain ends in a value that the guards let pass.\<close>

lemma adds_chain:
  "RefList b \<noteq> [] \<Longrightarrow> adds p secrets env opt b =
     (case walk secrets env (RefList b) of
        FromEnv v \<Rightarrow> (if admit p (eb_Name b) v True opt = None
                    then [\<lparr>va_Name = eb_Name b, va_Value = v, va_Secret = False\<rparr>] else [])
      | FromSecret n (Some v) \<Rightarrow>
          (if v \<noteq> [] \<and> admit p (eb_Name b) v False opt = None
           then [\<lparr>va_Name = eb_Name b, va_Value = v, va_Secret = True\<rparr>] else [])
      | _ \<Rightarrow> [])"
  by (simp add: adds_def bind_one_def forward_vars split: walked.split option.split)

lemma adds_literal:
  "RefList b = [] \<Longrightarrow> adds p secrets env opt b =
     (if eb_Value b \<noteq> [] \<and> admit p (eb_Name b) (eb_Value b) False opt = None
      then [\<lparr>va_Name = eb_Name b, va_Value = eb_Value b, va_Secret = False\<rparr>] else [])"
  by (simp add: adds_def bind_one_def forward_vars)

lemma ref_text:
  "ParseBindingRef raw = Inr r \<Longrightarrow> br_Namespace r \<noteq> NamespaceSecrets \<Longrightarrow> raw = NamespaceEnv @ ''.'' @ br_Name r"
  "ParseBindingRef raw = Inr r \<Longrightarrow> br_Namespace r = NamespaceSecrets \<Longrightarrow> raw = NamespaceSecrets @ ''.'' @ br_Name r"
  by (auto dest!: ParseBindingRef_Inr simp: binding_ref_String_def)

lemma value_or_empty_Some: "value_or_empty x \<noteq> [] \<Longrightarrow> x = Some (value_or_empty x)"
  by (cases x) (simp_all add: value_or_empty_def)

lemma walk_FromEnv:
  "walk secrets env refs = FromEnv v \<Longrightarrow>
     v \<noteq> [] \<and> (\<exists>n. NamespaceEnv @ ''.'' @ n \<in> set refs \<and> env n = Some v)"
proof (induction refs)
  case (Cons raw refs)
  from Cons.prems obtain r where r: "ParseBindingRef raw = Inr r" by (simp split: sum.splits)
  show ?case
  proof (cases "walk secrets env refs = FromEnv v")
    case True
    with Cons.IH show ?thesis by auto
  next
    case False
    with Cons.prems r have n: "br_Namespace r \<noteq> NamespaceSecrets"
      and v: "value_or_empty (env (br_Name r)) \<noteq> []" "v = value_or_empty (env (br_Name r))"
      by (simp_all split: if_splits)
    from ref_text(1) [OF r n] value_or_empty_Some [OF v(1)] v show ?thesis by auto
  qed
qed simp

lemma walk_FromSecret:
  "walk secrets env refs = FromSecret n v \<Longrightarrow>
     secrets n = v \<and> NamespaceSecrets @ ''.'' @ n \<in> set refs"
proof (induction refs)
  case (Cons raw refs)
  from Cons.prems obtain r where r: "ParseBindingRef raw = Inr r" by (simp split: sum.splits)
  show ?case
  proof (cases "walk secrets env refs = FromSecret n v")
    case True
    with Cons.IH show ?thesis by auto
  next
    case False
    with Cons.prems r have n: "br_Namespace r = NamespaceSecrets"
      and v: "br_Name r = n" "secrets n = v"
      by (auto split: if_splits)
    from ref_text(2) [OF r n] v show ?thesis by auto
  qed
qed simp

lemma admit_None:
  "admit p n v fe opt = None \<longleftrightarrow>
     (Denied p n \<longrightarrow> op_AllowDenied opt) \<and> (fe \<longrightarrow> op_AllowRefs opt \<or> unresolvedRef v = None)"
  by (auto simp: admit_def split: option.split)

subsection \<open>The preview of one binding\<close>

definition listing_of :: "secrets \<Rightarrow> listing" where
  "listing_of secrets n = (secrets n \<noteq> None, True)"

definition passes :: "full_profile \<Rightarrow> options \<Rightarrow> string \<Rightarrow> walked \<Rightarrow> bool" where
  "passes p opt name w \<longleftrightarrow>
     (case w of FromEnv v \<Rightarrow> admit p name v True opt = None
      | FromSecret n (Some v) \<Rightarrow> admit p name v False opt = None
      | _ \<Rightarrow> False)"

definition from_store :: "walked \<Rightarrow> bool" where
  "from_store w \<longleftrightarrow> (case w of FromSecret n (Some v) \<Rightarrow> True | _ \<Rightarrow> False)"

lemma admit_secret_value: "admit p name v False opt = admit p name w False opt"
  by (simp add: admit_def)

text \<open>The row of a chain, for the walk of the run over the secrets that the listing names.\<close>

lemma plan_walk_walk:
  assumes "pl_State c = StateUnresolved" "plan_walk p (listing_of secrets) env opt refs c False = (c', u)"
    and "\<forall>n. secrets n \<noteq> Some []"
  shows "\<not> u \<and> pl_Name c' = pl_Name c \<and> pl_Delivery c' = pl_Delivery c
    \<and> (pl_State c' = StateResolved \<longleftrightarrow> passes p opt (pl_Name c) (walk secrets env refs))
    \<and> (pl_State c' = StateResolved \<longrightarrow> (pl_Source c' = SourceSecret \<longleftrightarrow> from_store (walk secrets env refs)))"
  using assms(1,2)
proof (induction refs arbitrary: c)
  case Nil
  then show ?case by (auto simp: passes_def)
next
  case (Cons raw refs)
  show ?case
  proof (cases "ParseBindingRef raw")
    case (Inl e)
    with Cons.prems show ?thesis by (auto simp: passes_def)
  next
    case (Inr r)
    show ?thesis
    proof (cases "br_Namespace r = NamespaceEnv")
      case True
      show ?thesis
      proof (cases "value_or_empty (env (br_Name r)) = []")
        case True
        with Cons.prems Cons.IH [of c] Inr \<open>br_Namespace r = NamespaceEnv\<close> show ?thesis by simp
      next
        case False
        with Cons.prems Inr True show ?thesis
          by (auto simp: passes_def from_store_def Let_def split: option.splits)
      qed
    next
      case False
      then have n: "br_Namespace r = NamespaceSecrets" using ParseBindingRef_Inr [OF Inr] by blast
      show ?thesis
      proof (cases "secrets (br_Name r)")
        case None
        show ?thesis
        proof (cases "refs = []")
          case True
          with Cons.prems Inr n None show ?thesis
            by (auto simp: listing_of_def Let_def passes_def value_or_empty_def)
        next
          case False
          with Cons.prems Inr n None Cons.IH [of "c\<lparr>pl_Secret := br_Name r, pl_Required := required p (br_Name r)\<rparr>"]
          show ?thesis by (simp add: listing_of_def Let_def value_or_empty_def)
        qed
      next
        case (Some v)
        with assms(3) have "v \<noteq> []" by auto
        with Cons.prems Inr n Some admit_secret_value [of p "pl_Name c" v opt "[]"] show ?thesis
          by (auto simp: listing_of_def Let_def passes_def from_store_def value_or_empty_def split: option.splits)
      qed
    qed
  qed
qed

definition new_row :: "env_binding \<Rightarrow> planned" where
  "new_row b = \<lparr>pl_Name = eb_Name b, pl_Delivery = DeliveryEnv, pl_Source = NoSource, pl_Secret = [],
     pl_Required = False, pl_State = StateUnresolved, pl_Reason = NoReason\<rparr>"

lemma env_row_walk:
  assumes "\<forall>n. secrets n \<noteq> Some []" "r = env_row p (listing_of secrets) env opt b"
  shows "pl_Name r = eb_Name b" "pl_Delivery r = DeliveryEnv"
    "pl_State r = StateResolved \<longleftrightarrow> passes p opt (eb_Name b) (walk secrets env (RefList b))"
    "pl_State r = StateResolved \<Longrightarrow> pl_Source r = SourceSecret \<longleftrightarrow> from_store (walk secrets env (RefList b))"
proof -
  obtain c u where cu: "plan_walk p (listing_of secrets) env opt (RefList b) (new_row b) False = (c, u)"
    by force
  have w: "\<not> u \<and> pl_Name c = eb_Name b \<and> pl_Delivery c = DeliveryEnv
    \<and> (pl_State c = StateResolved \<longleftrightarrow> passes p opt (eb_Name b) (walk secrets env (RefList b)))
    \<and> (pl_State c = StateResolved \<longrightarrow> (pl_Source c = SourceSecret \<longleftrightarrow> from_store (walk secrets env (RefList b))))"
    using plan_walk_walk [OF _ cu assms(1)] by (simp add: new_row_def)
  have r: "r = (if pl_State c = StateUnresolved \<and> pl_Reason c = NoReason then c\<lparr>pl_Reason := NoValue\<rparr> else c)"
    using cu w by (simp add: assms(2) env_row_def new_row_def Let_def)
  show "pl_Name r = eb_Name b" "pl_Delivery r = DeliveryEnv" using w by (simp_all add: r)
  show "pl_State r = StateResolved \<longleftrightarrow> passes p opt (eb_Name b) (walk secrets env (RefList b))"
    using w by (auto simp: r)
  show "pl_Source r = SourceSecret \<longleftrightarrow> from_store (walk secrets env (RefList b))"
    if "pl_State r = StateResolved" using w that by (auto simp: r split: if_splits)
qed

definition label :: "var \<Rightarrow> string \<times> bool" where
  "label v = (va_Name v, va_Secret v)"

definition row_label :: "planned \<Rightarrow> string \<times> bool" where
  "row_label r = (pl_Name r, pl_Source r = SourceSecret)"

lemma adds_labels:
  assumes "\<forall>n. secrets n \<noteq> Some []" "RefList b \<noteq> []"
  shows "map label (adds p secrets env opt b) =
     (if passes p opt (eb_Name b) (walk secrets env (RefList b))
      then [(eb_Name b, from_store (walk secrets env (RefList b)))] else [])"
proof -
  have "v \<noteq> []" if "walk secrets env (RefList b) = FromSecret n (Some v)" for n v
    using walk_FromSecret [OF that] assms(1) by auto
  then show ?thesis
    by (auto simp: adds_chain [OF assms(2)] passes_def from_store_def label_def split: walked.split option.split)
qed

lemma deliveries_differ [simp]: "DeliveryFile \<noteq> DeliveryEnv" "DeliveryNone \<noteq> DeliveryEnv"
  by (simp_all add: DeliveryFile_def DeliveryEnv_def DeliveryNone_def)

lemma other_rows:
  "pl_Delivery (secretRow p n d sn stored) = d" "pl_Delivery (file_row p stored fb) = DeliveryFile"
  by (simp_all add: secretRow_def file_row_def Let_def split: prod.split sum.split)

text \<open>The rows of a preview are those of its three groups, in the order that the listing prints.\<close>

lemma Preview_mset:
  "mset (filter (\<lambda>r. pl_Delivery r = DeliveryEnv \<and> Q r) (Preview p bs stored env opt)) =
     mset (filter (\<lambda>r. pl_Delivery r = DeliveryEnv \<and> Q r)
       (map (env_row p stored env opt) (filter (\<lambda>b. RefList b \<noteq> []) bs)))"
  by (auto simp: Preview_def Let_def mset_filter other_rows)

lemma concat_labels:
  assumes "\<forall>n. secrets n \<noteq> Some []" "\<forall>b \<in> set bs. RefList b \<noteq> []"
  shows "map label (concat (map (adds p secrets env opt) bs)) =
    map row_label (filter (\<lambda>r. pl_Delivery r = DeliveryEnv \<and> pl_State r = StateResolved)
      (map (env_row p (listing_of secrets) env opt) bs))"
  using assms(2)
  by (induction bs) (simp_all add: map_concat adds_labels [OF assms(1)] env_row_walk [OF assms(1) refl] row_label_def)

subsection \<open>What is reported\<close>

text \<open>A variable without the value of a secret, and two stores that hold the same names, with the same
  ones empty.\<close>

definition blind :: "var \<Rightarrow> var" where
  "blind v = (if va_Secret v then v\<lparr>va_Value := []\<rparr> else v)"

definition same_shape :: "secrets \<Rightarrow> secrets \<Rightarrow> bool" where
  "same_shape s1 s2 \<longleftrightarrow> (\<forall>n. (s1 n = None \<longleftrightarrow> s2 n = None) \<and> (s1 n = Some [] \<longleftrightarrow> s2 n = Some []))"

definition same_report :: "cred_set \<Rightarrow> cred_set \<Rightarrow> bool" where
  "same_report s t \<longleftrightarrow> cs_Names s = cs_Names t \<and> cs_Warnings s = cs_Warnings t
     \<and> map blind (cs_Vars s) = map blind (cs_Vars t)"

lemma same_shape_empty:
  "same_shape s1 s2 \<Longrightarrow> value_or_empty (s1 n) = [] \<longleftrightarrow> value_or_empty (s2 n) = []"
proof -
  assume "same_shape s1 s2"
  then have "s1 n = None \<longleftrightarrow> s2 n = None" "s1 n = Some [] \<longleftrightarrow> s2 n = Some []"
    by (simp_all add: same_shape_def)
  then show ?thesis by (cases "s1 n"; cases "s2 n") (simp_all add: value_or_empty_def)
qed

lemma walk_shape:
  assumes "same_shape s1 s2"
  shows "walk s1 env refs = walk s2 env refs
    \<or> (\<exists>n. walk s1 env refs = FromSecret n (s1 n) \<and> walk s2 env refs = FromSecret n (s2 n))"
  using same_shape_empty [OF assms] by (induction refs) (auto split: sum.split)

lemma forward_report:
  "same_report s t \<Longrightarrow> same_report (forward p opt n v False True s) (forward p opt n w False True t)"
  "same_report s t \<Longrightarrow> same_report (forward p opt n v fe False s) (forward p opt n v fe False t)"
  "same_report s t \<Longrightarrow> same_report (warn x s) (warn x t)"
  by (auto simp: forward_def same_report_def admit_secret_value [of p n v opt w] blind_def split: option.split)

lemma bind_one_report:
  assumes shape: "same_shape s1 s2" and report: "same_report s t"
  shows "same_report (bind_one p s1 env opt b s) (bind_one p s2 env opt b t)"
proof (cases "RefList b = []")
  case True
  then show ?thesis using report by (simp add: bind_one_def forward_report)
next
  case chain: False
  consider "walk s1 env (RefList b) = walk s2 env (RefList b)"
    | n where "walk s1 env (RefList b) = FromSecret n (s1 n)" "walk s2 env (RefList b) = FromSecret n (s2 n)"
    using walk_shape [OF shape] by blast
  then show ?thesis
  proof cases
    case 1
    then show ?thesis using report chain
      by (auto simp: bind_one_def forward_report split: walked.split option.split)
  next
    case (2 n)
    have "s1 n = None \<longleftrightarrow> s2 n = None" "s1 n = Some [] \<longleftrightarrow> s2 n = Some []"
      using shape by (simp_all add: same_shape_def)
    then show ?thesis using report chain 2
      by (cases "s1 n"; cases "s2 n") (auto simp: bind_one_def forward_report)
  qed
qed

lemma fold_report:
  "same_shape s1 s2 \<Longrightarrow> same_report s t \<Longrightarrow>
     same_report (fold (bind_one p s1 env opt) bs s) (fold (bind_one p s2 env opt) bs t)"
  by (induction bs arbitrary: s t) (simp_all add: bind_one_report)

subsection \<open>Properties\<close>

text \<open>C16: What \<open>ResolveSecrets\<close> reads is enough for \<open>Bind\<close>, and no more than the profile declares:
  with the values it returned, \<open>Bind\<close> forwards, reports and warns exactly as it would with every
  secret the profile declares and the store holds, although the chains that a variable of the host
  answers were never looked up.\<close>

theorem needed_suffices:
  assumes "fst (ResolveSecrets p sandbox (Inr rd) env) = Inr r"
  shows "Bind p (p_Env p) (rs_Values r) env opt = Bind p (p_Env p) (declared_part p rd) env opt"
proof (rule Bind_cong)
  fix b n
  assume b: "b \<in> set (p_Env p)" "n \<in> set (reached env (RefList b))"
  show "rs_Values r n = declared_part p rd n"
    using wanted_declared [OF reached_wanted [OF b]] by (simp add: resolve_values [OF assms] declared_part_def)
qed


text \<open>C17: Nothing reaches the guest unguarded. Every variable that \<open>Bind\<close> forwards has a value and
  belongs to a binding; it is off the denylist unless the user allowed it; it is marked secret exactly
  when its value is what the store held for a secret of the chain; and a value out of the host's
  environment is not an unresolved reference unless the user allowed those too.\<close>

theorem bound_vars_guarded:
  assumes "v \<in> set (cs_Vars (Bind p bs secrets env opt))"
  shows "va_Value v \<noteq> [] \<and> (Denied p (va_Name v) \<longrightarrow> op_AllowDenied opt)
    \<and> (\<exists>b \<in> set bs. eb_Name b = va_Name v
        \<and> (if va_Secret v then \<exists>n. secrets n = Some (va_Value v) \<and> NamespaceSecrets @ ''.'' @ n \<in> set (RefList b)
           else RefList b = [] \<and> eb_Value b = va_Value v
             \<or> (\<exists>n. env n = Some (va_Value v) \<and> NamespaceEnv @ ''.'' @ n \<in> set (RefList b)
                  \<and> (op_AllowRefs opt \<or> unresolvedRef (va_Value v) = None))))"
proof -
  from assms obtain b where b: "b \<in> set bs" "v \<in> set (adds p secrets env opt b)"
    by (auto simp: Bind_vars)
  show ?thesis
  proof (cases "RefList b = []")
    case True
    with b show ?thesis by (auto simp: adds_literal admit_None split: if_splits)
  next
    case False
    show ?thesis
    proof (cases "walk secrets env (RefList b)")
      case (FromEnv w)
      with b False walk_FromEnv [OF FromEnv] show ?thesis
        by (auto simp: adds_chain admit_None split: if_splits)
    next
      case (FromSecret n w)
      with b False walk_FromSecret [OF FromSecret] show ?thesis
        by (auto simp: adds_chain admit_None split: if_splits option.splits intro!: bexI [of _ b])
    qed (use b False in \<open>simp_all add: adds_chain\<close>)
  qed
qed


text \<open>What a run reports does not depend on what a secret holds. For two stores with the same
  names, the same ones of them empty, \<open>Bind\<close> gives the same names to print and the same warnings, and
  the same variables but for the values of those marked secret.\<close>

theorem report_hides_secrets:
  assumes "same_shape s1 s2"
  shows "cs_Names (Bind p bs s1 env opt) = cs_Names (Bind p bs s2 env opt)
    \<and> cs_Warnings (Bind p bs s1 env opt) = cs_Warnings (Bind p bs s2 env opt)
    \<and> map blind (cs_Vars (Bind p bs s1 env opt)) = map blind (cs_Vars (Bind p bs s2 env opt))"
  using fold_report [OF assms, of empty_set empty_set] by (simp add: Bind_def same_report_def)

subsection \<open>An example\<close>

definition demo_decl :: "string \<Rightarrow> bool option \<Rightarrow> secret_decl" where
  "demo_decl n req = \<lparr>sd_Name = n, sd_Required = req, sd_Field = [], sd_ExpiryField = [],
     sd_Sources = None, sd_From = [], sd_Service = [], sd_Path = [], sd_Var = [], sd_Hint = []\<rparr>"

definition demo_binding :: "string \<Rightarrow> string list \<Rightarrow> env_binding" where
  "demo_binding n refs = \<lparr>eb_Name = n, eb_Value = [], eb_Ref = [], eb_Refs = refs\<rparr>"

definition cred_profile :: full_profile where
  "cred_profile = \<lparr>p_name = ''a'', p_kind = None, p_policy = [], p_reserved = False, p_deny = [''K''],
     p_GuestHome = ''/h'', p_Secrets = [demo_decl ''t'' None, demo_decl ''u'' (Some False)],
     p_Env = [demo_binding ''T'' [''env.T'', ''secrets.t''], demo_binding ''K'' [''secrets.u'']],
     p_Files = [], p_Volumes = []\<rparr>"

definition demo_reader :: reader where
  "demo_reader n = (if n = ''t'' then Inr ''xyz'' else Inl ErrNotFound)"

definition demo_options :: options where
  "demo_options = \<lparr>op_AllowRefs = False, op_AllowDenied = False\<rparr>"

definition demo_secrets :: "string \<Rightarrow> secrets" where
  "demo_secrets v n = (if n = ''t'' then Some v else None)"

lemma demo_lost: "lost demo_reader (filter IsRequired (p_Secrets cred_profile)) = []"
  by code_simp

lemma demo_bound:
  "cs_Vars (Bind cred_profile (p_Env cred_profile) (demo_secrets ''xyz'') (\<lambda>_. None) demo_options)
     = [\<lparr>va_Name = ''T'', va_Value = ''xyz'', va_Secret = True\<rparr>]"
  by code_simp

lemma demo_resolves: "isl (fst (ResolveSecrets cred_profile ''s'' (Inr demo_reader) (\<lambda>_. None))) = False"
  by code_simp

theorem needed_suffices_witness:
  "\<exists>r. fst (ResolveSecrets cred_profile ''s'' (Inr demo_reader) (\<lambda>_. None)) = Inr r
     \<and> Bind cred_profile (p_Env cred_profile) (rs_Values r) (\<lambda>_. None) demo_options
         = Bind cred_profile (p_Env cred_profile) (declared_part cred_profile demo_reader) (\<lambda>_. None) demo_options"
proof -
  obtain r where r: "fst (ResolveSecrets cred_profile ''s'' (Inr demo_reader) (\<lambda>_. None)) = Inr r"
    using demo_resolves by (cases "fst (ResolveSecrets cred_profile ''s'' (Inr demo_reader) (\<lambda>_. None))") auto
  from r needed_suffices [OF r] show ?thesis by blast
qed

theorem bound_vars_guarded_witness:
  "\<not> Denied cred_profile ''T'' \<and> (\<exists>b \<in> set (p_Env cred_profile). eb_Name b = ''T''
     \<and> (\<exists>n. demo_secrets ''xyz'' n = Some ''xyz'' \<and> NamespaceSecrets @ ''.'' @ n \<in> set (RefList b)))"
  using bound_vars_guarded [of "\<lparr>va_Name = ''T'', va_Value = ''xyz'', va_Secret = True\<rparr>" cred_profile
      "p_Env cred_profile" "demo_secrets ''xyz''" "\<lambda>_. None" demo_options]
  by (simp add: demo_bound) (simp add: demo_options_def)


theorem report_hides_secrets_witness:
  "cs_Names (Bind cred_profile (p_Env cred_profile) (demo_secrets ''xyz'') (\<lambda>_. None) demo_options)
     = cs_Names (Bind cred_profile (p_Env cred_profile) (demo_secrets ''other'') (\<lambda>_. None) demo_options)"
proof -
  have "same_shape (demo_secrets ''xyz'') (demo_secrets ''other'')"
    by (simp add: same_shape_def demo_secrets_def)
  from report_hides_secrets [OF this] show ?thesis by blast
qed

end
