(* ===== verification/Cred_Cache.thy ===== *)
theory Cred_Cache
  imports Main
begin

text \<open>
  The caches of the AWS and Google credentials: \<open>internal/awscred/cache.go\<close> and its copy
  \<open>internal/gcpcred/cache.go\<close>, as one machine of atomic steps, each the code between two operations of
  a lock or a channel. Entries and flights are shared objects of the Go heap: they are allocated at
  the end of a list and named by their position, so a goroutine keeps the entry it looked up after
  \<open>Forget\<close> took it out of the map. The tools of the providers are parameters, each result an input of
  the step that ends a fetch, and the clock is an input of the steps that read it, in nanoseconds.
\<close>

subsection \<open>State\<close>

definition Second :: int where "Second = 1000000000"
definition Minute :: int where "Minute = 60 * Second"

definition getMargin :: int where "getMargin = 20 * Minute"
definition ensureMargin :: int where "ensureMargin = 15 * Minute"
definition refetchFloor :: int where "refetchFloor = Minute"

text \<open>The one margin of the Google cache.\<close>

definition gcp_margin :: int where "gcp_margin = 2 * Minute"

record cache_key =
  ck_sandbox :: string
  ck_route :: string

text \<open>\<open>ce_creds\<close> is \<open>None\<close> where \<open>have\<close> is false, and then the pointer is the empty one.\<close>

record ('p, 'c) cache_entry =
  ce_flight :: "nat option"
  ce_creds :: "'c option"
  ce_ptr :: "'p option"
  ce_fetched :: int

text \<open>A fetch: its pointer and the sandbox it is for, the entry it fills, and once \<open>done\<close> is closed its
  result and the time it came in.\<close>

record ('p, 'c, 'e) flight =
  fl_entry :: nat
  fl_sandbox :: string
  fl_ptr :: 'p
  fl_done :: "(('e + 'c) \<times> int) option"

text \<open>Where a call of \<open>get\<close> is: at the top of its loop, waiting for a flight, or returned with what the
  entry held, with what a flight brought, or with the error of its context.\<close>

datatype ('c, 'e) position =
    Looking | Waiting nat | Served 'c int | Answered nat "'e + 'c" | GaveUp

record ('p, 'c, 'e) caller =
  ca_key :: cache_key
  ca_entry :: nat
  ca_ptr :: 'p
  ca_margin :: int
  ca_at :: "('c, 'e) position"

record ('p, 'c, 'e) cache =
  ch_entries :: "cache_key \<Rightarrow> nat option"
  ch_heap :: "('p, 'c) cache_entry list"
  ch_flights :: "('p, 'c, 'e) flight list"
  ch_callers :: "('p, 'c, 'e) caller list"

definition new_entry :: "('p, 'c) cache_entry" where
  "new_entry = \<lparr>ce_flight = None, ce_creds = None, ce_ptr = None, ce_fetched = 0\<rparr>"

definition NewCache :: "('p, 'c, 'e) cache" where
  "NewCache = \<lparr>ch_entries = (\<lambda>_. None), ch_heap = [], ch_flights = [], ch_callers = []\<rparr>"

definition servable :: "('c \<Rightarrow> int) \<Rightarrow> 'c \<Rightarrow> int \<Rightarrow> int \<Rightarrow> int \<Rightarrow> bool" where
  "servable expiry c fetched now margin \<longleftrightarrow>
     (let remaining = expiry c - now in margin \<le> remaining \<or> (now - fetched < refetchFloor \<and> 0 < remaining))"

subsection \<open>Steps\<close>

text \<open>A call arrives and looks its entry up; \<open>Get\<close>, \<open>Ensure\<close> and the Google cache differ in the margin.\<close>

definition call :: "cache_key \<Rightarrow> 'p \<Rightarrow> int \<Rightarrow> ('p, 'c, 'e) cache \<Rightarrow> ('p, 'c, 'e) cache" where
  "call k p margin s =
     (let (e, s) = (case ch_entries s k of
          Some e \<Rightarrow> (e, s)
        | None \<Rightarrow> (length (ch_heap s),
            s\<lparr>ch_entries := (ch_entries s)(k \<mapsto> length (ch_heap s)), ch_heap := ch_heap s @ [new_entry]\<rparr>)) in
      s\<lparr>ch_callers := ch_callers s @ [\<lparr>ca_key = k, ca_entry = e, ca_ptr = p, ca_margin = margin, ca_at = Looking\<rparr>]\<rparr>)"

definition move :: "nat \<Rightarrow> ('c, 'e) position \<Rightarrow> ('p, 'c, 'e) cache \<Rightarrow> ('p, 'c, 'e) cache" where
  "move i pos s = s\<lparr>ch_callers := (ch_callers s)[i := (ch_callers s ! i)\<lparr>ca_at := pos\<rparr>]\<rparr>"

text \<open>What the held keys of an entry are good for.\<close>

definition hit :: "('c \<Rightarrow> int) \<Rightarrow> ('p, 'c) cache_entry \<Rightarrow> 'p \<Rightarrow> int \<Rightarrow> int \<Rightarrow> 'c option" where
  "hit expiry e p now margin =
     (case ce_creds e of
        None \<Rightarrow> None
      | Some c \<Rightarrow> if ce_flight e = None \<and> ce_ptr e = Some p \<and> servable expiry c (ce_fetched e) now margin
                then Some c else None)"

text \<open>One look under the lock of the entry: served, joined to the flight there is, or joined to a new one.\<close>

definition look :: "('c \<Rightarrow> int) \<Rightarrow> nat \<Rightarrow> int \<Rightarrow> ('p, 'c, 'e) cache \<Rightarrow> ('p, 'c, 'e) cache" where
  "look expiry i now s =
     (let c = ch_callers s ! i; e = ch_heap s ! ca_entry c in
      case hit expiry e (ca_ptr c) now (ca_margin c) of
        Some v \<Rightarrow> move i (Served v now) s
      | None \<Rightarrow> (case ce_flight e of
          Some f \<Rightarrow> move i (Waiting f) s
        | None \<Rightarrow> move i (Waiting (length (ch_flights s)))
            (s\<lparr>ch_heap := (ch_heap s)[ca_entry c := e\<lparr>ce_flight := Some (length (ch_flights s))\<rparr>],
               ch_flights := ch_flights s @ [\<lparr>fl_entry = ca_entry c, fl_sandbox = ck_sandbox (ca_key c),
                  fl_ptr = ca_ptr c, fl_done = None\<rparr>]\<rparr>)))"

text \<open>The end of a fetch: the entry takes what it brought, or drops what it held.\<close>

definition finish :: "nat \<Rightarrow> 'e + 'c \<Rightarrow> int \<Rightarrow> ('p, 'c, 'e) cache \<Rightarrow> ('p, 'c, 'e) cache" where
  "finish f res now s =
     (let fl = ch_flights s ! f; e = ch_heap s ! fl_entry fl;
          e' = (case res of
              Inl _ \<Rightarrow> e\<lparr>ce_creds := None, ce_ptr := None, ce_flight := None\<rparr>
            | Inr c \<Rightarrow> \<lparr>ce_flight = None, ce_creds = Some c, ce_ptr = Some (fl_ptr fl), ce_fetched = now\<rparr>) in
      s\<lparr>ch_heap := (ch_heap s)[fl_entry fl := e'],
        ch_flights := (ch_flights s)[f := fl\<lparr>fl_done := Some (res, now)\<rparr>]\<rparr>)"

text \<open>A flight that is done wakes its callers; one whose pointer was another looks again.\<close>

definition wake :: "nat \<Rightarrow> nat \<Rightarrow> 'e + 'c \<Rightarrow> ('p, 'c, 'e) cache \<Rightarrow> ('p, 'c, 'e) cache" where
  "wake i f res s =
     move i (if fl_ptr (ch_flights s ! f) = ca_ptr (ch_callers s ! i) then Answered f res else Looking) s"

definition Forget :: "string \<Rightarrow> ('p, 'c, 'e) cache \<Rightarrow> ('p, 'c, 'e) cache" where
  "Forget sandbox s = s\<lparr>ch_entries := (\<lambda>k. if ck_sandbox k = sandbox then None else ch_entries s k)\<rparr>"

datatype ('p, 'c, 'e) cache_event =
    Call cache_key 'p int | Look nat int | Finish nat "'e + 'c" int | Wake nat | HangUp nat | ForgetAll string

text \<open>The event that happens next, or \<open>None\<close> when it cannot.\<close>

fun cache_step ::
  "('c \<Rightarrow> int) \<Rightarrow> ('p, 'c, 'e) cache_event \<Rightarrow> ('p, 'c, 'e) cache \<Rightarrow> ('p, 'c, 'e) cache option" where
  "cache_step expiry (Call k p margin) s = Some (call k p margin s)"
| "cache_step expiry (Look i now) s =
     (if i < length (ch_callers s) \<and> ca_at (ch_callers s ! i) = Looking then Some (look expiry i now s) else None)"
| "cache_step expiry (Finish f res now) s =
     (if f < length (ch_flights s) \<and> fl_done (ch_flights s ! f) = None then Some (finish f res now s) else None)"
| "cache_step expiry (Wake i) s =
     (if i < length (ch_callers s) then
        (case ca_at (ch_callers s ! i) of
           Waiting f \<Rightarrow> (case fl_done (ch_flights s ! f) of Some (res, _) \<Rightarrow> Some (wake i f res s) | None \<Rightarrow> None)
         | _ \<Rightarrow> None)
      else None)"
| "cache_step expiry (HangUp i) s =
     (if i < length (ch_callers s) then
        (case ca_at (ch_callers s ! i) of Waiting _ \<Rightarrow> Some (move i GaveUp s) | _ \<Rightarrow> None)
      else None)"
| "cache_step expiry (ForgetAll sandbox) s = Some (Forget sandbox s)"

fun cache_run ::
  "('c \<Rightarrow> int) \<Rightarrow> ('p, 'c, 'e) cache_event list \<Rightarrow> ('p, 'c, 'e) cache \<Rightarrow> ('p, 'c, 'e) cache option" where
  "cache_run expiry [] s = Some s"
| "cache_run expiry (ev # evs) s =
     (case cache_step expiry ev s of None \<Rightarrow> None | Some s' \<Rightarrow> cache_run expiry evs s')"

end
