(* ===== verification/Cred_Cache_Facts.thy ===== *)
theory Cred_Cache_Facts
  imports Cred_Cache
begin

text \<open>
  What the credential caches promise in every interleaving: one fetch at a time for an entry, keys
  only for the identity and the sandbox that asked, keys that are still good when they come out of an
  entry, and nothing of a sandbox after \<open>Forget\<close>. Each is an invariant, preserved by one lemma per step.
\<close>

subsection \<open>Flights only grow\<close>

definition grows :: "('p, 'c, 'e) cache \<Rightarrow> ('p, 'c, 'e) cache \<Rightarrow> bool" where
  "grows s s' \<longleftrightarrow> length (ch_flights s) \<le> length (ch_flights s')
     \<and> (\<forall>f < length (ch_flights s).
          fl_entry (ch_flights s' ! f) = fl_entry (ch_flights s ! f)
          \<and> fl_ptr (ch_flights s' ! f) = fl_ptr (ch_flights s ! f)
          \<and> fl_sandbox (ch_flights s' ! f) = fl_sandbox (ch_flights s ! f)
          \<and> (fl_done (ch_flights s ! f) \<noteq> None \<longrightarrow> fl_done (ch_flights s' ! f) = fl_done (ch_flights s ! f)))"

lemma move_simps [simp]:
  "ch_flights (move i pos s) = ch_flights s" "ch_heap (move i pos s) = ch_heap s"
  "ch_entries (move i pos s) = ch_entries s"
  "ch_callers (move i pos s) = (ch_callers s)[i := (ch_callers s ! i)\<lparr>ca_at := pos\<rparr>]"
  by (simp_all add: move_def)

lemma call_simps [simp]:
  "ch_flights (call k p m s) = ch_flights s"
  by (simp add: call_def Let_def split: option.split)

lemma cache_grows_refl [simp]: "ch_flights s' = ch_flights s \<Longrightarrow> grows s s'"
  by (simp add: grows_def)

lemma grows_look: "grows s (look expiry i now s)"
  by (auto simp: look_def Let_def grows_def nth_append split: option.split)

lemma grows_finish:
  "f < length (ch_flights s) \<Longrightarrow> fl_done (ch_flights s ! f) = None \<Longrightarrow> grows s (finish f res now s)"
  by (auto simp: finish_def Let_def grows_def nth_list_update)

lemma step_grows: "cache_step expiry ev s = Some s' \<Longrightarrow> grows s s'"
  by (cases ev) (auto simp: grows_look grows_finish wake_def Forget_def split: if_splits position.splits option.splits)

lemma cache_grows_trans: "grows s t \<Longrightarrow> grows t u \<Longrightarrow> grows s u"
  unfolding grows_def by auto

subsection \<open>The invariant\<close>

text \<open>A fetch for an entry and a pointer brought these keys at this time.\<close>

definition brought :: "('p, 'c, 'e) cache \<Rightarrow> nat \<Rightarrow> 'p \<Rightarrow> 'c \<Rightarrow> int \<Rightarrow> bool" where
  "brought s e p c t \<longleftrightarrow> (\<exists>f < length (ch_flights s). fl_entry (ch_flights s ! f) = e
     \<and> fl_ptr (ch_flights s ! f) = p \<and> fl_done (ch_flights s ! f) = Some (Inr c, t))"

definition position_ok :: "('c \<Rightarrow> int) \<Rightarrow> ('p, 'c, 'e) cache \<Rightarrow> ('p, 'c, 'e) caller \<Rightarrow> bool" where
  "position_ok expiry s c \<longleftrightarrow>
     (case ca_at c of
        Looking \<Rightarrow> True
      | Waiting f \<Rightarrow> f < length (ch_flights s) \<and> fl_entry (ch_flights s ! f) = ca_entry c
      | Served v now \<Rightarrow> (\<exists>t. brought s (ca_entry c) (ca_ptr c) v t \<and> servable expiry v t now (ca_margin c))
      | Answered f res \<Rightarrow> f < length (ch_flights s) \<and> fl_entry (ch_flights s ! f) = ca_entry c
          \<and> fl_ptr (ch_flights s ! f) = ca_ptr c \<and> (\<exists>t. fl_done (ch_flights s ! f) = Some (res, t))
      | GaveUp \<Rightarrow> True)"

definition entry_ok :: "('p, 'c, 'e) cache \<Rightarrow> nat \<Rightarrow> bool" where
  "entry_ok s e \<longleftrightarrow>
     (\<forall>f. ce_flight (ch_heap s ! e) = Some f \<longrightarrow> f < length (ch_flights s)
        \<and> fl_entry (ch_flights s ! f) = e \<and> fl_done (ch_flights s ! f) = None)
     \<and> (\<forall>c. ce_creds (ch_heap s ! e) = Some c \<longrightarrow>
          (\<exists>p. ce_ptr (ch_heap s ! e) = Some p \<and> brought s e p c (ce_fetched (ch_heap s ! e))))"

definition flight_ok :: "(nat \<Rightarrow> cache_key) \<Rightarrow> ('p, 'c, 'e) cache \<Rightarrow> nat \<Rightarrow> bool" where
  "flight_ok own s f \<longleftrightarrow> fl_entry (ch_flights s ! f) < length (ch_heap s)
     \<and> fl_sandbox (ch_flights s ! f) = ck_sandbox (own (fl_entry (ch_flights s ! f)))
     \<and> (fl_done (ch_flights s ! f) = None \<longrightarrow> ce_flight (ch_heap s ! fl_entry (ch_flights s ! f)) = Some f)"

definition caller_ok :: "('c \<Rightarrow> int) \<Rightarrow> (nat \<Rightarrow> cache_key) \<Rightarrow> ('p, 'c, 'e) cache \<Rightarrow> ('p, 'c, 'e) caller \<Rightarrow> bool" where
  "caller_ok expiry own s c \<longleftrightarrow> ca_entry c < length (ch_heap s) \<and> own (ca_entry c) = ca_key c
     \<and> position_ok expiry s c"

definition cache_inv :: "('c \<Rightarrow> int) \<Rightarrow> (nat \<Rightarrow> cache_key) \<Rightarrow> ('p, 'c, 'e) cache \<Rightarrow> bool" where
  "cache_inv expiry own s \<longleftrightarrow>
     (\<forall>k e. ch_entries s k = Some e \<longrightarrow> e < length (ch_heap s) \<and> own e = k)
     \<and> (\<forall>c \<in> set (ch_callers s). caller_ok expiry own s c)
     \<and> (\<forall>f < length (ch_flights s). flight_ok own s f)
     \<and> (\<forall>e < length (ch_heap s). entry_ok s e)"

lemma cache_invI:
  assumes "\<And>k e. ch_entries s k = Some e \<Longrightarrow> e < length (ch_heap s) \<and> own e = k"
    and "\<And>c. c \<in> set (ch_callers s) \<Longrightarrow> caller_ok expiry own s c"
    and "\<And>f. f < length (ch_flights s) \<Longrightarrow> flight_ok own s f"
    and "\<And>e. e < length (ch_heap s) \<Longrightarrow> entry_ok s e"
  shows "cache_inv expiry own s"
  using assms by (simp add: cache_inv_def)

lemma cache_invD:
  assumes "cache_inv expiry own s"
  shows "ch_entries s k = Some e \<Longrightarrow> e < length (ch_heap s) \<and> own e = k"
    and "c \<in> set (ch_callers s) \<Longrightarrow> caller_ok expiry own s c"
    and "f < length (ch_flights s) \<Longrightarrow> flight_ok own s f"
    and "e < length (ch_heap s) \<Longrightarrow> entry_ok s e"
  using assms by (simp_all add: cache_inv_def)

lemma brought_grows: "grows s s' \<Longrightarrow> brought s e p c t \<Longrightarrow> brought s' e p c t"
  unfolding brought_def grows_def by (metis (no_types, lifting) option.distinct(1) order_less_le_trans)

lemma position_grows:
  assumes "grows s s'" "position_ok expiry s c"
  shows "position_ok expiry s' c"
proof (cases "ca_at c")
  case (Served v now)
  with assms brought_grows [OF assms(1)] show ?thesis
    by (simp add: position_ok_def) blast
qed (use assms in \<open>auto simp: position_ok_def grows_def\<close>)

lemma caller_grows:
  "grows s s' \<Longrightarrow> length (ch_heap s) \<le> length (ch_heap s') \<Longrightarrow> caller_ok expiry own s c \<Longrightarrow>
     caller_ok expiry own s' c"
  by (auto simp: caller_ok_def position_grows)

subsection \<open>Each step\<close>

lemma move_inv:
  assumes inv: "cache_inv expiry own s" and i: "i < length (ch_callers s)"
    and pos: "position_ok expiry s ((ch_callers s ! i)\<lparr>ca_at := pos\<rparr>)"
  shows "cache_inv expiry own (move i pos s)"
proof (rule cache_invI)
  have same: "grows s (move i pos s)" by simp
  have me: "caller_ok expiry own s ((ch_callers s ! i)\<lparr>ca_at := pos\<rparr>)"
    using cache_invD(2) [OF inv, of "ch_callers s ! i"] i pos by (simp add: caller_ok_def)
  fix c assume "c \<in> set (ch_callers (move i pos s))"
  then have "c \<in> set (ch_callers s) \<or> c = (ch_callers s ! i)\<lparr>ca_at := pos\<rparr>"
    using set_update_subset_insert by fastforce
  then show "caller_ok expiry own (move i pos s) c"
    using caller_grows [OF same] cache_invD(2) [OF inv] me by auto
qed (use cache_invD [OF inv] in \<open>auto simp: flight_ok_def entry_ok_def brought_def\<close>)

lemma call_inv:
  assumes inv: "cache_inv expiry own s"
  shows "\<exists>own'. cache_inv expiry own' (call k p margin s)"
proof (cases "ch_entries s k")
  case (Some e)
  let ?s = "call k p margin s"
  have g: "grows s ?s" by simp
  have s: "ch_entries ?s = ch_entries s" "ch_heap ?s = ch_heap s" "ch_flights ?s = ch_flights s"
    "ch_callers ?s = ch_callers s @ [\<lparr>ca_key = k, ca_entry = e, ca_ptr = p, ca_margin = margin, ca_at = Looking\<rparr>]"
    using Some by (simp_all add: call_def)
  have "cache_inv expiry own ?s"
  proof (rule cache_invI)
    fix c assume "c \<in> set (ch_callers ?s)"
    then consider "c \<in> set (ch_callers s)"
      | "c = \<lparr>ca_key = k, ca_entry = e, ca_ptr = p, ca_margin = margin, ca_at = Looking\<rparr>"
      by (auto simp: s)
    then show "caller_ok expiry own ?s c"
    proof cases
      case 1
      then show ?thesis using caller_grows [OF g] cache_invD(2) [OF inv] by (simp add: s)
    next
      case 2
      then show ?thesis using cache_invD(1) [OF inv Some] by (simp add: caller_ok_def position_ok_def s)
    qed
  qed (use cache_invD [OF inv] in \<open>auto simp: s flight_ok_def entry_ok_def brought_def\<close>)
  then show ?thesis by (intro exI [of _ own])
next
  case None
  let ?s = "call k p margin s" and ?n = "length (ch_heap s)"
  let ?own = "own(?n := k)"
  have g: "grows s ?s" by simp
  have s: "ch_entries ?s = (ch_entries s)(k \<mapsto> ?n)" "ch_heap ?s = ch_heap s @ [new_entry]"
    "ch_flights ?s = ch_flights s"
    "ch_callers ?s = ch_callers s @ [\<lparr>ca_key = k, ca_entry = ?n, ca_ptr = p, ca_margin = margin, ca_at = Looking\<rparr>]"
    using None by (simp_all add: call_def Let_def)
  have "cache_inv expiry ?own ?s"
  proof (rule cache_invI)
    fix c assume "c \<in> set (ch_callers ?s)"
    then consider "c \<in> set (ch_callers s)"
      | "c = \<lparr>ca_key = k, ca_entry = ?n, ca_ptr = p, ca_margin = margin, ca_at = Looking\<rparr>"
      by (auto simp: s)
    then show "caller_ok expiry ?own ?s c"
    proof cases
      case 1
      then have "caller_ok expiry own s c" by (rule cache_invD(2) [OF inv])
      then show ?thesis using position_grows [OF g] by (auto simp: caller_ok_def s)
    next
      case 2
      then show ?thesis by (simp add: caller_ok_def position_ok_def s)
    qed
  next
    fix f assume "f < length (ch_flights ?s)"
    then have "flight_ok own s f" using cache_invD(3) [OF inv] by (simp add: s)
    then show "flight_ok ?own ?s f" by (auto simp: flight_ok_def s nth_append)
  next
    fix e assume "e < length (ch_heap ?s)"
    then show "entry_ok ?s e"
      using cache_invD(4) [OF inv, of e]
      by (cases "e = ?n") (auto simp: entry_ok_def s nth_append new_entry_def brought_def)
  next
    fix k' e assume "ch_entries ?s k' = Some e"
    then show "e < length (ch_heap ?s) \<and> ?own e = k'"
      using cache_invD(1) [OF inv, of k' e] by (auto simp: s split: if_splits)
  qed
  then show ?thesis by (intro exI [of _ ?own])
qed

lemma hit_brought:
  assumes "entry_ok s e" "hit expiry (ch_heap s ! e) p now margin = Some v"
  shows "\<exists>t. brought s e p v t \<and> servable expiry v t now margin"
  using assms by (auto simp: hit_def entry_ok_def split: option.splits if_splits)

lemma look_inv:
  assumes inv: "cache_inv expiry own s" and i: "i < length (ch_callers s)" "ca_at (ch_callers s ! i) = Looking"
  shows "cache_inv expiry own (look expiry i now s)"
proof -
  let ?c = "ch_callers s ! i" and ?n = "length (ch_flights s)"
  let ?e = "ca_entry ?c"
  have c: "caller_ok expiry own s ?c" using cache_invD(2) [OF inv] i by simp
  then have e: "?e < length (ch_heap s)" "own ?e = ca_key ?c" by (simp_all add: caller_ok_def)
  have ok: "entry_ok s ?e" using cache_invD(4) [OF inv e(1)] .
  show ?thesis
  proof (cases "hit expiry (ch_heap s ! ?e) (ca_ptr ?c) now (ca_margin ?c)")
    case (Some v)
    have "cache_inv expiry own (move i (Served v now) s)"
      using hit_brought [OF ok Some] by (intro move_inv [OF inv i(1)]) (simp add: position_ok_def)
    then show ?thesis using Some by (simp add: look_def Let_def)
  next
    case miss: None
    show ?thesis
    proof (cases "ce_flight (ch_heap s ! ?e)")
      case (Some f)
      have "cache_inv expiry own (move i (Waiting f) s)"
        using ok Some by (intro move_inv [OF inv i(1)]) (simp add: position_ok_def entry_ok_def)
      then show ?thesis using miss Some by (simp add: look_def Let_def)
    next
      case None
      let ?s = "s\<lparr>ch_heap := (ch_heap s)[?e := (ch_heap s ! ?e)\<lparr>ce_flight := Some ?n\<rparr>],
        ch_flights := ch_flights s @ [\<lparr>fl_entry = ?e, fl_sandbox = ck_sandbox (ca_key ?c), fl_ptr = ca_ptr ?c, fl_done = None\<rparr>]\<rparr>"
      have g: "grows s ?s" by (auto simp: grows_def nth_append)
      have "cache_inv expiry own ?s"
      proof (rule cache_invI)
        fix f assume f: "f < length (ch_flights ?s)"
        show "flight_ok own ?s f"
        proof (cases "f = ?n")
          case True
          then show ?thesis using e by (simp add: flight_ok_def)
        next
          case False
          with f have f: "f < ?n" by simp
          then have old: "flight_ok own s f" by (rule cache_invD(3) [OF inv])
          have "fl_entry (ch_flights s ! f) \<noteq> ?e" if "fl_done (ch_flights s ! f) = None"
            using old that None by (auto simp: flight_ok_def)
          then show ?thesis using old f by (auto simp: flight_ok_def nth_append nth_list_update)
        qed
      next
        fix x assume x: "x < length (ch_heap ?s)"
        then have old: "entry_ok s x" using cache_invD(4) [OF inv] by simp
        show "entry_ok ?s x"
        proof (cases "x = ?e")
          case True
          then show ?thesis using ok e brought_grows [OF g] by (simp add: entry_ok_def) blast
        next
          case False
          then show ?thesis using old brought_grows [OF g] by (auto simp: entry_ok_def nth_append)
        qed
      next
        fix x assume "x \<in> set (ch_callers ?s)"
        then show "caller_ok expiry own ?s x" using caller_grows [OF g] cache_invD(2) [OF inv] by simp
      qed (use cache_invD(1) [OF inv] in auto)
      then have "cache_inv expiry own (move i (Waiting ?n) ?s)"
        using i by (intro move_inv) (simp_all add: position_ok_def)
      then show ?thesis using miss None by (simp add: look_def Let_def)
    qed
  qed
qed

lemma finish_inv:
  assumes inv: "cache_inv expiry own s" and f: "f < length (ch_flights s)" "fl_done (ch_flights s ! f) = None"
  shows "cache_inv expiry own (finish f res now s)"
proof -
  let ?s = "finish f res now s" and ?e = "fl_entry (ch_flights s ! f)"
  have g: "grows s ?s" by (rule grows_finish [OF f])
  have fl: "flight_ok own s f" by (rule cache_invD(3) [OF inv f(1)])
  have len: "length (ch_heap ?s) = length (ch_heap s)" "length (ch_flights ?s) = length (ch_flights s)"
    "ch_entries ?s = ch_entries s" "ch_callers ?s = ch_callers s"
    by (simp_all add: finish_def Let_def)
  have heap: "x \<noteq> ?e \<Longrightarrow> ch_heap ?s ! x = ch_heap s ! x" for x
    by (simp add: finish_def Let_def)
  have flights: "x < length (ch_flights s) \<Longrightarrow> ch_flights ?s ! x =
      (if x = f then (ch_flights s ! f)\<lparr>fl_done := Some (res, now)\<rparr> else ch_flights s ! x)" for x
    by (simp add: finish_def Let_def nth_list_update)
  show ?thesis
  proof (rule cache_invI)
    fix x assume "x < length (ch_flights ?s)"
    then have x: "x < length (ch_flights s)" by (simp add: len)
    then have old: "flight_ok own s x" by (rule cache_invD(3) [OF inv])
    have "x = f" if "fl_done (ch_flights s ! x) = None" "fl_entry (ch_flights s ! x) = ?e"
      using old fl f that by (simp add: flight_ok_def)
    then have "fl_done (ch_flights s ! x) = None \<Longrightarrow> x \<noteq> f \<Longrightarrow>
        ch_heap ?s ! fl_entry (ch_flights s ! x) = ch_heap s ! fl_entry (ch_flights s ! x)"
      by (intro heap) blast
    then show "flight_ok own ?s x"
      using old x by (auto simp: flight_ok_def flights len)
  next
    fix x assume "x < length (ch_heap ?s)"
    then have old: "entry_ok s x" using cache_invD(4) [OF inv] by (simp add: len)
    show "entry_ok ?s x"
    proof (cases "x = ?e")
      case False
      have "y \<noteq> f" if "ce_flight (ch_heap s ! x) = Some y" for y
        using old that False by (auto simp: entry_ok_def)
      then show ?thesis using old False brought_grows [OF g] by (auto simp: entry_ok_def heap flights len)
    next
      case True
      show ?thesis
      proof (cases res)
        case (Inl a)
        then show ?thesis using True fl by (simp add: entry_ok_def finish_def Let_def flight_ok_def)
      next
        case (Inr v)
        have "brought ?s ?e (fl_ptr (ch_flights s ! f)) v now"
          unfolding brought_def using f(1) Inr flights [OF f(1)] len(2) by (intro exI [of _ f]) simp
        then show ?thesis using True fl Inr by (simp add: entry_ok_def finish_def Let_def flight_ok_def)
      qed
    qed
  next
    fix x assume "x \<in> set (ch_callers ?s)"
    then show "caller_ok expiry own ?s x"
      using caller_grows [OF g] cache_invD(2) [OF inv] by (simp add: len)
  qed (use cache_invD(1) [OF inv] in \<open>auto simp: len\<close>)
qed

lemma cache_step_inv:
  assumes inv: "cache_inv expiry own s" and step: "cache_step expiry ev s = Some s'"
  shows "\<exists>own'. cache_inv expiry own' s'"
proof (cases ev)
  case (Call k p m)
  then show ?thesis using call_inv [OF inv] step by auto
next
  case (Look i now)
  then show ?thesis using look_inv [OF inv] step by (auto split: if_splits)
next
  case (Finish f res now)
  then show ?thesis using finish_inv [OF inv] step by (auto split: if_splits)
next
  case (Wake i)
  then obtain f res t where i: "i < length (ch_callers s)" "ca_at (ch_callers s ! i) = Waiting f"
    and f: "fl_done (ch_flights s ! f) = Some (res, t)" and s': "s' = wake i f res s"
    using step by (auto split: if_splits position.splits option.splits)
  have "position_ok expiry s (ch_callers s ! i)"
    using cache_invD(2) [OF inv, of "ch_callers s ! i"] i by (simp add: caller_ok_def)
  then have "cache_inv expiry own s'"
    unfolding s' wake_def using f i by (intro move_inv [OF inv i(1)]) (auto simp: position_ok_def)
  then show ?thesis by (intro exI [of _ own])
next
  case (HangUp i)
  then have "i < length (ch_callers s)" "s' = move i GaveUp s"
    using step by (auto split: if_splits position.splits)
  then have "cache_inv expiry own s'" by (auto intro: move_inv [OF inv] simp: position_ok_def)
  then show ?thesis by (intro exI [of _ own])
next
  case (ForgetAll sandbox)
  then have s': "s' = Forget sandbox s" using step by simp
  have g: "grows s s'" by (simp add: s' Forget_def)
  have "cache_inv expiry own s'"
    using cache_invD [OF inv] caller_grows [OF g]
    by (intro cache_invI) (auto simp: s' Forget_def flight_ok_def entry_ok_def brought_def split: if_splits)
  then show ?thesis by (intro exI [of _ own])
qed

subsection \<open>Reachable states\<close>

inductive cache_reach :: "('c \<Rightarrow> int) \<Rightarrow> ('p, 'c, 'e) cache \<Rightarrow> bool" for expiry where
  reach_new: "cache_reach expiry NewCache"
| reach_step: "cache_reach expiry s \<Longrightarrow> cache_step expiry ev s = Some s' \<Longrightarrow> cache_reach expiry s'"

lemma reach_inv: "cache_reach expiry s \<Longrightarrow> \<exists>own. cache_inv expiry own s"
proof (induction rule: cache_reach.induct)
  case reach_new
  show ?case by (simp add: cache_inv_def NewCache_def)
next
  case (reach_step s ev s')
  then show ?case using cache_step_inv by blast
qed

lemma run_reach: "cache_run expiry evs s = Some s' \<Longrightarrow> cache_reach expiry s \<Longrightarrow> cache_reach expiry s'"
  by (induction evs arbitrary: s) (auto intro: reach_step split: option.splits)

subsection \<open>Forgetting\<close>

text \<open>The marks of a moment: how many entries, flights and calls there were. Afterwards the map holds
  for the sandbox only entries made since, the calls since that are for it use such entries, and the
  flights of before fill none of them.\<close>

definition fresh_since :: "string \<Rightarrow> nat \<Rightarrow> nat \<Rightarrow> nat \<Rightarrow> ('p, 'c, 'e) cache \<Rightarrow> bool" where
  "fresh_since sb n m j s \<longleftrightarrow> n \<le> length (ch_heap s) \<and> m \<le> length (ch_flights s) \<and> j \<le> length (ch_callers s)
     \<and> (\<forall>k e. ch_entries s k = Some e \<longrightarrow> ck_sandbox k = sb \<longrightarrow> n \<le> e)
     \<and> (\<forall>i. j \<le> i \<longrightarrow> i < length (ch_callers s) \<longrightarrow> ck_sandbox (ca_key (ch_callers s ! i)) = sb \<longrightarrow>
          n \<le> ca_entry (ch_callers s ! i))
     \<and> (\<forall>f < m. fl_entry (ch_flights s ! f) < n)"

lemma update_keeps:
  "k < length xs \<Longrightarrow> h (g (xs ! i)) = h (xs ! i) \<Longrightarrow> h (xs[i := g (xs ! i)] ! k) = h (xs ! k)"
  by (cases "i = k") simp_all

lemma move_keeps:
  "k < length (ch_callers s) \<Longrightarrow>
     ca_key ((ch_callers s)[i := (ch_callers s ! i)\<lparr>ca_at := pos\<rparr>] ! k) = ca_key (ch_callers s ! k)
     \<and> ca_entry ((ch_callers s)[i := (ch_callers s ! i)\<lparr>ca_at := pos\<rparr>] ! k) = ca_entry (ch_callers s ! k)"
  by (simp add: update_keeps [where g = "\<lambda>c. c\<lparr>ca_at := pos\<rparr>"])

lemma finish_keeps:
  "k < length (ch_flights s) \<Longrightarrow>
     fl_entry ((ch_flights s)[f := (ch_flights s ! f)\<lparr>fl_done := d\<rparr>] ! k) = fl_entry (ch_flights s ! k)"
  by (simp add: update_keeps [where g = "\<lambda>x. x\<lparr>fl_done := d\<rparr>"])

lemma fresh_move: "fresh_since sb n m j s \<Longrightarrow> fresh_since sb n m j (move i pos s)"
  by (auto simp: fresh_since_def move_keeps)

lemma fresh_call: "fresh_since sb n m j s \<Longrightarrow> fresh_since sb n m j (call k p margin s)"
  by (auto simp: fresh_since_def call_def Let_def nth_append split: option.splits)

lemma fresh_look: "fresh_since sb n m j s \<Longrightarrow> fresh_since sb n m j (look expiry i now s)"
  by (auto simp: look_def Let_def fresh_move split: option.split intro!: fresh_move)
    (auto simp: fresh_since_def nth_append)

lemma fresh_finish: "fresh_since sb n m j s \<Longrightarrow> fresh_since sb n m j (finish f res now s)"
  by (auto simp: fresh_since_def finish_def Let_def finish_keeps)

lemma fresh_step: "cache_step expiry ev s = Some s' \<Longrightarrow> fresh_since sb n m j s \<Longrightarrow> fresh_since sb n m j s'"
proof (cases ev)
  case (ForgetAll sandbox)
  assume "cache_step expiry ev s = Some s'" "fresh_since sb n m j s"
  then show ?thesis using ForgetAll by (auto simp: fresh_since_def Forget_def split: if_splits)
qed (auto simp: fresh_call fresh_look fresh_finish fresh_move wake_def split: if_splits position.splits option.splits)

lemma fresh_run: "cache_run expiry evs s = Some s' \<Longrightarrow> fresh_since sb n m j s \<Longrightarrow> fresh_since sb n m j s'"
  by (induction evs arbitrary: s) (auto intro: fresh_step split: option.splits)

lemma fresh_forget:
  assumes "cache_inv expiry own s"
  shows "fresh_since sb (length (ch_heap s)) (length (ch_flights s)) (length (ch_callers s)) (Forget sb s)"
  using cache_invD(3) [OF assms] by (auto simp: fresh_since_def Forget_def flight_ok_def)

subsection \<open>What a call got\<close>

definition got :: "('p, 'c, 'e) caller \<Rightarrow> 'c option" where
  "got c = (case ca_at c of Served v _ \<Rightarrow> Some v | Answered _ (Inr v) \<Rightarrow> Some v | _ \<Rightarrow> None)"

lemma got_brought:
  assumes "position_ok expiry s c" "got c = Some v"
  shows "\<exists>t. brought s (ca_entry c) (ca_ptr c) v t"
  using assms by (auto simp: position_ok_def got_def brought_def split: position.splits sum.splits)

text \<open>C7: The credential caches hand out keys of the right identity that are still good. In every
  interleaving of calls, fetches, wake-ups, hang-ups and \<open>Forget\<close>, keys that a call got were brought by
  a fetch for the very pointer it asked with and for its own sandbox; and keys that came out of an
  entry without waiting had, at that time, the margin of the call left, or had come in less than a
  minute before and were not expired.\<close>

theorem keys_of_asker:
  assumes "cache_reach expiry s" "c \<in> set (ch_callers s)"
  shows "(\<forall>v. got c = Some v \<longrightarrow> (\<exists>f < length (ch_flights s). fl_ptr (ch_flights s ! f) = ca_ptr c
        \<and> fl_sandbox (ch_flights s ! f) = ck_sandbox (ca_key c)
        \<and> (\<exists>t. fl_done (ch_flights s ! f) = Some (Inr v, t)
            \<and> (\<forall>now. ca_at c = Served v now \<longrightarrow>
                 ca_margin c \<le> expiry v - now \<or> now - t < refetchFloor \<and> now < expiry v))))"
proof (intro allI impI)
  fix v assume got: "got c = Some v"
  obtain own where inv: "cache_inv expiry own s" using reach_inv [OF assms(1)] by blast
  have c: "own (ca_entry c) = ca_key c" "position_ok expiry s c"
    using cache_invD(2) [OF inv assms(2)] by (simp_all add: caller_ok_def)
  obtain t where t: "brought s (ca_entry c) (ca_ptr c) v t"
    and good: "\<forall>now. ca_at c = Served v now \<longrightarrow> servable expiry v t now (ca_margin c)"
  proof (cases "\<exists>now. ca_at c = Served v now")
    case True
    then show ?thesis using c(2) that by (auto simp: position_ok_def)
  next
    case False
    then show ?thesis using got_brought [OF c(2) got] that by blast
  qed
  from t obtain f where f: "f < length (ch_flights s)" "fl_entry (ch_flights s ! f) = ca_entry c"
    "fl_ptr (ch_flights s ! f) = ca_ptr c" "fl_done (ch_flights s ! f) = Some (Inr v, t)"
    unfolding brought_def by blast
  moreover have "fl_sandbox (ch_flights s ! f) = ck_sandbox (ca_key c)"
    using cache_invD(3) [OF inv f(1)] f(2) c(1) by (simp add: flight_ok_def)
  moreover have "\<forall>now. ca_at c = Served v now \<longrightarrow>
      ca_margin c \<le> expiry v - now \<or> now - t < refetchFloor \<and> now < expiry v"
    using good by (auto simp: servable_def Let_def)
  ultimately show "\<exists>f < length (ch_flights s). fl_ptr (ch_flights s ! f) = ca_ptr c
      \<and> fl_sandbox (ch_flights s ! f) = ck_sandbox (ca_key c)
      \<and> (\<exists>t. fl_done (ch_flights s ! f) = Some (Inr v, t)
          \<and> (\<forall>now. ca_at c = Served v now \<longrightarrow>
               ca_margin c \<le> expiry v - now \<or> now - t < refetchFloor \<and> now < expiry v))"
    by blast
qed

text \<open>One fetch at a time. However many calls arrive at once, no two fetches for one entry are
  running, and a fetch that runs is the one its entry names, so the calls that arrive meanwhile join it.\<close>

theorem single_flight:
  assumes "cache_reach expiry s" "f < length (ch_flights s)" "g < length (ch_flights s)"
    "fl_done (ch_flights s ! f) = None" "fl_done (ch_flights s ! g) = None"
    "fl_entry (ch_flights s ! f) = fl_entry (ch_flights s ! g)"
  shows "f = g \<and> ce_flight (ch_heap s ! fl_entry (ch_flights s ! f)) = Some f"
proof -
  obtain own where inv: "cache_inv expiry own s" using reach_inv [OF assms(1)] by blast
  show ?thesis
    using cache_invD(3) [OF inv assms(2)] cache_invD(3) [OF inv assms(3)] assms(4-6) by (simp add: flight_ok_def)
qed

text \<open>C30: \<open>Forget\<close> forgets. Keys that a call got which arrived after a sandbox was forgotten, and is for
  a sandbox of that name, were brought by a fetch that also began afterwards, whatever fetches of before
  were still running then.\<close>

theorem forgotten_keys_gone:
  assumes "cache_reach expiry s" "cache_run expiry (ForgetAll sb # evs) s = Some s'"
    "length (ch_callers s) \<le> i" "i < length (ch_callers s')"
    "ck_sandbox (ca_key (ch_callers s' ! i)) = sb" "got (ch_callers s' ! i) = Some v"
  shows "\<exists>f. length (ch_flights s) \<le> f \<and> f < length (ch_flights s')
    \<and> (\<exists>t. fl_done (ch_flights s' ! f) = Some (Inr v, t))"
proof -
  let ?c = "ch_callers s' ! i"
  obtain own where inv: "cache_inv expiry own s" using reach_inv [OF assms(1)] by blast
  have "cache_run expiry evs (Forget sb s) = Some s'" using assms(2) by simp
  then have fresh: "fresh_since sb (length (ch_heap s)) (length (ch_flights s)) (length (ch_callers s)) s'"
    using fresh_forget [OF inv] by (rule fresh_run)
  obtain own' where inv': "cache_inv expiry own' s'"
    using reach_inv [OF run_reach [OF assms(2,1)]] by blast
  have "position_ok expiry s' ?c"
    using cache_invD(2) [OF inv', of ?c] assms(4) by (simp add: caller_ok_def)
  then obtain t where "brought s' (ca_entry ?c) (ca_ptr ?c) v t" using got_brought [OF _ assms(6)] by blast
  then obtain f where f: "f < length (ch_flights s')" "fl_entry (ch_flights s' ! f) = ca_entry ?c"
    "fl_done (ch_flights s' ! f) = Some (Inr v, t)"
    unfolding brought_def by blast
  have "length (ch_heap s) \<le> ca_entry ?c" using fresh assms(3-5) by (simp add: fresh_since_def)
  then have "\<not> f < length (ch_flights s)" using fresh f(2) by (auto simp: fresh_since_def)
  with f show ?thesis by (intro exI [of _ f]) auto
qed

subsection \<open>An example\<close>

text \<open>Two calls that share a fetch, a third that the entry serves, and after \<open>Forget\<close> a fourth that fetches
  anew while the times are given in nanoseconds and the keys are their own expiry.\<close>

definition demo_key :: cache_key where
  "demo_key = \<lparr>ck_sandbox = ''a'', ck_route = ''r''\<rparr>"

definition demo_until :: int where "demo_until = 60 * Minute"

definition demo_before :: "(string, int, string) cache_event list" where
  "demo_before = [Call demo_key ''p'' getMargin, Call demo_key ''p'' getMargin, Look 0 0, Look 1 0,
     Finish 0 (Inr demo_until) Second, Wake 0, Wake 1, Call demo_key ''p'' ensureMargin, Look 2 Minute]"

definition demo_after :: "(string, int, string) cache_event list" where
  "demo_after = [Call demo_key ''p'' getMargin, Look 3 Minute, Finish 1 (Inr demo_until) Minute, Wake 3]"

definition demo_state :: "(string, int, string) cache" where
  "demo_state = the (cache_run (\<lambda>c. c) demo_before NewCache)"

definition demo_last :: "(string, int, string) cache" where
  "demo_last = the (cache_run (\<lambda>c. c) (ForgetAll ''a'' # demo_after) demo_state)"

lemma demo_runs:
  "cache_run (\<lambda>c. c) demo_before NewCache = Some demo_state"
  "cache_run (\<lambda>c. c) (ForgetAll ''a'' # demo_after) demo_state = Some demo_last"
proof -
  have "Option.is_none (cache_run (\<lambda>c. c) demo_before NewCache) = False" by code_simp
  then show "cache_run (\<lambda>c. c) demo_before NewCache = Some demo_state"
    by (auto simp: demo_state_def Option.is_none_def)
  have "Option.is_none (cache_run (\<lambda>c. c) (ForgetAll ''a'' # demo_after) demo_state) = False" by code_simp
  then show "cache_run (\<lambda>c. c) (ForgetAll ''a'' # demo_after) demo_state = Some demo_last"
    by (auto simp: demo_last_def Option.is_none_def)
qed

lemma demo_reach: "cache_reach (\<lambda>c. c) demo_state"
  by (rule run_reach [OF demo_runs(1) reach_new])

lemma demo_values:
  "map got (ch_callers demo_state) = [Some demo_until, Some demo_until, Some demo_until]"
  "map got (ch_callers demo_last) = [Some demo_until, Some demo_until, Some demo_until, Some demo_until]"
  "map (\<lambda>c. ck_sandbox (ca_key c)) (ch_callers demo_last) = [''a'', ''a'', ''a'', ''a'']"
  "map fl_entry (ch_flights demo_last) = [0, 1]"
  by code_simp+

lemma demo_sizes: "length (ch_callers demo_state) = 3" "length (ch_callers demo_last) = 4"
  using demo_values(1,2) [THEN arg_cong [where f = length]] by simp_all

definition demo_flying :: "(string, int, string) cache" where
  "demo_flying = the (cache_run (\<lambda>c. c) (take 4 demo_before) NewCache)"

lemma demo_flying: "cache_reach (\<lambda>c. c) demo_flying" "map fl_done (ch_flights demo_flying) = [None]"
proof -
  have "Option.is_none (cache_run (\<lambda>c. c) (take 4 demo_before) NewCache) = False" by code_simp
  then have "cache_run (\<lambda>c. c) (take 4 demo_before) NewCache = Some demo_flying"
    by (auto simp: demo_flying_def Option.is_none_def)
  then show "cache_reach (\<lambda>c. c) demo_flying" by (rule run_reach [OF _ reach_new])
  show "map fl_done (ch_flights demo_flying) = [None]" by code_simp
qed

theorem keys_of_asker_witness:
  "\<exists>f < length (ch_flights demo_state). fl_sandbox (ch_flights demo_state ! f)
     = ck_sandbox (ca_key (ch_callers demo_state ! 2))"
proof -
  have c: "ch_callers demo_state ! 2 \<in> set (ch_callers demo_state)" using demo_sizes by simp
  have "got (ch_callers demo_state ! 2) = map got (ch_callers demo_state) ! 2" using demo_sizes by simp
  then have "got (ch_callers demo_state ! 2) = Some demo_until" by (simp add: demo_values)
  with keys_of_asker [OF demo_reach c] show ?thesis by blast
qed

theorem single_flight_witness: "ce_flight (ch_heap demo_flying ! fl_entry (ch_flights demo_flying ! 0)) = Some 0"
proof -
  have n: "0 < length (ch_flights demo_flying)"
    using demo_flying(2) [THEN arg_cong [where f = length]] by simp
  then have "fl_done (ch_flights demo_flying ! 0) = map fl_done (ch_flights demo_flying) ! 0" by simp
  then have "fl_done (ch_flights demo_flying ! 0) = None" by (simp add: demo_flying(2))
  with single_flight [OF demo_flying(1) n n] show ?thesis by blast
qed

theorem forgotten_keys_gone_witness:
  "\<exists>f. length (ch_flights demo_state) \<le> f \<and> f < length (ch_flights demo_last)
     \<and> (\<exists>t. fl_done (ch_flights demo_last ! f) = Some (Inr demo_until, t))"
proof -
  have "map got (ch_callers demo_last) ! 3 = Some demo_until"
    "map (\<lambda>c. ck_sandbox (ca_key c)) (ch_callers demo_last) ! 3 = ''a''" by (simp_all add: demo_values)
  then have "got (ch_callers demo_last ! 3) = Some demo_until" "ck_sandbox (ca_key (ch_callers demo_last ! 3)) = ''a''"
    by (simp_all add: demo_sizes)
  then show ?thesis by (intro forgotten_keys_gone [OF demo_reach demo_runs(2)]) (simp_all add: demo_sizes)
qed

end
