(* ===== verification/Runtime_Publish.thy ===== *)
theory Runtime_Publish
  imports Net_Addr "HOL-Library.List_Lexorder" "HOL-Library.Char_ord"
begin

text \<open>
  Published ports: \<open>internal/runtime/publish.go\<close> and the record of them in
  \<open>internal/runtime/published.go\<close>. The file of the record is what reading and decoding it gives; a write
  fails or not as the caller is told. A map that is the JSON value \<open>null\<close> is nil, and an assignment to
  it panics.
\<close>

subsection \<open>A publication\<close>

record publication =
  pb_Protocol :: string
  pb_HostAddr :: string
  pb_HostPort :: int
  pb_GuestPort :: int

definition loopback :: string where "loopback = ''127.0.0.1''"

definition Addr :: "publication \<Rightarrow> string" where
  "Addr p = (if pb_HostAddr p = [] then loopback else pb_HostAddr p)"

definition Proto :: "publication \<Rightarrow> string" where
  "Proto p = (if pb_Protocol p = [] then ''tcp'' else pb_Protocol p)"

definition Itoa :: "int \<Rightarrow> string" where
  "Itoa n = (if n < 0 then CHR ''-'' # show_nat (nat (- n)) else show_nat (nat n))"

definition Local :: "publication \<Rightarrow> string" where
  "Local p = Addr p @ '':'' @ Itoa (pb_HostPort p)"

definition Remote :: "string \<Rightarrow> publication \<Rightarrow> string" where
  "Remote guestIP p = guestIP @ '':'' @ Itoa (pb_GuestPort p)"

definition Addressed :: "publication \<Rightarrow> bool" where
  "Addressed p \<longleftrightarrow> pb_HostAddr p \<noteq> []"

definition Matches :: "publication \<Rightarrow> publication \<Rightarrow> bool" where
  "Matches p q \<longleftrightarrow>
     (if Proto p \<noteq> Proto q \<or> pb_HostPort p \<noteq> pb_HostPort q then False
      else \<not> Addressed q \<or> Addr p = Addr q)"

definition Same :: "publication \<Rightarrow> publication \<Rightarrow> bool" where
  "Same p q \<longleftrightarrow> Proto p = Proto q \<and> Addr p = Addr q \<and> pb_HostPort p = pb_HostPort q"

fun IsUnspecified :: "addr \<Rightarrow> bool" where
  "IsUnspecified (V4 w) \<longleftrightarrow> w = 0"
| "IsUnspecified (V6 w z) \<longleftrightarrow> w = 0 \<and> z = []"

definition unspecified :: "string \<Rightarrow> bool" where
  "unspecified a \<longleftrightarrow> (case parse_addr a of None \<Rightarrow> False | Some x \<Rightarrow> IsUnspecified x)"

definition Overlaps :: "publication \<Rightarrow> publication \<Rightarrow> bool" where
  "Overlaps p q \<longleftrightarrow>
     (if Proto p \<noteq> Proto q \<or> pb_HostPort p \<noteq> pb_HostPort q then False
      else Addr p = Addr q \<or> unspecified (Addr p) \<or> unspecified (Addr q))"

definition publication_String :: "publication \<Rightarrow> string" where
  "publication_String p =
     Addr p @ '':'' @ Itoa (pb_HostPort p) @ '':'' @ Itoa (pb_GuestPort p)
     @ (if Proto p \<noteq> ''tcp'' then ''/'' @ Proto p else [])"

definition Line :: "publication \<Rightarrow> string" where
  "Line p = Addr p @ '':'' @ Itoa (pb_HostPort p) @ '' -> '' @ Itoa (pb_GuestPort p)
     @ (if Proto p \<noteq> ''tcp'' then ''/'' @ Proto p else [])
     @ (if Addr p \<noteq> loopback then '' (reachable from the network this host is on)'' else [])"

subsection \<open>Parsing\<close>

text \<open>\<open>strconv.Atoi\<close>: a sign or none, then decimal digits, within 64 bits.\<close>

definition Atoi :: "string \<Rightarrow> int option" where
  "Atoi s =
     (case (if s \<noteq> [] \<and> (hd s = CHR ''-'' \<or> hd s = CHR ''+'') then (hd s = CHR ''-'', tl s) else (False, s)) of
        (neg, ds) \<Rightarrow>
          if ds = [] then None
          else (case parse_digits 0 ds of
              None \<Rightarrow> None
            | Some n \<Rightarrow>
                if neg then (if n \<le> 2 ^ 63 then Some (- int n) else None)
                else (if n < 2 ^ 63 then Some (int n) else None)))"

datatype publish_error =
    EmptyPort | NotAProtocol string string | NotHostAddr string string | NotAMapping string
  | NotAPort string string string | BothWant publication publication string

definition read_protocol :: "string \<Rightarrow> string \<Rightarrow> publish_error + string \<times> string" where
  "read_protocol s spec =
     (case cut_char CHR ''/'' spec of (rest, proto, ok) \<Rightarrow>
        if \<not> ok then Inr (spec, [])
        else if to_lower proto \<noteq> ''tcp'' \<and> to_lower proto \<noteq> ''udp'' then Inl (NotAProtocol s proto)
        else Inr (rest, to_lower proto))"

definition is_addr :: "string \<Rightarrow> bool" where
  "is_addr a \<longleftrightarrow> parse_addr a \<noteq> None"

text \<open>The host address, the host port and the guest port, as written.\<close>

definition read_parts :: "string \<Rightarrow> bool \<Rightarrow> string list \<Rightarrow> publish_error + string \<times> string \<times> string" where
  "read_parts s hostSide parts =
     (case parts of
        [a] \<Rightarrow> Inr ([], a, a)
      | [a, b] \<Rightarrow> if hostSide \<and> is_addr a then Inr (a, b, b) else Inr ([], a, b)
      | [a, b, c] \<Rightarrow> if is_addr a then Inr (a, b, c) else Inl (NotHostAddr s a)
      | _ \<Rightarrow> Inl (NotAMapping s))"

definition read_port :: "string \<Rightarrow> string \<Rightarrow> string \<Rightarrow> publish_error + int" where
  "read_port s what raw =
     (case Atoi raw of
        None \<Rightarrow> Inl (NotAPort s what raw)
      | Some n \<Rightarrow> if n < 1 \<or> 65535 < n then Inl (NotAPort s what raw) else Inr n)"

definition parsePublication :: "string \<Rightarrow> bool \<Rightarrow> publish_error + publication" where
  "parsePublication s hostSide =
     (let spec = trim_space s in
      if spec = [] then Inl EmptyPort
      else bind_err (read_protocol s spec) (\<lambda>(spec, proto).
        bind_err (read_parts s hostSide (split_on CHR '':'' spec)) (\<lambda>(addr, host, guest).
          bind_err (read_port s ''host'' host) (\<lambda>h.
            bind_err (read_port s ''guest'' guest) (\<lambda>g.
              Inr \<lparr>pb_Protocol = proto, pb_HostAddr = addr, pb_HostPort = h, pb_GuestPort = g\<rparr>)))))"

definition ParsePublication :: "string \<Rightarrow> publish_error + publication" where
  "ParsePublication s = parsePublication s False"

definition ParseHostSide :: "string \<Rightarrow> publish_error + publication" where
  "ParseHostSide s = parsePublication s True"

definition listener :: "publication \<Rightarrow> publication \<Rightarrow> string" where
  "listener have_p p = (if unspecified (Addr have_p) then Local have_p else Local p)"

fun parse_publications ::
  "(string \<Rightarrow> publish_error + publication) \<Rightarrow> string list \<Rightarrow> publication list \<Rightarrow> publish_error + publication list" where
  "parse_publications parse [] out = Inr out"
| "parse_publications parse (s # specs) out =
     (case parse s of
        Inl e \<Rightarrow> Inl e
      | Inr p \<Rightarrow> (case find (\<lambda>q. Overlaps q p) out of
            Some q \<Rightarrow> Inl (BothWant q p (listener q p))
          | None \<Rightarrow> parse_publications parse specs (out @ [p])))"

definition ParsePublications :: "string list \<Rightarrow> publish_error + publication list" where
  "ParsePublications specs = parse_publications ParsePublication specs []"

definition ParseHostSides :: "string list \<Rightarrow> publish_error + publication list" where
  "ParseHostSides specs = parse_publications ParseHostSide specs []"

subsection \<open>The record\<close>

type_synonym published = "(string \<times> publication list) list"

text \<open>The file: absent, unreadable, not the JSON of a record, the value \<open>null\<close>, or a record.\<close>

datatype published_file = NoFile | Unreadable | NotRecord | NullRecord | Published published

datatype record_error = CouldNotReadRecord | NotReadableRecord | NilMap | CouldNotRecord

text \<open>The map that is read, \<open>None\<close> when it is nil.\<close>

definition readPublished :: "published_file \<Rightarrow> record_error + published option" where
  "readPublished f =
     (case f of NoFile \<Rightarrow> Inr (Some []) | Unreadable \<Rightarrow> Inl CouldNotReadRecord | NotRecord \<Rightarrow> Inl NotReadableRecord
      | NullRecord \<Rightarrow> Inr None | Published m \<Rightarrow> Inr (Some m))"

definition of_sandbox :: "published \<Rightarrow> string \<Rightarrow> publication list" where
  "of_sandbox m name = (case map_of m name of None \<Rightarrow> [] | Some l \<Rightarrow> l)"

definition set_sandbox :: "string \<Rightarrow> publication list \<Rightarrow> published \<Rightarrow> published" where
  "set_sandbox name l m = (name, l) # filter (\<lambda>e. fst e \<noteq> name) m"

text \<open>Names without a publication are left out of what is written.\<close>

definition writePublished :: "bool \<Rightarrow> published \<Rightarrow> published_file \<Rightarrow> published_file" where
  "writePublished ok m f = (if ok then Published (filter (\<lambda>e. snd e \<noteq> []) m) else f)"

text \<open>By host port, then by protocol: the stable sorts one after the other.\<close>

definition host_port_order :: "publication list \<Rightarrow> publication list" where
  "host_port_order l = sort_key pb_HostPort (sort_key Proto l)"

definition Publications :: "string \<Rightarrow> published_file \<Rightarrow> record_error + publication list" where
  "Publications name f =
     bind_err (readPublished f) (\<lambda>m. Inr (host_port_order (of_sandbox (case m of None \<Rightarrow> [] | Some m \<Rightarrow> m) name)))"

fun record_one :: "publication \<Rightarrow> publication list \<Rightarrow> publication list" where
  "record_one p [] = [p]"
| "record_one p (q # qs) = (if Overlaps q p then p # qs else q # record_one p qs)"

definition recorded :: "publication list \<Rightarrow> publication list \<Rightarrow> publication list" where
  "recorded add l = fold record_one add l"

definition RecordPublications ::
  "string \<Rightarrow> publication list \<Rightarrow> bool \<Rightarrow> published_file \<Rightarrow> (record_error + publication list) \<times> published_file" where
  "RecordPublications name add ok f =
     (case readPublished f of
        Inl e \<Rightarrow> (Inl e, f)
      | Inr None \<Rightarrow> (Inl NilMap, f)
      | Inr (Some m) \<Rightarrow>
          (let l = recorded add (of_sandbox m name) in
           (if ok then Inr l else Inl CouldNotRecord, writePublished ok (set_sandbox name l m) f)))"

definition containsSame :: "publication list \<Rightarrow> publication \<Rightarrow> bool" where
  "containsSame qs p \<longleftrightarrow> list_ex (\<lambda>q. Same q p) qs"

definition ForgetSomePublications ::
  "string \<Rightarrow> publication list \<Rightarrow> bool \<Rightarrow> published_file
     \<Rightarrow> (record_error + publication list \<times> publication list) \<times> published_file" where
  "ForgetSomePublications name dropped ok f =
     (case readPublished f of
        Inl e \<Rightarrow> (Inl e, f)
      | Inr None \<Rightarrow> (Inl NilMap, f)
      | Inr (Some m) \<Rightarrow>
          (let l = of_sandbox m name;
               gone = filter (containsSame dropped) l;
               kept = filter (\<lambda>p. \<not> containsSame dropped p) l in
           (if ok then Inr (kept, gone) else Inl CouldNotRecord, writePublished ok (set_sandbox name kept m) f)))"

definition ForgetPublications :: "string \<Rightarrow> bool \<Rightarrow> published_file \<Rightarrow> published_file" where
  "ForgetPublications name ok f =
     (case readPublished f of
        Inr (Some m) \<Rightarrow> if map_of m name = None then f
          else writePublished ok (filter (\<lambda>e. fst e \<noteq> name) m) f
      | _ \<Rightarrow> f)"

definition PrunePublications :: "string list \<Rightarrow> bool \<Rightarrow> published_file \<Rightarrow> published_file" where
  "PrunePublications keep ok f =
     (case readPublished f of
        Inr (Some m) \<Rightarrow> if list_all (\<lambda>e. fst e \<in> set keep) m then f
          else writePublished ok (filter (\<lambda>e. fst e \<in> set keep) m) f
      | _ \<Rightarrow> f)"

end
