(* ===== verification/Runtime_Publish_Facts.thy ===== *)
theory Runtime_Publish_Facts
  imports Runtime_Publish Go_Space
begin

text \<open>
  What publishing a port promises: the printed form of a publication reads back, the ports of one
  command line never compete for a listener, recording keeps what does not compete, and the host side
  as \<open>brig network ls\<close> prints it names its publication again.
\<close>

subsection \<open>Numbers and addresses as text\<close>

lemma digit_plain: "is_digit c \<Longrightarrow> plain_char c \<and> c \<noteq> CHR '':'' \<and> c \<noteq> CHR ''/'' \<and> c \<noteq> CHR ''-'' \<and> c \<noteq> CHR ''+''"
  by (auto simp: is_digit_def plain_char_def char_le_nat)

lemma Itoa_port: "1 \<le> n \<Longrightarrow> Itoa n = show_nat (nat n)"
  by (simp add: Itoa_def)

lemma port_digits: "c \<in> set (show_nat n) \<Longrightarrow> plain_char c \<and> c \<noteq> CHR '':'' \<and> c \<noteq> CHR ''/''"
  using show_nat_digits digit_plain by blast

lemma Atoi_show: "n < 2 ^ 63 \<Longrightarrow> Atoi (show_nat n) = Some (int n)"
proof -
  assume n: "n < 2 ^ 63"
  have "is_digit (hd (show_nat n))" by (rule show_nat_digits [of _ n]) simp
  then have "hd (show_nat n) \<noteq> CHR ''-''" "hd (show_nat n) \<noteq> CHR ''+''" using digit_plain by blast+
  then show ?thesis using n by (simp add: Atoi_def)
qed

lemma read_port_Itoa:
  assumes "1 \<le> n" "n \<le> 65535"
  shows "read_port s what (Itoa n) = Inr n"
proof -
  have "nat n < 2 ^ 63" using assms by simp
  from Atoi_show [OF this] assms show ?thesis by (simp add: read_port_def Itoa_port)
qed

lemma read_port_range: "read_port s what raw = Inr n \<Longrightarrow> 1 \<le> n \<and> n \<le> 65535"
  by (auto simp: read_port_def split: option.splits if_splits)

lemma v4_addr:
  assumes "parse_addr a = Some x" "CHR '':'' \<notin> set a"
  shows "\<exists>w. a = string4 w \<and> x = V4 w"
proof -
  obtain c where c: "find (\<lambda>c. c = CHR ''.'' \<or> c = CHR '':'' \<or> c = CHR ''%'') a = Some c"
    using assms(1) by (auto simp: parse_addr_def split: option.splits)
  then have "c \<in> set a" using find_SomeD [OF c] by simp
  with assms(2) have "c \<noteq> CHR '':''" by auto
  with assms(1) c have "parse_ipv4 a = Some x" by (auto simp: parse_addr_def split: if_splits)
  then show ?thesis by (auto simp: parse_ipv4_iff)
qed

lemma string4_chars_plain: "c \<in> set (string4 w) \<Longrightarrow> plain_char c \<and> c \<noteq> CHR '':'' \<and> c \<noteq> CHR ''/''"
  using string4_chars [of c w] digit_plain by (auto simp: plain_char_def char_le_nat)

lemma string4_nonempty: "string4 w \<noteq> []"
  using string4_has_dot [of w] by auto

lemma loopback_v4: "\<exists>w. loopback = string4 w"
proof -
  have "parse_ipv4_fields loopback = Some [127, 0, 0, 1]" by code_simp
  then have "parse_ipv4 loopback = Some (V4 (bytes_val [127, 0, 0, 1]))" by (simp add: parse_ipv4_def)
  then show ?thesis by (auto simp: parse_ipv4_iff)
qed

definition port_ok :: "int \<Rightarrow> bool" where
  "port_ok n \<longleftrightarrow> 1 \<le> n \<and> n \<le> 65535"

definition publication_ok :: "publication \<Rightarrow> bool" where
  "publication_ok p \<longleftrightarrow> port_ok (pb_HostPort p) \<and> port_ok (pb_GuestPort p)
     \<and> pb_Protocol p \<in> {[], ''tcp'', ''udp''} \<and> (pb_HostAddr p = [] \<or> (\<exists>w. pb_HostAddr p = string4 w))"

lemma ok_addr: "publication_ok p \<Longrightarrow> \<exists>w. Addr p = string4 w"
  using loopback_v4 by (auto simp: publication_ok_def Addr_def)

lemma ok_proto: "publication_ok p \<Longrightarrow> Proto p = ''tcp'' \<or> Proto p = ''udp''"
  by (auto simp: publication_ok_def Proto_def)

lemma split_colon_two:
  "CHR '':'' \<notin> set a \<Longrightarrow> CHR '':'' \<notin> set b \<Longrightarrow> split_on CHR '':'' (a @ '':'' @ b) = [a, b]"
  by (simp add: split_on_append)

lemma split_colon_three:
  "CHR '':'' \<notin> set a \<Longrightarrow> CHR '':'' \<notin> set b \<Longrightarrow> CHR '':'' \<notin> set c \<Longrightarrow>
     split_on CHR '':'' (a @ '':'' @ b @ '':'' @ c) = [a, b, c]"
  by (simp add: split_on_append)

subsection \<open>Printing and parsing\<close>

lemma port_text: "port_ok n \<Longrightarrow> c \<in> set (Itoa n) \<Longrightarrow> plain_char c \<and> c \<noteq> CHR '':'' \<and> c \<noteq> CHR ''/''"
  using port_digits by (auto simp: port_ok_def Itoa_port)

lemma Itoa_nonempty: "port_ok n \<Longrightarrow> Itoa n \<noteq> []"
  by (simp add: port_ok_def Itoa_port)

lemma trim_plain: "s \<noteq> [] \<Longrightarrow> \<forall>c \<in> set s. plain_char c \<Longrightarrow> trim_space s = s"
  by (intro trim_space_plain) auto

definition normal :: "publication \<Rightarrow> publication" where
  "normal p = p\<lparr>pb_Protocol := (if Proto p = ''tcp'' then [] else Proto p), pb_HostAddr := Addr p\<rparr>"

lemma parse_printed:
  assumes ok: "publication_ok p"
  shows "ParsePublication (publication_String p) = Inr (normal p)"
proof -
  let ?h = "Itoa (pb_HostPort p)" and ?g = "Itoa (pb_GuestPort p)"
  let ?m = "Addr p @ '':'' @ ?h @ '':'' @ ?g"
  let ?s = "publication_String p"
  obtain w where w: "Addr p = string4 w" using ok_addr [OF ok] by blast
  have ports: "port_ok (pb_HostPort p)" "port_ok (pb_GuestPort p)" using ok by (simp_all add: publication_ok_def)
  have chars: "\<forall>c \<in> set (Addr p) \<union> set ?h \<union> set ?g. plain_char c \<and> c \<noteq> CHR '':'' \<and> c \<noteq> CHR ''/''"
    using string4_chars_plain port_text [OF ports(1)] port_text [OF ports(2)] by (auto simp: w)
  have protos: "Proto p = ''tcp'' \<or> Proto p = ''udp''" by (rule ok_proto [OF ok])
  have colon: "plain_char CHR '':''" "\<forall>c \<in> set ''/udp''. plain_char c" by code_simp+
  have form: "?s = ?m \<or> ?s = ?m @ ''/udp''" using protos by (auto simp: publication_String_def)
  have nonempty: "?s \<noteq> []" using string4_nonempty [of w] by (simp add: publication_String_def w)
  have "\<forall>c \<in> set ?m. plain_char c" using chars colon(1) by auto
  then have "\<forall>c \<in> set (?m @ ''/udp''). plain_char c" using colon(2) unfolding set_append by blast
  then have "\<forall>c \<in> set ?s. plain_char c" using form unfolding set_append by fastforce
  then have trim: "trim_space ?s = ?s" using nonempty by (intro trim_plain)
  have slash: "CHR ''/'' \<notin> set ?m" using chars by auto
  have proto: "read_protocol ?s ?s = Inr (?m, if Proto p = ''tcp'' then [] else Proto p)"
  proof (cases "Proto p = ''tcp''")
    case True
    then have "?s = ?m" by (simp add: publication_String_def)
    then show ?thesis using slash True by (simp add: read_protocol_def)
  next
    case False
    then have udp: "Proto p = ''udp''" using protos by blast
    then have s: "?s = ?m @ CHR ''/'' # ''udp''" by (simp add: publication_String_def)
    have "to_lower ''udp'' = ''udp''" by code_simp
    then show ?thesis unfolding s using cut_char_found [OF slash] udp by (simp add: read_protocol_def)
  qed
  have "split_on CHR '':'' ?m = [Addr p, ?h, ?g]"
    using chars by (intro split_colon_three) auto
  moreover have "is_addr (Addr p)" by (simp add: is_addr_def w)
  ultimately have parts: "read_parts ?s False (split_on CHR '':'' ?m) = Inr (Addr p, ?h, ?g)"
    by (simp only: read_parts_def list.case if_True)
  have "ParsePublication ?s =
      Inr \<lparr>pb_Protocol = (if Proto p = ''tcp'' then [] else Proto p), pb_HostAddr = Addr p,
        pb_HostPort = pb_HostPort p, pb_GuestPort = pb_GuestPort p\<rparr>"
    using nonempty ports
    by (simp only: ParsePublication_def parsePublication_def trim proto parts read_port_Itoa port_ok_def
        Let_def bind_err_simps if_False prod.case)
  also have "\<dots> = Inr (normal p)" by (simp add: normal_def)
  finally show ?thesis .
qed

lemma parsed_ok:
  assumes "ParsePublication s = Inr p"
  shows "publication_ok p"
proof -
  obtain spec proto addr host guest where
    spec: "read_protocol s (trim_space s) = Inr (spec, proto)"
    and parts: "read_parts s False (split_on CHR '':'' spec) = Inr (addr, host, guest)"
    and host: "read_port s ''host'' host = Inr (pb_HostPort p)"
    and guest: "read_port s ''guest'' guest = Inr (pb_GuestPort p)"
    and p: "pb_Protocol p = proto" "pb_HostAddr p = addr"
    using assms by (auto simp: ParsePublication_def parsePublication_def Let_def bind_err_Inr split: if_splits)
  have "proto \<in> {[], ''tcp'', ''udp''}"
    using spec by (auto simp: read_protocol_def split: prod.splits if_splits)
  moreover have "addr = [] \<or> (\<exists>w. addr = string4 w)"
  proof (cases "addr = []")
    case False
    then have a: "addr \<in> set (split_on CHR '':'' spec)" "parse_addr addr \<noteq> None"
      using parts by (auto simp: read_parts_def is_addr_def split: list.splits if_splits)
    then have "CHR '':'' \<notin> set addr" using split_on_parts by blast
    with a v4_addr show ?thesis by blast
  qed simp
  ultimately show ?thesis
    using p read_port_range [OF host] read_port_range [OF guest] by (simp add: publication_ok_def port_ok_def)
qed

lemma same_normal: "Same p (normal p)"
  by (auto simp: Same_def normal_def Addr_def Proto_def loopback_def)

subsection \<open>The ports of one command line\<close>

lemma Overlaps_sym: "Overlaps p q \<longleftrightarrow> Overlaps q p"
  by (auto simp: Overlaps_def)

lemma parse_publications_iff:
  "parse_publications parse specs out = Inr ps \<longleftrightarrow>
     (\<exists>ps'. ps = out @ ps' \<and> list_all2 (\<lambda>s p. parse s = Inr p) specs ps'
        \<and> sorted_wrt (\<lambda>q p. \<not> Overlaps q p) ps' \<and> (\<forall>q \<in> set out. \<forall>p \<in> set ps'. \<not> Overlaps q p))"
proof (induction specs arbitrary: out)
  case Nil
  then show ?case by auto
next
  case (Cons s specs)
  show ?case
  proof (cases "parse s")
    case (Inl e)
    then show ?thesis by (auto simp: list_all2_Cons1)
  next
    case (Inr p)
    show ?thesis
    proof (cases "find (\<lambda>q. Overlaps q p) out")
      case (Some q)
      then have "q \<in> set out" "Overlaps q p" using find_SomeD [OF Some] by simp_all
      then show ?thesis using Inr Some by (auto simp: list_all2_Cons1)
    next
      case None
      then have free: "\<forall>q \<in> set out. \<not> Overlaps q p" by (simp add: find_None_iff)
      have "parse_publications parse (s # specs) out = Inr ps \<longleftrightarrow>
          parse_publications parse specs (out @ [p]) = Inr ps" using Inr None by simp
      also have "\<dots> \<longleftrightarrow> (\<exists>ps'. ps = out @ p # ps' \<and> list_all2 (\<lambda>s p. parse s = Inr p) specs ps'
          \<and> sorted_wrt (\<lambda>q p. \<not> Overlaps q p) ps' \<and> (\<forall>q \<in> set out \<union> {p}. \<forall>p \<in> set ps'. \<not> Overlaps q p))"
        by (simp add: Cons.IH)
      also have "\<dots> \<longleftrightarrow> (\<exists>ps'. ps = out @ ps' \<and> list_all2 (\<lambda>s p. parse s = Inr p) (s # specs) ps'
          \<and> sorted_wrt (\<lambda>q p. \<not> Overlaps q p) ps' \<and> (\<forall>q \<in> set out. \<forall>p \<in> set ps'. \<not> Overlaps q p))"
        using Inr free by (fastforce simp: list_all2_Cons1)
      finally show ?thesis .
    qed
  qed
qed

subsection \<open>Recording\<close>

lemma record_one_set: "set (record_one p l) \<subseteq> set l \<union> {p}" "p \<in> set (record_one p l)"
  by (induction l) auto

lemma record_one_keeps: "q \<in> set l \<Longrightarrow> \<not> Overlaps q p \<Longrightarrow> q \<in> set (record_one p l)"
  by (induction l) auto

lemma recorded_set: "set (recorded add l) \<subseteq> set l \<union> set add"
proof (induction add arbitrary: l)
  case (Cons p add)
  from Cons [of "record_one p l"] record_one_set(1) [of p l] show ?case by (auto simp: recorded_def)
qed (simp add: recorded_def)

lemma recorded_keeps:
  "q \<in> set l \<Longrightarrow> \<forall>p \<in> set add. \<not> Overlaps q p \<Longrightarrow> q \<in> set (recorded add l)"
proof (induction add arbitrary: l)
  case (Cons p add)
  from Cons.IH [of "record_one p l"] record_one_keeps [of q l p] Cons.prems show ?case by (simp add: recorded_def)
qed (simp add: recorded_def)

lemma recorded_adds: "sorted_wrt (\<lambda>q p. \<not> Overlaps q p) add \<Longrightarrow> set add \<subseteq> set (recorded add l)"
proof (induction add arbitrary: l)
  case (Cons p add)
  have "p \<in> set (recorded add (record_one p l))"
    using Cons.prems record_one_set(2) [of p l] by (intro recorded_keeps) auto
  with Cons.IH [of "record_one p l"] Cons.prems show ?case by (simp add: recorded_def)
qed simp

text \<open>Without an unspecified address, a record in which no two compete stays one.\<close>

definition specified :: "publication \<Rightarrow> bool" where
  "specified p \<longleftrightarrow> \<not> unspecified (Addr p)"

lemma specified_overlap: "specified p \<Longrightarrow> specified q \<Longrightarrow> Overlaps p q \<longleftrightarrow> Same p q"
  by (auto simp: Overlaps_def Same_def specified_def)

lemma Same_trans: "Same p q \<Longrightarrow> Same q r \<Longrightarrow> Same p r"
  by (simp add: Same_def)

lemma Same_sym: "Same p q \<longleftrightarrow> Same q p"
  by (auto simp: Same_def)

lemma record_one_listeners:
  "sorted_wrt (\<lambda>q p. \<not> Same q p) l \<Longrightarrow> \<forall>q \<in> set l. specified q \<Longrightarrow> specified p \<Longrightarrow>
     sorted_wrt (\<lambda>q p. \<not> Same q p) (record_one p l)"
proof (induction l)
  case (Cons q l)
  show ?case
  proof (cases "Same q p")
    case True
    then have "\<forall>r \<in> set l. \<not> Same p r" using Cons.prems(1) Same_trans [of q p] by auto
    then show ?thesis using True Cons.prems by (simp add: specified_overlap)
  next
    case False
    then have "\<forall>r \<in> set (record_one p l). \<not> Same q r"
      using Cons.prems(1) record_one_set(1) [of p l] by auto
    then show ?thesis using False Cons by (simp add: specified_overlap)
  qed
qed simp

lemma recorded_listeners:
  "sorted_wrt (\<lambda>q p. \<not> Same q p) l \<Longrightarrow> \<forall>q \<in> set l \<union> set add. specified q \<Longrightarrow>
     sorted_wrt (\<lambda>q p. \<not> Same q p) (recorded add l)"
proof (induction add arbitrary: l)
  case (Cons p add)
  have "\<forall>q \<in> set (record_one p l). specified q" using Cons.prems(2) record_one_set(1) [of p l] by auto
  then show ?case
    using Cons.IH [of "record_one p l"] record_one_listeners [of l p] Cons.prems by (auto simp: recorded_def)
qed (simp add: recorded_def)

text \<open>With one they need not: a publication on \<open>0.0.0.0\<close> takes the place of the first that it competes
  with, and the others stay.\<close>

definition on_port :: "string \<Rightarrow> publication" where
  "on_port a = \<lparr>pb_Protocol = [], pb_HostAddr = a, pb_HostPort = 80, pb_GuestPort = 80\<rparr>"

lemma unspecified_zero: "unspecified ''0.0.0.0''"
proof -
  have "parse_ipv4_fields ''0.0.0.0'' = Some [0, 0, 0, 0]" by code_simp
  then have "parse_ipv4 ''0.0.0.0'' = Some (V4 0)" by (simp add: parse_ipv4_def bytes_val_def)
  then show ?thesis by (simp add: unspecified_def parse_addr_def)
qed

lemma record_leaves_overlap:
  "recorded [on_port ''0.0.0.0''] [on_port ''127.0.0.1'', on_port ''10.0.0.5'']
     = [on_port ''0.0.0.0'', on_port ''10.0.0.5''] \<and> Overlaps (on_port ''0.0.0.0'') (on_port ''10.0.0.5'')"
  using unspecified_zero by (simp add: recorded_def Overlaps_def on_port_def Addr_def Proto_def)

lemma map_of_filter_absent: "name \<notin> fst ` set m \<Longrightarrow> map_of (filter P m) name = None"
  by (auto simp: map_of_eq_None_iff)

lemma of_sandbox_written:
  "distinct (map fst m) \<Longrightarrow> of_sandbox (filter (\<lambda>e. snd e \<noteq> []) m) name = of_sandbox m name"
  by (induction m) (auto simp: of_sandbox_def map_of_filter_absent map_of_eq_None_iff)

lemma of_sandbox_set:
  "of_sandbox (set_sandbox name l m) n = (if n = name then l else of_sandbox m n)"
proof -
  have "map_of (filter (\<lambda>e. fst e \<noteq> name) m) n = map_of m n" if "n \<noteq> name"
    using that by (induction m) auto
  then show ?thesis by (simp add: of_sandbox_def set_sandbox_def)
qed

lemma set_sandbox_distinct: "distinct (map fst m) \<Longrightarrow> distinct (map fst (set_sandbox name l m))"
  by (auto simp: set_sandbox_def distinct_map_filter)

subsection \<open>Properties\<close>

text \<open>C32: A publication prints as text that reads back as itself. What \<open>ParsePublication\<close> accepts has
  both ports in 1 to 65535, the protocol tcp or udp, and loopback or an IPv4 address; and its printed
  form is accepted again and gives the same listener and guest port, with the defaults written out.\<close>

theorem publication_roundtrip:
  assumes "ParsePublication s = Inr p"
  shows "publication_ok p \<and> ParsePublication (publication_String p) = Inr (normal p)
    \<and> Same p (normal p) \<and> pb_GuestPort (normal p) = pb_GuestPort p
    \<and> publication_String (normal p) = publication_String p"
proof -
  have ok: "publication_ok p" by (rule parsed_ok [OF assms])
  have "publication_String (normal p) = publication_String p"
    by (auto simp: publication_String_def normal_def Addr_def Proto_def loopback_def)
  with parse_printed [OF ok] same_normal [of p] ok show ?thesis by (simp add: normal_def)
qed

theorem publication_roundtrip_witness:
  "ParsePublication (publication_String \<lparr>pb_Protocol = ''udp'', pb_HostAddr = [], pb_HostPort = 5353, pb_GuestPort = 53\<rparr>)
     = Inr (normal \<lparr>pb_Protocol = ''udp'', pb_HostAddr = [], pb_HostPort = 5353, pb_GuestPort = 53\<rparr>)"
proof -
  let ?p = "\<lparr>pb_Protocol = ''udp'', pb_HostAddr = [], pb_HostPort = 5353, pb_GuestPort = 53\<rparr>"
  have "trim_space ''5353:53/udp'' = ''5353:53/udp''" by (intro trim_plain) (simp_all add: plain_char_def char_le_nat)
  moreover have "read_protocol ''5353:53/udp'' ''5353:53/udp'' = Inr (''5353:53'', ''udp'')"
    "read_parts ''5353:53/udp'' False (split_on CHR '':'' ''5353:53'') = Inr ([], ''5353'', ''53'')"
    by code_simp+
  moreover have "read_port ''5353:53/udp'' ''host'' ''5353'' = Inr 5353" "read_port ''5353:53/udp'' ''guest'' ''53'' = Inr 53"
    by (simp_all add: read_port_def Atoi_def is_digit_def digit_val_def)
  ultimately have "ParsePublication ''5353:53/udp'' = Inr ?p"
    by (simp only: ParsePublication_def parsePublication_def Let_def list.distinct if_False bind_err_simps prod.case)
  from publication_roundtrip [OF this] show ?thesis by blast
qed

text \<open>The ports of one command line never compete. \<open>ParsePublications\<close> accepts a line exactly when
  it reads every port of it and no two of them want one host listener, an unspecified address
  included, and then it gives them in the order they were written.\<close>

theorem publications_never_compete:
  "ParsePublications specs = Inr ps \<longleftrightarrow>
     list_all2 (\<lambda>s p. ParsePublication s = Inr p) specs ps \<and> sorted_wrt (\<lambda>q p. \<not> Overlaps q p) ps"
  by (simp add: ParsePublications_def parse_publications_iff)



text \<open>The host side of a published port, as \<open>brig network ls\<close> prints it, names that publication to
  \<open>brig network unpublish\<close>: the text reads as a host side, and it matches.\<close>

theorem printed_side_matches:
  assumes "ParsePublication s = Inr p" "Proto p = ''tcp''"
  shows "\<exists>q. ParseHostSide (Local p) = Inr q \<and> Matches p q \<and> Same p q"
proof -
  let ?h = "Itoa (pb_HostPort p)" and ?s = "Local p"
  have ok: "publication_ok p" by (rule parsed_ok [OF assms(1)])
  then have port: "port_ok (pb_HostPort p)" by (simp add: publication_ok_def)
  obtain w where w: "Addr p = string4 w" using ok_addr [OF ok] by blast
  have chars: "\<forall>c \<in> set (Addr p) \<union> set ?h. plain_char c \<and> c \<noteq> CHR '':'' \<and> c \<noteq> CHR ''/''"
    using string4_chars_plain port_text [OF port] by (auto simp: w)
  have "plain_char CHR '':''" by code_simp
  then have "\<forall>c \<in> set ?s. plain_char c" using chars by (auto simp: Local_def)
  moreover have nonempty: "?s \<noteq> []" by (simp add: Local_def)
  ultimately have trim: "trim_space ?s = ?s" by (intro trim_plain)
  have "CHR ''/'' \<notin> set ?s" using chars by (auto simp: Local_def)
  then have proto: "read_protocol ?s ?s = Inr (?s, [])" by (simp add: read_protocol_def)
  have "split_on CHR '':'' ?s = [Addr p, ?h]" unfolding Local_def using chars by (intro split_colon_two) auto
  moreover have "is_addr (Addr p)" by (simp add: is_addr_def w)
  ultimately have parts: "read_parts ?s True (split_on CHR '':'' ?s) = Inr (Addr p, ?h, ?h)"
    by (simp add: read_parts_def)
  let ?q = "\<lparr>pb_Protocol = [], pb_HostAddr = Addr p, pb_HostPort = pb_HostPort p, pb_GuestPort = pb_HostPort p\<rparr>"
  have "ParseHostSide ?s = Inr ?q"
    using nonempty port
    by (simp only: ParseHostSide_def parsePublication_def trim proto parts read_port_Itoa port_ok_def
        Let_def bind_err_simps if_False prod.case)
  moreover have "Addr ?q = Addr p" by (simp add: Addr_def loopback_def)
  ultimately show ?thesis using assms(2) by (auto simp: Matches_def Same_def Proto_def)
qed

theorem printed_side_matches_witness:
  "\<exists>q. ParseHostSide (Local \<lparr>pb_Protocol = [], pb_HostAddr = [], pb_HostPort = 80, pb_GuestPort = 80\<rparr>) = Inr q"
proof -
  let ?p = "\<lparr>pb_Protocol = [], pb_HostAddr = [], pb_HostPort = 80, pb_GuestPort = 80\<rparr>"
  have "trim_space ''80'' = ''80''" by (intro trim_plain) (simp_all add: plain_char_def char_le_nat)
  moreover have "read_protocol ''80'' ''80'' = Inr (''80'', [])"
    "read_parts ''80'' False (split_on CHR '':'' ''80'') = Inr ([], ''80'', ''80'')"
    by code_simp+
  moreover have "read_port ''80'' ''host'' ''80'' = Inr 80" "read_port ''80'' ''guest'' ''80'' = Inr 80"
    by (simp_all add: read_port_def Atoi_def is_digit_def digit_val_def)
  ultimately have "ParsePublication ''80'' = Inr ?p"
    by (simp only: ParsePublication_def parsePublication_def Let_def list.distinct if_False bind_err_simps prod.case)
  from printed_side_matches [OF this] show ?thesis by (auto simp: Proto_def)
qed

end
