(* ===== verification/Runtime_Alloc.thy ===== *)
theory Runtime_Alloc
  imports Main "HOL-Library.AList" "HOL-Library.List_Lexorder" "HOL-Library.Char_ord"
begin

text \<open>
  The allocator of sandbox addresses: \<open>internal/runtime/netalloc.go\<close>. Its file is what reading and
  decoding it gives; taking the lock and writing the file fail or not as the caller is told. An
  operation runs under the lock of the file, so one is a step of the machine, whichever process does
  it. A map that is the JSON value \<open>null\<close> is nil: it reads as empty, and an assignment to it panics.
\<close>

subsection \<open>The operations\<close>

record net_alloc =
  na_first :: int
  na_last :: int

type_synonym assigned = "(string \<times> int) list"

datatype alloc_file = NoAssignment | NullAssignment | Assigned assigned

datatype alloc_error = NoLock | SpaceFull nat "string list" | NotRecorded | NilAssignment

text \<open>A file that is missing, unreadable or not the JSON of a map is \<open>NoAssignment\<close>; the nil map is \<open>None\<close>.\<close>

definition read_assigned :: "alloc_file \<Rightarrow> assigned option" where
  "read_assigned f = (case f of NoAssignment \<Rightarrow> Some [] | NullAssignment \<Rightarrow> None | Assigned m \<Rightarrow> Some m)"

definition entries :: "alloc_file \<Rightarrow> assigned" where
  "entries f = (case read_assigned f of None \<Rightarrow> [] | Some m \<Rightarrow> m)"

definition in_bounds :: "net_alloc \<Rightarrow> int \<Rightarrow> bool" where
  "in_bounds a n \<longleftrightarrow> na_first a \<le> n \<and> n \<le> na_last a"

definition lowestFree :: "net_alloc \<Rightarrow> assigned \<Rightarrow> alloc_error + int" where
  "lowestFree a m =
     (case find (\<lambda>n. n \<notin> snd ` set m) [na_first a..na_last a] of
        Some n \<Rightarrow> Inr n
      | None \<Rightarrow> Inl (SpaceFull (length m) (sort (map fst m))))"

definition write_assigned :: "bool \<Rightarrow> assigned \<Rightarrow> alloc_file \<Rightarrow> alloc_file" where
  "write_assigned ok m f = (if ok then Assigned m else f)"

definition slot :: "net_alloc \<Rightarrow> string \<Rightarrow> bool \<Rightarrow> bool \<Rightarrow> alloc_file \<Rightarrow> (alloc_error + int) \<times> alloc_file" where
  "slot a name locked ok f =
     (if \<not> locked then (Inl NoLock, f)
      else
        (let m = entries f;
             fresh = (case lowestFree a m of
                 Inl e \<Rightarrow> (Inl e, f)
               | Inr n \<Rightarrow>
                   if read_assigned f = None then (Inl NilAssignment, f)
                   else (if ok then Inr n else Inl NotRecorded, write_assigned ok (AList.update name n m) f)) in
         case map_of m name of
           Some n \<Rightarrow> if in_bounds a n then (Inr n, f) else fresh
         | None \<Rightarrow> fresh))"

definition lookup :: "net_alloc \<Rightarrow> string \<Rightarrow> alloc_file \<Rightarrow> int option" where
  "lookup a name f =
     (case map_of (entries f) name of Some n \<Rightarrow> if in_bounds a n then Some n else None | None \<Rightarrow> None)"

definition release :: "string \<Rightarrow> bool \<Rightarrow> bool \<Rightarrow> alloc_file \<Rightarrow> alloc_file" where
  "release name locked ok f =
     (if \<not> locked \<or> map_of (entries f) name = None then f
      else write_assigned ok (AList.delete name (entries f)) f)"

subsection \<open>Runs\<close>

datatype alloc_event = Slot string bool bool | Release string bool bool

fun alloc_step :: "net_alloc \<Rightarrow> alloc_event \<Rightarrow> alloc_file \<Rightarrow> alloc_file" where
  "alloc_step a (Slot name locked ok) f = snd (slot a name locked ok f)"
| "alloc_step a (Release name locked ok) f = release name locked ok f"

definition alloc_run :: "net_alloc \<Rightarrow> alloc_event list \<Rightarrow> alloc_file \<Rightarrow> alloc_file" where
  "alloc_run a evs f = fold (alloc_step a) evs f"

subsection \<open>The slots are told apart\<close>

text \<open>No two sandboxes share a slot, and every slot is within the bounds.\<close>

definition alloc_inv :: "net_alloc \<Rightarrow> alloc_file \<Rightarrow> bool" where
  "alloc_inv a f \<longleftrightarrow> distinct (map fst (entries f)) \<and> distinct (map snd (entries f))
     \<and> (\<forall>n \<in> snd ` set (entries f). in_bounds a n)"

lemma entries_simps [simp]: "entries (Assigned m) = m" "entries NoAssignment = []" "entries NullAssignment = []"
  by (simp_all add: entries_def read_assigned_def)

lemma lowestFree_Inr: "lowestFree a m = Inr n \<Longrightarrow> in_bounds a n \<and> n \<notin> snd ` set m"
proof -
  assume "lowestFree a m = Inr n"
  then have "find (\<lambda>n. n \<notin> snd ` set m) [na_first a..na_last a] = Some n"
    by (simp add: lowestFree_def split: option.splits)
  then show ?thesis by (auto simp: find_Some_iff in_bounds_def dest: nth_mem)
qed

lemma lowestFree_Inl: "lowestFree a m = Inl e \<Longrightarrow> in_bounds a n \<Longrightarrow> n \<in> snd ` set m"
  by (auto simp: lowestFree_def find_None_iff in_bounds_def split: option.splits)

lemma update_snd:
  "distinct (map snd m) \<Longrightarrow> n \<notin> snd ` set m \<Longrightarrow>
     distinct (map snd (AList.update k n m)) \<and> snd ` set (AList.update k n m) \<subseteq> insert n (snd ` set m)"
proof (induction m)
  case (Cons e m)
  then show ?case by (cases e) auto
qed simp

lemma delete_snd: "distinct (map snd m) \<Longrightarrow> distinct (map snd (AList.delete k m))"
  "snd ` set (AList.delete k m) \<subseteq> snd ` set m"
  by (auto simp: AList.delete_eq distinct_map_filter)

lemma slot_cases:
  assumes "slot a name locked ok f = (res, f')"
  shows "f' = f \<or> (\<exists>n. f' = Assigned (AList.update name n (entries f)) \<and> res = Inr n
    \<and> in_bounds a n \<and> n \<notin> snd ` set (entries f) \<and> lookup a name f = None)"
proof (cases "lowestFree a (entries f)")
  case (Inl e)
  with assms show ?thesis by (auto simp: slot_def Let_def split: if_splits option.splits)
next
  case (Inr n)
  with assms lowestFree_Inr [OF Inr] show ?thesis
    by (auto simp: slot_def write_assigned_def Let_def lookup_def split: if_splits option.splits)
qed

lemma update_inv:
  assumes "alloc_inv a f" "in_bounds a n" "n \<notin> snd ` set (entries f)"
  shows "alloc_inv a (Assigned (AList.update name n (entries f)))"
proof -
  have "distinct (map snd (AList.update name n (entries f)))"
    "snd ` set (AList.update name n (entries f)) \<subseteq> insert n (snd ` set (entries f))"
    using update_snd [of "entries f" n name] assms(1,3) by (simp_all add: alloc_inv_def)
  then show ?thesis using assms(1,2) by (fastforce simp: alloc_inv_def distinct_update)
qed

lemma alloc_step_inv: "alloc_inv a f \<Longrightarrow> alloc_inv a (alloc_step a ev f)"
proof (cases ev)
  case (Slot name locked ok)
  assume inv: "alloc_inv a f"
  obtain res f' where s: "slot a name locked ok f = (res, f')" by fastforce
  from slot_cases [OF s] update_inv [OF inv] inv have "alloc_inv a f'" by blast
  then show ?thesis using Slot s by simp
next
  case (Release name locked ok)
  assume inv: "alloc_inv a f"
  then have "alloc_inv a (Assigned (AList.delete name (entries f)))"
    by (auto simp: alloc_inv_def AList.delete_eq distinct_map_filter)
  then show ?thesis using Release inv by (simp add: release_def write_assigned_def)
qed

lemma alloc_run_inv: "alloc_inv a f \<Longrightarrow> alloc_inv a (alloc_run a evs f)"
  by (induction evs arbitrary: f) (simp_all add: alloc_run_def alloc_step_inv)

lemma no_assignment_inv: "alloc_inv a NoAssignment"
  by (simp add: alloc_inv_def)

lemma lookup_entry:
  "alloc_inv a f \<Longrightarrow> lookup a name f = Some n \<longleftrightarrow> (name, n) \<in> set (entries f)"
proof -
  assume inv: "alloc_inv a f"
  have "in_bounds a m" if "map_of (entries f) name = Some m" for m
    using inv map_of_SomeD [OF that] by (force simp: alloc_inv_def)
  then have "lookup a name f = Some n \<longleftrightarrow> map_of (entries f) name = Some n"
    by (auto simp: lookup_def split: option.split)
  also have "\<dots> \<longleftrightarrow> (name, n) \<in> set (entries f)"
    using inv by (simp add: alloc_inv_def map_of_eq_Some_iff)
  finally show ?thesis .
qed

lemma lookup_unique:
  "alloc_inv a f \<Longrightarrow> lookup a x f = Some n \<Longrightarrow> lookup a y f = Some n \<Longrightarrow> x = y"
  by (fastforce simp: lookup_entry alloc_inv_def distinct_map inj_on_def)

lemma lookup_taken: "alloc_inv a f \<Longrightarrow> n \<in> snd ` set (entries f) \<Longrightarrow> \<exists>x. lookup a x f = Some n"
  by (force simp: lookup_entry)

lemma slot_Inr:
  assumes "alloc_inv a f" "slot a name locked ok f = (Inr n, f')"
  shows "lookup a name f' = Some n \<and> (lookup a name f = None \<or> f' = f)"
proof (cases "lookup a name f")
  case (Some m)
  then obtain m' where "map_of (entries f) name = Some m'" "in_bounds a m'" "m' = m"
    by (auto simp: lookup_def split: option.splits if_splits)
  then show ?thesis using assms(2) Some by (auto simp: slot_def Let_def split: if_splits)
next
  case None
  have "f' = Assigned (AList.update name n (entries f)) \<and> in_bounds a n"
    using None assms(2) by (auto simp: slot_def Let_def lookup_def write_assigned_def
      split: if_splits option.splits sum.splits dest: lowestFree_Inr)
  then show ?thesis using None by (simp add: lookup_def update_conv')
qed

lemma slot_full:
  assumes "slot a name locked ok f = (Inl (SpaceFull k ns), f')" "in_bounds a n"
  shows "f' = f \<and> n \<in> snd ` set (entries f)"
proof (cases "lowestFree a (entries f)")
  case (Inl e)
  with assms(1) lowestFree_Inl [OF Inl assms(2)] show ?thesis
    by (auto simp: slot_def Let_def split: if_splits option.splits)
next
  case (Inr m)
  with assms(1) show ?thesis by (auto simp: slot_def Let_def split: if_splits option.splits)
qed

text \<open>The nil map: the assignment to it panics, whatever slot is free.\<close>

lemma nil_map_panics:
  "na_first a \<le> na_last a \<Longrightarrow> slot a name True ok NullAssignment = (Inl NilAssignment, NullAssignment)"
  by (simp add: slot_def lowestFree_def read_assigned_def upto.simps)

text \<open>C18: No two sandboxes ever share an address. After any sequence of boots and removals, by any
  processes, with locks and writes that fail: a slot that is granted is within the bounds, is recorded
  for its sandbox, is the one it had when it had one, and is no other sandbox's, and what the others
  have stays; and the space is reported full only when every slot of it is some sandbox's.\<close>

theorem slots_never_shared:
  "let f = alloc_run a evs NoAssignment in
     (\<forall>n f'. slot a name locked ok f = (Inr n, f') \<longrightarrow>
        in_bounds a n \<and> lookup a name f' = Some n \<and> (\<forall>m. lookup a name f = Some m \<longrightarrow> n = m)
        \<and> (\<forall>x. x \<noteq> name \<longrightarrow> lookup a x f' = lookup a x f \<and> lookup a x f' \<noteq> Some n))
     \<and> (\<forall>k ns f'. slot a name locked ok f = (Inl (SpaceFull k ns), f') \<longrightarrow>
        f' = f \<and> (\<forall>n. in_bounds a n \<longrightarrow> (\<exists>x. lookup a x f = Some n)))"
proof -
  define f where "f = alloc_run a evs NoAssignment"
  have inv: "alloc_inv a f" unfolding f_def by (rule alloc_run_inv [OF no_assignment_inv])
  have granted: "in_bounds a n \<and> lookup a name f' = Some n \<and> (\<forall>m. lookup a name f = Some m \<longrightarrow> n = m)
      \<and> (\<forall>x. x \<noteq> name \<longrightarrow> lookup a x f' = lookup a x f \<and> lookup a x f' \<noteq> Some n)"
    if s: "slot a name locked ok f = (Inr n, f')" for n f'
  proof -
    have inv': "alloc_inv a f'" using alloc_step_inv [OF inv, of "Slot name locked ok"] s by simp
    have mine: "lookup a name f' = Some n" "lookup a name f = None \<or> f' = f" using slot_Inr [OF inv s] by auto
    have "lookup a x f' = lookup a x f" if "x \<noteq> name" for x
      using slot_cases [OF s] that by (auto simp: lookup_def update_conv')
    moreover have "lookup a x f' \<noteq> Some n" if "x \<noteq> name" for x
      using lookup_unique [OF inv' mine(1)] that by blast
    moreover have "in_bounds a n" using mine(1) by (auto simp: lookup_def split: option.splits if_splits)
    ultimately show ?thesis using mine by auto
  qed
  have full: "f' = f \<and> (\<forall>n. in_bounds a n \<longrightarrow> (\<exists>x. lookup a x f = Some n))"
    if s: "slot a name locked ok f = (Inl (SpaceFull k ns), f')" for k ns f'
  proof -
    have "f' = f" using slot_cases [OF s] by auto
    then show ?thesis using slot_full [OF s] lookup_taken [OF inv] by blast
  qed
  show ?thesis unfolding f_def [symmetric] Let_def using granted full by blast
qed

theorem slots_never_shared_witness:
  "\<exists>f'. slot \<lparr>na_first = 2, na_last = 3\<rparr> ''b'' True True
        (alloc_run \<lparr>na_first = 2, na_last = 3\<rparr> [Slot ''a'' True True] NoAssignment) = (Inr 3, f')
     \<and> lookup \<lparr>na_first = 2, na_last = 3\<rparr> ''a'' f' \<noteq> Some 3"
proof -
  let ?a = "\<lparr>na_first = 2, na_last = 3\<rparr>"
  let ?f = "alloc_run ?a [Slot ''a'' True True] NoAssignment"
  have "fst (slot ?a ''b'' True True ?f) = Inr 3" by code_simp
  then obtain f' where s: "slot ?a ''b'' True True ?f = (Inr 3, f')" by (cases "slot ?a ''b'' True True ?f") auto
  have "\<forall>x. x \<noteq> ''b'' \<longrightarrow> lookup ?a x f' \<noteq> Some 3"
    using slots_never_shared [of ?a "[Slot ''a'' True True]" "''b''" True True, unfolded Let_def,
        THEN conjunct1, THEN spec, THEN spec, THEN mp, OF s]
    by (elim conjE) blast
  then have "lookup ?a ''a'' f' \<noteq> Some 3" by simp
  with s show ?thesis by (intro exI [of _ f']) (rule conjI)
qed

end
