(* ===== verification/Term_Filter.thy ===== *)
theory Term_Filter
  imports Go_Prelude
begin

text \<open>
  The filter that takes terminal control sequences out of text read back from a sandbox:
  \<open>internal/termfilter/termfilter.go\<close>. A byte is a \<open>char\<close>; the state is kept between writes; the writer
  underneath is the list of what was passed on, and its failure ends a write without a count.
\<close>

subsection \<open>The filter\<close>

datatype filterState = FText | FEsc | FCSI | FOSC | FOSCEsc | FCharset

definition esc :: char where "esc = CHR 0x1B"
definition bel :: char where "bel = CHR 0x07"
definition newline :: char where "newline = CHR 0x0A"
definition del :: char where "del = CHR 0x7F"

definition layout :: "char \<Rightarrow> bool" where
  "layout b \<longleftrightarrow> b = newline \<or> b = CHR 0x09 \<or> b = CHR 0x0D"

text \<open>What one byte passes on, and the state after it.\<close>

definition filter_byte :: "filterState \<Rightarrow> char \<Rightarrow> string \<times> filterState" where
  "filter_byte st b =
     (if b = newline \<and> st \<noteq> FText then ([b], FText)
      else case st of
        FText \<Rightarrow> if b = esc then ([], FEsc) else if layout b then ([b], FText)
                 else if b < CHR 0x20 \<or> b = del then ([], FText) else ([b], FText)
      | FEsc \<Rightarrow> ([], if b = CHR ''['' then FCSI else if b = CHR '']'' then FOSC
                   else if b = CHR ''('' \<or> b = CHR '')'' then FCharset else FText)
      | FCSI \<Rightarrow> ([], if CHR 0x40 \<le> b \<and> b \<le> CHR 0x7E then FText else FCSI)
      | FOSC \<Rightarrow> ([], if b = bel then FText else if b = esc then FOSCEsc else FOSC)
      | FOSCEsc \<Rightarrow> ([], FText)
      | FCharset \<Rightarrow> ([], FText))"

fun filter_bytes :: "filterState \<Rightarrow> string \<Rightarrow> string \<times> filterState" where
  "filter_bytes st [] = ([], st)"
| "filter_bytes st (b # p) =
     (fst (filter_byte st b) @ fst (filter_bytes (snd (filter_byte st b)) p),
      snd (filter_bytes (snd (filter_byte st b)) p))"

text \<open>A write: how many bytes it reports, \<open>None\<close> for the error of the writer underneath, what that writer
  has got, and the state.\<close>

definition Write :: "bool \<Rightarrow> string \<Rightarrow> string \<times> filterState \<Rightarrow> nat option \<times> string \<times> filterState" where
  "Write ok p ws =
     (case ws of (written, st) \<Rightarrow> (case filter_bytes st p of (out, st') \<Rightarrow>
        if ok then (Some (length p), written @ out, st') else (None, written, st')))"

definition Strip :: "string \<Rightarrow> string" where
  "Strip p = fst (filter_bytes FText p)"

subsection \<open>Facts\<close>

lemma char_nat: "(b :: char) \<le> c \<longleftrightarrow> (of_char b :: nat) \<le> of_char c" "(b :: char) < c \<longleftrightarrow> (of_char b :: nat) < of_char c"
  by (simp_all add: char_le_nat not_le [symmetric])

lemma filter_append:
  "filter_bytes st (a @ b) =
     (fst (filter_bytes st a) @ fst (filter_bytes (snd (filter_bytes st a)) b),
      snd (filter_bytes (snd (filter_bytes st a)) b))"
  by (induction a arbitrary: st) simp_all

text \<open>What may reach a terminal: the layout of text, and bytes that are not control characters.\<close>

definition harmless :: "char \<Rightarrow> bool" where
  "harmless b \<longleftrightarrow> layout b \<or> \<not> (b < CHR 0x20 \<or> b = del)"

lemma byte_harmless: "b \<in> set (fst (filter_byte st c)) \<Longrightarrow> b = c \<and> harmless c"
  by (cases st) (auto simp: filter_byte_def harmless_def layout_def split: if_splits)

lemma output_harmless: "b \<in> set (fst (filter_bytes st p)) \<Longrightarrow> harmless b"
  by (induction p arbitrary: st) (auto dest: byte_harmless)

lemma not_esc: "harmless b \<Longrightarrow> b \<noteq> esc"
  by (auto simp: harmless_def layout_def esc_def newline_def char_nat)

lemma byte_plain: "harmless b \<Longrightarrow> filter_byte FText b = ([b], FText)"
  using not_esc [of b] by (auto simp: filter_byte_def harmless_def)

lemma plain_kept: "\<forall>b \<in> set p. harmless b \<Longrightarrow> filter_bytes FText p = (p, FText)"
  by (induction p) (simp_all add: byte_plain)

lemma newline_harmless: "harmless newline"
  by (simp add: harmless_def layout_def)

lemma byte_newline: "filter_byte st newline = ([newline], FText)"
  using byte_plain [OF newline_harmless] by (cases "st = FText") (simp_all add: filter_byte_def)

lemma newlines_kept: "filter (\<lambda>b. b = newline) (fst (filter_bytes st p)) = filter (\<lambda>b. b = newline) p"
proof (induction p arbitrary: st)
  case (Cons b p)
  show ?case
  proof (cases "b = newline")
    case True
    then show ?thesis using Cons [of FText] by (simp add: byte_newline)
  next
    case False
    then have "filter (\<lambda>c. c = newline) (fst (filter_byte st b)) = []"
      using byte_harmless [of _ st b] by (auto simp: filter_empty_conv)
    then show ?thesis using Cons False by simp
  qed
qed simp

subsection \<open>The grammar of what is taken out\<close>

text \<open>Text without control characters, and the sequences that the filter knows, each complete.\<close>

datatype piece = PText string | PControl char | PCSI string char | POSC string bool | PCharset char char | PPair char

fun piece_ok :: "piece \<Rightarrow> bool" where
  "piece_ok (PText t) \<longleftrightarrow> (\<forall>b \<in> set t. harmless b)"
| "piece_ok (PControl c) \<longleftrightarrow> \<not> harmless c \<and> c \<noteq> esc"
| "piece_ok (PCSI ps c) \<longleftrightarrow> (\<forall>b \<in> set ps. b \<noteq> newline \<and> \<not> (CHR 0x40 \<le> b \<and> b \<le> CHR 0x7E)) \<and> CHR 0x40 \<le> c \<and> c \<le> CHR 0x7E"
| "piece_ok (POSC body _) \<longleftrightarrow> (\<forall>b \<in> set body. b \<noteq> newline \<and> b \<noteq> bel \<and> b \<noteq> esc)"
| "piece_ok (PCharset c d) \<longleftrightarrow> (c = CHR ''('' \<or> c = CHR '')'') \<and> d \<noteq> newline"
| "piece_ok (PPair c) \<longleftrightarrow> c \<notin> set ''[]()'' \<and> c \<noteq> newline"

text \<open>An OSC ends in BEL or in the string terminator.\<close>

fun piece_bytes :: "piece \<Rightarrow> string" where
  "piece_bytes (PText t) = t"
| "piece_bytes (PControl c) = [c]"
| "piece_bytes (PCSI ps c) = [esc, CHR ''[''] @ ps @ [c]"
| "piece_bytes (POSC body st) = [esc, CHR '']''] @ body @ (if st then [esc, CHR 0x5C] else [bel])"
| "piece_bytes (PCharset c d) = [esc, c, d]"
| "piece_bytes (PPair c) = [esc, c]"

fun piece_text :: "piece \<Rightarrow> string" where
  "piece_text (PText t) = t"
| "piece_text _ = []"

lemma byte_esc: "filter_byte FText esc = ([], FEsc)"
  by (simp add: filter_byte_def esc_def newline_def)

lemma csi_params:
  "\<forall>b \<in> set ps. b \<noteq> newline \<and> \<not> (CHR 0x40 \<le> b \<and> b \<le> CHR 0x7E) \<Longrightarrow> filter_bytes FCSI ps = ([], FCSI)"
  by (induction ps) (auto simp: filter_byte_def)

lemma osc_body:
  "\<forall>b \<in> set ps. b \<noteq> newline \<and> b \<noteq> bel \<and> b \<noteq> esc \<Longrightarrow> filter_bytes FOSC ps = ([], FOSC)"
  by (induction ps) (auto simp: filter_byte_def)

lemma marks_differ [simp]: "esc \<noteq> newline" "bel \<noteq> newline" "bel \<noteq> esc" "esc \<noteq> bel" "CHR 0x5C \<noteq> newline"
  "CHR ''['' \<noteq> newline" "CHR '']'' \<noteq> newline" "CHR ''('' \<noteq> newline" "CHR '')'' \<noteq> newline"
  by (simp_all add: esc_def bel_def newline_def)

lemma byte_steps:
  "filter_byte FEsc CHR ''['' = ([], FCSI)" "filter_byte FEsc CHR '']'' = ([], FOSC)"
  "filter_byte FOSC bel = ([], FText)" "filter_byte FOSC esc = ([], FOSCEsc)"
  "filter_byte FOSCEsc CHR 0x5C = ([], FText)"
  by (simp_all add: filter_byte_def)

lemma csi_final: "CHR 0x40 \<le> c \<Longrightarrow> c \<le> CHR 0x7E \<Longrightarrow> filter_byte FCSI c = ([], FText)"
proof -
  assume c: "CHR 0x40 \<le> c" "c \<le> CHR 0x7E"
  have "\<not> CHR 0x40 \<le> newline" by code_simp
  then have "c \<noteq> newline" using c by auto
  then show ?thesis using c by (simp add: filter_byte_def)
qed

lemma piece_filtered: "piece_ok x \<Longrightarrow> filter_bytes FText (piece_bytes x) = (piece_text x, FText)"
proof (cases x)
  case (PControl c)
  assume "piece_ok x"
  then show ?thesis using PControl by (auto simp: filter_byte_def harmless_def layout_def)
next
  case (PCSI ps c)
  assume "piece_ok x"
  then show ?thesis using PCSI by (simp add: byte_esc byte_steps csi_params csi_final filter_append)
next
  case (POSC body st)
  assume "piece_ok x"
  then show ?thesis using POSC by (cases st) (simp_all add: byte_esc byte_steps osc_body filter_append)
next
  case (PCharset c d)
  assume "piece_ok x"
  then show ?thesis using PCharset by (auto simp: byte_esc filter_byte_def)
next
  case (PPair c)
  assume "piece_ok x"
  then show ?thesis using PPair by (auto simp: byte_esc filter_byte_def)
qed (simp_all add: plain_kept)

subsection \<open>Properties\<close>



text \<open>The filter takes out control sequences and nothing else. Text in which complete sequences are
  embedded (CSI, OSC ended by BEL or ST, a charset choice, an escape pair, a lone control character)
  comes out as the text, and the filter is back in its text state.\<close>

theorem sequences_taken_out:
  "list_all piece_ok xs \<Longrightarrow>
     filter_bytes FText (concat (map piece_bytes xs)) = (concat (map piece_text xs), FText)"
  by (induction xs) (simp_all add: filter_append piece_filtered)

theorem sequences_taken_out_witness:
  "filter_bytes FText (''hi'' @ [esc, CHR ''['', CHR ''3'', CHR ''1'', CHR ''m''] @ ''x'' @ [esc, CHR '']'', CHR ''t'', bel])
     = (''hix'', FText)"
proof -
  have "list_all piece_ok [PText ''hi'', PCSI ''31'' CHR ''m'', PText ''x'', POSC ''t'' False]" by code_simp
  from sequences_taken_out [OF this] show ?thesis by simp
qed

end
