(* ===== verification/Wrap_Claims.thy ===== *)
theory Wrap_Claims
  imports Main "HOL-Library.AList"
begin

text \<open>
  Which session owns a sandbox: the claims of \<open>internal/wrap/slugclaim.go\<close> and the session index of
  \<open>internal/wrap/index.go\<close>. A file of either is what its bytes decode to: nothing, claims, sessions, or
  something that neither reads. Each operation reads and writes whole files; whether a write or a
  removal works is an input. No lock is taken, so an operation is one step only as far as no other
  process runs one at that moment.
\<close>

subsection \<open>The files\<close>

record session_entry =
  se_Home :: string
  se_Sandbox :: string
  se_Project :: string
  se_Ephemeral :: bool

definition no_entry :: session_entry where
  "no_entry = \<lparr>se_Home = [], se_Sandbox = [], se_Project = [], se_Ephemeral = False\<rparr>"

type_synonym claims = "(string \<times> string) list"
type_synonym sessions = "(string \<times> session_entry) list"

text \<open>\<open>Hidden\<close> is a file that is there and cannot be looked at or read.\<close>

datatype index_file = Absent | Hidden | Claims claims | Sessions sessions | Garbage

record index_state =
  ix_claims :: index_file
  ix_sessions :: index_file

text \<open>\<open>readIndex\<close> at its two types: any other file reads as empty.\<close>

fun read_claims :: "index_file \<Rightarrow> claims" where
  "read_claims (Claims m) = m"
| "read_claims _ = []"

fun read_sessions :: "index_file \<Rightarrow> sessions" where
  "read_sessions (Sessions m) = m"
| "read_sessions _ = []"

definition writeIndex :: "bool \<Rightarrow> index_file \<Rightarrow> index_file \<Rightarrow> index_file" where
  "writeIndex ok new old = (if ok then new else old)"

subsection \<open>Claims\<close>

text \<open>What works of the migration and of the write that follows it.\<close>

record io =
  io_migrate :: bool
  io_remove :: bool
  io_write :: bool

definition migrateSlugClaims :: "io \<Rightarrow> index_state \<Rightarrow> index_state" where
  "migrateSlugClaims w st =
     (if ix_claims st \<noteq> Absent then st
      else
        (let old = read_claims (ix_sessions st) in
         if old = [] \<or> \<not> io_migrate w then st
         else st\<lparr>ix_claims := Claims old, ix_sessions := (if io_remove w then Absent else ix_sessions st)\<rparr>))"

definition readSlugClaimIndex :: "io \<Rightarrow> index_state \<Rightarrow> claims \<times> index_state" where
  "readSlugClaimIndex w st = (let st = migrateSlugClaims w st in (read_claims (ix_claims st), st))"

text \<open>The refusal names the owner.\<close>

definition claimSlug :: "string \<Rightarrow> string \<Rightarrow> io \<Rightarrow> index_state \<Rightarrow> string option \<times> index_state" where
  "claimSlug rawName vmName w st =
     (case readSlugClaimIndex w st of (index, st) \<Rightarrow>
        if rawName = [] then (None, st)
        else case map_of index vmName of
          Some own \<Rightarrow> if own \<noteq> rawName then (Some own, st) else (None, st)
        | None \<Rightarrow> (None, st\<lparr>ix_claims := writeIndex (io_write w) (Claims (AList.update vmName rawName index)) (ix_claims st)\<rparr>))"

definition ForgetSlugClaim :: "string \<Rightarrow> io \<Rightarrow> index_state \<Rightarrow> index_state" where
  "ForgetSlugClaim vmName w st =
     (case readSlugClaimIndex w st of (index, st) \<Rightarrow>
        if map_of index vmName = None then st
        else st\<lparr>ix_claims := writeIndex (io_write w) (Claims (AList.delete vmName index)) (ix_claims st)\<rparr>)"

subsection \<open>Sessions\<close>

definition session_at :: "string \<Rightarrow> index_state \<Rightarrow> session_entry" where
  "session_at ref st = (case map_of (read_sessions (ix_sessions st)) ref of None \<Rightarrow> no_entry | Some e \<Rightarrow> e)"

definition rememberSession :: "string \<Rightarrow> session_entry \<Rightarrow> bool \<Rightarrow> index_state \<Rightarrow> index_state" where
  "rememberSession key entry ok st =
     (if session_at key st = entry then st
      else st\<lparr>ix_sessions := writeIndex ok (Sessions (AList.update key entry (read_sessions (ix_sessions st)))) (ix_sessions st)\<rparr>)"

definition rememberedWorkspace :: "string \<Rightarrow> string \<Rightarrow> index_state \<Rightarrow> string \<times> bool" where
  "rememberedWorkspace ref vmName st =
     (let e = session_at ref st in if se_Sandbox e \<noteq> vmName then ([], False) else (se_Home e, se_Ephemeral e))"

definition rememberedProject :: "string \<Rightarrow> string \<Rightarrow> index_state \<Rightarrow> string" where
  "rememberedProject ref vmName st =
     (let e = session_at ref st in if se_Sandbox e \<noteq> vmName then [] else se_Project e)"

definition drop_sessions :: "(session_entry \<Rightarrow> bool) \<Rightarrow> bool \<Rightarrow> index_state \<Rightarrow> index_state" where
  "drop_sessions gone ok st =
     (let index = read_sessions (ix_sessions st) in
      if list_ex (\<lambda>e. gone (snd e)) index
      then st\<lparr>ix_sessions := writeIndex ok (Sessions (filter (\<lambda>e. \<not> gone (snd e)) index)) (ix_sessions st)\<rparr>
      else st)"

definition ForgetSandbox :: "string \<Rightarrow> bool \<Rightarrow> index_state \<Rightarrow> index_state" where
  "ForgetSandbox vmName ok st = drop_sessions (\<lambda>e. se_Sandbox e = vmName) ok st"

definition PruneSessions :: "string list \<Rightarrow> bool \<Rightarrow> index_state \<Rightarrow> index_state" where
  "PruneSessions live ok st = drop_sessions (\<lambda>e. se_Sandbox e \<notin> set live) ok st"

subsection \<open>Commands\<close>

text \<open>A run claims its sandbox first and remembers its session after it was let through; removing a
  sandbox forgets both; a listing prunes.\<close>

datatype index_event =
    BootAs string string string session_entry io bool
  | RemoveBox string io bool
  | PruneTo "string list" bool

fun index_step :: "index_event \<Rightarrow> index_state \<Rightarrow> index_state" where
  "index_step (BootAs rawName vmName key entry w ok) st =
     (case claimSlug rawName vmName w st of
        (None, st) \<Rightarrow> rememberSession key entry ok st
      | (Some _, st) \<Rightarrow> st)"
| "index_step (RemoveBox vmName w ok) st = ForgetSlugClaim vmName w (ForgetSandbox vmName ok st)"
| "index_step (PruneTo live ok) st = PruneSessions live ok st"

definition index_run :: "index_event list \<Rightarrow> index_state \<Rightarrow> index_state" where
  "index_run evs st = fold index_step evs st"

subsection \<open>Who owns a sandbox\<close>

text \<open>The claims that count, wherever an older release left them.\<close>

definition claimed :: "index_state \<Rightarrow> string \<Rightarrow> string option" where
  "claimed st vm = map_of (read_claims (if ix_claims st = Absent then ix_sessions st else ix_claims st)) vm"

text \<open>A boot that cannot write the migration goes on without the claims of an older release.\<close>

fun keeps_claims :: "index_event \<Rightarrow> bool" where
  "keeps_claims (BootAs rawName vmName key entry w ok) \<longleftrightarrow> io_migrate w"
| "keeps_claims _ \<longleftrightarrow> True"

fun removes :: "string \<Rightarrow> index_event \<Rightarrow> bool" where
  "removes vm (RemoveBox vmName w ok) \<longleftrightarrow> vmName = vm"
| "removes vm _ \<longleftrightarrow> False"

lemma migrate_claimed: "claimed (migrateSlugClaims w st) vm = claimed st vm"
  by (simp add: migrateSlugClaims_def claimed_def Let_def)

lemma read_claimed:
  "readSlugClaimIndex w st = (index, st') \<Longrightarrow> st' = migrateSlugClaims w st \<and> index = read_claims (ix_claims st')"
  by (auto simp: readSlugClaimIndex_def Let_def)

lemma migrated_index:
  assumes "io_migrate w \<or> ix_claims st \<noteq> Absent"
  shows "map_of (read_claims (ix_claims (migrateSlugClaims w st))) vm = claimed st vm"
  using assms by (auto simp: migrateSlugClaims_def claimed_def Let_def)

lemma drop_claimed: "claimed (drop_sessions gone ok st) vm = claimed st vm"
  by (cases "ix_sessions st") (auto simp: drop_sessions_def claimed_def writeIndex_def Let_def list_ex_iff)

lemma remember_claimed:
  "ix_claims st \<noteq> Absent \<or> read_claims (ix_sessions st) = [] \<Longrightarrow>
     claimed (rememberSession key entry ok st) vm = claimed st vm"
  by (auto simp: rememberSession_def claimed_def writeIndex_def)

lemma migrated_settled:
  "io_migrate w \<Longrightarrow> ix_claims (migrateSlugClaims w st) \<noteq> Absent
     \<or> read_claims (ix_sessions (migrateSlugClaims w st)) = []"
  by (auto simp: migrateSlugClaims_def Let_def)

lemma claim_result:
  assumes "io_migrate w"
  shows "fst (claimSlug rawName vm w st) =
    (if rawName = [] then None
     else case claimed st vm of Some own \<Rightarrow> if own = rawName then None else Some own | None \<Rightarrow> None)"
  using migrated_index [of w st vm] assms
  by (auto simp: claimSlug_def readSlugClaimIndex_def Let_def split: option.splits)

lemma claim_keeps:
  assumes "io_migrate w" "claimed st vm = Some own"
  shows "claimed (snd (claimSlug rawName vmName w st)) vm = Some own"
proof -
  let ?st = "migrateSlugClaims w st"
  have old: "map_of (read_claims (ix_claims ?st)) vm = Some own" using migrated_index [of w st vm] assms by simp
  have "claimed ?st vm = Some own" using assms(2) by (simp add: migrate_claimed)
  moreover have "claimed (?st\<lparr>ix_claims := writeIndex ok (Claims (AList.update vmName rawName (read_claims (ix_claims ?st)))) (ix_claims ?st)\<rparr>) vm
      = Some own" if "map_of (read_claims (ix_claims ?st)) vmName = None" for ok
    using that old calculation by (auto simp: claimed_def writeIndex_def update_conv')
  ultimately show ?thesis
    by (auto simp: claimSlug_def readSlugClaimIndex_def Let_def split: option.split)
qed

lemma claim_settled:
  "io_migrate w \<Longrightarrow> ix_claims (snd (claimSlug rawName vmName w st)) \<noteq> Absent
     \<or> read_claims (ix_sessions (snd (claimSlug rawName vmName w st))) = []"
  using migrated_settled [of w st]
  by (auto simp: claimSlug_def readSlugClaimIndex_def Let_def writeIndex_def split: option.split)

lemma forget_claimed:
  assumes "vmName \<noteq> vm"
  shows "claimed (ForgetSlugClaim vmName w st) vm = claimed st vm"
proof -
  let ?st = "migrateSlugClaims w st"
  have "claimed (?st\<lparr>ix_claims := writeIndex ok (Claims (AList.delete vmName (read_claims (ix_claims ?st)))) (ix_claims ?st)\<rparr>) vm
      = claimed ?st vm" if "map_of (read_claims (ix_claims ?st)) vmName \<noteq> None" for ok
    using that assms by (cases "ix_claims ?st") (auto simp: claimed_def writeIndex_def delete_conv')
  then show ?thesis
    by (auto simp: ForgetSlugClaim_def readSlugClaimIndex_def Let_def migrate_claimed)
qed

lemma step_claimed:
  assumes "keeps_claims ev" "\<not> removes vm ev" "claimed st vm = Some own"
  shows "claimed (index_step ev st) vm = Some own"
proof (cases ev)
  case (BootAs rawName vmName key entry w ok)
  obtain r st' where c: "claimSlug rawName vmName w st = (r, st')" by fastforce
  have "claimed st' vm = Some own" "ix_claims st' \<noteq> Absent \<or> read_claims (ix_sessions st') = []"
    using claim_keeps [of w st vm own rawName vmName] claim_settled [of w rawName vmName st] assms c BootAs by simp_all
  then show ?thesis using BootAs c by (simp add: remember_claimed split: option.split)
next
  case (RemoveBox vmName w ok)
  then show ?thesis using assms by (simp add: forget_claimed ForgetSandbox_def drop_claimed)
next
  case (PruneTo live ok)
  then show ?thesis using assms by (simp add: PruneSessions_def drop_claimed)
qed

lemma run_claimed:
  "\<forall>ev \<in> set evs. keeps_claims ev \<and> \<not> removes vm ev \<Longrightarrow> claimed st vm = Some own \<Longrightarrow>
     claimed (index_run evs st) vm = Some own"
  by (induction evs arbitrary: st) (simp_all add: index_run_def step_claimed)

lemma claim_recorded:
  assumes "claimSlug rawName vm w st = (None, st')" "rawName \<noteq> []" "io_migrate w" "io_write w"
  shows "claimed st' vm = Some rawName"
proof (cases "claimed st vm")
  case None
  then have "map_of (read_claims (ix_claims (migrateSlugClaims w st))) vm = None"
    using migrated_index [of w st vm] assms(3) by simp
  with assms have "st' = (migrateSlugClaims w st)\<lparr>ix_claims := Claims (AList.update vm rawName (read_claims (ix_claims (migrateSlugClaims w st))))\<rparr>"
    by (simp add: claimSlug_def readSlugClaimIndex_def Let_def writeIndex_def)
  then show ?thesis by (simp add: claimed_def update_conv')
next
  case (Some own)
  moreover have "own = rawName" using claim_result [OF assms(3), of rawName vm st] Some assms(1,2) by (simp split: if_splits)
  ultimately show ?thesis using claim_keeps [OF assms(3) Some, of rawName vm] assms(1) by simp
qed

text \<open>Without the write of the migration the claims of an older release are not carried on: another name
  is let through, and its own writes take the place of the file they are in.\<close>

lemma migration_loses_claims:
  "let st = \<lparr>ix_claims = Absent, ix_sessions = Claims [(''brig-a-x'', ''X'')]\<rparr>;
       w = \<lparr>io_migrate = False, io_remove = True, io_write = True\<rparr>;
       st' = index_step (BootAs ''x'' ''brig-a-x'' ''a@x'' (no_entry\<lparr>se_Sandbox := ''brig-a-x''\<rparr>) w True) st in
   claimed st ''brig-a-x'' = Some ''X'' \<and> claimed st' ''brig-a-x'' = Some ''x'' \<and> read_claims (ix_sessions st') = []"
  by code_simp



end
