(* ===== verification/Spec2Isabelle.thy ===== *)
theory Spec2Isabelle
  imports Session_Ref Policy_Bind_Facts Egress_Resolver_Facts Broker_Token Broker_Request Broker_Headers_Facts Broker_Spell Broker_Retry Renew_Walk Wrap_Kernel Creds_Facts Cred_Cache_Facts Runtime_Publish_Facts Runtime_Alloc Term_Filter Wrap_Claims
begin

text \<open>
  A verification development of brig, which runs a coding agent in a microVM. The agent is not
  trusted: brig decides what it may reach on the network, keeps its credentials on the host side of a
  broker, and hands a run the few secrets that it does need. The theories model the Go packages that
  take these decisions, translated from the source, and prove what each promises.

  \<^bold>\<open>The parts and how they interact.\<close> A run names a session (\<open>internal/session\<close>) of a profile
  (\<open>internal/profile\<close>). The policies bound to it (\<open>internal/policy\<close>, \<open>api/policy/v1alpha1\<close>) merge into
  one egress policy and a list of routes. The egress enforcer (\<open>internal/egress\<close>) turns the policy into
  an nftables table and answers the guest's DNS, pinning an address in the table before it answers; a
  route's hosts are diverted to a relay (\<open>internal/divert\<close>). The relay ends at the credential broker
  (\<open>internal/broker\<close>), whose handler checks a request, puts the credential in, forwards it and takes the
  credential out of the response. Credentials come from the secret store, through the renewal cache
  (\<open>internal/renew\<close>) and the caches of the cloud providers (\<open>internal/awscred\<close>, \<open>internal/gcpcred\<close>). The
  secrets a guest must hold itself are resolved and bound (\<open>internal/creds\<close>) and delivered as variables
  or as files on a tmpfs (\<open>internal/wrap/secretfiles.go\<close>). \<open>internal/runtime\<close> keeps the addresses and
  the published ports of the sandboxes, and \<open>internal/termfilter\<close> cleans what is read back from them.

  \<^bold>\<open>Which theory models what.\<close>

  \<^item> \<open>Go_Prelude\<close>, \<open>Go_Space\<close>, \<open>Go_Path\<close>, \<open>Go_URL\<close>, \<open>Go_Base64\<close>, \<open>Net_Addr\<close>: errors as sums and options, and what the
    code uses of \<open>strings\<close>, \<open>path\<close>, \<open>net/url\<close>, \<open>encoding/base64\<close> and \<open>net/netip\<close>, with their lemmas.
  \<^item> \<open>Session_Ref\<close>: \<open>session.Slug\<close>, \<open>ParseRef\<close>, and the lookups in the registry of profiles.
  \<^item> \<open>Policy_Types\<close>, \<open>Policy_Validate\<close>, \<open>Policy_Origin\<close>, \<open>Policy_Contract\<close>: the documents and every check of them,
    with declarative forms of the checks. \<open>Policy_Expand\<close>, \<open>Policy_Expand_Facts\<close>, \<open>Policy_Routes\<close>: presets, overlay,
    defaults, \<open>ExpandRoute\<close> and \<open>Routes\<close>. \<open>Policy_Bind\<close>, \<open>Policy_Bind_Facts\<close>: bindings, loading, resolving, merging.
  \<^item> \<open>Egress_Rules\<close>, \<open>Egress_Dns\<close>, \<open>Egress_Nft\<close>, \<open>Egress_Resolver\<close> with their \<open>Facts\<close>: \<open>rules.go\<close>, \<open>dns.go\<close>, \<open>nft.go\<close>,
    \<open>resolver.go\<close> and the divert sets. \<open>Divert\<close>, \<open>Divert_Facts\<close>: \<open>divert.go\<close>.
  \<^item> \<open>Broker_Token\<close>, \<open>Broker_Request\<close>, \<open>Broker_Headers\<close>, \<open>Broker_Scan\<close>, \<open>Broker_Live\<close>, \<open>Broker_Spell\<close>, \<open>Broker_Find\<close>, \<open>Broker_Hold\<close>,
    \<open>Broker_Redact\<close>, \<open>Broker_Tls\<close>, \<open>Broker_Register\<close>, \<open>Broker_Serve\<close>, \<open>Broker_Retry\<close>: \<open>token.go\<close>, \<open>inject.go\<close>, \<open>placeholder.go\<close>,
    \<open>vend.go\<close>, \<open>mint.go\<close>, \<open>tlsroute.go\<close>, \<open>broker.go\<close> and \<open>proxy.go\<close>, from the spelling of a token to \<open>ServeHTTP\<close>.
  \<^item> \<open>Renew_World\<close>, \<open>Renew_Cache\<close>, \<open>Renew_Facts\<close>, \<open>Renew_Journal\<close>, \<open>Renew_Property\<close>, \<open>Renew_Walk\<close>: \<open>journal.go\<close> and \<open>cache.go\<close>.
  \<^item> \<open>Profile_Volumes\<close>, \<open>Profile_Secrets\<close>, \<open>Profile_Validate\<close>: what a profile declares and the checks of it.
  \<^item> \<open>Creds_Bind\<close>, \<open>Creds_Resolve\<close>, \<open>Creds_Facts\<close>: \<open>creds.go\<close>, \<open>bind.go\<close>, \<open>preview.go\<close>, \<open>resolve.go\<close>.
  \<^item> \<open>Wrap_Deliver\<close> and \<open>Wrap_Facts\<close>, \<open>Wrap_Blind\<close>, \<open>Wrap_Demo\<close>, \<open>Wrap_Paths\<close>, \<open>Wrap_Mounts\<close>, \<open>Wrap_Layout\<close>, \<open>Wrap_Kernel\<close>: the delivery
    of secret files and the mounts of the volumes.
  \<^item> \<open>Cred_Cache\<close>, \<open>Cred_Cache_Facts\<close>: the single flight of both provider caches. \<open>Runtime_Publish\<close>,
    \<open>Runtime_Publish_Facts\<close>: \<open>publish.go\<close>, \<open>published.go\<close>. \<open>Runtime_Alloc\<close>: \<open>netalloc.go\<close>. \<open>Term_Filter\<close>: \<open>termfilter.go\<close>.
    \<open>Wrap_Claims\<close>: \<open>slugclaim.go\<close> and the sessions of \<open>index.go\<close>.

  \<^bold>\<open>What is shown.\<close> Policies: a checked route gives the broker what it relies on, expansion keeps what
  a preset pins, and a run never goes on without a policy that binds it. Egress: the installed table
  decides as the policy does, no answer is given before its addresses are pinned, nothing diverted goes
  out directly, and no bytes make the DNS code read outside a message. Broker: no credential is read
  before every check has passed, no live token passes outside its carrier in any spelling, no response
  carries a credential back, and a request is sent at most twice. Renewal: through faults, crashes and
  restarts the provider's last answer is in the secret, in the journal or in the entry that looks it up,
  and a fresh process recovers it. Secrets: reading what is needed is enough, a run stops exactly for a
  required secret that it cannot read, nothing passes the guards unseen, the preview is the run, a file
  is fed only after its place was checked, and no command shows a value. Runtime: keys of a cache go only
  to the identity that asked, sandboxes never share an address, a sandbox keeps its owner, printed ports read back, and nothing
  that drives a terminal passes the filter.

  \<^bold>\<open>Interfaces.\<close> A locale states what one component relies on of another, and an interpretation on the
  model's own definitions discharges it: \<open>binding_store\<close> (profile and session bindings),
  \<open>divert_memory\<close> (the divert set under the relay), \<open>searcher\<close> (the placeholder search under the stream
  scan), \<open>route_contract\<close> (checked routes under registration), \<open>store_property\<close> and \<open>run_property\<close> (what every
  store call keeps, under whole runs of the renewal cache), \<open>mounting_guest\<close> (a guest that mounts, under
  the layout of volumes).

  \<^bold>\<open>The outside world.\<close> What is not in the repository is an argument of the definitions that use it:
  HMAC, HKDF, JSON, YAML and content codings, the work of \<open>httputil.ReverseProxy\<close>, the secret store,
  the provider of a lifecycle, the tools of the cloud providers, the upstream, the runner of nft and
  what the kernel matches. The renewal store is a list of outcomes, one for each call, that says
  whether it fails, how long it takes and who else wrote. The guest of a delivery is a function of the
  commands it was given so far. Files are what reading and decoding them gives, and a write fails or not
  as an input says. Clocks, waiting and interleavings are inputs: the turns in which a body arrives, and
  the events of a cache. Concurrent code is atomic steps between two operations of a lock or channel.
  A hypothesis of a property says what is documented of these, such as a guest home in simplest form
  outside \<open>/run\<close>, or names without white space where the kernel's table escapes it.

  \<^bold>\<open>Bounds and fuel.\<close> Integers keep their width where wrap-around matters (the rolling hash, sizes,
  ports); times and counters that the code cannot drive to overflow are \<open>int\<close> and \<open>nat\<close>. A loop over
  text takes fuel where Go bounds it by the text: trimming space and the ranges of a character class
  (the length of the text), the fields of an IPv6 address (eight), the pieces of a value (its length),
  the parents of a path (its length), the passes over a chain of DNS names (the number of records). It
  is enough since each step takes at least one of what is counted.

  \<^bold>\<open>Not modelled.\<close> The case mappings are those of ASCII, and sorting is stable where Go promises no order
  among equal rows. Left out are the JSON and YAML codings, the wording of messages (a warning or an
  error is a constructor with what its text names), the audit line, the recorder and the recovery from
  a panic of the proxy, the TLS handshake and the classification of Go's errors, sockets, tickers and
  signals, the orchestration of a run in \<open>internal/wrap\<close>, the command line (\<open>cmd/\<close>), the
  drivers of the runtimes, the backends of the secret store, the provider's OAuth exchange, image
  verification, and the host side of a volume's target. They are input and output around the decisions
  above, or code outside the repository's own.
\<close>

end
